(* ===== verification/Prelude.thy ===== *)
theory Prelude
  imports Main "HOL-Library.Word"
begin

text \<open>
  Shared vocabulary of the JCOS development: the machine integers of
  \<^verbatim>\<open>include/boot_info.h\<close> and \<^verbatim>\<open>kernel/types.h\<close>, the values a counting loop runs
  through, the result of kernel code that may stop the machine
  (\<^verbatim>\<open>cpu_halt_forever\<close>), and the generic facts on words, lists and finite sets
  that the component theories use.
\<close>

unbundle bit_operations_syntax

type_synonym u8 = "8 word"
type_synonym u16 = "16 word"
type_synonym u32 = "32 word"
type_synonym u64 = "64 word"

text \<open>A C pointer is its address; the null pointer is 0.\<close>

type_synonym ptr = u64

abbreviation (input) U64_MAX :: u64 where
  "U64_MAX \<equiv> - 1"

named_theorems kernel_defs \<open>definitions of kernel operations, for unfolding\<close>
named_theorems word_nat \<open>facts that move word statements to natural numbers\<close>

section \<open>Counting loops\<close>

text \<open>The values of \<^verbatim>\<open>i\<close> in \<^verbatim>\<open>for (u64 i = 0; i < n; ++i)\<close>, in order.\<close>

definition upto_u64 :: "u64 \<Rightarrow> u64 list" where
  "upto_u64 n = map of_nat [0..<unat n]"

lemma unat_of_nat_less_u64 [simp]:
  fixes n :: u64
  assumes "k < unat n"
  shows "unat (of_nat k :: u64) = k"
proof -
  have "k < 2 ^ 64"
    using assms unsigned_less [of n, where ?'a = nat] by simp
  then show ?thesis
    by (simp add: unat_of_nat take_bit_eq_mod)
qed

lemma set_upto_u64 [simp]: "set (upto_u64 n) = {i. i < n}"
proof -
  have "i \<in> of_nat ` {0..<unat n}" if "i < n" for i :: u64
    using that by (intro image_eqI [of _ _ "unat i"]) (auto simp: word_less_nat_alt)
  then show ?thesis
    by (auto simp: upto_u64_def word_less_nat_alt)
qed

lemma distinct_upto_u64 [simp]: "distinct (upto_u64 n)"
proof -
  have "inj_on (of_nat :: nat \<Rightarrow> u64) {0..<unat n}"
    by (rule inj_on_inverseI [of _ unat]) simp
  then show ?thesis
    by (simp add: upto_u64_def distinct_map)
qed

lemma length_upto_u64 [simp]: "length (upto_u64 n) = unat n"
  by (simp add: upto_u64_def)

section \<open>Code that may halt the machine\<close>

text \<open>
  \<^verbatim>\<open>cpu_halt_forever()\<close> is the kernel's answer to a broken invariant. It is
  the outcome \<open>Halt\<close>; every other end of a function is \<open>Done\<close> of its result.
\<close>

datatype 'a outcome = Halt | Done 'a

fun outcome_bind :: "'a outcome \<Rightarrow> ('a \<Rightarrow> 'b outcome) \<Rightarrow> 'b outcome" where
  "outcome_bind Halt f = Halt"
| "outcome_bind (Done a) f = f a"

lemma outcome_bind_Done_iff:
  "outcome_bind m f = Done b \<longleftrightarrow> (\<exists>a. m = Done a \<and> f a = Done b)"
  by (cases m) auto

lemma outcome_bind_assoc:
  "outcome_bind (outcome_bind m f) g = outcome_bind m (\<lambda>a. outcome_bind (f a) g)"
  by (cases m) auto

section \<open>Words\<close>

lemma u64_less_unat [word_nat]: "(a::u64) < b \<longleftrightarrow> unat a < unat b"
  by (rule word_less_nat_alt)

lemma u64_le_unat [word_nat]: "(a::u64) \<le> b \<longleftrightarrow> unat a \<le> unat b"
  by (rule word_le_nat_alt)

lemma u64_eq_unat: "(a::u64) = b \<longleftrightarrow> unat a = unat b"
  by (rule word_unat_eq_iff)

lemma unat_u64_bound [simp]: "unat (a::u64) < 18446744073709551616"
  using unsigned_less [of a, where ?'a = nat] by simp

lemma unat_of_nat_small: "k < 18446744073709551616 \<Longrightarrow> unat (of_nat k :: u64) = k"
  by (simp add: unat_of_nat take_bit_eq_mod)

lemma unat_U64_MAX [simp]: "unat U64_MAX = 18446744073709551615"
  by (simp add: unsigned_minus_1_eq_mask mask_eq_exp_minus_1)

lemma le_U64_MAX [simp]: "(a::u64) \<le> U64_MAX"
  by (simp add: word_order.extremum)

lemma unat_add_no_wrap:
  fixes a b :: u64
  assumes "unat a + unat b < 18446744073709551616"
  shows "unat (a + b) = unat a + unat b"
  using assms by (simp add: unat_word_ariths)

lemma unat_sub_no_wrap:
  fixes a b :: u64
  assumes "b \<le> a"
  shows "unat (a - b) = unat a - unat b"
  using assms by (simp add: unat_sub)

lemma unat_mult_no_wrap:
  fixes a b :: u64
  assumes "unat a * unat b < 18446744073709551616"
  shows "unat (a * b) = unat a * unat b"
  using assms by (simp add: unat_word_ariths)

lemma unat_add_1:
  fixes a :: u64
  assumes "a + 1 \<noteq> 0"
  shows "unat (a + 1) = unat a + 1"
  using unatSuc [of a] assms by (simp add: add.commute)

lemma finite_u64_set [simp]: "finite (A :: u64 set)"
  by simp

text \<open>The low bits of a word are its remainder modulo a power of two.\<close>

lemma u64_and_mask_unat:
  fixes a :: u64
  shows "unat (a AND mask n) = unat a mod 2 ^ n"
  unfolding take_bit_eq_mask [symmetric] unsigned_take_bit_eq by (simp add: take_bit_eq_mod)

lemma u64_drop_bit_unat:
  fixes a :: u64
  shows "unat (drop_bit n a) = unat a div 2 ^ n"
  unfolding unat_drop_bit_eq by (simp add: drop_bit_eq_div)

lemma u64_and_not_mask_unat:
  fixes v :: u64
  shows "unat (v AND NOT (mask n)) = unat v div 2 ^ n * 2 ^ n"
proof -
  have "v - (v AND mask n) = v AND NOT (v AND mask n)"
    by (rule disjunctive_diff) (simp add: bit_simps)
  also have "\<dots> = v AND NOT (mask n)"
    by (rule bit_eqI) (auto simp: bit_simps)
  finally have eq: "v AND NOT (mask n) = v - (v AND mask n)" by simp
  have "v AND mask n \<le> v" by (simp add: word_nat u64_and_mask_unat)
  then show ?thesis
    unfolding eq by (simp add: unat_sub_no_wrap u64_and_mask_unat minus_mod_eq_div_mult)
qed

section \<open>Lists\<close>

lemma fold_inv:
  assumes "P s" and "\<And>x s. x \<in> set xs \<Longrightarrow> P s \<Longrightarrow> P (f x s)"
  shows "P (fold f xs s)"
  using assms by (induction xs arbitrary: s) auto

end
