(* ===== verification/Physmap.thy ===== *)
theory Physmap
  imports Prelude
begin

text \<open>
  The physical direct map, \<^verbatim>\<open>kernel/physmap.c\<close>: the conversion between a physical
  address below 128 TiB and its address in the higher-half window.
\<close>

abbreviation (input) PHYS_MAP_BASE :: u64 where
  "PHYS_MAP_BASE \<equiv> 0xFFFF800000000000"

abbreviation (input) PHYS_MAP_SIZE :: u64 where
  "PHYS_MAP_SIZE \<equiv> 0x0000800000000000"

definition physmap_virtual_address :: "u64 \<Rightarrow> u64 option" where
  "physmap_virtual_address physical =
     (if physical \<ge> PHYS_MAP_SIZE then None else Some (PHYS_MAP_BASE + physical))"

definition phys_to_virt :: "u64 \<Rightarrow> ptr" where
  "phys_to_virt physical =
     (case physmap_virtual_address physical of None \<Rightarrow> 0 | Some v \<Rightarrow> v)"

definition virt_to_phys :: "ptr \<Rightarrow> u64 option" where
  "virt_to_phys v =
     (if v = 0 then None
      else if v < PHYS_MAP_BASE then None
      else if v - PHYS_MAP_BASE \<ge> PHYS_MAP_SIZE then None
      else Some (v - PHYS_MAP_BASE))"

lemma unat_physmap:
  assumes "physical < PHYS_MAP_SIZE"
  shows "unat (PHYS_MAP_BASE + physical) = 0xFFFF800000000000 + unat physical"
  using assms by (subst unat_add_no_wrap) (simp_all add: word_nat)

lemma phys_to_virt_eq_0 [simp]: "phys_to_virt physical = 0 \<longleftrightarrow> PHYS_MAP_SIZE \<le> physical"
proof (cases "PHYS_MAP_SIZE \<le> physical")
  case False
  then have "unat (PHYS_MAP_BASE + physical) \<noteq> 0"
    by (subst unat_physmap) auto
  then show ?thesis
    using False by (simp add: phys_to_virt_def physmap_virtual_address_def unat_eq_zero)
qed (simp add: phys_to_virt_def physmap_virtual_address_def)

lemma physmap_roundtrip:
  assumes "physical < PHYS_MAP_SIZE"
  shows "virt_to_phys (phys_to_virt physical) = Some physical"
proof -
  have "PHYS_MAP_BASE \<le> PHYS_MAP_BASE + physical"
    unfolding word_nat unat_physmap [OF assms] by simp
  moreover have "PHYS_MAP_BASE + physical \<noteq> 0"
    using phys_to_virt_eq_0 [of physical] assms
    by (auto simp: phys_to_virt_def physmap_virtual_address_def split: if_splits)
  ultimately show ?thesis
    using assms
    by (auto simp: phys_to_virt_def physmap_virtual_address_def virt_to_phys_def not_le not_less)
qed

end
