(* ===== verification/PMM.thy ===== *)
theory PMM
  imports Physmap
begin

text \<open>
  The physical frame allocator, \<^verbatim>\<open>kernel/pmm.c\<close>. The module's static variables
  are the record \<open>Pmm\<close>; the bitmap is the byte storage \<open>bitmap_bytes\<close> behind the
  pointer \<open>g_bitmap\<close>, one bit per frame of the span starting at \<open>g_base_frame\<close>. Each function
  of the file is one definition on that record. Every public operation runs with local
  interrupts disabled on the single CPU, so it is one atomic state change.
\<close>

section \<open>State\<close>

abbreviation (input) FRAME_SIZE :: u64 where
  "FRAME_SIZE \<equiv> 4096"

type_synonym frame_t = u64

abbreviation (input) FRAME_INVALID :: frame_t where
  "FRAME_INVALID \<equiv> U64_MAX"

record PmmRange =
  range_first :: frame_t
  range_end :: frame_t

record PmmStats =
  stats_total_pages :: u64
  stats_free_pages :: u64
  stats_bitmap_physical :: u64
  stats_bitmap_pages :: u64
  stats_range_count :: u32
  stats_discarded_ranges :: u32

text \<open>
  \<open>g_ranges\<close> holds the used prefix of the source's array, so \<^verbatim>\<open>range_count\<close> is its
  length; the other members of \<^verbatim>\<open>g_stats\<close> are fields of their own.
\<close>

record Pmm =
  g_ranges :: "PmmRange list"
  total_pages :: u64
  free_pages :: u64
  bitmap_physical :: u64
  bitmap_pages :: u64
  discarded_ranges :: u32
  g_bitmap :: ptr
  bitmap_bytes :: "u64 \<Rightarrow> u8"
  g_base_frame :: frame_t
  g_bitmap_bits :: u64
  g_bitmap_first_frame :: frame_t
  g_bitmap_page_count :: u64
  g_next_hint :: u64
  pmm_initialized :: bool
  pmm_use_phys_map :: bool
  g_free_fault_armed :: bool
  g_free_fault_first :: frame_t
  g_free_fault_count :: u64

record BootMemoryDescriptor =
  desc_type :: u32
  desc_padding :: u32
  physical_start :: u64
  virtual_start :: u64
  number_of_pages :: u64
  desc_attribute :: u64

text \<open>
  The part of \<^verbatim>\<open>BootInfo\<close> the allocator reads. \<open>descriptor_at\<close> gives the descriptor
  stored at an address, the memory the pointer \<open>memory_map\<close> refers to.
\<close>

record BootInfo =
  memory_map :: ptr
  memory_map_size :: u64
  memory_map_descriptor_size :: u64
  descriptor_at :: "ptr \<Rightarrow> BootMemoryDescriptor"

abbreviation (input) EFI_CONVENTIONAL_MEMORY :: u32 where
  "EFI_CONVENTIONAL_MEMORY \<equiv> 7"

abbreviation (input) PMM_MAX_RANGES :: nat where
  "PMM_MAX_RANGES \<equiv> 128"

abbreviation (input) MIN_USABLE_ADDRESS :: u64 where
  "MIN_USABLE_ADDRESS \<equiv> 0x100000"

text \<open>\<^verbatim>\<open>sizeof(BootMemoryDescriptor)\<close>: two 32-bit and four 64-bit members.\<close>

abbreviation (input) DESCRIPTOR_SIZE :: u64 where
  "DESCRIPTOR_SIZE \<equiv> 40"

section \<open>Helpers\<close>

text \<open>\<^verbatim>\<open>k_memset\<close> of \<^verbatim>\<open>kernel/lib.c\<close> on the bytes behind a pointer.\<close>

definition k_memset :: "(u64 \<Rightarrow> u8) \<Rightarrow> u8 \<Rightarrow> u64 \<Rightarrow> (u64 \<Rightarrow> u8)" where
  "k_memset bytes v count = (\<lambda>i. if i < count then v else bytes i)"

definition align_up_page :: "u64 \<Rightarrow> u64 option" where
  "align_up_page value =
     (if value > U64_MAX - (FRAME_SIZE - 1) then None
      else Some ((value + FRAME_SIZE - 1) AND NOT (FRAME_SIZE - 1)))"

definition align_down_page :: "u64 \<Rightarrow> u64" where
  "align_down_page value = value AND NOT (FRAME_SIZE - 1)"

definition frame_managed :: "Pmm \<Rightarrow> frame_t \<Rightarrow> bool" where
  "frame_managed s frame \<longleftrightarrow>
     list_ex (\<lambda>r. range_first r \<le> frame \<and> frame < range_end r) (g_ranges s)"

definition frame_is_bitmap :: "Pmm \<Rightarrow> frame_t \<Rightarrow> bool" where
  "frame_is_bitmap s frame \<longleftrightarrow>
     (if g_bitmap_first_frame s = FRAME_INVALID then False
      else if frame < g_bitmap_first_frame s then False
      else frame - g_bitmap_first_frame s < g_bitmap_page_count s)"

definition bitmap_mask :: "u64 \<Rightarrow> u8" where
  "bitmap_mask index = push_bit (unat (index AND 7)) 1"

definition bitmap_used :: "Pmm \<Rightarrow> u64 \<Rightarrow> bool" where
  "bitmap_used s index \<longleftrightarrow> bitmap_bytes s (drop_bit 3 index) AND bitmap_mask index \<noteq> 0"

definition bitmap_set :: "u64 \<Rightarrow> Pmm \<Rightarrow> Pmm" where
  "bitmap_set index s =
     s\<lparr>bitmap_bytes := (bitmap_bytes s)
         (drop_bit 3 index := bitmap_bytes s (drop_bit 3 index) OR bitmap_mask index)\<rparr>"

definition bitmap_clear :: "u64 \<Rightarrow> Pmm \<Rightarrow> Pmm" where
  "bitmap_clear index s =
     s\<lparr>bitmap_bytes := (bitmap_bytes s)
         (drop_bit 3 index := bitmap_bytes s (drop_bit 3 index) AND NOT (bitmap_mask index))\<rparr>"

definition frame_bitmap_index :: "Pmm \<Rightarrow> frame_t \<Rightarrow> u64" where
  "frame_bitmap_index s frame = frame - g_base_frame s"

definition frame_to_phys :: "frame_t \<Rightarrow> u64" where
  "frame_to_phys frame =
     (if frame = FRAME_INVALID then 0
      else if frame > U64_MAX div FRAME_SIZE then 0
      else frame * FRAME_SIZE)"

definition phys_to_frame :: "u64 \<Rightarrow> frame_t" where
  "phys_to_frame physical =
     (if physical AND (FRAME_SIZE - 1) \<noteq> 0 then FRAME_INVALID
      else physical div FRAME_SIZE)"

section \<open>Initialisation from the firmware memory map\<close>

text \<open>The end of the loop body: merge with the last range, discard, or append.\<close>

definition pmm_add_range :: "frame_t \<Rightarrow> frame_t \<Rightarrow> Pmm \<Rightarrow> Pmm" where
  "pmm_add_range f l s =
     (if g_ranges s \<noteq> [] \<and> range_end (last (g_ranges s)) = f then
        s\<lparr>g_ranges := butlast (g_ranges s) @ [(last (g_ranges s))\<lparr>range_end := l\<rparr>]\<rparr>
      else if PMM_MAX_RANGES \<le> length (g_ranges s) then
        s\<lparr>discarded_ranges := discarded_ranges s + 1\<rparr>
      else s\<lparr>g_ranges := g_ranges s @ [\<lparr>range_first = f, range_end = l\<rparr>]\<rparr>)"

text \<open>One iteration of the collecting loop of \<^verbatim>\<open>pmm_init\<close>, on one descriptor.\<close>

definition pmm_add_descriptor :: "BootMemoryDescriptor \<Rightarrow> Pmm \<Rightarrow> Pmm" where
  "pmm_add_descriptor d s =
     (if desc_type d \<noteq> EFI_CONVENTIONAL_MEMORY then s
      else if number_of_pages d = 0 then s
      else if number_of_pages d > U64_MAX div FRAME_SIZE then s
      else
        let bytes = number_of_pages d * FRAME_SIZE in
        if physical_start d > U64_MAX - bytes then s
        else
          let raw_end = physical_start d + bytes in
          (case align_up_page (physical_start d) of
             None \<Rightarrow> s
           | Some aligned \<Rightarrow>
               let stop = align_down_page raw_end;
                   start = (if aligned < MIN_USABLE_ADDRESS then MIN_USABLE_ADDRESS else aligned)
               in
               if stop \<le> start then s
               else
                 let f = phys_to_frame start; l = phys_to_frame stop in
                 if f = FRAME_INVALID \<or> l = FRAME_INVALID \<or> l \<le> f then s
                 else pmm_add_range f l s))"

text \<open>
  The loop over the map. The offset is a wrapping 64-bit sum, so for a size close to
  \<open>2\<^sup>6\<^sup>4\<close> the loop need not end: not returning is \<open>None\<close>.
\<close>

partial_function (option) pmm_collect :: "BootInfo \<Rightarrow> u64 \<Rightarrow> Pmm \<Rightarrow> Pmm option" where
  "pmm_collect boot offset s =
     (if offset + DESCRIPTOR_SIZE \<le> memory_map_size boot
      then pmm_collect boot (offset + memory_map_descriptor_size boot)
             (pmm_add_descriptor (descriptor_at boot (memory_map boot + offset)) s)
      else Some s)"

text \<open>The reset of the module's variables at the start of \<^verbatim>\<open>pmm_init\<close>.\<close>

definition pmm_reset :: "Pmm \<Rightarrow> Pmm" where
  "pmm_reset s =
     s\<lparr>g_ranges := [], total_pages := 0, free_pages := 0, bitmap_physical := 0,
       bitmap_pages := 0, discarded_ranges := 0, g_bitmap := 0,
       g_base_frame := FRAME_INVALID, g_bitmap_bits := 0,
       g_bitmap_first_frame := FRAME_INVALID, g_bitmap_page_count := 0,
       g_next_hint := 0, pmm_initialized := False, pmm_use_phys_map := False,
       g_free_fault_armed := False\<rparr>"

definition ranges_lowest :: "PmmRange list \<Rightarrow> frame_t" where
  "ranges_lowest rs =
     fold (\<lambda>r lowest. if range_first r < lowest then range_first r else lowest) rs
       (range_first (hd rs))"

definition ranges_highest :: "PmmRange list \<Rightarrow> frame_t" where
  "ranges_highest rs =
     fold (\<lambda>r highest. if range_end r > highest then range_end r else highest) rs
       (range_end (hd rs))"

definition ranges_pages :: "PmmRange list \<Rightarrow> u64" where
  "ranges_pages rs = fold (\<lambda>r total. total + (range_end r - range_first r)) rs 0"

text \<open>The bootstrap allocation: the first range that can hold the bitmap.\<close>

definition bitmap_home :: "PmmRange list \<Rightarrow> u64 \<Rightarrow> frame_t" where
  "bitmap_home rs pages =
     (case find (\<lambda>r. range_end r - range_first r \<ge> pages) rs of
        None \<Rightarrow> FRAME_INVALID
      | Some r \<Rightarrow> range_first r)"

text \<open>Clear the bits of the frames of one range.\<close>

definition clear_range :: "PmmRange \<Rightarrow> Pmm \<Rightarrow> Pmm" where
  "clear_range r s =
     fold (\<lambda>i s. bitmap_clear (frame_bitmap_index s (range_first r + i)) s)
       (upto_u64 (range_end r - range_first r)) s"

text \<open>Mark the frames that hold the bitmap as used again.\<close>

definition reserve_bitmap :: "Pmm \<Rightarrow> Pmm" where
  "reserve_bitmap s =
     fold (\<lambda>i s. bitmap_set (frame_bitmap_index s (g_bitmap_first_frame s + i)) s)
       (upto_u64 (g_bitmap_page_count s)) s"

text \<open>
  \<^verbatim>\<open>pmm_init\<close> after the collecting loop: size the bitmap, place it, mark everything
  reserved, then free the managed frames and reserve the bitmap's own.
\<close>

definition pmm_build :: "Pmm \<Rightarrow> bool \<times> Pmm" where
  "pmm_build s =
     (if g_ranges s = [] then (False, s)
      else
        let lowest = ranges_lowest (g_ranges s);
            highest = ranges_highest (g_ranges s);
            s = s\<lparr>total_pages := ranges_pages (g_ranges s)\<rparr>
        in
        if highest \<le> lowest then (False, s)
        else
          let s = s\<lparr>g_base_frame := lowest, g_bitmap_bits := highest - lowest\<rparr> in
          if g_bitmap_bits s > U64_MAX - 7 then (False, s)
          else
            let bytes = (g_bitmap_bits s + 7) div 8 in
            if bytes = 0 then (False, s)
            else if bytes > U64_MAX - (FRAME_SIZE - 1) then (False, s)
            else
              let s = s\<lparr>g_bitmap_page_count := (bytes + FRAME_SIZE - 1) div FRAME_SIZE\<rparr> in
              if g_bitmap_page_count s = 0 then (False, s)
              else
                let s = s\<lparr>g_bitmap_first_frame :=
                           bitmap_home (g_ranges s) (g_bitmap_page_count s)\<rparr> in
                if g_bitmap_first_frame s = FRAME_INVALID then (False, s)
                else
                  let physical = frame_to_phys (g_bitmap_first_frame s) in
                  if physical = 0 then (False, s)
                  else if g_bitmap_page_count s > U64_MAX div FRAME_SIZE then (False, s)
                  else
                    let storage = g_bitmap_page_count s * FRAME_SIZE;
                        s = s\<lparr>g_bitmap := physical,
                              bitmap_bytes := k_memset (bitmap_bytes s) 0xFF storage\<rparr>;
                        s = fold clear_range (g_ranges s) s;
                        s = reserve_bitmap s
                    in
                    if g_bitmap_page_count s > total_pages s then (False, s)
                    else
                      (True, s\<lparr>free_pages := total_pages s - g_bitmap_page_count s,
                               bitmap_physical := physical,
                               bitmap_pages := g_bitmap_page_count s,
                               g_next_hint := 0,
                               pmm_initialized := True\<rparr>))"

definition pmm_init :: "BootInfo option \<Rightarrow> Pmm \<Rightarrow> (bool \<times> Pmm) option" where
  "pmm_init boot s =
     (let s = pmm_reset s in
      case boot of
        None \<Rightarrow> Some (False, s)
      | Some b \<Rightarrow>
          if memory_map b = 0 \<or> memory_map_size b = 0 \<or>
             memory_map_descriptor_size b < DESCRIPTOR_SIZE
          then Some (False, s)
          else map_option pmm_build (pmm_collect b 0 s))"

section \<open>Allocation and release\<close>

text \<open>The scan of \<^verbatim>\<open>frame_alloc_locked\<close>, with the number of bits still to look at.\<close>

primrec frame_alloc_scan :: "nat \<Rightarrow> u64 \<Rightarrow> Pmm \<Rightarrow> frame_t \<times> Pmm" where
  "frame_alloc_scan 0 index s = (FRAME_INVALID, s)"
| "frame_alloc_scan (Suc n) index s =
     (let next_index = (if index + 1 \<ge> g_bitmap_bits s then 0 else index + 1) in
      if \<not> bitmap_used s index then
        (g_base_frame s + index,
         (bitmap_set index s)\<lparr>free_pages := free_pages s - 1, g_next_hint := next_index\<rparr>)
      else frame_alloc_scan n next_index s)"

definition frame_alloc :: "Pmm \<Rightarrow> frame_t \<times> Pmm" where
  "frame_alloc s =
     (if \<not> pmm_initialized s \<or> g_bitmap s = 0 \<or> g_bitmap_bits s = 0 \<or> free_pages s = 0
      then (FRAME_INVALID, s)
      else frame_alloc_scan (unat (g_bitmap_bits s)) (g_next_hint s) s)"

definition free_range_valid :: "Pmm \<Rightarrow> frame_t \<Rightarrow> u64 \<Rightarrow> bool" where
  "free_range_valid s first count \<longleftrightarrow>
     (if \<not> pmm_initialized s \<or> g_bitmap s = 0 \<or> count = 0 \<or> first = FRAME_INVALID then False
      else if first < g_base_frame s \<or> first > U64_MAX div FRAME_SIZE then False
      else if count - 1 > U64_MAX div FRAME_SIZE - first then False
      else
        let index = frame_bitmap_index s first in
        if index \<ge> g_bitmap_bits s \<or> count > g_bitmap_bits s - index then False
        else if free_pages s > total_pages s then False
        else if count > total_pages s - free_pages s then False
        else list_all (\<lambda>i. frame_managed s (first + i) \<and> \<not> frame_is_bitmap s (first + i) \<and>
                           bitmap_used s (index + i))
               (upto_u64 count))"

definition frame_free_range :: "Pmm \<Rightarrow> frame_t \<Rightarrow> u64 \<Rightarrow> bool \<times> Pmm" where
  "frame_free_range s first count =
     (if \<not> free_range_valid s first count then (False, s)
      else if g_free_fault_armed s \<and> first = g_free_fault_first s \<and> count = g_free_fault_count s
      then (False, s\<lparr>g_free_fault_armed := False\<rparr>)
      else
        let index = frame_bitmap_index s first;
            s = fold (\<lambda>i. bitmap_clear (index + i)) (upto_u64 count) s
        in (True, s\<lparr>free_pages := free_pages s + count, g_next_hint := index\<rparr>))"

definition frame_free :: "Pmm \<Rightarrow> frame_t \<Rightarrow> bool \<times> Pmm" where
  "frame_free s frame = frame_free_range s frame 1"

text \<open>The first-fit search of \<^verbatim>\<open>pmm_alloc_pages_locked\<close>, from \<open>index\<close> on.\<close>

primrec pmm_alloc_scan :: "nat \<Rightarrow> u64 \<Rightarrow> u64 \<Rightarrow> u64 \<Rightarrow> u64 \<Rightarrow> Pmm \<Rightarrow> u64 \<times> Pmm" where
  "pmm_alloc_scan 0 index run_start run_length count s = (0, s)"
| "pmm_alloc_scan (Suc n) index run_start run_length count s =
     (if bitmap_used s index then pmm_alloc_scan n (index + 1) run_start 0 count s
      else
        let run_start = (if run_length = 0 then index else run_start);
            run_length = run_length + 1
        in
        if run_length < count then pmm_alloc_scan n (index + 1) run_start run_length count s
        else
          let s1 = fold (\<lambda>i. bitmap_set (run_start + i)) (upto_u64 count) s;
              hint = run_start + count
          in
          (frame_to_phys (g_base_frame s + run_start),
           s1\<lparr>free_pages := free_pages s - count,
              g_next_hint := (if hint \<ge> g_bitmap_bits s then 0 else hint)\<rparr>))"

definition pmm_alloc_pages :: "Pmm \<Rightarrow> u64 \<Rightarrow> u64 \<times> Pmm" where
  "pmm_alloc_pages s count =
     (if \<not> pmm_initialized s \<or> count = 0 \<or> count > free_pages s \<or> count > g_bitmap_bits s
      then (0, s)
      else pmm_alloc_scan (unat (g_bitmap_bits s)) 0 0 0 count s)"

definition pmm_alloc_page :: "Pmm \<Rightarrow> u64 \<times> Pmm" where
  "pmm_alloc_page s =
     (case frame_alloc s of
        (frame, s') \<Rightarrow> if frame = FRAME_INVALID then (0, s') else (frame_to_phys frame, s'))"

definition pmm_stats :: "Pmm \<Rightarrow> PmmStats" where
  "pmm_stats s =
     \<lparr>stats_total_pages = total_pages s, stats_free_pages = free_pages s,
      stats_bitmap_physical = bitmap_physical s, stats_bitmap_pages = bitmap_pages s,
      stats_range_count = of_nat (length (g_ranges s)), stats_discarded_ranges = discarded_ranges s\<rparr>"

text \<open>The bitmap moves to the direct map once the kernel's own page tables are active.\<close>

definition pmm_enable_phys_map_access :: "Pmm \<Rightarrow> bool \<times> Pmm" where
  "pmm_enable_phys_map_access s =
     (if \<not> pmm_initialized s \<or> g_bitmap s = 0 \<or> bitmap_physical s = 0 \<or> bitmap_pages s = 0
      then (False, s)
      else
        let direct = phys_to_virt (bitmap_physical s) in
        if direct = 0 then (False, s)
        else (True, s\<lparr>g_bitmap := direct, pmm_use_phys_map := True\<rparr>))"

definition pmm_phys_map_access_enabled :: "Pmm \<Rightarrow> bool" where
  "pmm_phys_map_access_enabled s = pmm_use_phys_map s"

section \<open>Diagnostic fault injection\<close>

definition pmm_test_fail_free_range_once :: "Pmm \<Rightarrow> frame_t \<Rightarrow> u64 \<Rightarrow> bool \<times> Pmm" where
  "pmm_test_fail_free_range_once s first count =
     (if \<not> g_free_fault_armed s \<and> free_range_valid s first count
      then (True, s\<lparr>g_free_fault_first := first, g_free_fault_count := count,
                    g_free_fault_armed := True\<rparr>)
      else (False, s))"

definition pmm_test_free_failure_armed :: "Pmm \<Rightarrow> bool" where
  "pmm_test_free_failure_armed s = g_free_fault_armed s"

definition pmm_test_clear_free_failure :: "Pmm \<Rightarrow> Pmm" where
  "pmm_test_clear_free_failure s = s\<lparr>g_free_fault_armed := False\<rparr>"

definition pmm_test_frame_releasable :: "Pmm \<Rightarrow> frame_t \<Rightarrow> bool" where
  "pmm_test_frame_releasable s frame = free_range_valid s frame 1"

section \<open>The bitmap\<close>

lemma and7_unat: "unat ((i::u64) AND 7) = unat i mod 8"
  using u64_and_mask_unat [of i 3] by (simp add: mask_eq_exp_minus_1)

lemma index_split: "drop_bit 3 i = drop_bit 3 j \<and> i AND 7 = j AND 7 \<longleftrightarrow> i = (j::u64)"
proof
  assume h: "drop_bit 3 i = drop_bit 3 j \<and> i AND 7 = j AND 7"
  then have "unat i div 8 = unat j div 8" "unat i mod 8 = unat j mod 8"
    using u64_drop_bit_unat [of 3 i] u64_drop_bit_unat [of 3 j] and7_unat [of i] and7_unat [of j]
    by auto
  then have "unat i = unat j"
    by (metis div_mult_mod_eq)
  then show "i = j" by (simp add: u64_eq_unat)
qed simp

lemma bit_bitmap_mask: "bit (bitmap_mask i) k \<longleftrightarrow> k = unat (i AND 7)"
  by (auto simp: bitmap_mask_def bit_simps and7_unat)

lemma bitmap_used_bit:
  "bitmap_used s i \<longleftrightarrow> bit (bitmap_bytes s (drop_bit 3 i)) (unat (i AND 7))"
proof -
  have "b AND bitmap_mask i \<noteq> 0 \<longleftrightarrow> bit b (unat (i AND 7))" for b
    unfolding bit_eq_iff [of "b AND bitmap_mask i" 0]
    by (auto simp: bit_and_iff bit_bitmap_mask and7_unat)
  then show ?thesis by (simp add: bitmap_used_def)
qed

lemma bitmap_used_set [simp]: "bitmap_used (bitmap_set i s) j \<longleftrightarrow> i = j \<or> bitmap_used s j"
  using index_split [of i j]
  by (auto simp: bitmap_used_bit bitmap_set_def bit_simps bit_bitmap_mask u64_eq_unat [of "_ AND 7"])

lemma bitmap_used_clear [simp]: "bitmap_used (bitmap_clear i s) j \<longleftrightarrow> i \<noteq> j \<and> bitmap_used s j"
  using index_split [of i j] 
  by (auto simp: bitmap_used_bit bitmap_clear_def bit_simps bit_bitmap_mask and7_unat
      u64_eq_unat [of "_ AND 7"])

lemma bitmap_set_eq: "bitmap_set i s = s\<lparr>bitmap_bytes := bitmap_bytes (bitmap_set i s)\<rparr>"
  by (simp add: bitmap_set_def)

lemma bitmap_clear_eq: "bitmap_clear i s = s\<lparr>bitmap_bytes := bitmap_bytes (bitmap_clear i s)\<rparr>"
  by (simp add: bitmap_clear_def)

text \<open>Changes to the bitmap bytes alone.\<close>

definition bytes_only :: "Pmm \<Rightarrow> Pmm \<Rightarrow> bool" where
  "bytes_only s t \<longleftrightarrow> (\<exists>B. t = s\<lparr>bitmap_bytes := B\<rparr>)"

lemma bytes_only_trans: "bytes_only s t \<Longrightarrow> bytes_only t u \<Longrightarrow> bytes_only s u"
  by (auto simp: bytes_only_def)

lemma bytes_only_fold:
  assumes "\<And>x s. bytes_only s (f x s)"
  shows "bytes_only s (fold f xs s)"
proof (induction xs arbitrary: s)
  case (Cons x xs)
  from bytes_only_trans [OF assms Cons.IH] show ?case by simp
next
  case Nil
  show ?case by (auto simp: bytes_only_def intro!: exI [of _ "bitmap_bytes s"])
qed

lemma fold_bitmap_set:
  "bitmap_used (fold (\<lambda>i. bitmap_set (g i)) xs s) j \<longleftrightarrow> j \<in> g ` set xs \<or> bitmap_used s j"
  by (induction xs arbitrary: s) auto

lemma fold_bitmap_clear:
  "bitmap_used (fold (\<lambda>i. bitmap_clear (g i)) xs s) j \<longleftrightarrow> j \<notin> g ` set xs \<and> bitmap_used s j"
  by (induction xs arbitrary: s) auto

lemma unat_Suc_less:
  fixes a b :: u64
  assumes "a < b"
  shows "unat (a + 1) = unat a + 1"
proof -
  have "unat a + 1 < 18446744073709551616"
    using assms unat_u64_bound [of b] unfolding word_nat by linarith
  then show ?thesis by (subst unat_add_no_wrap) auto
qed

lemma alloc_scan_cases:
  assumes "index < g_bitmap_bits s"
  shows "(\<exists>i. i < g_bitmap_bits s \<and> \<not> bitmap_used s i \<and>
            frame_alloc_scan n index s =
              (g_base_frame s + i, (bitmap_set i s)
                 \<lparr>free_pages := free_pages s - 1,
                  g_next_hint := (if i + 1 \<ge> g_bitmap_bits s then 0 else i + 1)\<rparr>)) \<or>
         (frame_alloc_scan n index s = (FRAME_INVALID, s) \<and>
           (\<forall>k<n. bitmap_used s (of_nat ((unat index + k) mod unat (g_bitmap_bits s)))))"
  using assms
proof (induction n arbitrary: index)
  case (Suc n)
  let ?B = "unat (g_bitmap_bits s)"
  let ?next = "if index + 1 \<ge> g_bitmap_bits s then 0 else index + 1"
  show ?case
  proof (cases "bitmap_used s index")
    case True
    have B: "unat index < ?B" using Suc.prems by (simp add: word_nat)
    have i1: "unat (index + 1) = unat index + 1"
      using Suc.prems by (rule unat_Suc_less)
    have nx: "unat ?next = (unat index + 1) mod ?B"
      using B i1 by (auto simp: word_nat le_Suc_eq not_le mod_if)
    have lt: "?next < g_bitmap_bits s"
      using B nx by (auto simp: word_nat i1)
    have all: "bitmap_used s (of_nat ((unat index + k) mod ?B))"
      if "\<forall>k<n. bitmap_used s (of_nat ((unat ?next + k) mod ?B))" "k < Suc n" for k
    proof (cases k)
      case 0
      then show ?thesis using True B by simp
    next
      case (Suc k')
      then have "bitmap_used s (of_nat ((unat ?next + k') mod ?B))" using that by auto
      moreover have "(unat ?next + k') mod ?B = (unat index + k) mod ?B"
        unfolding nx Suc by (simp add: mod_add_left_eq)
      ultimately show ?thesis by simp
    qed
    from Suc.IH [OF lt] show ?thesis
      using True all by (auto simp: Let_def)
  next
    case False
    then show ?thesis using Suc.prems by (auto simp: Let_def)
  qed
qed simp

definition managed_frames :: "Pmm \<Rightarrow> frame_t set" where
  "managed_frames s = {f. frame_managed s f}"

definition bitmap_frames :: "Pmm \<Rightarrow> frame_t set" where
  "bitmap_frames s = {f. frame_is_bitmap s f}"

definition free_frames :: "Pmm \<Rightarrow> frame_t set" where
  "free_frames s = {f. g_base_frame s \<le> f \<and> f - g_base_frame s < g_bitmap_bits s \<and>
                       \<not> bitmap_used s (f - g_base_frame s)}"

definition pmm_inv :: "Pmm \<Rightarrow> bool" where
  "pmm_inv s \<longleftrightarrow>
     pmm_initialized s \<and> g_bitmap s \<noteq> 0 \<and> g_bitmap_bits s \<noteq> 0 \<and>
     256 \<le> g_base_frame s \<and> unat (g_base_frame s) + unat (g_bitmap_bits s) < 2 ^ 52 \<and>
     g_next_hint s < g_bitmap_bits s \<and>
     (\<forall>f. frame_managed s f \<longrightarrow>
        g_base_frame s \<le> f \<and> f - g_base_frame s < g_bitmap_bits s) \<and>
     (\<forall>f \<in> free_frames s. frame_managed s f \<and> \<not> frame_is_bitmap s f) \<and>
     unat (free_pages s) = card (free_frames s) \<and>
     unat (total_pages s) = card (managed_frames s)"

lemma frame_managed_update [simp]:
  "frame_managed (bitmap_bytes_update g s) = frame_managed s"
  "frame_managed (free_pages_update h s) = frame_managed s"
  "frame_managed (g_next_hint_update h s) = frame_managed s"
  "frame_managed (g_free_fault_armed_update a s) = frame_managed s"
  by (auto simp: frame_managed_def)

lemma frame_is_bitmap_update [simp]:
  "frame_is_bitmap (bitmap_bytes_update g s) = frame_is_bitmap s"
  "frame_is_bitmap (free_pages_update h s) = frame_is_bitmap s"
  "frame_is_bitmap (g_next_hint_update h s) = frame_is_bitmap s"
  "frame_is_bitmap (g_free_fault_armed_update a s) = frame_is_bitmap s"
  by (simp_all add: frame_is_bitmap_def fun_eq_iff)

lemma bitmap_used_update [simp]:
  "bitmap_used (free_pages_update h s) = bitmap_used s"
  "bitmap_used (g_next_hint_update h s) = bitmap_used s"
  "bitmap_used (g_free_fault_armed_update a s) = bitmap_used s"
  by (auto simp: bitmap_used_def)

lemma free_frames_update [simp]:
  "free_frames (free_pages_update h s) = free_frames s"
  "free_frames (g_next_hint_update h s) = free_frames s"
  "free_frames (g_free_fault_armed_update a s) = free_frames s"
  by (auto simp: free_frames_def)

lemma managed_frames_update [simp]:
  "managed_frames (bitmap_bytes_update g s) = managed_frames s"
  "managed_frames (free_pages_update h s) = managed_frames s"
  "managed_frames (g_next_hint_update h s) = managed_frames s"
  "managed_frames (g_free_fault_armed_update a s) = managed_frames s"
  by (auto simp: managed_frames_def)

text \<open>The frame of a bitmap index, and back.\<close>

lemma frame_index_range:
  fixes i :: u64
  assumes "unat (g_base_frame s) + unat (g_bitmap_bits s) < 2 ^ 52" and "i < g_bitmap_bits s"
  shows "unat (g_base_frame s + i) = unat (g_base_frame s) + unat i"
    and "g_base_frame s \<le> g_base_frame s + i"
proof -
  have "unat (g_base_frame s) + unat i < 18446744073709551616"
    using assms by (simp add: word_nat)
  then show "unat (g_base_frame s + i) = unat (g_base_frame s) + unat i"
    by (rule unat_add_no_wrap)
  then show "g_base_frame s \<le> g_base_frame s + i" by (simp add: word_nat)
qed

lemma free_frames_subset_managed: "pmm_inv s \<Longrightarrow> free_frames s \<subseteq> managed_frames s"
  by (auto simp: pmm_inv_def managed_frames_def)

lemma shift_image: "(x::u64) \<in> (\<lambda>i. b + i) ` I \<longleftrightarrow> x - b \<in> I"
  by (auto intro: image_eqI [of _ _ "x - b"])

lemma free_frames_set_bits:
  assumes "bytes_only s t" and "\<And>j. bitmap_used t j \<longleftrightarrow> j \<in> I \<or> bitmap_used s j"
  shows "free_frames t = free_frames s - (\<lambda>i. g_base_frame s + i) ` I"
proof (rule set_eqI)
  fix x
  from assms(1) have "g_base_frame t = g_base_frame s" "g_bitmap_bits t = g_bitmap_bits s"
    by (auto simp: bytes_only_def)
  then show "x \<in> free_frames t \<longleftrightarrow> x \<in> free_frames s - (\<lambda>i. g_base_frame s + i) ` I"
    by (simp add: free_frames_def assms(2) shift_image conj_ac)
qed

lemma free_frames_clear_bits:
  assumes "bytes_only s t" and "\<And>j. bitmap_used t j \<longleftrightarrow> j \<notin> I \<and> bitmap_used s j"
    and "\<And>i. i \<in> I \<Longrightarrow> i < g_bitmap_bits s"
    and "unat (g_base_frame s) + unat (g_bitmap_bits s) < 2 ^ 52"
  shows "free_frames t = free_frames s \<union> (\<lambda>i. g_base_frame s + i) ` I"
proof (rule set_eqI)
  fix x
  from assms(1) have "g_base_frame t = g_base_frame s" "g_bitmap_bits t = g_bitmap_bits s"
    by (auto simp: bytes_only_def)
  moreover have "g_base_frame s \<le> x \<and> x - g_base_frame s < g_bitmap_bits s"
    if "x - g_base_frame s \<in> I"
    using frame_index_range(2) [OF assms(4) assms(3) [OF that]] assms(3) [OF that] by simp
  ultimately show "x \<in> free_frames t \<longleftrightarrow> x \<in> free_frames s \<union> (\<lambda>i. g_base_frame s + i) ` I"
    by (simp add: free_frames_def assms(2) shift_image) blast
qed

lemma bytes_only_set [simp, intro]: "bytes_only s (bitmap_set i s)"
  by (auto simp: bytes_only_def bitmap_set_def)

lemma bytes_only_clear [simp, intro]: "bytes_only s (bitmap_clear i s)"
  by (auto simp: bytes_only_def bitmap_clear_def)

text \<open>Taking a set of free frames out of the bitmap keeps the invariant.\<close>

lemma pmm_inv_take:
  assumes inv: "pmm_inv s" and t: "bytes_only s t"
    and used: "\<And>j. bitmap_used t j \<longleftrightarrow> j \<in> I \<or> bitmap_used s j"
    and I: "\<And>i. i \<in> I \<Longrightarrow> i < g_bitmap_bits s \<and> \<not> bitmap_used s i"
    and n: "unat n = card I" and h: "hint < g_bitmap_bits s"
  shows "pmm_inv (t\<lparr>free_pages := free_pages s - n, g_next_hint := hint\<rparr>)"
    and "free_frames t = free_frames s - (\<lambda>i. g_base_frame s + i) ` I"
proof -
  let ?F = "(\<lambda>i. g_base_frame s + i) ` I"
  have range: "unat (g_base_frame s) + unat (g_bitmap_bits s) < 2 ^ 52"
    using inv by (simp add: pmm_inv_def)
  show free: "free_frames t = free_frames s - ?F"
    by (rule free_frames_set_bits [OF t used])
  have sub: "?F \<subseteq> free_frames s"
    using I frame_index_range(2) [OF range] by (auto simp: free_frames_def)
  have card: "card ?F = card I"
    by (rule card_image) (simp add: inj_on_def)
  have le: "n \<le> free_pages s"
    using card_mono [OF _ sub] inv card n by (simp add: word_nat pmm_inv_def)
  have pages: "unat (free_pages s - n) = card (free_frames s - ?F)"
    using inv sub card n le by (simp add: card_Diff_subset unat_sub_no_wrap pmm_inv_def)
  obtain B where B: "t = s\<lparr>bitmap_bytes := B\<rparr>"
    using t by (auto simp: bytes_only_def)
  show "pmm_inv (t\<lparr>free_pages := free_pages s - n, g_next_hint := hint\<rparr>)"
    using inv h free pages unfolding B by (simp add: pmm_inv_def)
qed

lemma unat_of_nat_u64_inv: "of_nat (unat (a::u64)) = a"
  by (simp add: word_unat_eq_iff)

lemma frame_alloc_none:
  assumes inv: "pmm_inv s" and "frame_alloc s = (FRAME_INVALID, s')"
  shows "free_frames s = {} \<and> s' = s"
proof -
  let ?B = "unat (g_bitmap_bits s)"
  have B: "0 < ?B" using inv by (simp add: pmm_inv_def unat_gt_0)
  show ?thesis
  proof (cases "free_pages s = 0")
    case True
    then have "card (free_frames s) = 0" using inv by (simp add: pmm_inv_def)
    with assms True show ?thesis by (simp add: frame_alloc_def)
  next
    case False
    with assms have scan: "frame_alloc_scan ?B (g_next_hint s) s = (FRAME_INVALID, s')"
      by (simp add: frame_alloc_def pmm_inv_def)
    have hint: "g_next_hint s < g_bitmap_bits s" using inv by (simp add: pmm_inv_def)
    have nofr: "g_base_frame s + i \<noteq> FRAME_INVALID" if "i < g_bitmap_bits s" for i
    proof -
      have "unat (g_base_frame s + i) < 2 ^ 52"
        using frame_index_range(1) [OF _ that] that inv by (simp add: pmm_inv_def word_nat)
      then show ?thesis by auto
    qed
    have s': "s' = s" and all: "\<forall>k<?B. bitmap_used s (of_nat ((unat (g_next_hint s) + k) mod ?B))"
      using alloc_scan_cases [OF hint, of ?B] scan nofr by (metis Pair_inject)+
    have "bitmap_used s i" if "i < g_bitmap_bits s" for i
    proof -
      let ?k = "(unat i + ?B - unat (g_next_hint s)) mod ?B"
      have "(unat (g_next_hint s) + ?k) mod ?B = (unat i + ?B) mod ?B"
        using hint by (simp add: word_nat mod_add_right_eq)
      then have "(unat (g_next_hint s) + ?k) mod ?B = unat i"
        using that by (simp add: word_nat)
      moreover have "?k < ?B" using B by simp
      ultimately show ?thesis using all by (metis unat_of_nat_u64_inv)
    qed
    then show ?thesis using s' by (auto simp: free_frames_def)
  qed
qed

lemma frame_alloc_some:
  assumes inv: "pmm_inv s" and al: "frame_alloc s = (f, s')" and f: "f \<noteq> FRAME_INVALID"
  shows "f \<in> free_frames s" and "free_frames s' = free_frames s - {f}" and "pmm_inv s'"
proof -
  have hint: "g_next_hint s < g_bitmap_bits s" using inv by (simp add: pmm_inv_def)
  have scan: "frame_alloc_scan (unat (g_bitmap_bits s)) (g_next_hint s) s = (f, s')"
    using al f by (auto simp: frame_alloc_def split: if_splits)
  from alloc_scan_cases [OF hint, of "unat (g_bitmap_bits s)"] scan f
  obtain i where i: "i < g_bitmap_bits s" "\<not> bitmap_used s i" "f = g_base_frame s + i"
    and s': "s' = (bitmap_set i s)\<lparr>free_pages := free_pages s - 1,
                    g_next_hint := (if i + 1 \<ge> g_bitmap_bits s then 0 else i + 1)\<rparr>"
    by auto
  have h: "(if i + 1 \<ge> g_bitmap_bits s then 0 else i + 1) < g_bitmap_bits s"
    using inv by (auto simp: pmm_inv_def word_neq_0_conv [symmetric])
  have "g_base_frame s \<le> g_base_frame s + i"
    using inv i(1) by (intro frame_index_range(2)) (simp_all add: pmm_inv_def)
  then show "f \<in> free_frames s"
    using i by (simp add: free_frames_def)
  have used: "bitmap_used (bitmap_set i s) j \<longleftrightarrow> j \<in> {i} \<or> bitmap_used s j" for j
    by auto
  have I: "j < g_bitmap_bits s \<and> \<not> bitmap_used s j" if "j \<in> {i}" for j
    using that i by simp
  have n: "unat (1::u64) = card {i}" by simp
  show "pmm_inv s'"
    unfolding s' by (rule pmm_inv_take(1) [OF inv bytes_only_set used I n h])
  show "free_frames s' = free_frames s - {f}"
    unfolding s' using pmm_inv_take(2) [OF inv bytes_only_set used I n h] i(3) by simp
qed

lemma frame_free_range_true:
  assumes "free_range_valid s first count"
  shows "first \<notin> {FRAME_INVALID}" and "count \<noteq> 0" and "g_base_frame s \<le> first"
    and "first - g_base_frame s < g_bitmap_bits s"
    and "count \<le> g_bitmap_bits s - (first - g_base_frame s)"
    and "free_pages s \<le> total_pages s" and "count \<le> total_pages s - free_pages s"
    and "\<And>i. i < count \<Longrightarrow> frame_managed s (first + i) \<and> \<not> frame_is_bitmap s (first + i) \<and>
           bitmap_used s (first - g_base_frame s + i)"
  using assms
  by (auto simp: free_range_valid_def frame_bitmap_index_def Let_def list_all_iff not_le not_less
      split: if_splits)

text \<open>Giving a set of managed, used frames back keeps the invariant.\<close>

lemma pmm_inv_give:
  assumes inv: "pmm_inv s" and t: "bytes_only s t"
    and used: "\<And>j. bitmap_used t j \<longleftrightarrow> j \<notin> I \<and> bitmap_used s j"
    and I: "\<And>i. i \<in> I \<Longrightarrow> i < g_bitmap_bits s \<and> bitmap_used s i \<and>
               frame_managed s (g_base_frame s + i) \<and> \<not> frame_is_bitmap s (g_base_frame s + i)"
    and n: "unat n = card I" and le: "n \<le> total_pages s - free_pages s"
    and h: "hint < g_bitmap_bits s"
  shows "pmm_inv (t\<lparr>free_pages := free_pages s + n, g_next_hint := hint\<rparr>)"
    and "free_frames t = free_frames s \<union> (\<lambda>i. g_base_frame s + i) ` I"
proof -
  let ?F = "(\<lambda>i. g_base_frame s + i) ` I"
  have range: "unat (g_base_frame s) + unat (g_bitmap_bits s) < 2 ^ 52"
    using inv by (simp add: pmm_inv_def)
  show free: "free_frames t = free_frames s \<union> ?F"
    by (rule free_frames_clear_bits [OF t used _ range]) (use I in auto)
  have disj: "free_frames s \<inter> ?F = {}"
    using I by (auto simp: free_frames_def)
  have card: "card ?F = card I"
    by (rule card_image) (simp add: inj_on_def)
  have sub: "free_frames s \<union> ?F \<subseteq> managed_frames s"
    using free_frames_subset_managed [OF inv] I by (auto simp: managed_frames_def)
  have tot: "unat (free_pages s) + unat n \<le> unat (total_pages s)"
    using card_mono [OF _ sub] card_Un_disjoint [OF _ _ disj] inv card n by (simp add: pmm_inv_def)
  then have "unat (free_pages s) + unat n < 18446744073709551616"
    using unat_u64_bound [of "total_pages s"] by linarith
  then have pages: "unat (free_pages s + n) = card (free_frames s \<union> ?F)"
    using card_Un_disjoint [OF _ _ disj] inv card n
    by (simp add: unat_add_no_wrap pmm_inv_def)
  obtain B where B: "t = s\<lparr>bitmap_bytes := B\<rparr>"
    using t by (auto simp: bytes_only_def)
  have "\<forall>f \<in> free_frames s \<union> ?F. frame_managed s f \<and> \<not> frame_is_bitmap s f"
    using inv I by (auto simp: pmm_inv_def)
  then show "pmm_inv (t\<lparr>free_pages := free_pages s + n, g_next_hint := hint\<rparr>)"
    using inv h free pages unfolding B by (simp add: pmm_inv_def)
qed

section \<open>Release of a run\<close>

text \<open>The frames of a contiguous run, and what the validation of a release accepts.\<close>

definition frame_run :: "frame_t \<Rightarrow> u64 \<Rightarrow> frame_t set" where
  "frame_run first count = (\<lambda>i. first + i) ` {i. i < count}"

lemma finite_frame_run [simp]: "finite (frame_run first count)"
  by simp

lemma card_less_u64: "card {i::u64. i < n} = unat n"
  using distinct_card [of "upto_u64 n"] by simp

lemma card_frame_run [simp]: "card (frame_run first count) = unat count"
  by (simp add: frame_run_def card_image inj_on_def card_less_u64)

lemma frame_run_1 [simp]: "frame_run first 1 = {first}"
  by (auto simp: frame_run_def)

lemma frame_run_shift:
  "frame_run (b + i) count = (\<lambda>j. b + j) ` (\<lambda>k. i + k) ` {k. k < count}"
  by (simp add: frame_run_def image_image add.assoc)

lemma frame_free_range_armed: "pmm_inv s \<Longrightarrow> pmm_inv (s\<lparr>g_free_fault_armed := a\<rparr>)"
  by (simp add: pmm_inv_def)

lemma frame_free_range_false:
  assumes "frame_free_range s first count = (False, s')"
  shows "s' = s \<or> s' = s\<lparr>g_free_fault_armed := False\<rparr>"
  using assms by (auto simp: frame_free_range_def Let_def split: if_splits)

lemma frame_free_range_fold:
  assumes "frame_free_range s first count = (True, s')"
  shows "free_range_valid s first count" and
    "s' = (fold (\<lambda>i. bitmap_clear (first - g_base_frame s + i)) (upto_u64 count) s)
            \<lparr>free_pages := free_pages s + count, g_next_hint := first - g_base_frame s\<rparr>"
proof -
  have b: "bytes_only s (fold (\<lambda>i. bitmap_clear (k + i)) (upto_u64 count) s)" for k
    by (rule bytes_only_fold) simp
  have "free_pages (fold (\<lambda>i. bitmap_clear (k + i)) (upto_u64 count) s) = free_pages s" for k
    using b [of k] by (auto simp: bytes_only_def)
  then show "free_range_valid s first count" and
    "s' = (fold (\<lambda>i. bitmap_clear (first - g_base_frame s + i)) (upto_u64 count) s)
            \<lparr>free_pages := free_pages s + count, g_next_hint := first - g_base_frame s\<rparr>"
    using assms by (auto simp: frame_free_range_def Let_def frame_bitmap_index_def split: if_splits)
qed

lemma frame_free_range_ok:
  assumes inv: "pmm_inv s" and fr: "frame_free_range s first count = (True, s')"
  shows "pmm_inv s'" and "free_frames s' = free_frames s \<union> frame_run first count"
    and "free_frames s \<inter> frame_run first count = {}"
proof -
  let ?i = "first - g_base_frame s"
  let ?I = "(\<lambda>k. ?i + k) ` {k. k < count}"
  let ?t = "fold (\<lambda>i. bitmap_clear (?i + i)) (upto_u64 count) s"
  note valid = frame_free_range_true [OF frame_free_range_fold(1) [OF fr]]
  have b: "bytes_only s ?t" by (rule bytes_only_fold) simp
  have used: "bitmap_used ?t j \<longleftrightarrow> j \<notin> ?I \<and> bitmap_used s j" for j
    by (simp add: fold_bitmap_clear)
  have run: "frame_run first count = (\<lambda>j. g_base_frame s + j) ` ?I"
    using frame_run_shift [of "g_base_frame s" ?i count] by simp
  have I: "i < g_bitmap_bits s \<and> bitmap_used s i \<and>
           frame_managed s (g_base_frame s + i) \<and> \<not> frame_is_bitmap s (g_base_frame s + i)"
    if "i \<in> ?I" for i
  proof -
    from that obtain k where k: "k < count" "i = ?i + k" by auto
    have "unat k < unat (g_bitmap_bits s) - unat ?i"
      using k(1) valid(4,5) by (simp add: word_nat unat_sub_no_wrap)
    then have lt: "unat ?i + unat k < unat (g_bitmap_bits s)" by simp
    then have "unat ?i + unat k < 18446744073709551616"
      using unat_u64_bound [of "g_bitmap_bits s"] by linarith
    then have "unat i = unat ?i + unat k" unfolding k(2) by (rule unat_add_no_wrap)
    with lt have "i < g_bitmap_bits s" by (simp add: word_nat)
    moreover have "g_base_frame s + i = first + k" using k(2) by simp
    ultimately show ?thesis using valid(8) [OF k(1)] k(2) by simp
  qed
  have n: "unat count = card ?I"
    by (simp add: card_image inj_on_def card_less_u64)
  note give = pmm_inv_give [OF inv b used I n valid(7) valid(4)]
  show "pmm_inv s'" unfolding frame_free_range_fold(2) [OF fr] by (rule give(1))
  show "free_frames s' = free_frames s \<union> frame_run first count"
    unfolding frame_free_range_fold(2) [OF fr] run using give(2) by simp
  show "free_frames s \<inter> frame_run first count = {}"
    unfolding run using I by (auto simp: free_frames_def)
qed

text \<open>A run whose frames all lie in the span of the bitmap does not wrap around.\<close>

lemma run_span:
  fixes b n first count k :: u64
  assumes rng: "unat b + unat n < 2 ^ 52"
    and span: "\<And>k. k < count \<Longrightarrow> b \<le> first + k \<and> first + k - b < n"
    and "k < count"
  shows "unat first + unat k < unat b + unat n"
  using \<open>k < count\<close>
proof (induction "unat k" arbitrary: k)
  case 0
  then have "b \<le> first" "first - b < n" using span [of 0] by (simp_all add: unat_eq_zero)
  then show ?case using 0 by (simp add: word_nat unat_sub_no_wrap)
next
  case (Suc m)
  then have k: "unat k = Suc m" by simp
  have "unat (k - 1) = m"
    using k by (subst unat_sub_no_wrap) (simp_all add: word_nat)
  moreover have "k - 1 < count"
    using Suc.prems calculation k unfolding word_nat by linarith
  ultimately have "unat first + m < unat b + unat n" using Suc.hyps(1) [of "k - 1"] by simp
  then have "unat first + unat k < 18446744073709551616" using k rng by simp
  then have a: "unat (first + k) = unat first + unat k" by (rule unat_add_no_wrap)
  have "b \<le> first + k" "first + k - b < n" using span [OF Suc.prems] by simp_all
  then show ?case unfolding word_nat unat_sub_no_wrap [OF \<open>b \<le> first + k\<close>] a by linarith
qed

text \<open>The checks of a release accept exactly the runs of allocated, managed frames.\<close>

lemma free_range_valid_iff:
  assumes inv: "pmm_inv s"
  shows "free_range_valid s first count \<longleftrightarrow>
     count \<noteq> 0 \<and> (\<forall>f \<in> frame_run first count.
        frame_managed s f \<and> \<not> frame_is_bitmap s f \<and> f \<notin> free_frames s)"
    (is "_ \<longleftrightarrow> _ \<and> ?R")
proof
  assume v: "free_range_valid s first count"
  note valid = frame_free_range_true [OF v]
  have "f \<notin> free_frames s" if "f \<in> frame_run first count" for f
  proof -
    from that obtain k where k: "k < count" "f = first + k" by (auto simp: frame_run_def)
    have "f - g_base_frame s = first - g_base_frame s + k"
      unfolding k(2) by (rule diff_add_eq [symmetric])
    then have "bitmap_used s (f - g_base_frame s)"
      using valid(8) [OF k(1)] by metis
    then show ?thesis by (simp add: free_frames_def)
  qed
  then show "count \<noteq> 0 \<and> ?R"
    using valid by (auto simp: frame_run_def)
next
  assume r: "count \<noteq> 0 \<and> ?R"
  let ?b = "g_base_frame s" and ?n = "g_bitmap_bits s"
  have rng: "unat ?b + unat ?n < 2 ^ 52" using inv by (simp add: pmm_inv_def)
  have span: "?b \<le> first + k \<and> first + k - ?b < ?n" if "k < count" for k
    using r that inv by (auto simp: frame_run_def pmm_inv_def)
  have u: "bitmap_used s (first - ?b + k)" if "k < count" for k
  proof -
    have "first + k \<notin> free_frames s" using r that by (auto simp: frame_run_def)
    then have "bitmap_used s (first + k - ?b)"
      using span [OF that] unfolding free_frames_def by blast
    then show ?thesis by (simp only: diff_add_eq)
  qed
  have c0: "0 < count" using r by (simp add: word_neq_0_conv)
  have f0: "?b \<le> first" "first - ?b < ?n" using span [OF c0] by simp_all
  have f52: "unat first < 2 ^ 52"
    using f0 rng unfolding word_nat unat_sub_no_wrap [OF f0(1)] by linarith
  have cn: "unat first + unat k < unat ?b + unat ?n" if "k < count" for k
    by (rule run_span [OF rng span that])
  have c1: "unat (count - 1) = unat count - 1"
    using c0 by (subst unat_sub_no_wrap) (simp_all add: word_nat)
  have last: "unat first + (unat count - 1) < unat ?b + unat ?n"
    using cn [of "count - 1"] c0 c1 by (simp add: word_nat)
  have disj: "free_frames s \<inter> frame_run first count = {}" using r by auto
  have sub: "free_frames s \<union> frame_run first count \<subseteq> managed_frames s"
    using r free_frames_subset_managed [OF inv] by (auto simp: managed_frames_def)
  have "card (free_frames s \<union> frame_run first count) \<le> card (managed_frames s)"
    by (rule card_mono [OF _ sub]) simp
  then have tot: "unat (free_pages s) + unat count \<le> unat (total_pages s)"
    using inv card_Un_disjoint [OF _ _ disj] by (simp add: pmm_inv_def)
  then have ft: "free_pages s \<le> total_pages s" by (simp add: word_nat)
  have D: "unat (U64_MAX div FRAME_SIZE) = 2 ^ 52 - 1" by (simp add: unat_div)
  have fD: "first \<le> U64_MAX div FRAME_SIZE" using f52 D by (simp add: word_nat)
  show "free_range_valid s first count"
    unfolding free_range_valid_def Let_def frame_bitmap_index_def
    using r inv f0 ft u fD tot last rng c1
    by (auto simp: pmm_inv_def list_all_iff frame_run_def not_le not_less word_nat
        unat_sub_no_wrap [OF f0(1)] unat_sub_no_wrap [OF ft] unat_sub_no_wrap [OF fD] D
        unat_sub_no_wrap)
qed

section \<open>Contiguous allocation\<close>

definition no_run :: "Pmm \<Rightarrow> u64 \<Rightarrow> nat \<Rightarrow> bool" where
  "no_run s count j \<longleftrightarrow> unat (g_bitmap_bits s) < j + unat count \<or>
     (\<exists>k. j \<le> k \<and> k < j + unat count \<and> bitmap_used s (of_nat k))"

definition taken_run :: "u64 \<Rightarrow> u64 \<Rightarrow> Pmm \<Rightarrow> Pmm" where
  "taken_run run_start count s =
     (fold (\<lambda>i. bitmap_set (run_start + i)) (upto_u64 count) s)
       \<lparr>free_pages := free_pages s - count,
        g_next_hint := (if run_start + count \<ge> g_bitmap_bits s then 0 else run_start + count)\<rparr>"

lemma alloc_pages_scan_cases:
  assumes "unat index + n = unat (g_bitmap_bits s)" and "run_length \<le> index"
    and "run_length \<noteq> 0 \<longrightarrow> run_start = index - run_length" and "run_length < count"
    and "\<forall>k. unat index - unat run_length \<le> k \<and> k < unat index \<longrightarrow> \<not> bitmap_used s (of_nat k)"
    and "\<forall>j < unat index - unat run_length. no_run s count j"
  shows "(\<exists>r. unat r + unat count \<le> unat (g_bitmap_bits s) \<and>
            (\<forall>k. unat r \<le> k \<and> k < unat r + unat count \<longrightarrow> \<not> bitmap_used s (of_nat k)) \<and>
            (\<forall>j < unat r. no_run s count j) \<and>
            pmm_alloc_scan n index run_start run_length count s =
              (frame_to_phys (g_base_frame s + r), taken_run r count s)) \<or>
         (pmm_alloc_scan n index run_start run_length count s = (0, s) \<and> (\<forall>j. no_run s count j))"
  using assms
proof (induction n arbitrary: index run_start run_length)
  case 0
  have "no_run s count j" for j
    using 0 by (cases "j < unat index - unat run_length") (auto simp: no_run_def word_nat)
  then show ?case by simp
next
  case (Suc n)
  have lt: "unat index < unat (g_bitmap_bits s)" using Suc.prems(1) by simp
  have i1: "unat (index + 1) = unat index + 1"
    by (rule unat_Suc_less [of _ "g_bitmap_bits s"]) (use lt in \<open>simp add: word_nat\<close>)
  have c: "unat run_length < unat count" using Suc.prems(4) by (simp add: word_nat)
  have rl: "unat run_length \<le> unat index" using Suc.prems(2) by (simp add: word_nat)
  show ?case
  proof (cases "bitmap_used s index")
    case True
    have "no_run s count j" if "j < unat index + 1" for j
    proof (cases "j < unat index - unat run_length")
      case False
      then have "j \<le> unat index \<and> unat index < j + unat count" using that c by linarith
      then show ?thesis using True by (auto simp: no_run_def unat_of_nat_u64_inv intro!: exI [of _ "unat index"])
    qed (use Suc.prems(6) in auto)
    then show ?thesis
      unfolding pmm_alloc_scan.simps if_P [OF True]
      by (intro Suc.IH) (use Suc.prems(1) c i1 in \<open>auto simp: word_nat\<close>)
  next
    case False
    define rs where "rs = (if run_length = 0 then index else run_start)"
    have l1: "unat (run_length + 1) = unat run_length + 1"
      by (rule unat_Suc_less [OF Suc.prems(4)])
    have rs: "rs = index - run_length" using Suc.prems(3) by (auto simp: rs_def)
    then have urs: "unat rs = unat index - unat run_length"
      using Suc.prems(2) by (simp add: unat_sub_no_wrap)
    have free: "\<not> bitmap_used s (of_nat k)"
      if "unat index - unat run_length \<le> k" "k < unat index + 1" for k
      using that Suc.prems(5) False by (cases "k = unat index") (auto simp: unat_of_nat_u64_inv)
    show ?thesis
    proof (cases "run_length + 1 < count")
      case True
      have "rs = index + 1 - (run_length + 1)" using rs by simp
      then show ?thesis
        unfolding pmm_alloc_scan.simps if_not_P [OF False] Let_def rs_def [symmetric] if_P [OF True]
        by (intro Suc.IH) (use Suc.prems(1,6) True i1 l1 rl free in \<open>auto simp: word_nat\<close>)
    next
      case ge: False
      then have cnt: "unat count = unat run_length + 1"
        using c l1 by (simp add: word_nat)
      then have "pmm_alloc_scan (Suc n) index run_start run_length count s =
          (frame_to_phys (g_base_frame s + rs), taken_run rs count s)"
        using False ge by (simp add: rs_def [symmetric] Let_def taken_run_def)
      moreover have "unat rs + unat count = unat index + 1" using urs cnt rl by simp
      ultimately show ?thesis
        using lt free urs Suc.prems(6) by (intro disjI1 exI [of _ rs]) auto
    qed
  qed
qed

lemma run_free_no_run:
  assumes inv: "pmm_inv s" and c: "count \<noteq> 0" and run: "frame_run f count \<subseteq> free_frames s"
  shows "g_base_frame s \<le> f" and "\<not> no_run s count (unat (f - g_base_frame s))"
proof -
  let ?b = "g_base_frame s" and ?n = "g_bitmap_bits s"
  have rng: "unat ?b + unat ?n < 2 ^ 52" using inv by (simp add: pmm_inv_def)
  have mem: "f + k \<in> free_frames s" if "k < count" for k
    using run that by (auto simp: frame_run_def)
  then have span: "?b \<le> f + k \<and> f + k - ?b < ?n" if "k < count" for k
    using that by (simp add: free_frames_def)
  have c0: "0 < count" using c by (simp add: word_neq_0_conv)
  show b: "?b \<le> f" using span [OF c0] by simp
  have ufb: "unat (f - ?b) = unat f - unat ?b" "unat ?b \<le> unat f"
    using b by (simp_all add: unat_sub_no_wrap word_nat)
  have c1: "unat (count - 1) = unat count - 1" "0 < unat count"
    using c0 by (simp_all add: word_nat unat_sub_no_wrap)
  have "unat f + unat (count - 1) < unat ?b + unat ?n"
    by (rule run_span [where count = count, OF rng span])
      (assumption, unfold word_nat, use c1 in linarith)
  then have end_le: "unat (f - ?b) + unat count \<le> unat ?n"
    using ufb c1 by linarith
  have "\<not> bitmap_used s (of_nat k)"
    if k: "unat (f - ?b) \<le> k" "k < unat (f - ?b) + unat count" for k
  proof -
    let ?i = "of_nat (k - unat (f - ?b)) :: u64"
    have ui: "unat ?i = k - unat (f - ?b)"
      by (rule unat_of_nat_less_u64 [of _ count]) (use k in linarith)
    then have "?i < count" using k by (simp add: word_nat)
    from mem [OF this] have "\<not> bitmap_used s (f + ?i - ?b)" by (simp add: free_frames_def)
    moreover have "f + ?i - ?b = of_nat k"
    proof -
      have "f - ?b + ?i = of_nat (unat (f - ?b) + (k - unat (f - ?b)))"
        by (simp only: of_nat_add unat_of_nat_u64_inv)
      then show ?thesis using k(1) by (simp only: diff_add_eq) simp
    qed
    ultimately show ?thesis by metis
  qed
  then show "\<not> no_run s count (unat (f - ?b))"
    using end_le by (auto simp: no_run_def not_less)
qed

lemma frame_to_phys_unat:
  assumes "unat f < 2 ^ 52"
  shows "unat (frame_to_phys f) = unat f * 4096"
proof -
  have "f \<noteq> FRAME_INVALID" using assms by auto
  moreover have "\<not> f > U64_MAX div FRAME_SIZE" using assms by (simp add: word_nat unat_div not_less)
  ultimately show ?thesis
    using assms by (simp add: frame_to_phys_def unat_mult_no_wrap)
qed

lemma phys_to_frame_frame_to_phys:
  assumes "unat f < 2 ^ 52"
  shows "phys_to_frame (frame_to_phys f) = f"
proof -
  have "unat (frame_to_phys f AND 4095) = 0"
    using u64_and_mask_unat [of "frame_to_phys f" 12] frame_to_phys_unat [OF assms]
    by (simp add: mask_eq_exp_minus_1)
  then have "frame_to_phys f AND 4095 = 0" by (simp add: unat_eq_zero)
  moreover have "unat (frame_to_phys f div 4096) = unat f"
    using frame_to_phys_unat [OF assms] by (simp add: unat_div)
  ultimately show ?thesis by (simp add: phys_to_frame_def u64_eq_unat)
qed

lemma free_frame_range:
  assumes "pmm_inv s" and "f \<in> free_frames s"
  shows "256 \<le> unat f" and "unat f < 2 ^ 52"
proof -
  have b: "g_base_frame s \<le> f" "f - g_base_frame s < g_bitmap_bits s"
    using assms(2) by (simp_all add: free_frames_def)
  then have "unat f < unat (g_base_frame s) + unat (g_bitmap_bits s)"
    by (simp add: word_nat unat_sub_no_wrap)
  then show "256 \<le> unat f" and "unat f < 2 ^ 52"
    using assms(1) b(1) by (simp_all add: pmm_inv_def word_nat)
qed

lemma taken_run_ok:
  assumes inv: "pmm_inv s" and c: "count \<noteq> 0"
    and r: "unat r + unat count \<le> unat (g_bitmap_bits s)"
    and free: "\<forall>k. unat r \<le> k \<and> k < unat r + unat count \<longrightarrow> \<not> bitmap_used s (of_nat k)"
  shows "pmm_inv (taken_run r count s)"
    and "free_frames (taken_run r count s) = free_frames s - frame_run (g_base_frame s + r) count"
    and "frame_run (g_base_frame s + r) count \<subseteq> free_frames s"
proof -
  let ?I = "(\<lambda>k. r + k) ` {k. k < count}"
  let ?t = "fold (\<lambda>i. bitmap_set (r + i)) (upto_u64 count) s"
  let ?hint = "if r + count \<ge> g_bitmap_bits s then 0 else r + count"
  have b: "bytes_only s ?t" by (rule bytes_only_fold) simp
  have used: "bitmap_used ?t j \<longleftrightarrow> j \<in> ?I \<or> bitmap_used s j" for j
    by (simp add: fold_bitmap_set)
  have run: "frame_run (g_base_frame s + r) count = (\<lambda>j. g_base_frame s + j) ` ?I"
    by (rule frame_run_shift)
  have I: "i < g_bitmap_bits s \<and> \<not> bitmap_used s i" if i: "i \<in> ?I" for i
  proof -
    from i obtain k where k: "k < count" "i = r + k" by auto
    have "unat r + unat k < unat (g_bitmap_bits s)" using r k(1) by (simp add: word_nat)
    moreover from this have "unat i = unat r + unat k"
      unfolding k(2) using unat_u64_bound [of "g_bitmap_bits s"] by (intro unat_add_no_wrap) linarith
    ultimately show ?thesis
      using free [rule_format, of "unat i"] k by (simp add: word_nat unat_of_nat_u64_inv)
  qed
  have n: "unat count = card ?I"
    by (simp add: card_image inj_on_def card_less_u64)
  have h: "?hint < g_bitmap_bits s"
    using inv by (auto simp: pmm_inv_def word_neq_0_conv [symmetric])
  have rng: "unat (g_base_frame s) + unat (g_bitmap_bits s) < 2 ^ 52"
    using inv by (simp add: pmm_inv_def)
  note take = pmm_inv_take [OF inv b used I n h]
  show "pmm_inv (taken_run r count s)" unfolding taken_run_def by (rule take(1))
  show "free_frames (taken_run r count s) = free_frames s - frame_run (g_base_frame s + r) count"
    unfolding taken_run_def run using take(2) by simp
  show "frame_run (g_base_frame s + r) count \<subseteq> free_frames s"
    unfolding run using I frame_index_range(2) [OF rng] by (auto simp: free_frames_def)
qed

lemma pmm_alloc_pages_cases:
  assumes inv: "pmm_inv s" and al: "pmm_alloc_pages s count = (p, s')"
  shows "(p = 0 \<and> s' = s \<and> (count = 0 \<or> (\<forall>f. \<not> frame_run f count \<subseteq> free_frames s))) \<or>
    (count \<noteq> 0 \<and> (\<exists>f. p = frame_to_phys f \<and> p \<noteq> 0 \<and> frame_run f count \<subseteq> free_frames s \<and>
       (\<forall>g < f. \<not> frame_run g count \<subseteq> free_frames s) \<and>
       free_frames s' = free_frames s - frame_run f count \<and> pmm_inv s'))"
proof (cases "count = 0 \<or> count > free_pages s \<or> count > g_bitmap_bits s")
  case True
  have "\<not> frame_run f count \<subseteq> free_frames s" if c: "count \<noteq> 0" for f
  proof
    assume run: "frame_run f count \<subseteq> free_frames s"
    have "unat count \<le> unat (free_pages s)"
      using card_mono [OF _ run] inv by (simp add: pmm_inv_def)
    moreover have "unat count \<le> unat (g_bitmap_bits s)"
      using run_free_no_run(2) [OF inv c run] by (simp add: no_run_def)
    ultimately show False using True c by (auto simp: word_nat)
  qed
  then show ?thesis using True al by (auto simp: pmm_alloc_pages_def)
next
  case False
  then have c: "count \<noteq> 0" by simp
  have scan: "pmm_alloc_scan (unat (g_bitmap_bits s)) 0 0 0 count s = (p, s')"
    using al False inv by (simp add: pmm_alloc_pages_def pmm_inv_def)
  have none: "\<not> frame_run g count \<subseteq> free_frames s" if "no_run s count (unat (g - g_base_frame s))" for g
    using run_free_no_run(2) [OF inv c] that by auto
  have "0 < count" using c by (simp add: word_neq_0_conv)
  then consider (hit) r where "unat r + unat count \<le> unat (g_bitmap_bits s)"
      "\<forall>k. unat r \<le> k \<and> k < unat r + unat count \<longrightarrow> \<not> bitmap_used s (of_nat k)"
      "\<forall>j < unat r. no_run s count j" "p = frame_to_phys (g_base_frame s + r)"
      "s' = taken_run r count s"
    | (miss) "p = 0" "s' = s" "\<forall>j. no_run s count j"
    using alloc_pages_scan_cases [of 0 "unat (g_bitmap_bits s)" s 0 0 count] scan by auto
  then show ?thesis
  proof cases
    case hit
    let ?f = "g_base_frame s + r"
    note taken = taken_run_ok [OF inv c hit(1,2)]
    have "?f \<in> free_frames s" using taken(3) \<open>0 < count\<close> by (auto simp: frame_run_def)
    from free_frame_range [OF inv this] have "unat p \<noteq> 0"
      unfolding hit(4) by (subst frame_to_phys_unat) simp_all
    moreover have "\<not> frame_run g count \<subseteq> free_frames s" if "g < ?f" for g
    proof
      assume run: "frame_run g count \<subseteq> free_frames s"
      have b: "g_base_frame s \<le> g" by (rule run_free_no_run(1) [OF inv c run])
      have "unat ?f \<le> unat (g_base_frame s) + unat r" by (simp add: unat_word_ariths)
      then have "unat (g - g_base_frame s) < unat r"
        using that b unfolding unat_sub_no_wrap [OF b] word_nat by linarith
      then show False using hit(3) none run by blast
    qed
    ultimately show ?thesis using taken c hit(4,5) by auto
  next
    case miss
    then show ?thesis using none by blast
  qed
qed

section \<open>The allocator's contract\<close>

text \<open>
  What the page tables and the kernel stacks rely on: an allocated frame was available and no
  longer is, an allocation fails only when nothing is available and then changes nothing, a
  release makes an allocated frame available again. The client keeps a set of frames it owns.
\<close>

locale frame_allocator =
  fixes alloc :: "'s \<Rightarrow> frame_t \<times> 's"
    and free :: "'s \<Rightarrow> frame_t \<Rightarrow> bool \<times> 's"
    and avail :: "'s \<Rightarrow> frame_t set"
    and inv :: "'s \<Rightarrow> bool"
  assumes alloc_inv: "inv s \<Longrightarrow> alloc s = (f, s') \<Longrightarrow> inv s'"
    and alloc_fail: "inv s \<Longrightarrow> alloc s = (FRAME_INVALID, s') \<Longrightarrow> avail s = {} \<and> s' = s"
    and alloc_take: "inv s \<Longrightarrow> alloc s = (f, s') \<Longrightarrow> f \<noteq> FRAME_INVALID \<Longrightarrow>
          f \<in> avail s \<and> avail s' = avail s - {f}"
    and free_inv: "inv s \<Longrightarrow> free s f = (b, s') \<Longrightarrow> inv s'"
    and free_give: "inv s \<Longrightarrow> free s f = (True, s') \<Longrightarrow> f \<notin> avail s \<and> avail s' = insert f (avail s)"
    and free_fail: "inv s \<Longrightarrow> free s f = (False, s') \<Longrightarrow> avail s' = avail s"
    and avail_small: "inv s \<Longrightarrow> f \<in> avail s \<Longrightarrow> unat f < 2 ^ 52 \<and> 256 \<le> unat f"
begin

lemma alloc_owned:
  assumes "inv s" and "alloc s = (f, s')" and "f \<noteq> FRAME_INVALID" and "owned \<inter> avail s = {}"
  shows "f \<notin> owned" and "insert f owned \<inter> avail s' = {}"
  using alloc_take [OF assms(1-3)] assms(4) by auto

lemma free_owned:
  assumes "inv s" and "free s f = (b, s')" and "owned \<inter> avail s = {}"
  shows "(owned - {f}) \<inter> avail s' = {}"
  using free_give [OF assms(1), of f s'] free_fail [OF assms(1), of f s'] assms(2,3) by (cases b) auto

lemma double_free:
  assumes "inv s" and "f \<in> avail s" and "free s f = (b, s')"
  shows "\<not> b"
  using free_give [OF assms(1), of f s'] assms(2,3) by (cases b) auto

lemma alloc_antimono:
  assumes "inv s" and "alloc s = (f, s')"
  shows "avail s' \<subseteq> avail s"
  using alloc_fail [OF assms(1), of s'] alloc_take [OF assms] assms(2)
  by (cases "f = FRAME_INVALID") auto
end

lemma frame_alloc_inv:
  assumes "pmm_inv s" and "frame_alloc s = (f, s')"
  shows "pmm_inv s'"
  using frame_alloc_none [OF assms(1), of s'] frame_alloc_some(3) [OF assms] assms by auto

lemma frame_free_range_inv:
  assumes inv: "pmm_inv s" and fr: "frame_free_range s first count = (b, s')"
  shows "pmm_inv s'" and "\<not> b \<Longrightarrow> free_frames s' = free_frames s"
proof -
  show "pmm_inv s'"
  proof (cases b)
    case True
    then show ?thesis using frame_free_range_ok(1) [OF inv] fr by simp
  next
    case False
    then show ?thesis
      using frame_free_range_false [of s first count s'] fr inv frame_free_range_armed by auto
  qed
  show "free_frames s' = free_frames s" if "\<not> b"
    using frame_free_range_false [of s first count s'] fr that by auto
qed

interpretation pmm: frame_allocator frame_alloc frame_free free_frames pmm_inv
proof unfold_locales
  fix s s' f b
  assume inv: "pmm_inv s"
  show "frame_alloc s = (f, s') \<Longrightarrow> pmm_inv s'" by (rule frame_alloc_inv [OF inv])
  show "frame_alloc s = (FRAME_INVALID, s') \<Longrightarrow> free_frames s = {} \<and> s' = s"
    by (rule frame_alloc_none [OF inv])
  show "frame_alloc s = (f, s') \<Longrightarrow> f \<noteq> FRAME_INVALID \<Longrightarrow>
      f \<in> free_frames s \<and> free_frames s' = free_frames s - {f}"
    using frame_alloc_some [OF inv] by blast
  show "frame_free s f = (b, s') \<Longrightarrow> pmm_inv s'"
    unfolding frame_free_def by (rule frame_free_range_inv(1) [OF inv])
  show "frame_free s f = (True, s') \<Longrightarrow> f \<notin> free_frames s \<and> free_frames s' = insert f (free_frames s)"
    using frame_free_range_ok [OF inv, of f 1 s'] by (simp add: frame_free_def)
  show "frame_free s f = (False, s') \<Longrightarrow> free_frames s' = free_frames s"
    using frame_free_range_inv(2) [OF inv, of f 1 False s'] unfolding frame_free_def by simp
  show "f \<in> free_frames s \<Longrightarrow> unat f < 2 ^ 52 \<and> 256 \<le> unat f"
    using free_frame_range [OF inv] by simp
qed

lemma alloc_scan_frame:
  "frame_alloc_scan n i s = (f, s') \<Longrightarrow>
     frame_managed s' = frame_managed s \<and> frame_is_bitmap s' = frame_is_bitmap s \<and>
     g_free_fault_armed s' = g_free_fault_armed s"
  by (induction n arbitrary: i) (auto simp: Let_def bitmap_set_def split: if_splits)

lemma frame_alloc_frame:
  "frame_alloc s = (f, s') \<Longrightarrow>
     frame_managed s' = frame_managed s \<and> frame_is_bitmap s' = frame_is_bitmap s \<and>
     g_free_fault_armed s' = g_free_fault_armed s"
  by (auto simp: frame_alloc_def dest: alloc_scan_frame split: if_splits)

section \<open>Properties\<close>

text \<open>C14. \<^verbatim>\<open>frame_alloc\<close> fails exactly when no frame is free, and then changes nothing;
  otherwise it returns a free, managed frame that is not part of the bitmap, takes that one frame
  and no other, and keeps the invariant (the counters agree with the bitmap).\<close>

theorem frame_alloc_correct:
  assumes "pmm_inv s" and "frame_alloc s = (f, s')"
  shows "pmm_inv s' \<and> (f = FRAME_INVALID \<longleftrightarrow> free_frames s = {}) \<and>
    (if f = FRAME_INVALID then s' = s
     else f \<in> free_frames s \<and> frame_managed s f \<and> \<not> frame_is_bitmap s f \<and>
          free_frames s' = free_frames s - {f})"
proof (cases "f = FRAME_INVALID")
  case True
  then show ?thesis using frame_alloc_none [OF assms(1)] assms by simp
next
  case False
  note some = frame_alloc_some [OF assms False]
  then have "frame_managed s f \<and> \<not> frame_is_bitmap s f" using assms(1) by (auto simp: pmm_inv_def)
  then show ?thesis using some False by auto
qed

text \<open>C15. \<^verbatim>\<open>frame_free_range\<close> is all or nothing: unless the diagnostic fault is armed for
  this very range, it succeeds exactly for a non-empty run of managed, allocated frames outside
  the bitmap, and then frees all of them; when it fails, no frame changes hands.\<close>

theorem frame_free_range_correct:
  assumes "pmm_inv s" and "frame_free_range s first count = (b, s')"
  shows "pmm_inv s' \<and>
    (b \<longleftrightarrow> \<not> (g_free_fault_armed s \<and> first = g_free_fault_first s \<and> count = g_free_fault_count s) \<and>
       count \<noteq> 0 \<and> (\<forall>f \<in> frame_run first count.
         frame_managed s f \<and> \<not> frame_is_bitmap s f \<and> f \<notin> free_frames s)) \<and>
    free_frames s' = (if b then free_frames s \<union> frame_run first count else free_frames s)"
proof -
  have "b \<longleftrightarrow> free_range_valid s first count \<and>
      \<not> (g_free_fault_armed s \<and> first = g_free_fault_first s \<and> count = g_free_fault_count s)"
    using assms(2) by (auto simp: frame_free_range_def Let_def split: if_splits)
  moreover have "free_frames s' = (if b then free_frames s \<union> frame_run first count else free_frames s)"
    using frame_free_range_ok(2) [OF assms(1), of first count s'] frame_free_range_inv(2) [OF assms]
      assms(2) by auto
  ultimately show ?thesis
    using frame_free_range_inv(1) [OF assms] free_range_valid_iff [OF assms(1)] by auto
qed

text \<open>C18. While no diagnostic fault is armed for \<^verbatim>\<open>frame_free_range\<close>, a frame just allocated can be
  released: the set of free frames is the one before the allocation, and releasing the frame a
  second time is refused and changes nothing.\<close>

theorem frame_alloc_free_roundtrip:
  assumes "pmm_inv s" and "frame_alloc s = (f, s1)" and "f \<noteq> FRAME_INVALID"
    and "\<not> g_free_fault_armed s"
  shows "\<exists>s2. frame_free s1 f = (True, s2) \<and> pmm_inv s2 \<and> free_frames s2 = free_frames s \<and>
    frame_free s2 f = (False, s2)"
proof -
  note some = frame_alloc_some [OF assms(1-3)]
  have same: "frame_managed s1 = frame_managed s" "frame_is_bitmap s1 = frame_is_bitmap s"
    "\<not> g_free_fault_armed s1"
    using frame_alloc_frame [OF assms(2)] assms(4) by auto
  have "free_range_valid s1 f 1"
    using some assms(1) same by (auto simp: free_range_valid_iff pmm_inv_def)
  then obtain s2 where s2: "frame_free s1 f = (True, s2)"
    using same(3) by (simp add: frame_free_def frame_free_range_def Let_def)
  have ok: "pmm_inv s2" "free_frames s2 = insert f (free_frames s1)"
    using pmm.free_inv [OF some(3) s2] pmm.free_give [OF some(3) s2] by auto
  then have "\<not> free_range_valid s2 f 1" by (simp add: free_range_valid_iff)
  then have "frame_free s2 f = (False, s2)" by (simp add: frame_free_def frame_free_range_def)
  then show ?thesis using s2 ok some by auto
qed

text \<open>C16. \<^verbatim>\<open>pmm_alloc_pages\<close> is first fit over contiguous runs: it returns 0 exactly
  when no run of the requested length is free (or the length is 0), and then changes nothing;
  otherwise the address is that of the lowest such run, whose frames are exactly the ones taken.\<close>

theorem pmm_alloc_pages_correct:
  assumes "pmm_inv s" and "pmm_alloc_pages s count = (p, s')"
  shows "pmm_inv s' \<and>
    (p = 0 \<longleftrightarrow> count = 0 \<or> (\<forall>f. \<not> frame_run f count \<subseteq> free_frames s)) \<and>
    (p = 0 \<longrightarrow> s' = s) \<and>
    (p \<noteq> 0 \<longrightarrow> p = frame_to_phys (phys_to_frame p) \<and>
       frame_run (phys_to_frame p) count \<subseteq> free_frames s \<and>
       (\<forall>g < phys_to_frame p. \<not> frame_run g count \<subseteq> free_frames s) \<and>
       free_frames s' = free_frames s - frame_run (phys_to_frame p) count)"
  using pmm_alloc_pages_cases [OF assms]
proof (elim disjE conjE exE)
  fix f
  assume c: "count \<noteq> 0" and p: "p = frame_to_phys f" "p \<noteq> 0" "frame_run f count \<subseteq> free_frames s"
    "\<forall>g < f. \<not> frame_run g count \<subseteq> free_frames s"
    "free_frames s' = free_frames s - frame_run f count" "pmm_inv s'"
  have "f \<in> frame_run f count" using c by (auto simp: frame_run_def word_neq_0_conv)
  then have "phys_to_frame p = f"
    using p free_frame_range(2) [OF assms(1)] phys_to_frame_frame_to_phys by blast
  then show ?thesis using c p by auto
qed (use assms in auto)

text \<open>C19. Physical addresses and frame numbers: every frame number below \<open>2\<^sup>5\<^sup>2\<close> survives
  the trip through its address, every aligned address survives the trip through its frame, and
  an address that is not page aligned has no frame.\<close>

theorem frame_phys_roundtrip:
  "(unat f < 2 ^ 52 \<longrightarrow> phys_to_frame (frame_to_phys f) = f) \<and>
   (unat p mod 4096 = 0 \<longrightarrow> frame_to_phys (phys_to_frame p) = p) \<and>
   (unat p mod 4096 \<noteq> 0 \<longrightarrow> phys_to_frame p = FRAME_INVALID)"
proof (intro conjI impI)
  show "phys_to_frame (frame_to_phys f) = f" if "unat f < 2 ^ 52"
    by (rule phys_to_frame_frame_to_phys [OF that])
  have and_mod: "unat (p AND 4095) = unat p mod 4096"
    using u64_and_mask_unat [of p 12] by (simp add: mask_eq_exp_minus_1)
  show "phys_to_frame p = FRAME_INVALID" if "unat p mod 4096 \<noteq> 0"
    using that and_mod by (auto simp: phys_to_frame_def)
  show "frame_to_phys (phys_to_frame p) = p" if al: "unat p mod 4096 = 0"
  proof -
    have p: "phys_to_frame p = p div 4096"
      using al and_mod by (simp add: phys_to_frame_def unat_eq_zero)
    have u: "unat (p div 4096) = unat p div 4096" by (simp add: unat_div)
    moreover have "unat p div 4096 < 2 ^ 52"
      by (intro less_mult_imp_div_less) simp
    ultimately have "unat (frame_to_phys (p div 4096)) = unat p div 4096 * 4096"
      using frame_to_phys_unat [of "p div 4096"] by simp
    then show ?thesis unfolding p u64_eq_unat using al by (simp add: mod_eq_0_iff_dvd)
  qed
qed

section \<open>A concrete allocator\<close>

text \<open>Four frames from 256 on; frame 256 holds the bitmap.\<close>

definition demo_pmm :: Pmm where
  "demo_pmm =
     \<lparr>g_ranges = [\<lparr>range_first = 256, range_end = 260\<rparr>], total_pages = 4, free_pages = 3,
      bitmap_physical = 0x100000, bitmap_pages = 1, discarded_ranges = 0, g_bitmap = 0x100000,
      bitmap_bytes = (\<lambda>_. 0xF1), g_base_frame = 256, g_bitmap_bits = 4,
      g_bitmap_first_frame = 256, g_bitmap_page_count = 1, g_next_hint = 0,
      pmm_initialized = True, pmm_use_phys_map = False, g_free_fault_armed = False,
      g_free_fault_first = 0, g_free_fault_count = 0\<rparr>"

lemma demo_span: "256 \<le> f \<and> f - 256 < 4 \<longleftrightarrow> f \<in> {256, 257, 258, 259 :: u64}"
proof -
  have "256 \<le> f \<and> f - 256 < 4 \<longleftrightarrow> 256 \<le> unat f \<and> unat f < 260"
    by (auto simp: word_nat unat_sub_no_wrap)
  also have "\<dots> \<longleftrightarrow> unat f \<in> {256, 257, 258, 259}" by auto
  also have "\<dots> \<longleftrightarrow> f \<in> {256, 257, 258, 259}" by (auto simp: u64_eq_unat)
  finally show ?thesis .
qed

lemma demo_free: "free_frames demo_pmm = {257, 258, 259}"
proof -
  have mem: "f \<in> free_frames demo_pmm \<longleftrightarrow> f \<in> {256, 257, 258, 259} \<and> \<not> bitmap_used demo_pmm (f - 256)" for f
    unfolding demo_span [symmetric] by (simp add: free_frames_def demo_pmm_def)
  have bits: "\<not> bitmap_used demo_pmm 1" "\<not> bitmap_used demo_pmm 2" "\<not> bitmap_used demo_pmm 3"
    "bitmap_used demo_pmm 0"
    by (simp_all add: bitmap_used_def bitmap_mask_def demo_pmm_def)
  show ?thesis
    by (rule set_eqI, unfold mem)
      (case_tac "x = 256"; case_tac "x = 257"; case_tac "x = 258"; case_tac "x = 259"; simp add: bits)
qed

lemma demo_managed: "frame_managed demo_pmm f \<longleftrightarrow> f \<in> {256, 257, 258, 259}"
  unfolding demo_span [symmetric]
  by (auto simp: frame_managed_def demo_pmm_def word_nat unat_sub_no_wrap)

lemma demo_inv: "pmm_inv demo_pmm"
proof -
  have "managed_frames demo_pmm = {256, 257, 258, 259}"
    by (auto simp: managed_frames_def demo_managed)
  moreover have "\<not> frame_is_bitmap demo_pmm f" if "f \<in> {257, 258, 259}" for f
    using that by (auto simp: frame_is_bitmap_def demo_pmm_def)
  moreover have "g_base_frame demo_pmm \<le> f \<and> f - g_base_frame demo_pmm < g_bitmap_bits demo_pmm"
    if "f \<in> {256, 257, 258, 259}" for f
    using that demo_span [of f] by (simp add: demo_pmm_def)
  ultimately show ?thesis
    unfolding pmm_inv_def demo_free using demo_managed by (simp add: demo_pmm_def)
qed

lemmas scan_numeral =
  frame_alloc_scan.simps(2) [of "pred_numeral k" for k, folded numeral_eq_Suc]
  pmm_alloc_scan.simps(2) [of "pred_numeral k" for k, folded numeral_eq_Suc]

lemma demo_alloc: "fst (frame_alloc demo_pmm) = 257"
  by (simp add: frame_alloc_def demo_pmm_def Let_def bitmap_used_def bitmap_mask_def scan_numeral)
    (simp add: word_nat)

theorem frame_alloc_correct_witness:
  "\<exists>s'. frame_alloc demo_pmm = (257, s') \<and> pmm_inv s' \<and> free_frames s' = {258, 259}"
proof -
  obtain s' where s': "frame_alloc demo_pmm = (257, s')"
    using demo_alloc by (cases "frame_alloc demo_pmm") simp
  from frame_alloc_correct [OF demo_inv s'] show ?thesis
    using s' demo_free by auto
qed

theorem frame_free_range_correct_witness:
  "\<exists>s'. frame_free_range demo_pmm 256 2 = (False, s') \<and> pmm_inv s' \<and> free_frames s' = {257, 258, 259}"
proof -
  obtain b s' where s': "frame_free_range demo_pmm 256 2 = (b, s')" by fastforce
  have "257 \<in> frame_run 256 2" unfolding frame_run_def by (rule image_eqI [of _ _ 1]) simp_all
  then show ?thesis
    using frame_free_range_correct [OF demo_inv s'] s' demo_free by auto
qed

theorem frame_alloc_free_roundtrip_witness:
  "\<exists>s1 s2. frame_alloc demo_pmm = (257, s1) \<and> frame_free s1 257 = (True, s2) \<and>
     free_frames s2 = {257, 258, 259} \<and> frame_free s2 257 = (False, s2)"
proof -
  obtain s1 where s1: "frame_alloc demo_pmm = (257, s1)"
    using demo_alloc by (cases "frame_alloc demo_pmm") simp
  from frame_alloc_free_roundtrip [OF demo_inv s1] show ?thesis
    using s1 demo_free by (auto simp: demo_pmm_def)
qed

theorem pmm_alloc_pages_correct_witness:
  "\<exists>s'. pmm_alloc_pages demo_pmm 2 = (0x101000, s') \<and> pmm_inv s' \<and> free_frames s' = {259}"
proof -
  obtain s' where s': "pmm_alloc_pages demo_pmm 2 = (0x101000, s')"
    by (simp add: pmm_alloc_pages_def demo_pmm_def Let_def bitmap_used_def bitmap_mask_def
        scan_numeral frame_to_phys_def)
  have "frame_run 257 2 = {257, 258}"
  proof -
    have "{i::u64. i < 2} = {0, 1}" by (auto simp: word_nat u64_eq_unat)
    then show ?thesis by (auto simp: frame_run_def)
  qed
  then show ?thesis
    using pmm_alloc_pages_correct [OF demo_inv s'] s' demo_free by (auto simp: phys_to_frame_def)
qed

theorem frame_phys_roundtrip_witness:
  "phys_to_frame (frame_to_phys 257) = 257 \<and> frame_to_phys (phys_to_frame 0x101000) = 0x101000 \<and>
   phys_to_frame 0x101001 = FRAME_INVALID"
  using frame_phys_roundtrip [where f = 257 and p = "0x101000"]
    frame_phys_roundtrip [where f = 257 and p = "0x101001"] by simp

end
