(* ===== verification/PMM_Init.thy ===== *)
theory PMM_Init
  imports PMM
begin

text \<open>
  What \<^verbatim>\<open>pmm_init\<close> of \<^verbatim>\<open>kernel/pmm.c\<close> builds from the firmware's memory map: the
  collecting loop ends, keeps exactly the usable frames of the descriptors, and the bitmap
  built from them satisfies the allocator's invariant.
\<close>

section \<open>Collecting the ranges\<close>

lemma align_down_unat: "unat (align_down_page v) = unat v div 4096 * 4096"
  using u64_and_not_mask_unat [of v 12] by (simp add: align_down_page_def mask_eq_exp_minus_1)

lemma align_up_Some:
  "align_up_page v = Some a \<longleftrightarrow>
     unat v + 4095 < 18446744073709551616 \<and> unat a = (unat v + 4095) div 4096 * 4096"
proof -
  have g: "\<not> v > U64_MAX - (FRAME_SIZE - 1) \<longleftrightarrow> unat v + 4095 < 18446744073709551616"
    by (auto simp: word_nat not_less unat_sub_no_wrap)
  have e: "v + FRAME_SIZE - 1 = v + 4095" by (simp add: algebra_simps)
  show ?thesis
  proof (cases "unat v + 4095 < 18446744073709551616")
    case True
    then have "unat (v + 4095) = unat v + 4095" by (subst unat_add_no_wrap) simp_all
    then have "unat (v + 4095 AND NOT 4095) = (unat v + 4095) div 4096 * 4096"
      using u64_and_not_mask_unat [of "v + 4095" 12] by (simp add: mask_eq_exp_minus_1)
    then show ?thesis
      using True g unfolding align_up_page_def e by (auto simp: u64_eq_unat)
  next
    case False
    then show ?thesis using g by (auto simp: align_up_page_def)
  qed
qed

lemma phys_to_frame_aligned:
  assumes "unat p = k * 4096"
  shows "phys_to_frame p \<noteq> FRAME_INVALID" and "unat (phys_to_frame p) = k"
proof -
  have "unat (p AND 4095) = 0"
    using u64_and_mask_unat [of p 12] assms by (simp add: mask_eq_exp_minus_1)
  then have e: "phys_to_frame p = p div 4096" by (simp add: phys_to_frame_def unat_eq_zero)
  show u: "unat (phys_to_frame p) = k" using assms by (simp add: e unat_div)
  have "k < 18446744073709551615" using unat_u64_bound [of p] assms by linarith
  then show "phys_to_frame p \<noteq> FRAME_INVALID" using u by auto
qed

definition range_frames :: "PmmRange \<Rightarrow> frame_t set" where
  "range_frames r = {f. range_first r \<le> f \<and> f < range_end r}"

text \<open>
  What a descriptor offers, read off the documentation of the memory map: the whole frames
  of a conventional region that fits into the address space, without the first MiB.
\<close>

definition desc_frames :: "BootMemoryDescriptor \<Rightarrow> frame_t set" where
  "desc_frames d =
     {f. desc_type d = EFI_CONVENTIONAL_MEMORY \<and> 0x100000 \<le> unat f * 4096 \<and>
         unat (physical_start d) + unat (number_of_pages d) * 4096 < 2 ^ 64 \<and>
         unat (physical_start d) \<le> unat f * 4096 \<and>
         unat f * 4096 + 4096 \<le> unat (physical_start d) + unat (number_of_pages d) * 4096}"

lemma desc_frames_range:
  assumes "desc_type d = EFI_CONVENTIONAL_MEMORY"
    and "unat (physical_start d) + unat (number_of_pages d) * 4096 < 2 ^ 64"
    and "unat f = max 256 ((unat (physical_start d) + 4095) div 4096)"
    and "unat l = (unat (physical_start d) + unat (number_of_pages d) * 4096) div 4096"
  shows "desc_frames d = {x. f \<le> x \<and> x < l}"
proof -
  have "unat f \<le> x \<longleftrightarrow> 0x100000 \<le> x * 4096 \<and> unat (physical_start d) \<le> x * 4096" for x
    unfolding assms(3) by auto
  moreover have "x < unat l \<longleftrightarrow>
      x * 4096 + 4096 \<le> unat (physical_start d) + unat (number_of_pages d) * 4096" for x
    unfolding assms(4) by auto
  ultimately show ?thesis
    using assms(1,2) by (auto simp: desc_frames_def word_nat)
qed

lemma add_descriptor_cases:
  "(desc_frames d = {} \<and> pmm_add_descriptor d s = s) \<or>
   (\<exists>f l. 256 \<le> unat f \<and> f < l \<and> unat l < 2 ^ 52 \<and> desc_frames d = {x. f \<le> x \<and> x < l} \<and>
      pmm_add_descriptor d s = pmm_add_range f l s)"
proof (cases "desc_type d = EFI_CONVENTIONAL_MEMORY \<and> number_of_pages d \<noteq> 0 \<and>
      unat (physical_start d) + unat (number_of_pages d) * 4096 < 2 ^ 64")
  case False
  have "\<not> number_of_pages d > U64_MAX div FRAME_SIZE \<Longrightarrow>
     unat (number_of_pages d * FRAME_SIZE) = unat (number_of_pages d) * 4096"
    by (simp add: unat_mult_no_wrap word_nat not_less unat_div)
  then have "pmm_add_descriptor d s = s"
    using False
    by (auto simp: pmm_add_descriptor_def Let_def word_nat not_less unat_sub_no_wrap)
  moreover have "desc_frames d = {}"
    using False by (auto simp: desc_frames_def unat_eq_zero)
  ultimately show ?thesis by simp
next
  case True
  let ?P = "unat (physical_start d)" and ?N = "unat (number_of_pages d)"
  define bytes where "bytes = number_of_pages d * FRAME_SIZE"
  have N: "0 < ?N" using True by (simp add: unat_gt_0)
  have le: "\<not> number_of_pages d > U64_MAX div FRAME_SIZE"
    using True by (simp add: word_nat unat_div)
  have bytes: "unat bytes = ?N * 4096"
    using True by (simp add: bytes_def unat_mult_no_wrap)
  have fits: "\<not> physical_start d > U64_MAX - bytes"
    using True bytes by (auto simp: word_nat unat_sub_no_wrap)
  have raw: "unat (physical_start d + bytes) = ?P + ?N * 4096"
    using True bytes by (subst unat_add_no_wrap) simp_all
  have up: "?P + 4095 < 18446744073709551616" using True N by simp
  then have "align_up_page (physical_start d) \<noteq> None"
    by (auto simp: align_up_page_def word_nat unat_sub_no_wrap)
  then obtain a where a: "align_up_page (physical_start d) = Some a" by blast
  then have ua: "unat a = (?P + 4095) div 4096 * 4096" by (simp add: align_up_Some)
  define start where "start = (if a < MIN_USABLE_ADDRESS then MIN_USABLE_ADDRESS else a)"
  define stop where "stop = align_down_page (physical_start d + bytes)"
  have us: "unat start = max 256 ((?P + 4095) div 4096) * 4096"
    using ua by (auto simp: start_def word_nat max_def)
  have ue: "unat stop = (?P + ?N * 4096) div 4096 * 4096"
    unfolding stop_def align_down_unat raw ..
  note f = phys_to_frame_aligned [OF us] and l = phys_to_frame_aligned [OF ue]
  have frames: "desc_frames d = {x. phys_to_frame start \<le> x \<and> x < phys_to_frame stop}"
    by (rule desc_frames_range) (use True f(2) l(2) in auto)
  have add: "pmm_add_descriptor d s =
      (if stop \<le> start then s
       else if phys_to_frame stop \<le> phys_to_frame start then s
       else pmm_add_range (phys_to_frame start) (phys_to_frame stop) s)"
    using True le fits a f(1) l(1)
    by (simp add: pmm_add_descriptor_def Let_def bytes_def [symmetric] start_def [symmetric]
        stop_def [symmetric])
  have "unat (phys_to_frame stop) < 2 ^ 52" using True unfolding l(2) by (intro less_mult_imp_div_less) simp
  moreover have "stop \<le> start \<longleftrightarrow> phys_to_frame stop \<le> phys_to_frame start"
    unfolding word_nat us ue f(2) l(2) by (rule mult_le_cancel2 [THEN trans]) simp
  ultimately show ?thesis
  proof (cases "phys_to_frame stop \<le> phys_to_frame start")
    case True
    then have "desc_frames d = {}" using frames by fastforce
    with True show ?thesis using add by simp
  next
    case False
    have "256 \<le> unat (phys_to_frame start)" unfolding f(2) by simp
    with False \<open>unat (phys_to_frame stop) < 2 ^ 52\<close> \<open>(stop \<le> start) = _\<close> show ?thesis
      using frames add by (intro disjI2 exI conjI) (assumption, simp_all add: not_le)
  qed
qed

text \<open>The ranges hold usable frames, and no frame twice.\<close>

definition ranges_frames :: "PmmRange list \<Rightarrow> frame_t set" where
  "ranges_frames rs = (\<Union>r \<in> set rs. range_frames r)"

definition ranges_ok :: "PmmRange list \<Rightarrow> bool" where
  "ranges_ok rs \<longleftrightarrow>
     (\<forall>r \<in> set rs. 256 \<le> unat (range_first r) \<and> range_first r < range_end r \<and>
        unat (range_end r) < 2 ^ 52) \<and>
     (\<Sum>r\<leftarrow>rs. card (range_frames r)) = card (ranges_frames rs)"

lemma managed_ranges: "managed_frames s = ranges_frames (g_ranges s)"
  by (auto simp: managed_frames_def frame_managed_def ranges_frames_def range_frames_def list_ex_iff)

lemma range_frames_run: "range_first r \<le> range_end r \<Longrightarrow>
    range_frames r = frame_run (range_first r) (range_end r - range_first r)"
proof -
  assume le: "range_first r \<le> range_end r"
  have "x \<in> range_frames r \<longleftrightarrow> x - range_first r < range_end r - range_first r" for x
  proof (cases "range_first r \<le> x")
    case True
    then show ?thesis using le by (auto simp: range_frames_def word_nat unat_sub_no_wrap)
  next
    case False
    then have u: "unat (x - range_first r) = unat x + 18446744073709551616 - unat (range_first r)"
      by (simp add: word_nat not_le unat_sub_if')
    have "unat (range_end r - range_first r) \<le> unat (x - range_first r)"
      using unat_u64_bound [of "range_end r"] unfolding u unat_sub_no_wrap [OF le]
      by (intro diff_le_mono) linarith
    then show ?thesis using False by (auto simp: range_frames_def word_nat)
  qed
  then show ?thesis
    unfolding frame_run_def by (intro set_eqI) (simp only: shift_image mem_Collect_eq)
qed

lemma card_range_frames:
  "range_first r \<le> range_end r \<Longrightarrow>
     card (range_frames r) = unat (range_end r) - unat (range_first r)"
  by (simp add: range_frames_run unat_sub_no_wrap)

lemma add_range_ok:
  assumes ok: "ranges_ok (g_ranges s)" and "256 \<le> unat f" and fl: "f < l" and "unat l < 2 ^ 52"
    and disj: "ranges_frames (g_ranges s) \<inter> {x. f \<le> x \<and> x < l} = {}"
  shows "ranges_ok (g_ranges (pmm_add_range f l s)) \<and>
    (ranges_frames (g_ranges (pmm_add_range f l s)) = ranges_frames (g_ranges s) \<union> {x. f \<le> x \<and> x < l} \<or>
     128 \<le> length (g_ranges s) \<and> g_ranges (pmm_add_range f l s) = g_ranges s) \<and>
    length (g_ranges (pmm_add_range f l s)) \<le> Suc (length (g_ranges s))"
proof -
  let ?F = "{x. f \<le> x \<and> x < l}"
  have F: "?F = range_frames \<lparr>range_first = f, range_end = l\<rparr>" by (simp add: range_frames_def)
  consider (merge) "g_ranges s \<noteq> []" "range_end (last (g_ranges s)) = f"
    | (full) "\<not> (g_ranges s \<noteq> [] \<and> range_end (last (g_ranges s)) = f)" "128 \<le> length (g_ranges s)"
    | (add) "\<not> (g_ranges s \<noteq> [] \<and> range_end (last (g_ranges s)) = f)" "length (g_ranges s) < 128"
    by linarith
  then show ?thesis
  proof cases
    case merge
    then obtain rs r where rs: "g_ranges s = rs @ [r]" and r: "range_end r = f"
      by (metis append_butlast_last_id)
    let ?r = "r\<lparr>range_end := l\<rparr>"
    have rf: "range_first r < f" using ok rs r by (auto simp: ranges_ok_def)
    have split: "range_frames ?r = range_frames r \<union> ?F"
      using rf fl r by (auto simp: range_frames_def)
    have un: "ranges_frames (rs @ [?r]) = ranges_frames (rs @ [r]) \<union> ?F"
      using split by (auto simp: ranges_frames_def)
    have "card (range_frames ?r) = card (range_frames r) + card ?F"
      unfolding split using disj rs by (subst card_Un_disjoint) (auto simp: ranges_frames_def)
    moreover have "card (ranges_frames (rs @ [r]) \<union> ?F) = card (ranges_frames (rs @ [r])) + card ?F"
      using disj rs by (subst card_Un_disjoint) auto
    moreover have "range_first r < l" using rf fl by simp
    ultimately have "ranges_ok (rs @ [?r])"
      using ok rs assms(4) un by (auto simp: ranges_ok_def)
    then show ?thesis using merge rs r un by (simp add: pmm_add_range_def)
  next
    case full
    then show ?thesis using ok by (auto simp: pmm_add_range_def)
  next
    case add
    let ?n = "\<lparr>range_first = f, range_end = l\<rparr>"
    have un: "ranges_frames (g_ranges s @ [?n]) = ranges_frames (g_ranges s) \<union> ?F"
      unfolding F by (auto simp: ranges_frames_def)
    moreover have "card (ranges_frames (g_ranges s) \<union> ?F) = card (ranges_frames (g_ranges s)) + card ?F"
      using disj by (subst card_Un_disjoint) auto
    ultimately have "ranges_ok (g_ranges s @ [?n])"
      using ok assms(2-4) F by (auto simp: ranges_ok_def)
    then show ?thesis using add un by (auto simp: pmm_add_range_def)
  qed
qed

text \<open>Descriptors that describe disjoint memory.\<close>

fun descs_disjoint :: "BootMemoryDescriptor list \<Rightarrow> bool" where
  "descs_disjoint [] \<longleftrightarrow> True"
| "descs_disjoint (d # ds) \<longleftrightarrow>
     (\<forall>e \<in> set ds. desc_frames d \<inter> desc_frames e = {}) \<and> descs_disjoint ds"

lemma fold_add_descriptor:
  assumes "ranges_ok (g_ranges s)" and "descs_disjoint ds"
    and "\<forall>d \<in> set ds. ranges_frames (g_ranges s) \<inter> desc_frames d = {}"
  shows "ranges_ok (g_ranges (fold pmm_add_descriptor ds s)) \<and>
    ranges_frames (g_ranges (fold pmm_add_descriptor ds s))
      \<subseteq> ranges_frames (g_ranges s) \<union> (\<Union>d \<in> set ds. desc_frames d) \<and>
    (length (g_ranges s) + length ds \<le> 128 \<longrightarrow>
      ranges_frames (g_ranges (fold pmm_add_descriptor ds s))
        = ranges_frames (g_ranges s) \<union> (\<Union>d \<in> set ds. desc_frames d))"
  using assms
proof (induction ds arbitrary: s)
  case (Cons d ds)
  let ?s = "pmm_add_descriptor d s"
  have step: "ranges_ok (g_ranges ?s) \<and>
      (ranges_frames (g_ranges ?s) = ranges_frames (g_ranges s) \<union> desc_frames d \<or>
       128 \<le> length (g_ranges s) \<and> g_ranges ?s = g_ranges s) \<and>
      length (g_ranges ?s) \<le> Suc (length (g_ranges s))"
    using add_descriptor_cases [of d s]
  proof (elim disjE exE conjE)
    fix f l
    assume fl: "256 \<le> unat f" "f < l" "unat l < 2 ^ 52" "desc_frames d = {x. f \<le> x \<and> x < l}"
      and eq: "pmm_add_descriptor d s = pmm_add_range f l s"
    have "ranges_frames (g_ranges s) \<inter> {x. f \<le> x \<and> x < l} = {}"
      using Cons.prems(3) fl(4) by simp
    from add_range_ok [OF Cons.prems(1) fl(1-3) this] show ?thesis
      unfolding eq fl(4) .
  qed (use Cons.prems in simp)
  then have sub: "ranges_frames (g_ranges ?s) \<subseteq> ranges_frames (g_ranges s) \<union> desc_frames d" by auto
  have "\<forall>e \<in> set ds. ranges_frames (g_ranges ?s) \<inter> desc_frames e = {}"
    using sub Cons.prems by fastforce
  note IH = Cons.IH [OF _ _ this]
  have "length (g_ranges s) + length (d # ds) \<le> 128 \<Longrightarrow>
      length (g_ranges ?s) + length ds \<le> 128 \<and>
      ranges_frames (g_ranges ?s) = ranges_frames (g_ranges s) \<union> desc_frames d"
    using step by auto
  then show ?case using IH step sub Cons.prems by auto
qed simp

section \<open>Building the bitmap\<close>

lemma fold_min:
  fixes g :: "'a \<Rightarrow> u64"
  defines "F \<equiv> fold (\<lambda>r m. if g r < m then g r else m)"
  shows "F rs m \<le> m \<and> (\<forall>r \<in> set rs. F rs m \<le> g r) \<and> (F rs m = m \<or> (\<exists>r \<in> set rs. F rs m = g r))"
  unfolding F_def
proof (induction rs arbitrary: m)
  case (Cons r rs)
  show ?case using Cons.IH [of "if g r < m then g r else m"] by (auto split: if_splits)
qed simp

lemma fold_max:
  fixes g :: "'a \<Rightarrow> u64"
  defines "F \<equiv> fold (\<lambda>r m. if g r > m then g r else m)"
  shows "m \<le> F rs m \<and> (\<forall>r \<in> set rs. g r \<le> F rs m) \<and> (F rs m = m \<or> (\<exists>r \<in> set rs. F rs m = g r))"
  unfolding F_def
proof (induction rs arbitrary: m)
  case (Cons r rs)
  show ?case using Cons.IH [of "if g r > m then g r else m"] by (auto split: if_splits)
qed simp

lemma ranges_lowest_ok:
  assumes "rs \<noteq> []"
  shows "\<forall>r \<in> set rs. ranges_lowest rs \<le> range_first r" and "\<exists>r \<in> set rs. ranges_lowest rs = range_first r"
proof -
  have "hd rs \<in> set rs" using assms by simp
  then show "\<forall>r \<in> set rs. ranges_lowest rs \<le> range_first r"
    "\<exists>r \<in> set rs. ranges_lowest rs = range_first r"
    using fold_min [of range_first rs "range_first (hd rs)"] unfolding ranges_lowest_def by blast+
qed

lemma ranges_highest_ok:
  assumes "rs \<noteq> []"
  shows "\<forall>r \<in> set rs. range_end r \<le> ranges_highest rs" and "\<exists>r \<in> set rs. ranges_highest rs = range_end r"
proof -
  have "hd rs \<in> set rs" using assms by simp
  then show "\<forall>r \<in> set rs. range_end r \<le> ranges_highest rs"
    "\<exists>r \<in> set rs. ranges_highest rs = range_end r"
    using fold_max [of "range_end (hd rs)" range_end rs] unfolding ranges_highest_def by blast+
qed

lemma card_u64_set_less:
  fixes A :: "u64 set"
  assumes "\<forall>a \<in> A. a < n"
  shows "card A \<le> unat n"
proof -
  have "card A \<le> card {i. i < n}" by (rule card_mono) (use assms in auto)
  then show ?thesis by (simp add: card_less_u64)
qed

lemma ranges_frames_span:
  assumes ok: "ranges_ok rs" and f: "f \<in> ranges_frames rs"
  shows "ranges_lowest rs \<le> f" and "f < ranges_highest rs"
proof -
  from f obtain r where r: "r \<in> set rs" "range_first r \<le> f" "f < range_end r"
    by (auto simp: ranges_frames_def range_frames_def)
  then have "rs \<noteq> []" by auto
  then have "ranges_lowest rs \<le> range_first r" "range_end r \<le> ranges_highest rs"
    using ranges_lowest_ok(1) ranges_highest_ok(1) r(1) by auto
  then show "ranges_lowest rs \<le> f" "f < ranges_highest rs" using r by auto
qed

lemma ranges_pages_ok:
  assumes ok: "ranges_ok rs"
  shows "unat (ranges_pages rs) = card (ranges_frames rs)"
proof -
  have "fold (\<lambda>r total. total + (range_end r - range_first r)) xs t =
      t + of_nat (\<Sum>r\<leftarrow>xs. card (range_frames r))"
    if "\<forall>r \<in> set xs. range_first r < range_end r" for xs t
    using that
  proof (induction xs arbitrary: t)
    case (Cons r xs)
    then have "range_first r \<le> range_end r" by auto
    then have "of_nat (card (range_frames r)) = range_end r - range_first r"
      by (simp add: range_frames_run unat_of_nat_u64_inv)
    then show ?case using Cons by (simp add: add.assoc)
  qed simp
  then have "ranges_pages rs = of_nat (card (ranges_frames rs))"
    using ok by (simp add: ranges_pages_def ranges_ok_def)
  moreover have "card (ranges_frames rs) \<le> unat (ranges_highest rs)"
    by (rule card_u64_set_less) (use ranges_frames_span [OF ok] in auto)
  then have "card (ranges_frames rs) < 18446744073709551616"
    using unat_u64_bound [of "ranges_highest rs"] by linarith
  ultimately show ?thesis by (simp add: unat_of_nat_small)
qed

lemma frame_fold_base:
  assumes "\<And>i s. bytes_only s (f i s)"
  shows "fold (\<lambda>i s. f (frame_bitmap_index s (a + i)) s) xs s =
     fold (\<lambda>i. f (a + i - g_base_frame s)) xs s"
proof (induction xs arbitrary: s)
  case (Cons x xs)
  have "g_base_frame (f (a + x - g_base_frame s) s) = g_base_frame s"
    using assms [of s "a + x - g_base_frame s"] unfolding bytes_only_def by auto
  then show ?case using Cons.IH by (simp add: frame_bitmap_index_def)
qed simp

lemma clear_range_used:
  assumes "range_first r \<le> range_end r"
  shows "bitmap_used (clear_range r s) j \<longleftrightarrow>
           j \<notin> (\<lambda>f. f - g_base_frame s) ` range_frames r \<and> bitmap_used s j"
    and "bytes_only s (clear_range r s)"
proof -
  have eq: "clear_range r s = fold (\<lambda>i. bitmap_clear (range_first r + i - g_base_frame s))
      (upto_u64 (range_end r - range_first r)) s"
    unfolding clear_range_def by (rule frame_fold_base) simp
  show "bytes_only s (clear_range r s)" unfolding eq by (rule bytes_only_fold) simp
  show "bitmap_used (clear_range r s) j \<longleftrightarrow>
           j \<notin> (\<lambda>f. f - g_base_frame s) ` range_frames r \<and> bitmap_used s j"
    unfolding eq fold_bitmap_clear range_frames_run [OF assms] frame_run_def
    by (simp add: image_image)
qed

lemma clear_ranges_used:
  assumes "\<forall>r \<in> set rs. range_first r < range_end r"
  shows "(bitmap_used (fold clear_range rs s) j \<longleftrightarrow>
           j \<notin> (\<lambda>f. f - g_base_frame s) ` ranges_frames rs \<and> bitmap_used s j) \<and>
         bytes_only s (fold clear_range rs s)"
  using assms
proof (induction rs arbitrary: s)
  case Nil
  show ?case by (auto simp: ranges_frames_def bytes_only_def intro!: exI [of _ "bitmap_bytes s"])
next
  case (Cons r rs)
  have r: "range_first r \<le> range_end r" using Cons.prems by auto
  note c = clear_range_used [OF r, of s]
  have "g_base_frame (clear_range r s) = g_base_frame s"
    using c(2) by (auto simp: bytes_only_def)
  then show ?case
    using Cons.IH [of "clear_range r s"] Cons.prems c bytes_only_trans [OF c(2)]
    by (auto simp: ranges_frames_def)
qed

lemma reserve_bitmap_used:
  "bitmap_used (reserve_bitmap s) j \<longleftrightarrow>
     j \<in> (\<lambda>f. f - g_base_frame s) ` frame_run (g_bitmap_first_frame s) (g_bitmap_page_count s) \<or>
     bitmap_used s j"
  "bytes_only s (reserve_bitmap s)"
proof -
  let ?a = "g_bitmap_first_frame s" and ?n = "g_bitmap_page_count s"
  have "fold (\<lambda>i s. bitmap_set (frame_bitmap_index s (g_bitmap_first_frame s + i)) s) xs s =
     fold (\<lambda>i. bitmap_set (g_bitmap_first_frame s + i - g_base_frame s)) xs s" for xs
  proof (induction xs arbitrary: s)
    case (Cons x xs)
    then show ?case by (simp add: frame_bitmap_index_def bitmap_set_def)
  qed simp
  then have eq: "reserve_bitmap s = fold (\<lambda>i. bitmap_set (?a + i - g_base_frame s)) (upto_u64 ?n) s"
    by (simp add: reserve_bitmap_def)
  show "bytes_only s (reserve_bitmap s)" unfolding eq by (rule bytes_only_fold) simp
  show "bitmap_used (reserve_bitmap s) j \<longleftrightarrow>
     j \<in> (\<lambda>f. f - g_base_frame s) ` frame_run ?a ?n \<or> bitmap_used s j"
    unfolding eq fold_bitmap_set frame_run_def by (simp add: image_image)
qed

text \<open>The pages of the bitmap for a span of frames, and the state after its placement.\<close>

definition bitmap_pages_for :: "u64 \<Rightarrow> u64" where
  "bitmap_pages_for bits = ((bits + 7) div 8 + FRAME_SIZE - 1) div FRAME_SIZE"

definition placed_state :: "Pmm \<Rightarrow> Pmm" where
  "placed_state s =
     (let rs = g_ranges s; lo = ranges_lowest rs; bits = ranges_highest rs - lo;
          pages = bitmap_pages_for bits; home = bitmap_home rs pages
      in s\<lparr>total_pages := ranges_pages rs, g_base_frame := lo, g_bitmap_bits := bits,
           g_bitmap_page_count := pages, g_bitmap_first_frame := home,
           g_bitmap := frame_to_phys home,
           bitmap_bytes := k_memset (bitmap_bytes s) 0xFF (pages * FRAME_SIZE)\<rparr>)"

lemma pmm_build_True:
  assumes "pmm_build s = (True, s')"
  defines "t \<equiv> reserve_bitmap (fold clear_range (g_ranges s) (placed_state s))"
  shows "g_ranges s \<noteq> []" and "ranges_lowest (g_ranges s) < ranges_highest (g_ranges s)"
    and "g_bitmap_first_frame (placed_state s) \<noteq> FRAME_INVALID"
    and "g_bitmap (placed_state s) \<noteq> 0"
    and "g_bitmap_page_count t \<le> total_pages t"
    and "s' = t\<lparr>free_pages := total_pages t - g_bitmap_page_count t,
               bitmap_physical := g_bitmap (placed_state s),
               bitmap_pages := g_bitmap_page_count t, g_next_hint := 0, pmm_initialized := True\<rparr>"
  using assms(1)
  by (auto simp: t_def pmm_build_def Let_def placed_state_def bitmap_pages_for_def not_le not_less
      split: if_splits)

lemma bitmap_pages_for_unat:
  assumes "unat bits < 2 ^ 52"
  shows "unat (bitmap_pages_for bits) = ((unat bits + 7) div 8 + 4095) div 4096"
    and "unat (bitmap_pages_for bits * 4096) = unat (bitmap_pages_for bits) * 4096"
proof -
  have 1: "unat (bits + 7) = unat bits + 7" using assms by (subst unat_add_no_wrap) simp_all
  have e: "(bits + 7) div 8 + FRAME_SIZE - 1 = (bits + 7) div 8 + 4095" by (simp add: algebra_simps)
  have 2: "unat ((bits + 7) div 8 + 4095) = (unat bits + 7) div 8 + 4095"
    using assms 1 by (subst unat_add_no_wrap) (simp_all add: unat_div)
  show u: "unat (bitmap_pages_for bits) = ((unat bits + 7) div 8 + 4095) div 4096"
    unfolding bitmap_pages_for_def e by (simp add: unat_div 2)
  have "((unat bits + 7) div 8 + 4095) div 4096 < 2 ^ 51" using assms by simp
  then show "unat (bitmap_pages_for bits * 4096) = unat (bitmap_pages_for bits) * 4096"
    using u by (subst unat_mult_no_wrap) simp_all
qed

lemma bitmap_filled:
  assumes "unat bits < 2 ^ 52" and "j < bits"
    and "bitmap_bytes s = k_memset B 0xFF (bitmap_pages_for bits * FRAME_SIZE)"
  shows "bitmap_used s j"
proof -
  have "unat (drop_bit 3 j) < unat (bitmap_pages_for bits * 4096)"
    using assms(1,2) unfolding bitmap_pages_for_unat [OF assms(1)] u64_drop_bit_unat
    by (simp add: word_nat)
  then have "bitmap_bytes s (drop_bit 3 j) = mask 8"
    using assms(3) by (simp add: k_memset_def word_nat mask_eq_exp_minus_1)
  then show ?thesis by (simp add: bitmap_used_bit bit_mask_iff and7_unat)
qed

lemma bitmap_home_ok:
  assumes "bitmap_home rs pages \<noteq> FRAME_INVALID" and "ranges_ok rs" and "pages \<noteq> 0"
  shows "frame_run (bitmap_home rs pages) pages \<subseteq> ranges_frames rs \<inter> {f. bitmap_home rs pages \<le> f}"
proof -
  from assms(1) obtain r where r: "r \<in> set rs" "pages \<le> range_end r - range_first r"
    "bitmap_home rs pages = range_first r"
    by (auto simp: bitmap_home_def find_Some_iff split: option.splits dest: nth_mem)
  have le: "range_first r \<le> range_end r" using assms(2) r(1) by (auto simp: ranges_ok_def)
  have "frame_run (range_first r) pages \<subseteq> frame_run (range_first r) (range_end r - range_first r)"
    using r(2) by (auto simp: frame_run_def)
  then show ?thesis
    using r(1,3) unfolding range_frames_run [OF le, symmetric]
    by (auto simp: ranges_frames_def range_frames_def)
qed

lemma home_frames:
  "g_bitmap_first_frame s \<noteq> FRAME_INVALID \<Longrightarrow>
   frame_run (g_bitmap_first_frame s) (g_bitmap_page_count s) \<subseteq> {f. g_bitmap_first_frame s \<le> f} \<Longrightarrow>
   bitmap_frames s = frame_run (g_bitmap_first_frame s) (g_bitmap_page_count s)"
  unfolding bitmap_frames_def frame_is_bitmap_def frame_run_def
  by (intro set_eqI) (auto simp: shift_image subset_iff)

lemma placed_sel [simp]:
  fixes s :: Pmm
  defines "rs \<equiv> g_ranges s"
  defines "lo \<equiv> ranges_lowest rs" and "bits \<equiv> ranges_highest rs - ranges_lowest rs"
  shows "g_base_frame (placed_state s) = lo" "g_bitmap_bits (placed_state s) = bits"
    "g_bitmap_page_count (placed_state s) = bitmap_pages_for bits"
    "g_bitmap_first_frame (placed_state s) = bitmap_home rs (bitmap_pages_for bits)"
    "g_ranges (placed_state s) = rs" "total_pages (placed_state s) = ranges_pages rs"
    "bitmap_bytes (placed_state s) = k_memset (bitmap_bytes s) 0xFF (bitmap_pages_for bits * FRAME_SIZE)"
  by (simp_all add: placed_state_def Let_def rs_def lo_def bits_def)

lemma ranges_span_bounds:
  assumes ok: "ranges_ok rs" and ne: "rs \<noteq> []" and lt: "ranges_lowest rs < ranges_highest rs"
  defines "bits \<equiv> ranges_highest rs - ranges_lowest rs"
  shows "256 \<le> unat (ranges_lowest rs)" and "unat (ranges_lowest rs) + unat bits < 2 ^ 52"
    and "0 < unat bits" and "bitmap_pages_for bits \<noteq> 0"
proof -
  have hi52: "unat (ranges_highest rs) < 2 ^ 52"
    using ranges_highest_ok(2) [OF ne] ok by (auto simp: ranges_ok_def)
  show "256 \<le> unat (ranges_lowest rs)"
    using ranges_lowest_ok(2) [OF ne] ok by (auto simp: ranges_ok_def)
  have bits: "unat bits = unat (ranges_highest rs) - unat (ranges_lowest rs)"
    "unat (ranges_lowest rs) < unat (ranges_highest rs)"
    using lt by (simp_all add: bits_def unat_sub_no_wrap word_nat)
  then show 1: "unat (ranges_lowest rs) + unat bits < 2 ^ 52" and 2: "0 < unat bits"
    using hi52 by simp_all
  then have "0 < ((unat bits + 7) div 8 + 4095) div 4096" by simp
  then show "bitmap_pages_for bits \<noteq> 0"
    using bitmap_pages_for_unat(1) [of bits] 1 by auto
qed

text \<open>The state that a successful build leaves, and what its bitmap says.\<close>

lemma pmm_build_shape:
  fixes s :: Pmm
  assumes ok: "ranges_ok (g_ranges s)" and b: "pmm_build s = (True, s')"
  defines "rs \<equiv> g_ranges s"
  defines "lo \<equiv> ranges_lowest rs" and "bits \<equiv> ranges_highest rs - ranges_lowest rs"
  defines "n \<equiv> bitmap_pages_for bits"
  obtains B where
    "s' = (placed_state s)\<lparr>bitmap_bytes := B, free_pages := ranges_pages rs - n,
       bitmap_physical := g_bitmap (placed_state s), bitmap_pages := n, g_next_hint := 0,
       pmm_initialized := True\<rparr>"
    and "n \<le> ranges_pages rs"
    and "\<And>j. j < bits \<Longrightarrow> bitmap_used s' j \<longleftrightarrow>
      j \<in> (\<lambda>f. f - lo) ` frame_run (bitmap_home rs n) n \<or> j \<notin> (\<lambda>f. f - lo) ` ranges_frames rs"
proof -
  let ?p = "placed_state s"
  let ?c = "fold clear_range rs ?p"
  note T = pmm_build_True [OF b] and defs = rs_def lo_def bits_def n_def
  have bits52: "unat bits < 2 ^ 52"
    using ranges_span_bounds(2) [OF ok T(1,2)] unfolding defs by linarith
  have "\<forall>r \<in> set rs. range_first r < range_end r" using ok by (simp add: ranges_ok_def defs)
  note clr = clear_ranges_used [OF this, of ?p]
  obtain B where B: "?c = ?p\<lparr>bitmap_bytes := B\<rparr>"
    using clr by (auto simp: bytes_only_def)
  obtain B' where B': "reserve_bitmap ?c = ?p\<lparr>bitmap_bytes := B'\<rparr>"
    using reserve_bitmap_used(2) [of ?c] unfolding B by (auto simp: bytes_only_def)
  have s': "s' = ?p\<lparr>bitmap_bytes := B', free_pages := ranges_pages rs - n,
       bitmap_physical := g_bitmap ?p, bitmap_pages := n, g_next_hint := 0, pmm_initialized := True\<rparr>"
    using T(6) B' unfolding defs by simp
  have "n \<le> ranges_pages rs" using T(5) B' unfolding defs by simp
  moreover have "bitmap_used s' j \<longleftrightarrow>
      j \<in> (\<lambda>f. f - lo) ` frame_run (bitmap_home rs n) n \<or> j \<notin> (\<lambda>f. f - lo) ` ranges_frames rs"
    if "j < bits" for j
  proof -
    have "bitmap_used ?p j"
      by (rule bitmap_filled [OF bits52 that]) (simp add: defs)
    moreover have "bitmap_used s' j = bitmap_used (reserve_bitmap ?c) j"
      unfolding s' B' by (simp add: bitmap_used_def)
    ultimately show ?thesis
      using clr unfolding reserve_bitmap_used(1) B by (simp add: defs)
  qed
  ultimately show thesis using that s' by blast
qed

lemma pmm_build_ok:
  assumes ok: "ranges_ok (g_ranges s)" and b: "pmm_build s = (True, s')"
  shows "pmm_inv s'" and "managed_frames s' = ranges_frames (g_ranges s)"
    and "free_frames s' = managed_frames s' - bitmap_frames s'"
proof -
  let ?rs = "g_ranges s"
  let ?lo = "ranges_lowest ?rs" and ?hi = "ranges_highest ?rs"
  let ?n = "bitmap_pages_for (?hi - ?lo)" and ?h = "bitmap_home ?rs (bitmap_pages_for (?hi - ?lo))"
  note T = pmm_build_True [OF b]
  note bounds = ranges_span_bounds [OF ok T(1,2)]
  obtain B where s': "s' = (placed_state s)\<lparr>bitmap_bytes := B, free_pages := ranges_pages ?rs - ?n,
       bitmap_physical := g_bitmap (placed_state s), bitmap_pages := ?n, g_next_hint := 0,
       pmm_initialized := True\<rparr>"
    and le: "?n \<le> ranges_pages ?rs"
    and used: "\<And>j. j < ?hi - ?lo \<Longrightarrow> bitmap_used s' j \<longleftrightarrow>
      j \<in> (\<lambda>f. f - ?lo) ` frame_run ?h ?n \<or> j \<notin> (\<lambda>f. f - ?lo) ` ranges_frames ?rs"
    using pmm_build_shape [OF ok b] by metis
  have "frame_run ?h ?n \<subseteq> ranges_frames ?rs \<inter> {f. ?h \<le> f}"
    using T(3) by (intro bitmap_home_ok [OF _ ok bounds(4)]) simp
  then have home: "frame_run ?h ?n \<subseteq> ranges_frames ?rs" "frame_run ?h ?n \<subseteq> {f. ?h \<le> f}" by auto
  show man: "managed_frames s' = ranges_frames ?rs"
    unfolding managed_ranges s' by simp
  have bmp: "bitmap_frames s' = frame_run ?h ?n"
    using T(3) home(2) home_frames [of s'] unfolding s' by simp
  have base: "g_base_frame s' = ?lo" "g_bitmap_bits s' = ?hi - ?lo" unfolding s' by simp_all
  have span: "?lo \<le> f \<and> f - ?lo < ?hi - ?lo" if "f \<in> ranges_frames ?rs" for f
    using ranges_frames_span [OF ok that] T(2) by (simp add: word_nat unat_sub_no_wrap)
  show free: "free_frames s' = managed_frames s' - bitmap_frames s'"
  proof (rule set_eqI)
    fix f
    have inj: "f - ?lo \<in> (\<lambda>f. f - ?lo) ` A \<longleftrightarrow> f \<in> A" for A by auto
    show "f \<in> free_frames s' \<longleftrightarrow> f \<in> managed_frames s' - bitmap_frames s'"
      unfolding free_frames_def base man bmp using span used [of "f - ?lo"] inj home by auto
  qed
  have "card (ranges_frames ?rs - frame_run ?h ?n) = card (ranges_frames ?rs) - unat ?n"
    using home by (simp add: card_Diff_subset)
  then have cards: "unat (free_pages s') = card (free_frames s')"
      "unat (total_pages s') = card (managed_frames s')"
    unfolding free man bmp unfolding s' using le ranges_pages_ok [OF ok]
    by (simp_all add: unat_sub_no_wrap)
  have "\<forall>f. frame_managed s' f \<longrightarrow> g_base_frame s' \<le> f \<and> f - g_base_frame s' < g_bitmap_bits s'"
    unfolding base using span man by (auto simp: managed_frames_def)
  moreover have "0 < g_bitmap_bits s'" "g_bitmap s' \<noteq> 0" "256 \<le> g_base_frame s'"
    "unat (g_base_frame s') + unat (g_bitmap_bits s') < 2 ^ 52" "g_next_hint s' = 0" "pmm_initialized s'"
    unfolding base using bounds T(4) unfolding s' by (simp_all add: word_nat)
  ultimately show "pmm_inv s'"
    using cards free
    by (auto simp: pmm_inv_def managed_frames_def bitmap_frames_def word_neq_0_conv)
qed

text \<open>The build succeeds exactly when one range can hold the bitmap.\<close>

definition bitmap_fits :: "PmmRange list \<Rightarrow> bool" where
  "bitmap_fits rs \<longleftrightarrow>
     list_ex (\<lambda>r. bitmap_pages_for (ranges_highest rs - ranges_lowest rs)
                   \<le> range_end r - range_first r) rs"

lemma bitmap_home_invalid:
  assumes "ranges_ok rs"
  shows "bitmap_home rs n = FRAME_INVALID \<longleftrightarrow> \<not> list_ex (\<lambda>r. n \<le> range_end r - range_first r) rs"
proof (cases "find (\<lambda>r. n \<le> range_end r - range_first r) rs")
  case None
  then have "\<not> list_ex (\<lambda>r. n \<le> range_end r - range_first r) rs"
    by (simp add: find_None_iff list_ex_iff)
  then show ?thesis using None by (simp add: bitmap_home_def)
next
  case (Some r)
  then have r: "r \<in> set rs" "n \<le> range_end r - range_first r"
    by (auto simp: find_Some_iff dest: nth_mem)
  then have "unat (range_first r) < 2 ^ 52"
    using assms by (auto simp: ranges_ok_def word_nat)
  then have "range_first r \<noteq> FRAME_INVALID" by auto
  then show ?thesis using r Some by (auto simp: bitmap_home_def list_ex_iff)
qed

lemma build_bytes_only:
  assumes "ranges_ok rs"
  shows "bytes_only s (reserve_bitmap (fold clear_range rs s))"
  by (rule bytes_only_trans [OF conjunct2 [OF clear_ranges_used] reserve_bitmap_used(2)])
    (use assms in \<open>simp add: ranges_ok_def\<close>)

lemma pmm_build_succeeds:
  assumes ok: "ranges_ok (g_ranges s)"
  shows "fst (pmm_build s) \<longleftrightarrow> bitmap_fits (g_ranges s)"
proof
  assume "fst (pmm_build s)"
  then obtain s' where "pmm_build s = (True, s')" by (metis (full_types) prod.collapse)
  from pmm_build_True(3) [OF this] show "bitmap_fits (g_ranges s)"
    using bitmap_home_invalid [OF ok] by (simp add: bitmap_fits_def)
next
  let ?rs = "g_ranges s"
  let ?lo = "ranges_lowest ?rs" and ?hi = "ranges_highest ?rs"
  let ?n = "bitmap_pages_for (?hi - ?lo)"
  assume fits: "bitmap_fits ?rs"
  then obtain r where r: "r \<in> set ?rs" by (auto simp: bitmap_fits_def list_ex_iff)
  then have ne: "?rs \<noteq> []" by auto
  have lt: "?lo < ?hi"
    using ranges_lowest_ok(1) [OF ne] ranges_highest_ok(1) [OF ne] r ok
    by (fastforce simp: ranges_ok_def)
  note bounds = ranges_span_bounds [OF ok ne lt]
  have b52: "unat (?hi - ?lo) < 2 ^ 52" using bounds(2) by linarith
  have home: "bitmap_home ?rs ?n \<noteq> FRAME_INVALID"
    using fits bitmap_home_invalid [OF ok] by (simp add: bitmap_fits_def)
  note run = bitmap_home_ok [OF home ok bounds(4)]
  then have "card (frame_run (bitmap_home ?rs ?n) ?n) \<le> card (ranges_frames ?rs)"
    by (intro card_mono) auto
  then have le: "?n \<le> ranges_pages ?rs" by (simp add: word_nat ranges_pages_ok [OF ok])
  have "bitmap_home ?rs ?n \<in> ranges_frames ?rs"
    using run bounds(4) by (auto simp: frame_run_def word_neq_0_conv)
  then have "256 \<le> unat (bitmap_home ?rs ?n)" "unat (bitmap_home ?rs ?n) < 2 ^ 52"
    using ok by (auto simp: ranges_frames_def range_frames_def ranges_ok_def word_nat)
  then have phys: "frame_to_phys (bitmap_home ?rs ?n) \<noteq> 0"
    using frame_to_phys_unat by fastforce
  have g1: "\<not> ?hi - ?lo > U64_MAX - 7" using b52 by (simp add: word_nat unat_sub_no_wrap)
  have b7: "unat (?hi - ?lo + 7) = unat (?hi - ?lo) + 7" using b52 by (subst unat_add_no_wrap) simp_all
  have ub: "unat ((?hi - ?lo + 7) div 8) = (unat (?hi - ?lo) + 7) div 8"
    unfolding unat_div b7 by simp
  have g2: "(?hi - ?lo + 7) div 8 \<noteq> 0" using ub bounds(3) by auto
  have g3: "\<not> (?hi - ?lo + 7) div 8 > U64_MAX - (FRAME_SIZE - 1)"
    using ub b52 by (simp add: word_nat unat_sub_no_wrap)
  have g4: "\<not> ?n > U64_MAX div FRAME_SIZE"
    using bitmap_pages_for_unat(1) [OF b52] b52 by (simp add: word_nat unat_div)
  have shape: "total_pages (reserve_bitmap (fold clear_range ?rs (placed_state s))) = ranges_pages ?rs"
    "g_bitmap_page_count (reserve_bitmap (fold clear_range ?rs (placed_state s))) = ?n"
    using build_bytes_only [OF ok, of "placed_state s"] by (auto simp: bytes_only_def)
  show "fst (pmm_build s)"
    using ne lt g1 g2 g3 bounds(4) home phys g4 le shape
    by (simp add: pmm_build_def Let_def placed_state_def bitmap_pages_for_def not_le not_less)
qed

section \<open>The whole initialisation\<close>

text \<open>The descriptors the loop visits: one every \<open>memory_map_descriptor_size\<close> bytes.\<close>

definition descriptor_count :: "BootInfo \<Rightarrow> nat" where
  "descriptor_count boot =
     (if unat (memory_map_size boot) < 40 then 0
      else (unat (memory_map_size boot) - 40) div unat (memory_map_descriptor_size boot) + 1)"

definition boot_descriptors :: "BootInfo \<Rightarrow> BootMemoryDescriptor list" where
  "boot_descriptors boot =
     map (\<lambda>k. descriptor_at boot (memory_map boot + of_nat k * memory_map_descriptor_size boot))
       [0..<descriptor_count boot]"

text \<open>The map is well below the end of the address space, so the offset does not wrap.\<close>

definition map_fits :: "BootInfo \<Rightarrow> bool" where
  "map_fits boot \<longleftrightarrow>
     unat (memory_map_size boot) + unat (memory_map_descriptor_size boot) + 40 < 2 ^ 64"

lemma descriptor_offset:
  assumes fits: "map_fits boot" and d: "DESCRIPTOR_SIZE \<le> memory_map_descriptor_size boot"
    and k: "k \<le> descriptor_count boot"
  shows "of_nat k * memory_map_descriptor_size boot + DESCRIPTOR_SIZE \<le> memory_map_size boot \<longleftrightarrow>
    k < descriptor_count boot"
proof -
  let ?d = "unat (memory_map_descriptor_size boot)" and ?m = "unat (memory_map_size boot)"
  have d40: "40 \<le> ?d" using d by (simp add: word_nat)
  have iff: "j * ?d + 40 \<le> ?m \<longleftrightarrow> j < descriptor_count boot" for j
    using d40 by (auto simp: descriptor_count_def less_Suc_eq_le less_eq_div_iff_mult_less_eq)
  have le: "k * ?d \<le> ?m + ?d"
  proof (cases k)
    case (Suc j)
    then show ?thesis using iff [of j] k by simp
  qed simp
  then have kd: "k * ?d + 40 < 18446744073709551616"
    using fits by (simp add: map_fits_def)
  have "k < 18446744073709551616"
  proof -
    have "k * 1 \<le> k * ?d" using d40 by (intro mult_le_mono2) simp
    then show ?thesis using kd by linarith
  qed
  then have "unat (of_nat k * memory_map_descriptor_size boot) = k * ?d"
    using kd by (subst unat_mult_no_wrap) (simp_all add: unat_of_nat_small)
  then have "unat (of_nat k * memory_map_descriptor_size boot + DESCRIPTOR_SIZE) = k * ?d + 40"
    using kd by (subst unat_add_no_wrap) simp_all
  then show ?thesis using iff [of k] by (simp add: word_nat)
qed

lemma pmm_collect_from:
  assumes fits: "map_fits boot" and d: "DESCRIPTOR_SIZE \<le> memory_map_descriptor_size boot"
    and "k + n = descriptor_count boot"
  shows "pmm_collect boot (of_nat k * memory_map_descriptor_size boot) s =
    Some (fold pmm_add_descriptor
      (map (\<lambda>k. descriptor_at boot (memory_map boot + of_nat k * memory_map_descriptor_size boot))
        [k..<descriptor_count boot]) s)"
  using assms(3)
proof (induction n arbitrary: k s)
  case (0 k s)
  then show ?case
    using descriptor_offset [OF fits d, of k] by (subst pmm_collect.simps) simp
next
  case (Suc n k s)
  have "of_nat k * memory_map_descriptor_size boot + memory_map_descriptor_size boot =
      of_nat (Suc k) * memory_map_descriptor_size boot" by (simp add: algebra_simps)
  moreover have "k < descriptor_count boot" "Suc k + n = descriptor_count boot"
    using Suc.prems by simp_all
  ultimately show ?case
    using descriptor_offset [OF fits d, of k] Suc.IH [of "Suc k"]
    by (subst pmm_collect.simps) (simp add: upt_conv_Cons)
qed

lemma pmm_collect_Some:
  assumes "map_fits boot" and "DESCRIPTOR_SIZE \<le> memory_map_descriptor_size boot"
  shows "pmm_collect boot 0 s = Some (fold pmm_add_descriptor (boot_descriptors boot) s)"
  using pmm_collect_from [OF assms, of 0 "descriptor_count boot" s]
  by (simp add: boot_descriptors_def)

lemma pmm_init_cases:
  assumes fits: "map_fits boot"
  shows "pmm_init (Some boot) s = Some (
    if memory_map boot = 0 \<or> memory_map_size boot = 0 \<or> memory_map_descriptor_size boot < DESCRIPTOR_SIZE
    then (False, pmm_reset s)
    else pmm_build (fold pmm_add_descriptor (boot_descriptors boot) (pmm_reset s)))"
  using pmm_collect_Some [OF fits] by (auto simp: pmm_init_def Let_def not_less)

lemma reset_ranges_ok [simp]: "g_ranges (pmm_reset s) = []" "ranges_ok []" "ranges_frames [] = {}"
  by (simp_all add: pmm_reset_def ranges_ok_def ranges_frames_def)

text \<open>The ranges the collecting loop leaves.\<close>

definition collected_ranges :: "BootInfo \<Rightarrow> Pmm \<Rightarrow> PmmRange list" where
  "collected_ranges boot s =
     g_ranges (fold pmm_add_descriptor (boot_descriptors boot) (pmm_reset s))"

text \<open>C17. For a memory map that does not reach the end of the address space and whose descriptors
  describe disjoint memory, \<^verbatim>\<open>pmm_init\<close> returns. It returns true exactly when the map
  is present and one collected range can hold the bitmap; then the allocator's invariant holds,
  exactly the managed frames that do not hold the bitmap are free, and every managed frame is a
  usable frame of a descriptor. With at most 128 descriptors every usable frame is managed; with
  more, ranges found after the table of 128 is full are discarded, so only the inclusion is claimed.\<close>

theorem pmm_init_correct:
  assumes "map_fits boot" and "descs_disjoint (boot_descriptors boot)"
  shows "\<exists>ok s'. pmm_init (Some boot) s = Some (ok, s') \<and>
    (ok \<longleftrightarrow> memory_map boot \<noteq> 0 \<and> memory_map_size boot \<noteq> 0 \<and>
       DESCRIPTOR_SIZE \<le> memory_map_descriptor_size boot \<and> bitmap_fits (collected_ranges boot s)) \<and>
    (ok \<longrightarrow> pmm_inv s' \<and> free_frames s' = managed_frames s' - bitmap_frames s' \<and>
       managed_frames s' \<subseteq> (\<Union>d \<in> set (boot_descriptors boot). desc_frames d) \<and>
       (length (boot_descriptors boot) \<le> 128 \<longrightarrow>
          managed_frames s' = (\<Union>d \<in> set (boot_descriptors boot). desc_frames d)))"
proof -
  let ?t = "fold pmm_add_descriptor (boot_descriptors boot) (pmm_reset s)"
  note col = fold_add_descriptor [of "pmm_reset s", OF _ assms(2), simplified]
  have succ: "fst (pmm_build ?t) \<longleftrightarrow> bitmap_fits (collected_ranges boot s)"
    using pmm_build_succeeds [of ?t] col by (simp add: collected_ranges_def)
  obtain ok s' where r: "pmm_init (Some boot) s = Some (ok, s')"
    using pmm_init_cases [OF assms(1)] by (metis surj_pair)
  have "pmm_build ?t = (True, s')" if ok
    using r that pmm_init_cases [OF assms(1), of s] by (auto split: if_splits)
  moreover have "ok \<longleftrightarrow> memory_map boot \<noteq> 0 \<and> memory_map_size boot \<noteq> 0 \<and>
       DESCRIPTOR_SIZE \<le> memory_map_descriptor_size boot \<and> bitmap_fits (collected_ranges boot s)"
    using r pmm_init_cases [OF assms(1), of s] succ by (auto split: if_splits)
  ultimately show ?thesis
    using r col pmm_build_ok [of ?t s'] by auto
qed

definition demo_boot :: BootInfo where
  "demo_boot =
     \<lparr>memory_map = 0x8000, memory_map_size = 40, memory_map_descriptor_size = 48,
      descriptor_at = (\<lambda>_. \<lparr>desc_type = 7, desc_padding = 0, physical_start = 0xFF800,
        virtual_start = 0, number_of_pages = 16, desc_attribute = 0\<rparr>)\<rparr>"

lemma demo_boot_fits: "bitmap_fits (collected_ranges demo_boot demo_pmm)"
  by (simp add: bitmap_fits_def collected_ranges_def boot_descriptors_def descriptor_count_def
      demo_boot_def pmm_add_descriptor_def pmm_add_range_def pmm_reset_def Let_def align_up_page_def
      align_down_page_def phys_to_frame_def ranges_highest_def ranges_lowest_def bitmap_pages_for_def)

theorem pmm_init_correct_witness:
  "\<exists>s'. pmm_init (Some demo_boot) demo_pmm = Some (True, s') \<and> pmm_inv s' \<and>
     free_frames s' = managed_frames s' - bitmap_frames s'"
proof -
  have "map_fits demo_boot" by (simp add: map_fits_def demo_boot_def)
  moreover have "descs_disjoint (boot_descriptors demo_boot)"
    by (simp add: boot_descriptors_def descriptor_count_def demo_boot_def)
  ultimately show ?thesis
    using pmm_init_correct [of demo_boot demo_pmm] demo_boot_fits by (auto simp: demo_boot_def)
qed

end
