(* ===== verification/Object_Storage.thy ===== *)
theory Object_Storage
  imports Prelude
begin

text \<open>
  The fixed object registries of \<^verbatim>\<open>kernel/object_storage.h\<close>: an array of object addresses
  in which 0 marks a free entry. Every kernel object module keeps one. The theory gives the three
  operations, the meaning of membership, and two interfaces: the registry itself and the
  issue of object identities, each stated once and used by the modules through an
  interpretation on their own variables.
\<close>

section \<open>Operations\<close>

primrec first_index :: "('a \<Rightarrow> bool) \<Rightarrow> 'a list \<Rightarrow> nat" where
  "first_index P [] = 0"
| "first_index P (x # xs) = (if P x then 0 else Suc (first_index P xs))"

text \<open>The array's length is the source's \<^verbatim>\<open>count\<close>; it is returned when nothing is found.\<close>

definition object_storage_find :: "ptr list \<Rightarrow> ptr \<Rightarrow> nat" where
  "object_storage_find slots object =
     (if object \<noteq> 0 then first_index (\<lambda>s. s = object) slots else length slots)"

definition object_storage_empty :: "ptr list \<Rightarrow> nat" where
  "object_storage_empty slots = first_index (\<lambda>s. s = 0) slots"

definition object_storage_count :: "ptr list \<Rightarrow> nat" where
  "object_storage_count slots = length (filter (\<lambda>s. s \<noteq> 0) slots)"

section \<open>Lists\<close>

lemma first_index_le: "first_index P xs \<le> length xs"
  by (induction xs) auto

lemma first_index_less: "first_index P xs < length xs \<longleftrightarrow> (\<exists>x \<in> set xs. P x)"
  by (induction xs) auto

lemma first_index_nth: "first_index P xs < length xs \<Longrightarrow> P (xs ! first_index P xs)"
  by (induction xs) auto

lemma find_less [simp]:
  "object_storage_find slots p < length slots \<longleftrightarrow> p \<noteq> 0 \<and> p \<in> set slots"
  by (auto simp: object_storage_find_def first_index_less)

lemma find_le [simp]: "object_storage_find slots p \<le> length slots"
  by (simp add: object_storage_find_def first_index_le)

lemma find_eq_length [simp]:
  "object_storage_find slots p = length slots \<longleftrightarrow> p = 0 \<or> p \<notin> set slots"
  using find_less [of slots p] find_le [of slots p] by linarith

lemma find_nth: "p \<noteq> 0 \<Longrightarrow> p \<in> set slots \<Longrightarrow> slots ! object_storage_find slots p = p"
  using first_index_nth [of "\<lambda>s. s = p" slots] first_index_less [of "\<lambda>s. s = p" slots]
  by (auto simp: object_storage_find_def)

lemma empty_less [simp]: "object_storage_empty slots < length slots \<longleftrightarrow> 0 \<in> set slots"
  by (auto simp: object_storage_empty_def first_index_less)

lemma empty_nth: "0 \<in> set slots \<Longrightarrow> slots ! object_storage_empty slots = 0"
  using first_index_nth [of "\<lambda>s. s = 0" slots] first_index_less [of "\<lambda>s. s = 0" slots]
  by (auto simp: object_storage_empty_def)

lemma empty_le [simp]: "object_storage_empty slots \<le> length slots"
  by (simp add: object_storage_empty_def first_index_le)

lemma empty_eq_length [simp]: "object_storage_empty slots = length slots \<longleftrightarrow> 0 \<notin> set slots"
  using empty_less [of slots] empty_le [of slots] by linarith

text \<open>No object is registered twice.\<close>

definition reg_ok :: "ptr list \<Rightarrow> bool" where
  "reg_ok slots \<longleftrightarrow>
     (\<forall>i j. i < length slots \<and> j < length slots \<and> slots ! i = slots ! j \<and> slots ! i \<noteq> 0 \<longrightarrow> i = j)"

lemma reg_ok_add:
  assumes "reg_ok slots" and "p \<notin> set slots" and "i < length slots"
  shows "reg_ok (slots[i := p])"
  using assms unfolding reg_ok_def by (auto simp: nth_list_update)

lemma reg_ok_remove: "reg_ok slots \<Longrightarrow> reg_ok (slots[i := 0])"
  by (cases "i < length slots") (auto simp: reg_ok_def nth_list_update)

lemma set_add:
  assumes "i < length slots" and "slots ! i = 0" and "q \<noteq> 0"
  shows "q \<in> set (slots[i := p]) \<longleftrightarrow> q = p \<or> q \<in> set slots"
  using assms unfolding in_set_conv_nth by (auto simp: nth_list_update)

lemma set_remove:
  assumes "reg_ok slots" and "p \<noteq> 0" and "p \<in> set slots" and "q \<noteq> 0"
  shows "q \<in> set (slots[object_storage_find slots p := 0]) \<longleftrightarrow> q \<noteq> p \<and> q \<in> set slots"
proof -
  let ?i = "object_storage_find slots p"
  have i: "?i < length slots" "slots ! ?i = p" using assms find_nth by auto
  have "q \<in> set (slots[?i := 0]) \<longleftrightarrow> (\<exists>j < length slots. j \<noteq> ?i \<and> slots ! j = q)"
    using i assms(4) unfolding in_set_conv_nth by (metis length_list_update nth_list_update)
  also have "\<dots> \<longleftrightarrow> q \<noteq> p \<and> q \<in> set slots"
    using assms(1,2) i unfolding reg_ok_def in_set_conv_nth by metis
  finally show ?thesis .
qed

section \<open>The registry of a module\<close>

text \<open>
  A module's registry is read with \<open>get\<close> and replaced with \<open>put\<close>. The lemmas say what
  registering an object in the first free entry and clearing the entry of an object do to the
  set of live objects.
\<close>

locale object_registry =
  fixes get :: "'s \<Rightarrow> ptr list"
    and put :: "ptr list \<Rightarrow> 's \<Rightarrow> 's"
  assumes get_put: "get (put v s) = v"
begin

lemma register:
  assumes "reg_ok (get s)" and "0 \<in> set (get s)" and "p \<notin> set (get s)"
  defines "s' \<equiv> put ((get s)[object_storage_empty (get s) := p]) s"
  shows "reg_ok (get s')" and "q \<noteq> 0 \<Longrightarrow> q \<in> set (get s') \<longleftrightarrow> q = p \<or> q \<in> set (get s)"
    and "length (get s') = length (get s)"
  using assms(1-3) unfolding s'_def get_put
  by (simp_all add: reg_ok_add set_add empty_nth)

lemma unregister:
  assumes "reg_ok (get s)" and "p \<noteq> 0" and "p \<in> set (get s)"
  defines "s' \<equiv> put ((get s)[object_storage_find (get s) p := 0]) s"
  shows "reg_ok (get s')" and "q \<noteq> 0 \<Longrightarrow> q \<in> set (get s') \<longleftrightarrow> q \<noteq> p \<and> q \<in> set (get s)"
    and "length (get s') = length (get s)"
  using assms(1-3) unfolding s'_def get_put
  by (simp_all add: reg_ok_remove set_remove)

end

section \<open>The issue of identities\<close>

text \<open>
  Endpoints, threads, processes, address spaces, device resources and exit queues take their
  identity from a counter that is never reset; 0 is never an identity and marks the exhausted
  counter. A creation gives the next identity to an object that was not live, a destruction
  removes a live object; neither changes the identity of another live object.
\<close>

locale id_issuer =
  fixes live :: "'s \<Rightarrow> ptr \<Rightarrow> bool"
    and ident :: "'s \<Rightarrow> ptr \<Rightarrow> u64"
    and next_id :: "'s \<Rightarrow> u64"
    and creates :: "'s \<Rightarrow> ptr \<Rightarrow> 's \<Rightarrow> bool"
    and destroys :: "'s \<Rightarrow> ptr \<Rightarrow> 's \<Rightarrow> bool"
  assumes create_next: "creates s p s' \<Longrightarrow> next_id s \<noteq> 0 \<and> next_id s' = next_id s + 1"
    and create_ident: "creates s p s' \<Longrightarrow> ident s' p = next_id s"
    and create_live: "creates s p s' \<Longrightarrow> live s' q \<longleftrightarrow> q = p \<or> live s q"
    and create_other: "creates s p s' \<Longrightarrow> q \<noteq> p \<Longrightarrow> live s q \<Longrightarrow> ident s' q = ident s q"
    and create_fresh: "creates s p s' \<Longrightarrow> \<not> live s p"
    and destroy_next: "destroys s p s' \<Longrightarrow> next_id s' = next_id s"
    and destroy_live: "destroys s p s' \<Longrightarrow> live s' q \<longleftrightarrow> q \<noteq> p \<and> live s q"
    and destroy_other: "destroys s p s' \<Longrightarrow> live s' q \<Longrightarrow> ident s' q = ident s q"
begin

text \<open>Identities of live objects are below the counter, nonzero and pairwise different.\<close>

definition id_inv :: "'s \<Rightarrow> bool" where
  "id_inv s \<longleftrightarrow>
     (\<forall>p. live s p \<longrightarrow> ident s p \<noteq> 0 \<and> (next_id s \<noteq> 0 \<longrightarrow> ident s p < next_id s)) \<and>
     (\<forall>p q. live s p \<and> live s q \<and> ident s p = ident s q \<longrightarrow> p = q)"

lemma id_invD:
  assumes "id_inv s" and "live s p"
  shows "ident s p \<noteq> 0" and "next_id s \<noteq> 0 \<Longrightarrow> ident s p < next_id s"
    and "live s q \<Longrightarrow> ident s p = ident s q \<Longrightarrow> p = q"
  using assms unfolding id_inv_def by blast+

lemma create_inv:
  assumes inv: "id_inv s" and c: "creates s p s'"
  shows "id_inv s'"
proof -
  have new: "next_id s \<noteq> 0" "next_id s' = next_id s + 1" "ident s' p = next_id s"
    using create_next [OF c] create_ident [OF c] by simp_all
  have old: "ident s' q = ident s q \<and> ident s q \<noteq> 0 \<and> ident s q < next_id s \<and> live s q"
    if "live s' q" "q \<noteq> p" for q
    using that create_live [OF c, of q] create_other [OF c, of q] id_invD [OF inv, of q] new(1) by simp
  have lt: "ident s' q < next_id s'" if "live s' q" "next_id s' \<noteq> 0" for q
  proof -
    have "unat (next_id s') = unat (next_id s) + 1"
      using new(2) that(2) by (simp add: unat_add_1)
    then show ?thesis
      using old [OF that(1)] new(3) by (cases "q = p") (auto simp: word_nat)
  qed
  have ne: "ident s' q \<noteq> 0" if "live s' q" for q
    using old [OF that] new by (cases "q = p") auto
  have "q = r" if q: "live s' q" and r: "live s' r" and eq: "ident s' q = ident s' r" for q r
  proof (cases "q = p \<or> r = p")
    case True
    then show ?thesis using old [OF q] old [OF r] eq new(3) by fastforce
  next
    case False
    then have "live s q" "live s r" "ident s q = ident s r" using old [OF q] old [OF r] eq by auto
    then show ?thesis using id_invD(3) [OF inv] by blast
  qed
  then show ?thesis using lt ne unfolding id_inv_def by blast
qed

lemma destroy_inv:
  assumes inv: "id_inv s" and d: "destroys s p s'"
  shows "id_inv s'"
proof -
  have old: "live s q \<and> ident s' q = ident s q" if "live s' q" for q
    using that destroy_live [OF d] destroy_other [OF d] by blast
  then show ?thesis
    using id_invD [OF inv] destroy_next [OF d] unfolding id_inv_def by metis
qed

text \<open>A new identity is above every identity issued before it.\<close>

lemma create_increases:
  assumes "creates s p s'"
  shows "next_id s' = 0 \<or> ident s' p < next_id s'"
proof (cases "next_id s' = 0")
  case False
  then have "unat (next_id s') = unat (next_id s) + 1"
    using create_next [OF assms] by (simp add: unat_add_1)
  then show ?thesis using create_ident [OF assms] by (simp add: word_nat)
qed simp

text \<open>An identity once issued and no longer in use is never in use again.\<close>

definition issue_step :: "'s \<Rightarrow> 's \<Rightarrow> bool" where
  "issue_step s s' \<longleftrightarrow> (\<exists>p. creates s p s') \<or> (\<exists>p. destroys s p s')"

definition id_issued :: "'s \<Rightarrow> u64 \<Rightarrow> bool" where
  "id_issued s i \<longleftrightarrow> i \<noteq> 0 \<and> (next_id s = 0 \<or> i < next_id s)"

definition id_retired :: "'s \<Rightarrow> u64 \<Rightarrow> bool" where
  "id_retired s i \<longleftrightarrow> id_issued s i \<and> (\<forall>p. live s p \<longrightarrow> ident s p \<noteq> i)"

lemma create_retired:
  assumes "creates s p s'" and "id_retired s i"
  shows "id_retired s' i"
proof -
  have new: "next_id s \<noteq> 0" "next_id s' = next_id s + 1" "ident s' p = next_id s"
    using create_next [OF assms(1)] create_ident [OF assms(1)] by simp_all
  have i: "i \<noteq> 0" "i < next_id s" using assms(2) new(1) by (auto simp: id_retired_def id_issued_def)
  have "next_id s' = 0 \<or> i < next_id s'"
  proof (cases "next_id s' = 0")
    case False
    then have "unat (next_id s') = unat (next_id s) + 1" using new(2) by (simp add: unat_add_1)
    then show ?thesis using i(2) by (simp add: word_nat)
  qed simp
  moreover have "ident s' q \<noteq> i" if "live s' q" for q
    using that create_live [OF assms(1), of q] create_other [OF assms(1), of q] new(3) i(2) assms(2)
    by (cases "q = p") (auto simp: id_retired_def)
  ultimately show ?thesis using i(1) by (simp add: id_retired_def id_issued_def)
qed

lemma destroy_retired:
  assumes "destroys s p s'" and "id_retired s i"
  shows "id_retired s' i"
proof -
  have "ident s' q \<noteq> i" if "live s' q" for q
    using that destroy_live [OF assms(1), of q] destroy_other [OF assms(1), of q] assms(2) by (simp add: id_retired_def)
  then show ?thesis using assms(2) destroy_next [OF assms(1)] by (simp add: id_retired_def id_issued_def)
qed

lemma retired_forever:
  assumes "issue_step\<^sup>*\<^sup>* s s'" and "id_retired s i"
  shows "id_retired s' i"
  using assms by (induction rule: rtranclp_induct) (auto simp: issue_step_def intro: create_retired destroy_retired)

lemma id_inv_steps:
  assumes "issue_step\<^sup>*\<^sup>* s s'" and "id_inv s"
  shows "id_inv s'"
  using assms by (induction rule: rtranclp_induct) (auto simp: issue_step_def intro: create_inv destroy_inv)

text \<open>A destroyed object's identity is retired.\<close>

lemma destroy_retires:
  assumes inv: "id_inv s" and d: "destroys s p s'" and live: "live s p"
  shows "id_retired s' (ident s p)"
proof -
  have "ident s' q \<noteq> ident s p" if "live s' q" for q
    using that destroy_live [OF d, of q] destroy_other [OF d, of q] id_invD(3) [OF inv live, of q] by auto
  then show ?thesis
    using id_invD(1,2) [OF inv live] destroy_next [OF d] by (auto simp: id_retired_def id_issued_def)
qed

end

end
