(* ===== verification/VMM.thy ===== *)
theory VMM
  imports PMM
begin

text \<open>
  Four-level paging, \<^verbatim>\<open>kernel/vmm.c\<close>. The memory subsystem is the record \<open>Mm\<close>: the
  frame allocator, the words of the physical frames that hold page tables, the page maps at
  their addresses, the control registers the code reads, and the module's variables. A table
  pointer of the source is the frame it points to; \<open>table_pointer\<close> gives its address and is 0
  where the source's pointer is null. A translation lookaside buffer is not modelled, so
  rewriting CR3 with its own value changes nothing.
\<close>

section \<open>State\<close>

type_synonym vm_flags_t = u64

abbreviation (input) VM_PAGE_SIZE :: u64 where
  "VM_PAGE_SIZE \<equiv> 4096"

abbreviation (input) VM_PML4_ENTRY_COUNT :: u16 where
  "VM_PML4_ENTRY_COUNT \<equiv> 512"

abbreviation (input) PAGE_TABLE_ENTRIES :: u32 where
  "PAGE_TABLE_ENTRIES \<equiv> 512"

abbreviation (input) VM_WRITE :: vm_flags_t where "VM_WRITE \<equiv> 1"
abbreviation (input) VM_USER :: vm_flags_t where "VM_USER \<equiv> 2"
abbreviation (input) VM_EXEC :: vm_flags_t where "VM_EXEC \<equiv> 4"
abbreviation (input) VM_UNCACHED :: vm_flags_t where "VM_UNCACHED \<equiv> 8"
abbreviation (input) VM_DEVICE :: vm_flags_t where "VM_DEVICE \<equiv> 16"

abbreviation (input) PTE_PRESENT :: u64 where "PTE_PRESENT \<equiv> 1"
abbreviation (input) PTE_WRITE :: u64 where "PTE_WRITE \<equiv> 2"
abbreviation (input) PTE_USER :: u64 where "PTE_USER \<equiv> 4"
abbreviation (input) PTE_PWT :: u64 where "PTE_PWT \<equiv> 8"
abbreviation (input) PTE_PCD :: u64 where "PTE_PCD \<equiv> 16"
abbreviation (input) PTE_HUGE :: u64 where "PTE_HUGE \<equiv> 0x80"
abbreviation (input) PTE_GLOBAL :: u64 where "PTE_GLOBAL \<equiv> 0x100"
abbreviation (input) PTE_NX :: u64 where "PTE_NX \<equiv> 0x8000000000000000"
abbreviation (input) PTE_ADDRESS_MASK :: u64 where "PTE_ADDRESS_MASK \<equiv> 0x000FFFFFFFFFF000"

text \<open>\<^verbatim>\<open>value & mask\<close> as a condition.\<close>

definition has :: "'a::len word \<Rightarrow> 'a word \<Rightarrow> bool" where
  "has v m \<longleftrightarrow> v AND m \<noteq> 0"

record VmPageMap =
  root_frame :: frame_t
  owned_pml4_first :: u16
  owned_pml4_end :: u16
  destroy_pending :: bool
  shared_source :: bool

datatype VmmTestFault = VMM_TEST_ALLOC | VMM_TEST_ACCESS | VMM_TEST_FREE

record VmmFault =
  fault_map :: ptr
  fault_skip :: u32
  fault_armed :: bool

text \<open>The processor state the memory code reads and writes.\<close>

record Cpu =
  cr0 :: u64
  cr3 :: u64
  cr4 :: u64
  msr :: "u32 \<Rightarrow> u64"
  cpuid :: "u32 \<Rightarrow> u32 \<Rightarrow> u32 \<times> u32 \<times> u32 \<times> u32"

record Mm =
  mm_pmm :: Pmm
  pmem :: "frame_t \<Rightarrow> u32 \<Rightarrow> u64"
  page_map_at :: "ptr \<Rightarrow> VmPageMap"
  mm_cpu :: Cpu
  vmm_use_phys_map :: bool
  g_nx_enabled :: bool
  g_unlinked_table :: frame_t
  g_faults :: "VmmTestFault \<Rightarrow> VmmFault"

definition update_map :: "ptr \<Rightarrow> (VmPageMap \<Rightarrow> VmPageMap) \<Rightarrow> Mm \<Rightarrow> Mm" where
  "update_map p f mm = mm\<lparr>page_map_at := (page_map_at mm)(p := f (page_map_at mm p))\<rparr>"

text \<open>\<^verbatim>\<open>table[index] = value\<close> for the table in a frame.\<close>

definition write_entry :: "frame_t \<Rightarrow> u32 \<Rightarrow> u64 \<Rightarrow> Mm \<Rightarrow> Mm" where
  "write_entry f i v mm = mm\<lparr>pmem := (pmem mm)(f := (pmem mm f)(i := v))\<rparr>"

text \<open>
  A loop whose body may leave it with failure. The state reached so far is kept.
\<close>

fun loop_all :: "('a \<Rightarrow> 's \<Rightarrow> bool \<times> 's) \<Rightarrow> 'a list \<Rightarrow> 's \<Rightarrow> bool \<times> 's" where
  "loop_all f [] s = (True, s)"
| "loop_all f (x # xs) s =
     (case f x s of (b, s') \<Rightarrow> if b then loop_all f xs s' else (False, s'))"

definition index_range :: "u32 \<Rightarrow> u32 \<Rightarrow> u32 list" where
  "index_range a b = map of_nat [unat a..<unat b]"

section \<open>Registers and fault injection\<close>

definition map_active :: "Mm \<Rightarrow> ptr \<Rightarrow> bool" where
  "map_active mm p \<longleftrightarrow> p \<noteq> 0 \<and> root_frame (page_map_at mm p) \<noteq> FRAME_INVALID \<and>
     cr3 (mm_cpu mm) AND PTE_ADDRESS_MASK = frame_to_phys (root_frame (page_map_at mm p))"

definition profile_supported :: "Mm \<Rightarrow> bool" where
  "profile_supported mm \<longleftrightarrow> \<not> has (cr4 (mm_cpu mm)) (push_bit 17 1)"

definition flush_active_map :: "ptr \<Rightarrow> Mm \<Rightarrow> Mm" where
  "flush_active_map p mm =
     (if map_active mm p then mm\<lparr>mm_cpu := (mm_cpu mm)\<lparr>cr3 := cr3 (mm_cpu mm)\<rparr>\<rparr> else mm)"

definition test_fault :: "ptr \<Rightarrow> VmmTestFault \<Rightarrow> Mm \<Rightarrow> bool \<times> Mm" where
  "test_fault p fault mm =
     (let flt = g_faults mm fault in
      if \<not> fault_armed flt \<or> fault_map flt \<noteq> p then (False, mm)
      else if fault_skip flt \<noteq> 0 then
        (False, mm\<lparr>g_faults := (g_faults mm)(fault := flt\<lparr>fault_skip := fault_skip flt - 1\<rparr>)\<rparr>)
      else
        (True, mm\<lparr>g_faults := (g_faults mm)(fault := flt\<lparr>fault_armed := False, fault_map := 0\<rparr>)\<rparr>))"

definition vmm_test_fail_once :: "ptr \<Rightarrow> VmmTestFault \<Rightarrow> u32 \<Rightarrow> Mm \<Rightarrow> bool \<times> Mm" where
  "vmm_test_fail_once p fault skip mm =
     (if p = 0 \<or> fault_armed (g_faults mm fault) then (False, mm)
      else (True, mm\<lparr>g_faults := (g_faults mm)
                       (fault := \<lparr>fault_map = p, fault_skip = skip, fault_armed = True\<rparr>)\<rparr>))"

definition vmm_test_faults_armed :: "Mm \<Rightarrow> u32" where
  "vmm_test_faults_armed mm =
     of_nat (length (filter (\<lambda>flt. fault_armed (g_faults mm flt))
       [VMM_TEST_ALLOC, VMM_TEST_ACCESS, VMM_TEST_FREE]))"

definition vmm_test_clear_faults :: "Mm \<Rightarrow> Mm" where
  "vmm_test_clear_faults mm =
     mm\<lparr>g_faults := (\<lambda>_. \<lparr>fault_map = 0, fault_skip = 0, fault_armed = False\<rparr>)\<rparr>"

definition vmm_test_unlinked_table :: "Mm \<Rightarrow> frame_t" where
  "vmm_test_unlinked_table mm = g_unlinked_table mm"

definition vmm_unlinked_table_cleanup_pending :: "Mm \<Rightarrow> bool" where
  "vmm_unlinked_table_cleanup_pending mm \<longleftrightarrow> g_unlinked_table mm \<noteq> FRAME_INVALID"

text \<open>\<^verbatim>\<open>frame_alloc\<close> and \<^verbatim>\<open>frame_free\<close> on the allocator inside the memory state.\<close>

definition mm_frame_alloc :: "Mm \<Rightarrow> frame_t \<times> Mm" where
  "mm_frame_alloc mm = (case frame_alloc (mm_pmm mm) of (f, s) \<Rightarrow> (f, mm\<lparr>mm_pmm := s\<rparr>))"

definition mm_frame_free :: "frame_t \<Rightarrow> Mm \<Rightarrow> bool \<times> Mm" where
  "mm_frame_free f mm = (case frame_free (mm_pmm mm) f of (b, s) \<Rightarrow> (b, mm\<lparr>mm_pmm := s\<rparr>))"

definition vmm_reclaim_unlinked_table :: "Mm \<Rightarrow> bool \<times> Mm" where
  "vmm_reclaim_unlinked_table mm =
     (if g_unlinked_table mm = FRAME_INVALID then (True, mm)
      else
        case mm_frame_free (g_unlinked_table mm) mm of
          (b, mm') \<Rightarrow> (b, if b then mm'\<lparr>g_unlinked_table := FRAME_INVALID\<rparr> else mm'))"

definition free_table :: "ptr \<Rightarrow> frame_t \<Rightarrow> Mm \<Rightarrow> bool \<times> Mm" where
  "free_table p frame mm =
     (case test_fault p VMM_TEST_FREE mm of
        (fault, mm') \<Rightarrow> if fault then (False, mm') else mm_frame_free frame mm')"

definition vmm_enable_phys_map_access :: "Mm \<Rightarrow> Mm" where
  "vmm_enable_phys_map_access mm = mm\<lparr>vmm_use_phys_map := True\<rparr>"

definition vmm_phys_map_access_enabled :: "Mm \<Rightarrow> bool" where
  "vmm_phys_map_access_enabled mm = vmm_use_phys_map mm"

definition vmm_nx_enabled :: "Mm \<Rightarrow> bool" where
  "vmm_nx_enabled mm = g_nx_enabled mm"

text \<open>No-execute support: the CPUID leaf, then the EFER bit, read back after the write.\<close>

definition vmm_enable_nx :: "Mm \<Rightarrow> bool \<times> Mm" where
  "vmm_enable_nx mm =
     (if g_nx_enabled mm then (True, mm)
      else
        let cpu = mm_cpu mm;
            (a, _, _, _) = cpuid cpu 0x80000000 0
        in
        if a < 0x80000001 then (False, mm)
        else
          let (_, _, _, d) = cpuid cpu 0x80000001 0 in
          if \<not> has d (push_bit 20 1) then (False, mm)
          else
            let efer = msr cpu 0xC0000080;
                cpu' = (if has efer (push_bit 11 1) then cpu
                        else cpu\<lparr>msr := (msr cpu)(0xC0000080 := efer OR push_bit 11 1)\<rparr>);
                on = has (msr cpu' 0xC0000080) (push_bit 11 1)
            in (on, mm\<lparr>mm_cpu := cpu', g_nx_enabled := on\<rparr>))"

definition vmm_enable_write_protect :: "Mm \<Rightarrow> bool \<times> Mm" where
  "vmm_enable_write_protect mm =
     (let cpu = mm_cpu mm;
          cpu' = (if has (cr0 cpu) (push_bit 16 1) then cpu
                  else cpu\<lparr>cr0 := cr0 cpu OR push_bit 16 1\<rparr>)
      in (has (cr0 cpu') (push_bit 16 1), mm\<lparr>mm_cpu := cpu'\<rparr>))"

definition vmm_write_protect_enabled :: "Mm \<Rightarrow> bool" where
  "vmm_write_protect_enabled mm \<longleftrightarrow> has (cr0 (mm_cpu mm)) (push_bit 16 1)"

definition vmm_device_memory_supported :: "Mm \<Rightarrow> bool" where
  "vmm_device_memory_supported mm \<longleftrightarrow>
     (let cpu = mm_cpu mm; (_, _, _, d) = cpuid cpu 1 0 in
      g_nx_enabled mm \<and> profile_supported mm \<and> has d (push_bit 16 1) \<and>
      has (cr0 cpu) (push_bit 16 1) \<and> \<not> has (cr0 cpu) (push_bit 29 1 OR push_bit 30 1) \<and>
      drop_bit 24 (msr cpu 0x277) AND 0xFF = 0)"

section \<open>Addresses and entries\<close>

definition page_aligned :: "u64 \<Rightarrow> bool" where
  "page_aligned address \<longleftrightarrow> address AND (VM_PAGE_SIZE - 1) = 0"

definition virtual_address_canonical :: "u64 \<Rightarrow> bool" where
  "virtual_address_canonical address \<longleftrightarrow>
     (let upper = drop_bit 48 address; negative = (drop_bit 47 address AND 1 \<noteq> 0) in
      if negative then upper = 0xFFFF else upper = 0)"

definition pml4_index :: "u64 \<Rightarrow> u32" where
  "pml4_index address = ucast (drop_bit 39 address AND 0x1FF)"

definition pdpt_index :: "u64 \<Rightarrow> u32" where
  "pdpt_index address = ucast (drop_bit 30 address AND 0x1FF)"

definition pd_index :: "u64 \<Rightarrow> u32" where
  "pd_index address = ucast (drop_bit 21 address AND 0x1FF)"

definition pt_index :: "u64 \<Rightarrow> u32" where
  "pt_index address = ucast (drop_bit 12 address AND 0x1FF)"

definition map_owns_pml4_index :: "VmPageMap \<Rightarrow> u32 \<Rightarrow> bool" where
  "map_owns_pml4_index m index \<longleftrightarrow>
     index \<ge> ucast (owned_pml4_first m) \<and> index < ucast (owned_pml4_end m)"

definition table_pointer :: "Mm \<Rightarrow> frame_t \<Rightarrow> ptr" where
  "table_pointer mm frame =
     (let physical = frame_to_phys frame in
      if physical = 0 then 0
      else if vmm_use_phys_map mm then phys_to_virt physical
      else physical)"

definition entry_frame :: "u64 \<Rightarrow> frame_t" where
  "entry_frame entry = phys_to_frame (entry AND PTE_ADDRESS_MASK)"

definition valid_mapping_frame :: "frame_t \<Rightarrow> bool" where
  "valid_mapping_frame frame \<longleftrightarrow>
     frame \<noteq> FRAME_INVALID \<and> frame_to_phys frame \<noteq> 0 \<and>
     \<not> has (frame_to_phys frame) (NOT PTE_ADDRESS_MASK)"

section \<open>Tables\<close>

definition allocate_table :: "ptr \<Rightarrow> Mm \<Rightarrow> frame_t option \<times> Mm" where
  "allocate_table p mm =
     (if p = 0 then (None, mm)
      else if g_unlinked_table mm \<noteq> FRAME_INVALID then (None, mm)
      else
        case test_fault p VMM_TEST_ALLOC mm of (fault, mm) \<Rightarrow>
        if fault then (None, mm)
        else
          case mm_frame_alloc mm of (frame, mm) \<Rightarrow>
          if frame = FRAME_INVALID then (None, mm)
          else
            let (denied, mm) = (if valid_mapping_frame frame then test_fault p VMM_TEST_ACCESS mm
                                else (True, mm));
                table = (if denied then 0 else table_pointer mm frame)
            in
            if table = 0 then
              (case free_table p frame mm of (freed, mm) \<Rightarrow>
                 (None, if freed then mm else mm\<lparr>g_unlinked_table := frame\<rparr>))
            else (Some frame, mm\<lparr>pmem := (pmem mm)(frame := (\<lambda>_. 0))\<rparr>))"

definition existing_table :: "Mm \<Rightarrow> frame_t \<Rightarrow> u32 \<Rightarrow> frame_t option" where
  "existing_table mm parent index =
     (let entry = pmem mm parent index in
      if \<not> has entry PTE_PRESENT then None
      else if has entry PTE_HUGE then None
      else
        let frame = entry_frame entry in
        if frame = FRAME_INVALID then None
        else if table_pointer mm frame = 0 then None
        else Some frame)"

text \<open>The result is the frame created (or \<open>FRAME_INVALID\<close>) and the child table.\<close>

definition create_or_get_table ::
  "ptr \<Rightarrow> frame_t \<Rightarrow> u32 \<Rightarrow> bool \<Rightarrow> Mm \<Rightarrow> (frame_t \<times> frame_t) option \<times> Mm" where
  "create_or_get_table p parent index user mm =
     (let entry = pmem mm parent index in
      if has entry PTE_PRESENT then
        if has entry PTE_HUGE then (None, mm)
        else
          let mm = write_entry parent index (entry OR PTE_WRITE) mm;
              mm = (if user then write_entry parent index (pmem mm parent index OR PTE_USER) mm
                    else mm);
              frame = entry_frame (pmem mm parent index)
          in
          if frame = FRAME_INVALID then (None, mm)
          else if table_pointer mm frame = 0 then (None, mm)
          else (Some (FRAME_INVALID, frame), mm)
      else if entry \<noteq> 0 then (None, mm)
      else
        case allocate_table p mm of
          (None, mm) \<Rightarrow> (None, mm)
        | (Some frame, mm) \<Rightarrow>
            let flags = PTE_PRESENT OR PTE_WRITE;
                flags = (if user then flags OR PTE_USER else flags)
            in (Some (frame, frame),
                write_entry parent index (frame_to_phys frame OR flags) mm))"

definition table_empty :: "Mm \<Rightarrow> frame_t \<Rightarrow> bool" where
  "table_empty mm frame \<longleftrightarrow>
     table_pointer mm frame \<noteq> 0 \<and>
     list_all (\<lambda>i. pmem mm frame i = 0) (index_range 0 PAGE_TABLE_ENTRIES)"

text \<open>The entry is given by its table and index.\<close>

definition release_empty_child :: "ptr \<Rightarrow> frame_t \<Rightarrow> u32 \<Rightarrow> Mm \<Rightarrow> bool \<times> Mm" where
  "release_empty_child p parent index mm =
     (let saved = pmem mm parent index in
      if \<not> has saved PTE_PRESENT \<or> has saved PTE_HUGE then (False, mm)
      else
        let frame = entry_frame saved in
        if \<not> table_empty mm frame then (False, mm)
        else
          case free_table p frame (write_entry parent index 0 mm) of
            (freed, mm) \<Rightarrow> if freed then (True, mm) else (False, write_entry parent index saved mm))"

text \<open>
  The tables created by one call, in order of creation, as (parent, index, frame); the
  rollback visits them from the last to the first and stops at the first failure.
\<close>

definition rollback_created_tables :: "ptr \<Rightarrow> (frame_t \<times> u32 \<times> frame_t) list \<Rightarrow> Mm \<Rightarrow> Mm" where
  "rollback_created_tables p created mm =
     (if map_active mm p \<or> shared_source (page_map_at mm p) then mm
      else
        snd (loop_all (\<lambda>(parent, index, frame) mm.
               if entry_frame (pmem mm parent index) \<noteq> frame then (False, mm)
               else release_empty_child p parent index mm)
             (rev created) mm))"

primrec tree_has_no_leaves :: "nat \<Rightarrow> Mm \<Rightarrow> frame_t \<Rightarrow> u32 \<Rightarrow> u32 \<Rightarrow> bool" where
  "tree_has_no_leaves 0 mm frame first_index end_index \<longleftrightarrow> False"
| "tree_has_no_leaves (Suc level) mm frame first_index end_index \<longleftrightarrow>
     table_pointer mm frame \<noteq> 0 \<and>
     list_all (\<lambda>i.
       let entry = pmem mm frame i in
       entry = 0 \<or>
       \<not> (level = 0 \<or> \<not> has entry PTE_PRESENT \<or> has entry PTE_HUGE) \<and>
       entry_frame entry \<noteq> frame \<and>
       tree_has_no_leaves level mm (entry_frame entry) 0 PAGE_TABLE_ENTRIES)
     (index_range first_index end_index)"

primrec collect_children :: "nat \<Rightarrow> ptr \<Rightarrow> frame_t \<Rightarrow> u32 \<Rightarrow> u32 \<Rightarrow> Mm \<Rightarrow> bool \<times> Mm" where
  "collect_children 0 p frame first_index end_index mm = (False, mm)"
| "collect_children (Suc level) p frame first_index end_index mm =
     (if table_pointer mm frame = 0 then (False, mm)
      else if level = 0 then (True, mm)
      else
        loop_all (\<lambda>i mm.
          let entry = pmem mm frame i in
          if entry = 0 then (True, mm)
          else if \<not> has entry PTE_PRESENT \<or> has entry PTE_HUGE then (False, mm)
          else
            let child = entry_frame entry in
            if child = frame then (False, mm)
            else
              case collect_children level p child 0 PAGE_TABLE_ENTRIES mm of (ok, mm) \<Rightarrow>
              if \<not> ok then (False, mm)
              else if table_empty mm child then release_empty_child p frame i mm
              else (True, mm))
        (index_range first_index end_index) mm)"

definition map_reclaimable :: "Mm \<Rightarrow> ptr \<Rightarrow> bool" where
  "map_reclaimable mm p \<longleftrightarrow>
     (let m = page_map_at mm p in
      p \<noteq> 0 \<and> root_frame m \<noteq> FRAME_INVALID \<and> owned_pml4_first m < owned_pml4_end m \<and>
      owned_pml4_end m \<le> VM_PML4_ENTRY_COUNT \<and> \<not> shared_source m \<and>
      \<not> map_active mm p \<and> profile_supported mm)"

section \<open>Page maps\<close>

definition vmm_page_map_collect :: "ptr \<Rightarrow> Mm \<Rightarrow> bool \<times> Mm" where
  "vmm_page_map_collect p mm =
     (let m = page_map_at mm p in
      if map_reclaimable mm p then
        collect_children 4 p (root_frame m) (ucast (owned_pml4_first m)) (ucast (owned_pml4_end m)) mm
      else (False, mm))"

definition create_owned_locked :: "ptr \<Rightarrow> u16 \<Rightarrow> u16 \<Rightarrow> Mm \<Rightarrow> bool \<times> Mm" where
  "create_owned_locked p owned_first owned_end mm =
     (if p = 0 then (False, mm)
      else if owned_first \<ge> owned_end \<or> owned_end > VM_PML4_ENTRY_COUNT then (False, mm)
      else
        let mm = update_map p (\<lambda>m. m\<lparr>root_frame := FRAME_INVALID, owned_pml4_first := 0,
                   owned_pml4_end := 0, destroy_pending := False, shared_source := False\<rparr>) mm
        in
        case allocate_table p mm of
          (None, mm) \<Rightarrow> (False, mm)
        | (Some root, mm) \<Rightarrow>
            (True, update_map p (\<lambda>m. m\<lparr>root_frame := root, owned_pml4_first := owned_first,
                     owned_pml4_end := owned_end\<rparr>) mm))"

definition vmm_page_map_create_owned_range :: "ptr \<Rightarrow> u16 \<Rightarrow> u16 \<Rightarrow> Mm \<Rightarrow> bool \<times> Mm" where
  "vmm_page_map_create_owned_range p owned_first owned_end mm =
     (if profile_supported mm then create_owned_locked p owned_first owned_end mm else (False, mm))"

definition vmm_page_map_create :: "ptr \<Rightarrow> Mm \<Rightarrow> bool \<times> Mm" where
  "vmm_page_map_create p mm = vmm_page_map_create_owned_range p 0 VM_PML4_ENTRY_COUNT mm"

definition vmm_page_map_destroy :: "ptr \<Rightarrow> Mm \<Rightarrow> bool \<times> Mm" where
  "vmm_page_map_destroy p mm =
     (let m = page_map_at mm p;
          first_index = ucast (owned_pml4_first m); end_index = ucast (owned_pml4_end m)
      in
      if \<not> map_reclaimable mm p then (False, mm)
      else if \<not> tree_has_no_leaves 4 mm (root_frame m) first_index end_index then (False, mm)
      else
        let mm = update_map p (\<lambda>m. m\<lparr>destroy_pending := True\<rparr>) mm in
        case collect_children 4 p (root_frame m) first_index end_index mm of (ok, mm) \<Rightarrow>
        if \<not> ok then (False, mm)
        else
          case free_table p (root_frame m) mm of (freed, mm) \<Rightarrow>
          if \<not> freed then (False, mm)
          else (True, update_map p (\<lambda>m. m\<lparr>root_frame := FRAME_INVALID, owned_pml4_first := 0,
                        owned_pml4_end := 0, destroy_pending := False\<rparr>) mm))"

section \<open>Mapping\<close>

definition leaf_flags :: "vm_flags_t \<Rightarrow> u64" where
  "leaf_flags flags =
     (let e = PTE_PRESENT OR PTE_NX;
          e = (if has flags VM_WRITE then e OR PTE_WRITE else e);
          e = (if has flags VM_USER then e OR PTE_USER else e);
          e = (if has flags VM_UNCACHED then e OR PTE_PCD else e);
          e = (if has flags VM_DEVICE then e OR (PTE_PCD OR PTE_PWT) else e)
      in if has flags VM_EXEC then e AND NOT PTE_NX else e)"

text \<open>The checks at the start of \<^verbatim>\<open>map_page_locked\<close>.\<close>

definition map_page_allowed :: "Mm \<Rightarrow> ptr \<Rightarrow> u64 \<Rightarrow> frame_t \<Rightarrow> vm_flags_t \<Rightarrow> bool" where
  "map_page_allowed mm p v frame flags \<longleftrightarrow>
     (let m = page_map_at mm p in
      \<not> (p = 0 \<or> root_frame m = FRAME_INVALID \<or> destroy_pending m) \<and>
      \<not> (shared_source m \<and> \<not> map_active mm p) \<and>
      page_aligned v \<and> virtual_address_canonical v \<and>
      valid_mapping_frame frame \<and> g_nx_enabled mm \<and>
      \<not> has flags (NOT (VM_WRITE OR VM_USER OR VM_EXEC OR VM_UNCACHED OR VM_DEVICE)) \<and>
      \<not> (has flags VM_DEVICE \<and> (has flags VM_UNCACHED \<or> \<not> vmm_device_memory_supported mm)) \<and>
      map_owns_pml4_index m (pml4_index v) \<and>
      table_pointer mm (root_frame m) \<noteq> 0)"

text \<open>Remember a table this call created.\<close>

definition note_created ::
  "frame_t \<Rightarrow> u32 \<Rightarrow> frame_t \<Rightarrow> (frame_t \<times> u32 \<times> frame_t) list \<Rightarrow> (frame_t \<times> u32 \<times> frame_t) list" where
  "note_created parent index created cs =
     (if created = FRAME_INVALID then cs else cs @ [(parent, index, created)])"

definition map_page_locked :: "ptr \<Rightarrow> u64 \<Rightarrow> frame_t \<Rightarrow> vm_flags_t \<Rightarrow> Mm \<Rightarrow> bool \<times> Mm" where
  "map_page_locked p v frame flags mm =
     (if \<not> map_page_allowed mm p v frame flags then (False, mm)
      else
        let pml4 = root_frame (page_map_at mm p); user = has flags VM_USER in
        case create_or_get_table p pml4 (pml4_index v) user mm of
          (None, mm) \<Rightarrow> (False, mm)
        | (Some (created, pdpt), mm) \<Rightarrow>
        let cs = note_created pml4 (pml4_index v) created [] in
        (case create_or_get_table p pdpt (pdpt_index v) user mm of
          (None, mm) \<Rightarrow> (False, rollback_created_tables p cs mm)
        | (Some (created, pd), mm) \<Rightarrow>
        let cs = note_created pdpt (pdpt_index v) created cs in
        (case create_or_get_table p pd (pd_index v) user mm of
          (None, mm) \<Rightarrow> (False, rollback_created_tables p cs mm)
        | (Some (created, pt), mm) \<Rightarrow>
        let cs = note_created pd (pd_index v) created cs in
        if pmem mm pt (pt_index v) \<noteq> 0 then (False, rollback_created_tables p cs mm)
        else (True, write_entry pt (pt_index v) (frame_to_phys frame OR leaf_flags flags) mm))))"

definition vmm_map_page :: "ptr \<Rightarrow> u64 \<Rightarrow> frame_t \<Rightarrow> vm_flags_t \<Rightarrow> Mm \<Rightarrow> bool \<times> Mm" where
  "vmm_map_page p v frame flags mm =
     (let (result, mm) = (if profile_supported mm then map_page_locked p v frame flags mm
                          else (False, mm))
      in (result, if profile_supported mm then flush_active_map p mm else mm))"

definition effective_flags :: "u64 \<Rightarrow> u64 \<Rightarrow> u64 \<Rightarrow> u64 \<Rightarrow> vm_flags_t" where
  "effective_flags pml4e pdpte pde pte =
     (let r = 0;
          r = (if has pml4e PTE_WRITE \<and> has pdpte PTE_WRITE \<and> has pde PTE_WRITE \<and> has pte PTE_WRITE
               then r OR VM_WRITE else r);
          r = (if has pml4e PTE_USER \<and> has pdpte PTE_USER \<and> has pde PTE_USER \<and> has pte PTE_USER
               then r OR VM_USER else r);
          r = (if \<not> has (pml4e OR pdpte OR pde OR pte) PTE_NX then r OR VM_EXEC else r)
      in if pte AND (PTE_PCD OR PTE_PWT) = PTE_PCD OR PTE_PWT then r OR VM_DEVICE
         else if has pte PTE_PCD then r OR VM_UNCACHED
         else r)"

definition vmm_query_page :: "Mm \<Rightarrow> ptr \<Rightarrow> u64 \<Rightarrow> (frame_t \<times> vm_flags_t) option" where
  "vmm_query_page mm p v =
     (let pml4 = root_frame (page_map_at mm p) in
      if p = 0 \<or> pml4 = FRAME_INVALID then None
      else if \<not> page_aligned v \<or> \<not> virtual_address_canonical v then None
      else if table_pointer mm pml4 = 0 then None
      else
        case existing_table mm pml4 (pml4_index v) of
          None \<Rightarrow> None
        | Some pdpt \<Rightarrow>
        (case existing_table mm pdpt (pdpt_index v) of
          None \<Rightarrow> None
        | Some pd \<Rightarrow>
        (case existing_table mm pd (pd_index v) of
          None \<Rightarrow> None
        | Some pt \<Rightarrow>
        let pte = pmem mm pt (pt_index v) in
        if \<not> has pte PTE_PRESENT then None
        else Some (entry_frame pte,
               effective_flags (pmem mm pml4 (pml4_index v)) (pmem mm pdpt (pdpt_index v))
                 (pmem mm pd (pd_index v)) pte))))"

text \<open>
  The descent of \<^verbatim>\<open>vmm_set_writable\<close> through three writable levels to the last table.
\<close>

fun writable_walk :: "Mm \<Rightarrow> frame_t \<Rightarrow> u32 list \<Rightarrow> frame_t option" where
  "writable_walk mm table [] = Some table"
| "writable_walk mm table (i # is) =
     (if table_pointer mm table = 0 \<or> \<not> has (pmem mm table i) PTE_WRITE then None
      else case existing_table mm table i of
             None \<Rightarrow> None
           | Some next_table \<Rightarrow> writable_walk mm next_table is)"

definition vmm_set_writable ::
  "ptr \<Rightarrow> u64 \<Rightarrow> frame_t \<Rightarrow> vm_flags_t \<Rightarrow> bool \<Rightarrow> Mm \<Rightarrow> bool \<times> Mm" where
  "vmm_set_writable p address expected expected_flags writable mm =
     (let m = page_map_at mm p in
      if \<not> profile_supported mm \<or> p = 0 \<or> destroy_pending m \<or> \<not> page_aligned address \<or>
         \<not> virtual_address_canonical address \<or> \<not> map_owns_pml4_index m (pml4_index address) \<or>
         (shared_source m \<and> \<not> map_active mm p)
      then (False, mm)
      else
        case vmm_query_page mm p address of
          None \<Rightarrow> (False, mm)
        | Some (actual, permissions) \<Rightarrow>
            if actual \<noteq> expected \<or> permissions \<noteq> expected_flags \<or> has permissions VM_EXEC \<or>
               (has permissions VM_DEVICE \<and> \<not> vmm_device_memory_supported mm)
            then (False, mm)
            else
              (case writable_walk mm (root_frame m)
                      [pml4_index address, pdpt_index address, pd_index address] of
                 None \<Rightarrow> (False, mm)
               | Some table \<Rightarrow>
                   let leaf = pmem mm table (pt_index address) in
                   if has leaf (PTE_GLOBAL OR PTE_HUGE) \<or> \<not> has leaf PTE_NX then (False, mm)
                   else
                     (True, flush_active_map p
                        (write_entry table (pt_index address)
                          (if writable then leaf OR PTE_WRITE else leaf AND NOT PTE_WRITE) mm))))"

definition vmm_test_entry_flags :: "u64 \<Rightarrow> vm_flags_t" where
  "vmm_test_entry_flags entry =
     (if \<not> has entry PTE_PRESENT then 0
      else
        let f = 0;
            f = (if has entry PTE_WRITE then f OR VM_WRITE else f);
            f = (if has entry PTE_USER then f OR VM_USER else f);
            f = (if \<not> has entry PTE_NX then f OR VM_EXEC else f)
        in if entry AND (PTE_PCD OR PTE_PWT) = PTE_PCD OR PTE_PWT then f OR VM_DEVICE
           else if has entry PTE_PCD then f OR VM_UNCACHED
           else f)"

record VmmTestPageWalk =
  walk_frame :: frame_t
  walk_pml4_flags :: vm_flags_t
  walk_pdpt_flags :: vm_flags_t
  walk_pd_flags :: vm_flags_t
  walk_pt_flags :: vm_flags_t
  walk_effective_flags :: vm_flags_t

definition vmm_test_page_walk :: "Mm \<Rightarrow> ptr \<Rightarrow> u64 \<Rightarrow> VmmTestPageWalk option" where
  "vmm_test_page_walk mm p v =
     (case vmm_query_page mm p v of
        None \<Rightarrow> None
      | Some (mapped, effective) \<Rightarrow>
          let pml4 = root_frame (page_map_at mm p) in
          if table_pointer mm pml4 = 0 then None
          else
            (case existing_table mm pml4 (pml4_index v) of
               None \<Rightarrow> None
             | Some pdpt \<Rightarrow>
            (case existing_table mm pdpt (pdpt_index v) of
               None \<Rightarrow> None
             | Some pd \<Rightarrow>
            (case existing_table mm pd (pd_index v) of
               None \<Rightarrow> None
             | Some pt \<Rightarrow>
                 let pte = pmem mm pt (pt_index v) in
                 if \<not> has pte PTE_PRESENT \<or> entry_frame pte \<noteq> mapped then None
                 else Some \<lparr>walk_frame = mapped,
                   walk_pml4_flags = vmm_test_entry_flags (pmem mm pml4 (pml4_index v)),
                   walk_pdpt_flags = vmm_test_entry_flags (pmem mm pdpt (pdpt_index v)),
                   walk_pd_flags = vmm_test_entry_flags (pmem mm pd (pd_index v)),
                   walk_pt_flags = vmm_test_entry_flags pte,
                   walk_effective_flags = effective\<rparr>))))"

text \<open>The optional pruning after a leaf was removed.\<close>

definition prune_path ::
  "ptr \<Rightarrow> frame_t \<Rightarrow> u32 \<Rightarrow> frame_t \<Rightarrow> u32 \<Rightarrow> frame_t \<Rightarrow> u32 \<Rightarrow> frame_t \<Rightarrow> Mm \<Rightarrow> Mm" where
  "prune_path p pml4 i4 pdpt i3 pd i2 pt mm =
     (if \<not> map_active mm p \<and> \<not> shared_source (page_map_at mm p) \<and> table_empty mm pt then
        case release_empty_child p pd i2 mm of (ok, mm) \<Rightarrow>
        if \<not> ok then mm
        else if table_empty mm pd then
          (case release_empty_child p pdpt i3 mm of (ok, mm) \<Rightarrow>
           if \<not> ok then mm
           else if table_empty mm pdpt then snd (release_empty_child p pml4 i4 mm)
           else mm)
        else mm
      else mm)"

text \<open>The result is the frame that was mapped, where the source returns true.\<close>

definition unmap_page_locked :: "ptr \<Rightarrow> u64 \<Rightarrow> Mm \<Rightarrow> frame_t option \<times> Mm" where
  "unmap_page_locked p v mm =
     (let m = page_map_at mm p; pml4 = root_frame m in
      if p = 0 \<or> pml4 = FRAME_INVALID \<or> destroy_pending m then (None, mm)
      else if shared_source m \<and> \<not> map_active mm p then (None, mm)
      else if \<not> page_aligned v \<or> \<not> virtual_address_canonical v then (None, mm)
      else if \<not> map_owns_pml4_index m (pml4_index v) then (None, mm)
      else if table_pointer mm pml4 = 0 then (None, mm)
      else
        case existing_table mm pml4 (pml4_index v) of
          None \<Rightarrow> (None, mm)
        | Some pdpt \<Rightarrow>
        (case existing_table mm pdpt (pdpt_index v) of
          None \<Rightarrow> (None, mm)
        | Some pd \<Rightarrow>
        (case existing_table mm pd (pd_index v) of
          None \<Rightarrow> (None, mm)
        | Some pt \<Rightarrow>
        let entry = pmem mm pt (pt_index v) in
        if \<not> has entry PTE_PRESENT \<or> has entry PTE_GLOBAL then (None, mm)
        else
          (Some (entry_frame entry),
           prune_path p pml4 (pml4_index v) pdpt (pdpt_index v) pd (pd_index v) pt
             (flush_active_map p (write_entry pt (pt_index v) 0 mm))))))"

definition vmm_unmap_page :: "ptr \<Rightarrow> u64 \<Rightarrow> Mm \<Rightarrow> frame_t option \<times> Mm" where
  "vmm_unmap_page p v mm =
     (if profile_supported mm then unmap_page_locked p v mm else (None, mm))"

text \<open>One page of a range: accept an equal mapping with the rights asked for, or map it.\<close>

definition map_range_step ::
  "ptr \<Rightarrow> u64 \<Rightarrow> u64 \<Rightarrow> vm_flags_t \<Rightarrow> u64 \<Rightarrow> Mm \<Rightarrow> bool \<times> Mm" where
  "map_range_step p virtual_address physical_address flags i mm =
     (let virtual_page = virtual_address + i * VM_PAGE_SIZE;
          physical_page = physical_address + i * VM_PAGE_SIZE;
          expected = phys_to_frame physical_page
      in
      if \<not> map_owns_pml4_index (page_map_at mm p) (pml4_index virtual_page) then (False, mm)
      else if expected = FRAME_INVALID then (False, mm)
      else
        case vmm_query_page mm p virtual_page of
          Some (existing, existing_flags) \<Rightarrow>
            (existing = expected \<and> existing_flags AND flags = flags, mm)
        | None \<Rightarrow> vmm_map_page p virtual_page expected flags mm)"

definition vmm_map_range :: "ptr \<Rightarrow> u64 \<Rightarrow> u64 \<Rightarrow> u64 \<Rightarrow> vm_flags_t \<Rightarrow> Mm \<Rightarrow> bool \<times> Mm" where
  "vmm_map_range p virtual_address physical_address size_bytes flags mm =
     (if p = 0 \<or> destroy_pending (page_map_at mm p) then (False, mm)
      else if size_bytes = 0 then (True, mm)
      else if virtual_address AND (VM_PAGE_SIZE - 1) \<noteq> 0 then (False, mm)
      else if physical_address AND (VM_PAGE_SIZE - 1) \<noteq> 0 then (False, mm)
      else if size_bytes > U64_MAX - (VM_PAGE_SIZE - 1) then (False, mm)
      else
        let page_count = (size_bytes + VM_PAGE_SIZE - 1) div VM_PAGE_SIZE in
        if page_count = 0 then (False, mm)
        else if page_count > U64_MAX div VM_PAGE_SIZE then (False, mm)
        else
          let span = page_count * VM_PAGE_SIZE in
          if virtual_address > U64_MAX - (span - 1) then (False, mm)
          else if physical_address > U64_MAX - (span - 1) then (False, mm)
          else loop_all (map_range_step p virtual_address physical_address flags)
                 (upto_u64 page_count) mm)"

definition vmm_identity_map_range :: "ptr \<Rightarrow> u64 \<Rightarrow> u64 \<Rightarrow> vm_flags_t \<Rightarrow> Mm \<Rightarrow> bool \<times> Mm" where
  "vmm_identity_map_range p physical_address size_bytes flags mm =
     (if size_bytes = 0 then (True, mm)
      else
        let offset = physical_address AND (VM_PAGE_SIZE - 1);
            aligned = physical_address AND NOT (VM_PAGE_SIZE - 1)
        in
        if size_bytes > U64_MAX - offset then (False, mm)
        else
          let adjusted_size = size_bytes + offset in
          if aligned = 0 then
            if adjusted_size \<le> VM_PAGE_SIZE then (True, mm)
            else vmm_map_range p VM_PAGE_SIZE VM_PAGE_SIZE (adjusted_size - VM_PAGE_SIZE) flags mm
          else vmm_map_range p aligned aligned adjusted_size flags mm)"

definition share_locked :: "ptr \<Rightarrow> ptr \<Rightarrow> u16 \<Rightarrow> Mm \<Rightarrow> bool \<times> Mm" where
  "share_locked destination source index mm =
     (let d = page_map_at mm destination; s = page_map_at mm source in
      if destination = 0 \<or> source = 0 \<or> root_frame d = FRAME_INVALID \<or>
         root_frame s = FRAME_INVALID \<or> index \<ge> VM_PML4_ENTRY_COUNT then (False, mm)
      else if destination = source \<or> destroy_pending d \<or> destroy_pending s \<or>
         map_active mm destination then (False, mm)
      else if map_owns_pml4_index d (ucast index) then (False, mm)
      else if table_pointer mm (root_frame d) = 0 \<or> table_pointer mm (root_frame s) = 0 then (False, mm)
      else if has (pmem mm (root_frame d) (ucast index)) PTE_PRESENT then (False, mm)
      else
        let entry = pmem mm (root_frame s) (ucast index);
            mm = write_entry (root_frame d) (ucast index) entry mm
        in (True, if has entry PTE_PRESENT
                  then update_map source (\<lambda>m. m\<lparr>shared_source := True\<rparr>) mm else mm))"

definition vmm_page_map_share_pml4_entry :: "ptr \<Rightarrow> ptr \<Rightarrow> u16 \<Rightarrow> Mm \<Rightarrow> bool \<times> Mm" where
  "vmm_page_map_share_pml4_entry destination source index mm =
     (if profile_supported mm then share_locked destination source index mm else (False, mm))"

end
