(* ===== verification/Kernel_Objects.thy ===== *)
theory Kernel_Objects
  imports Object_Storage VMM
begin

text \<open>
  The objects of the kernel and its whole state. Objects live in caller storage and are named by
  their address; each structure type has its own heap, a function from addresses to the fields
  of the structure, so that a write through one pointer changes that object and no object of
  another type. A structure inside another one is found at its offset: the capability table of a
  process at 16, its address space at 2584, the page map of an address space at 8. The
  variables of each source file form one record. Public operations run with local
  interrupts disabled on the only CPU, so each is one change of the state.
\<close>

section \<open>Capabilities\<close>

type_synonym CapabilityHandle = u64
type_synonym CapabilityRights = u64

datatype CapabilityType =
    CAPABILITY_TYPE_NONE
  | CAPABILITY_TYPE_THREAD
  | CAPABILITY_TYPE_ADDRESS_SPACE
  | CAPABILITY_TYPE_ENDPOINT
  | CAPABILITY_TYPE_DEVICE_RESOURCE

record CapabilitySlot =
  slot_object :: ptr
  slot_object_id :: u64
  slot_rights :: CapabilityRights
  slot_generation :: u32
  slot_type :: CapabilityType
  slot_occupied :: bool

record CapabilityTable =
  ct_slots :: "CapabilitySlot list"
  ct_count :: u32
  ct_initialized :: bool

record CapabilityModule =
  g_tables :: "ptr list"
  g_next_generation :: "u64 list"
  g_issuers_initialized :: bool

section \<open>Endpoints\<close>

record IpcMessage =
  words :: "u64 list"
  word_count :: u32

record Endpoint =
  ep_id :: u64
  owner_process_id :: u64
  ep_message :: IpcMessage
  message_ready :: bool
  waiting_receiver :: ptr
  waiting_receiver_id :: u64
  waiting_sender :: ptr
  waiting_sender_id :: u64
  waiting_sender_message :: IpcMessage
  waiting_sender_message_ready :: bool
  ep_closed :: bool
  ep_initialized :: bool
  ep_capability_refs :: u64

record EndpointModule =
  g_next_endpoint_id :: u64
  endpoint_initialized :: bool
  g_endpoints :: "ptr list"

section \<open>Address spaces\<close>

record AddressSpace =
  sp_id :: u64
  sp_kernel :: bool
  sp_capability_refs :: u64

datatype SpaceCreateTestFault =
  SPACE_CREATE_TEST_ALLOCATE | SPACE_CREATE_TEST_AFTER_ROOT | SPACE_CREATE_TEST_AFTER_SHARE

record SpaceCreateFault =
  sf_target :: ptr
  sf_fault :: SpaceCreateTestFault
  sf_fail_rollback :: bool
  sf_armed :: bool

record SpaceModule =
  g_kernel_space :: ptr
  g_unpublished_map :: ptr
  g_kernel_ready :: bool
  g_next_space_id :: u64
  g_space_storage :: "ptr list"
  space_create_fault_state :: SpaceCreateFault

section \<open>Device resources\<close>

datatype DeviceResourceKind =
    DEVICE_RESOURCE_NONE
  | DEVICE_RESOURCE_DISPLAY
  | DEVICE_RESOURCE_AUDIO
  | DEVICE_RESOURCE_PCI_FUNCTION
  | DEVICE_RESOURCE_PCI_MMIO_BAR
  | DEVICE_RESOURCE_PCI_IO_BAR
  | DEVICE_RESOURCE_PCI_IRQ
  | DEVICE_RESOURCE_PCI_DMA_BUFFER
  | DEVICE_RESOURCE_REGISTER_READER

record DeviceResource =
  dr_id :: u64
  dr_capability_refs :: u64
  dr_kind :: DeviceResourceKind
  dr_initialized :: bool

record ResourceModule =
  g_resources :: "ptr list"
  g_next_resource_id :: u64

section \<open>Threads\<close>

datatype ThreadState =
    THREAD_STATE_INVALID
  | THREAD_STATE_READY
  | THREAD_STATE_RUNNING
  | THREAD_STATE_BLOCKED
  | THREAD_STATE_DEAD

datatype ThreadWaitKind =
    THREAD_WAIT_NONE
  | THREAD_WAIT_IPC_RECEIVE
  | THREAD_WAIT_IPC_SEND
  | THREAD_WAIT_PROCESS_EXIT

datatype ThreadWaitResult =
    THREAD_WAIT_RESULT_NONE
  | THREAD_WAIT_RESULT_PENDING
  | THREAD_WAIT_RESULT_CANCELLED
  | THREAD_WAIT_RESULT_COMPLETED
  | THREAD_WAIT_RESULT_PEER_CLOSED
  | THREAD_WAIT_RESULT_TIMED_OUT

record Thread =
  th_id :: u64
  th_process :: ptr
  process_prev :: ptr
  process_next :: ptr
  th_state :: ThreadState
  interrupt_rsp :: u64
  th_entry :: ptr
  th_argument :: ptr
  kernel_stack_physical :: u64
  kernel_stack_base :: u64
  kernel_stack_top :: u64
  kernel_stack_size :: u64
  owns_kernel_stack :: bool
  interrupt_context_ready :: bool
  wait_kind :: ThreadWaitKind
  wait_result :: ThreadWaitResult
  wait_object :: ptr
  wait_id :: u64
  run_next :: ptr
  on_run_queue :: bool
  th_capability_refs :: u64

datatype ThreadCreateTestFault =
  THREAD_CREATE_TEST_ALLOCATE | THREAD_CREATE_TEST_ACCESS | THREAD_CREATE_TEST_ATTACH

record ThreadCreateFault =
  tf_target :: ptr
  tf_fault :: ThreadCreateTestFault
  tf_fail_rollback :: bool
  tf_armed :: bool

record ThreadModule =
  g_bootstrap_thread :: ptr
  g_current_thread :: ptr
  g_next_thread_id :: u64
  g_next_wait_id :: u64
  thread_initialized :: bool
  g_thread_storage :: "ptr list"
  g_unpublished_stack :: u64
  g_unpublished_stack_virtual :: u64
  thread_create_fault_state :: ThreadCreateFault

text \<open>
  The saved context on a kernel stack: \<^verbatim>\<open>InterruptFrame\<close> followed by
  \<^verbatim>\<open>InterruptStackFrame\<close>. The registers that no modelled code reads by name are kept
  together.
\<close>

record InterruptFrame =
  fr_rax :: u64
  fr_other_registers :: "nat \<Rightarrow> u64"
  fr_vector :: u64
  fr_error_code :: u64
  fr_rip :: u64
  fr_cs :: u64
  fr_rflags :: u64
  fr_rsp :: u64
  fr_ss :: u64

section \<open>Processes\<close>

datatype ProcessExitReason =
  PROCESS_EXIT_NONE | PROCESS_EXIT_NORMAL | PROCESS_EXIT_FAULT | PROCESS_EXIT_TERMINATED

record ProcessExitInfo =
  ei_reason :: ProcessExitReason
  ei_process_id :: u64
  ei_thread_id :: u64
  ei_vector :: u64
  ei_error_code :: u64
  ei_rip :: u64
  ei_cr2 :: u64

record Process =
  pr_id :: u64
  pr_address_space :: ptr
  thread_head :: ptr
  thread_tail :: ptr
  thread_count :: u64
  elf_image :: ptr
  exit_info :: ProcessExitInfo
  exit_queue :: ptr
  exit_queue_id :: u64
  pr_kernel :: bool
  owns_address_space :: bool
  pr_initialized :: bool

record ProcessModule =
  g_kernel_process :: ptr
  g_next_process_id :: u64
  process_initialized :: bool
  g_process_storage :: "ptr list"

text \<open>The offsets of the structures inside a \<^verbatim>\<open>Process\<close> and an \<^verbatim>\<open>AddressSpace\<close>.\<close>

definition process_capabilities_addr :: "ptr \<Rightarrow> ptr" where
  "process_capabilities_addr p = p + 16"

definition process_owned_space_addr :: "ptr \<Rightarrow> ptr" where
  "process_owned_space_addr p = p + 2584"

definition space_page_map_addr :: "ptr \<Rightarrow> ptr" where
  "space_page_map_addr p = p + 8"

section \<open>Exit queues\<close>

record ProcessExitQueueSlot =
  qs_process :: ptr
  qs_process_id :: u64
  qs_event :: ProcessExitInfo
  qs_watching :: bool
  qs_pending :: bool

record ProcessExitQueue =
  eq_id :: u64
  eq_slots :: "ProcessExitQueueSlot list"
  eq_waiting_receiver :: ptr
  eq_waiting_receiver_id :: u64
  pending_order :: "u8 list"
  pending_head :: u32
  pending_tail :: u32
  watch_count :: u32
  pending_count :: u32
  eq_closed :: bool
  eq_initialized :: bool

record ExitQueueModule =
  g_exit_queues :: "ptr list"
  g_next_exit_queue_id :: u64

section \<open>Scheduler, kernel stacks, timed waits\<close>

record SchedulerModule =
  g_run_head :: ptr
  g_run_tail :: ptr
  g_run_count :: u64
  scheduler_initialized :: bool
  g_reschedule_count :: u64
  g_preemption_enabled :: bool
  g_preemption_count :: u64
  g_idle_wait_count :: u64
  g_idle_stack_physical :: u64
  g_idle_stack_base :: u64
  g_idle_stack_top :: u64
  g_idle_context_ready :: bool
  g_idle_active :: bool
  g_idle_entry_count :: u64
  g_idle_resume_count :: u64

record StackModule =
  g_stack_space :: ptr
  g_arena_ready :: bool

record IpcTimedWait =
  tw_thread :: ptr
  tw_endpoint :: ptr
  tw_thread_id :: u64
  tw_endpoint_id :: u64
  tw_wait_id :: u64
  tw_deadline :: u64
  tw_kind :: ThreadWaitKind
  tw_occupied :: bool

record IpcModule =
  g_timed_waits :: "IpcTimedWait list"
  g_park_attempts :: u64

record TimerModule =
  g_ticks :: u64
  timer_is_initialized :: bool

section \<open>The kernel\<close>

text \<open>
  The statically allocated objects (\<^verbatim>\<open>g_kernel_process\<close>, \<^verbatim>\<open>g_kernel_space\<close>,
  \<^verbatim>\<open>g_unpublished_map\<close>, \<^verbatim>\<open>g_bootstrap_thread\<close>) are in the heaps like all
  others; the module record holds the address the linker gave them.
\<close>

record Kernel =
  h_table :: "ptr \<Rightarrow> CapabilityTable"
  h_endpoint :: "ptr \<Rightarrow> Endpoint"
  h_space :: "ptr \<Rightarrow> AddressSpace"
  h_resource :: "ptr \<Rightarrow> DeviceResource"
  h_thread :: "ptr \<Rightarrow> Thread"
  h_process :: "ptr \<Rightarrow> Process"
  h_exit_queue :: "ptr \<Rightarrow> ProcessExitQueue"
  h_frame :: "ptr \<Rightarrow> InterruptFrame"
  k_mm :: Mm
  k_rsp0 :: u64
  k_cap :: CapabilityModule
  k_ep :: EndpointModule
  k_space :: SpaceModule
  k_res :: ResourceModule
  k_thread :: ThreadModule
  k_process :: ProcessModule
  k_exit :: ExitQueueModule
  k_sched :: SchedulerModule
  k_stack :: StackModule
  k_ipc :: IpcModule
  k_timer :: TimerModule

text \<open>Writing fields of one object through its pointer.\<close>

definition upd_table :: "ptr \<Rightarrow> (CapabilityTable \<Rightarrow> CapabilityTable) \<Rightarrow> Kernel \<Rightarrow> Kernel" where
  "upd_table p f k = k\<lparr>h_table := (h_table k)(p := f (h_table k p))\<rparr>"

definition upd_endpoint :: "ptr \<Rightarrow> (Endpoint \<Rightarrow> Endpoint) \<Rightarrow> Kernel \<Rightarrow> Kernel" where
  "upd_endpoint p f k = k\<lparr>h_endpoint := (h_endpoint k)(p := f (h_endpoint k p))\<rparr>"

definition upd_space :: "ptr \<Rightarrow> (AddressSpace \<Rightarrow> AddressSpace) \<Rightarrow> Kernel \<Rightarrow> Kernel" where
  "upd_space p f k = k\<lparr>h_space := (h_space k)(p := f (h_space k p))\<rparr>"

definition upd_resource :: "ptr \<Rightarrow> (DeviceResource \<Rightarrow> DeviceResource) \<Rightarrow> Kernel \<Rightarrow> Kernel" where
  "upd_resource p f k = k\<lparr>h_resource := (h_resource k)(p := f (h_resource k p))\<rparr>"

definition upd_thread :: "ptr \<Rightarrow> (Thread \<Rightarrow> Thread) \<Rightarrow> Kernel \<Rightarrow> Kernel" where
  "upd_thread p f k = k\<lparr>h_thread := (h_thread k)(p := f (h_thread k p))\<rparr>"

definition upd_process :: "ptr \<Rightarrow> (Process \<Rightarrow> Process) \<Rightarrow> Kernel \<Rightarrow> Kernel" where
  "upd_process p f k = k\<lparr>h_process := (h_process k)(p := f (h_process k p))\<rparr>"

definition upd_exit_queue :: "ptr \<Rightarrow> (ProcessExitQueue \<Rightarrow> ProcessExitQueue) \<Rightarrow> Kernel \<Rightarrow> Kernel" where
  "upd_exit_queue p f k = k\<lparr>h_exit_queue := (h_exit_queue k)(p := f (h_exit_queue k p))\<rparr>"

definition upd_frame :: "ptr \<Rightarrow> (InterruptFrame \<Rightarrow> InterruptFrame) \<Rightarrow> Kernel \<Rightarrow> Kernel" where
  "upd_frame p f k = k\<lparr>h_frame := (h_frame k)(p := f (h_frame k p))\<rparr>"

lemmas upd_defs [kernel_defs] =
  upd_table_def upd_endpoint_def upd_space_def upd_resource_def upd_thread_def upd_process_def
  upd_exit_queue_def upd_frame_def

section \<open>Zeroed objects\<close>

text \<open>What \<^verbatim>\<open>k_memset(object, 0, sizeof(*object))\<close> leaves.\<close>

definition zero_slot :: CapabilitySlot where
  "zero_slot = \<lparr>slot_object = 0, slot_object_id = 0, slot_rights = 0, slot_generation = 0,
     slot_type = CAPABILITY_TYPE_NONE, slot_occupied = False\<rparr>"

definition zero_table :: CapabilityTable where
  "zero_table = \<lparr>ct_slots = replicate 64 zero_slot, ct_count = 0, ct_initialized = False\<rparr>"

definition zero_message :: IpcMessage where
  "zero_message = \<lparr>words = replicate 4 0, word_count = 0\<rparr>"

definition zero_endpoint :: Endpoint where
  "zero_endpoint = \<lparr>ep_id = 0, owner_process_id = 0, ep_message = zero_message,
     message_ready = False, waiting_receiver = 0, waiting_receiver_id = 0, waiting_sender = 0,
     waiting_sender_id = 0, waiting_sender_message = zero_message,
     waiting_sender_message_ready = False, ep_closed = False, ep_initialized = False,
     ep_capability_refs = 0\<rparr>"

definition zero_space :: AddressSpace where
  "zero_space = \<lparr>sp_id = 0, sp_kernel = False, sp_capability_refs = 0\<rparr>"

definition zero_page_map :: VmPageMap where
  "zero_page_map = \<lparr>root_frame = 0, owned_pml4_first = 0, owned_pml4_end = 0,
     destroy_pending = False, shared_source = False\<rparr>"

definition zero_resource :: DeviceResource where
  "zero_resource = \<lparr>dr_id = 0, dr_capability_refs = 0, dr_kind = DEVICE_RESOURCE_NONE,
     dr_initialized = False\<rparr>"

definition zero_thread :: Thread where
  "zero_thread = \<lparr>th_id = 0, th_process = 0, process_prev = 0, process_next = 0,
     th_state = THREAD_STATE_INVALID, interrupt_rsp = 0, th_entry = 0, th_argument = 0,
     kernel_stack_physical = 0, kernel_stack_base = 0, kernel_stack_top = 0, kernel_stack_size = 0,
     owns_kernel_stack = False, interrupt_context_ready = False, wait_kind = THREAD_WAIT_NONE,
     wait_result = THREAD_WAIT_RESULT_NONE, wait_object = 0, wait_id = 0, run_next = 0,
     on_run_queue = False, th_capability_refs = 0\<rparr>"

definition zero_exit_info :: ProcessExitInfo where
  "zero_exit_info = \<lparr>ei_reason = PROCESS_EXIT_NONE, ei_process_id = 0, ei_thread_id = 0,
     ei_vector = 0, ei_error_code = 0, ei_rip = 0, ei_cr2 = 0\<rparr>"

definition zero_process :: Process where
  "zero_process = \<lparr>pr_id = 0, pr_address_space = 0, thread_head = 0, thread_tail = 0,
     thread_count = 0, elf_image = 0, exit_info = zero_exit_info, exit_queue = 0,
     exit_queue_id = 0, pr_kernel = False, owns_address_space = False, pr_initialized = False\<rparr>"

definition zero_queue_slot :: ProcessExitQueueSlot where
  "zero_queue_slot = \<lparr>qs_process = 0, qs_process_id = 0, qs_event = zero_exit_info,
     qs_watching = False, qs_pending = False\<rparr>"

definition zero_exit_queue :: ProcessExitQueue where
  "zero_exit_queue = \<lparr>eq_id = 0, eq_slots = replicate 16 zero_queue_slot, eq_waiting_receiver = 0,
     eq_waiting_receiver_id = 0, pending_order = replicate 16 0, pending_head = 0,
     pending_tail = 0, watch_count = 0, pending_count = 0, eq_closed = False,
     eq_initialized = False\<rparr>"

definition zero_timed_wait :: IpcTimedWait where
  "zero_timed_wait = \<lparr>tw_thread = 0, tw_endpoint = 0, tw_thread_id = 0, tw_endpoint_id = 0,
     tw_wait_id = 0, tw_deadline = 0, tw_kind = THREAD_WAIT_NONE, tw_occupied = False\<rparr>"

definition zero_frame :: InterruptFrame where
  "zero_frame = \<lparr>fr_rax = 0, fr_other_registers = (\<lambda>_. 0), fr_vector = 0, fr_error_code = 0,
     fr_rip = 0, fr_cs = 0, fr_rflags = 0, fr_rsp = 0, fr_ss = 0\<rparr>"

end
