(* ===== verification/Small_Kernel.thy ===== *)
theory Small_Kernel
  imports Kernel_Objects
begin

text \<open>
  A small concrete state: zeroed objects, initialised modules and registries of four free
  entries. The properties of the components are applied to states built from it.
\<close>

definition small_mm :: Mm where
  "small_mm =
     \<lparr>mm_pmm = demo_pmm, pmem = (\<lambda>_ _. 0), page_map_at = (\<lambda>_. zero_page_map),
      mm_cpu = \<lparr>cr0 = 0, cr3 = 0, cr4 = 0, msr = (\<lambda>_. 0), cpuid = (\<lambda>_ _. (0, 0, 0, 0))\<rparr>,
      vmm_use_phys_map = False, g_nx_enabled = True, g_unlinked_table = FRAME_INVALID,
      g_faults = (\<lambda>_. \<lparr>fault_map = 0, fault_skip = 0, fault_armed = False\<rparr>)\<rparr>"

definition small_kernel :: Kernel where
  "small_kernel =
     \<lparr>h_table = (\<lambda>_. zero_table), h_endpoint = (\<lambda>_. zero_endpoint), h_space = (\<lambda>_. zero_space),
      h_resource = (\<lambda>_. zero_resource), h_thread = (\<lambda>_. zero_thread), h_process = (\<lambda>_. zero_process),
      h_exit_queue = (\<lambda>_. zero_exit_queue), h_frame = (\<lambda>_. zero_frame), k_mm = small_mm, k_rsp0 = 0,
      k_cap = \<lparr>g_tables = replicate 4 0, g_next_generation = replicate 64 0, g_issuers_initialized = False\<rparr>,
      k_ep = \<lparr>g_next_endpoint_id = 1, endpoint_initialized = True, g_endpoints = replicate 4 0\<rparr>,
      k_space = \<lparr>g_kernel_space = 0x1000, g_unpublished_map = 0x2000, g_kernel_ready = True,
        g_next_space_id = 2, g_space_storage = replicate 4 0,
        space_create_fault_state = \<lparr>sf_target = 0, sf_fault = SPACE_CREATE_TEST_ALLOCATE,
          sf_fail_rollback = False, sf_armed = False\<rparr>\<rparr>,
      k_res = \<lparr>g_resources = replicate 4 0, g_next_resource_id = 1\<rparr>,
      k_thread = \<lparr>g_bootstrap_thread = 0x3000, g_current_thread = 0, g_next_thread_id = 2,
        g_next_wait_id = 1, thread_initialized = True, g_thread_storage = replicate 4 0,
        g_unpublished_stack = 0, g_unpublished_stack_virtual = 0,
        thread_create_fault_state = \<lparr>tf_target = 0, tf_fault = THREAD_CREATE_TEST_ALLOCATE,
          tf_fail_rollback = False, tf_armed = False\<rparr>\<rparr>,
      k_process = \<lparr>g_kernel_process = 0x4000, g_next_process_id = 2, process_initialized = True,
        g_process_storage = replicate 4 0\<rparr>,
      k_exit = \<lparr>g_exit_queues = replicate 4 0, g_next_exit_queue_id = 1\<rparr>,
      k_sched = \<lparr>g_run_head = 0, g_run_tail = 0, g_run_count = 0, scheduler_initialized = True,
        g_reschedule_count = 0, g_preemption_enabled = False, g_preemption_count = 0,
        g_idle_wait_count = 0, g_idle_stack_physical = 0, g_idle_stack_base = 0, g_idle_stack_top = 0,
        g_idle_context_ready = False, g_idle_active = False, g_idle_entry_count = 0,
        g_idle_resume_count = 0\<rparr>,
      k_stack = \<lparr>g_stack_space = 0, g_arena_ready = False\<rparr>,
      k_ipc = \<lparr>g_timed_waits = replicate 4 zero_timed_wait, g_park_attempts = 0\<rparr>,
      k_timer = \<lparr>g_ticks = 0, timer_is_initialized = True\<rparr>\<rparr>"

lemma small_kernel_sel [simp]:
  "h_table small_kernel t = zero_table" "h_endpoint small_kernel e = zero_endpoint"
  "h_space small_kernel s = zero_space" "h_resource small_kernel r = zero_resource"
  "h_thread small_kernel u = zero_thread" "h_process small_kernel p = zero_process"
  "h_exit_queue small_kernel q = zero_exit_queue"
  by (simp_all add: small_kernel_def)

end
