(* ===== verification/Registries.thy ===== *)
theory Registries
  imports Small_Kernel
begin

text \<open>
  The registry of each module on the kernel state: \<^verbatim>\<open>table_live\<close>,
  \<^verbatim>\<open>endpoint_live\<close>, \<^verbatim>\<open>space_storage_live\<close>, \<^verbatim>\<open>thread_storage_live\<close>,
  \<^verbatim>\<open>process_storage_live\<close> and \<^verbatim>\<open>queue_live\<close>, the counting functions over them, and
  the interpretation of the registry interface for each.
\<close>

section \<open>Membership\<close>

definition table_live :: "Kernel \<Rightarrow> ptr \<Rightarrow> bool" where
  "table_live k p \<longleftrightarrow> object_storage_find (g_tables (k_cap k)) p < length (g_tables (k_cap k))"

definition endpoint_live :: "Kernel \<Rightarrow> ptr \<Rightarrow> bool" where
  "endpoint_live k p \<longleftrightarrow>
     object_storage_find (g_endpoints (k_ep k)) p < length (g_endpoints (k_ep k))"

definition space_storage_live :: "Kernel \<Rightarrow> ptr \<Rightarrow> bool" where
  "space_storage_live k p \<longleftrightarrow>
     object_storage_find (g_space_storage (k_space k)) p < length (g_space_storage (k_space k))"

definition thread_storage_live :: "Kernel \<Rightarrow> ptr \<Rightarrow> bool" where
  "thread_storage_live k p \<longleftrightarrow>
     object_storage_find (g_thread_storage (k_thread k)) p < length (g_thread_storage (k_thread k))"

definition process_storage_live :: "Kernel \<Rightarrow> ptr \<Rightarrow> bool" where
  "process_storage_live k p \<longleftrightarrow>
     object_storage_find (g_process_storage (k_process k)) p < length (g_process_storage (k_process k))"

definition queue_live :: "Kernel \<Rightarrow> ptr \<Rightarrow> bool" where
  "queue_live k p \<longleftrightarrow>
     object_storage_find (g_exit_queues (k_exit k)) p < length (g_exit_queues (k_exit k))"

definition resource_registered :: "Kernel \<Rightarrow> ptr \<Rightarrow> bool" where
  "resource_registered k p \<longleftrightarrow>
     object_storage_find (g_resources (k_res k)) p < length (g_resources (k_res k))"

lemmas live_defs [simplified find_less] =
  table_live_def endpoint_live_def space_storage_live_def thread_storage_live_def
  process_storage_live_def queue_live_def resource_registered_def

section \<open>Public queries\<close>

definition capability_table_storage_in_use :: "Kernel \<Rightarrow> ptr \<Rightarrow> bool" where
  "capability_table_storage_in_use k p = table_live k p"

definition capability_table_object_count :: "Kernel \<Rightarrow> nat" where
  "capability_table_object_count k = object_storage_count (g_tables (k_cap k))"

definition endpoint_storage_in_use :: "Kernel \<Rightarrow> ptr \<Rightarrow> bool" where
  "endpoint_storage_in_use k p = endpoint_live k p"

definition endpoint_object_count :: "Kernel \<Rightarrow> nat" where
  "endpoint_object_count k = object_storage_count (g_endpoints (k_ep k))"

definition address_space_storage_in_use :: "Kernel \<Rightarrow> ptr \<Rightarrow> bool" where
  "address_space_storage_in_use k p = space_storage_live k p"

definition address_space_object_count :: "Kernel \<Rightarrow> nat" where
  "address_space_object_count k = object_storage_count (g_space_storage (k_space k))"

definition thread_storage_in_use :: "Kernel \<Rightarrow> ptr \<Rightarrow> bool" where
  "thread_storage_in_use k p = thread_storage_live k p"

definition thread_object_count :: "Kernel \<Rightarrow> nat" where
  "thread_object_count k = object_storage_count (g_thread_storage (k_thread k))"

definition process_storage_in_use :: "Kernel \<Rightarrow> ptr \<Rightarrow> bool" where
  "process_storage_in_use k p = process_storage_live k p"

definition process_object_count :: "Kernel \<Rightarrow> nat" where
  "process_object_count k = object_storage_count (g_process_storage (k_process k))"

definition process_exit_queue_storage_in_use :: "Kernel \<Rightarrow> ptr \<Rightarrow> bool" where
  "process_exit_queue_storage_in_use k p = queue_live k p"

definition process_exit_queue_object_count :: "Kernel \<Rightarrow> nat" where
  "process_exit_queue_object_count k = object_storage_count (g_exit_queues (k_exit k))"

definition device_resource_object_count :: "Kernel \<Rightarrow> nat" where
  "device_resource_object_count k = object_storage_count (g_resources (k_res k))"

lemmas in_use_defs [simp] =
  capability_table_storage_in_use_def endpoint_storage_in_use_def address_space_storage_in_use_def
  thread_storage_in_use_def process_storage_in_use_def process_exit_queue_storage_in_use_def

section \<open>Writing a registry\<close>

definition set_tables :: "ptr list \<Rightarrow> Kernel \<Rightarrow> Kernel" where
  "set_tables v k = k\<lparr>k_cap := (k_cap k)\<lparr>g_tables := v\<rparr>\<rparr>"

definition set_endpoints :: "ptr list \<Rightarrow> Kernel \<Rightarrow> Kernel" where
  "set_endpoints v k = k\<lparr>k_ep := (k_ep k)\<lparr>g_endpoints := v\<rparr>\<rparr>"

definition set_spaces :: "ptr list \<Rightarrow> Kernel \<Rightarrow> Kernel" where
  "set_spaces v k = k\<lparr>k_space := (k_space k)\<lparr>g_space_storage := v\<rparr>\<rparr>"

definition set_threads :: "ptr list \<Rightarrow> Kernel \<Rightarrow> Kernel" where
  "set_threads v k = k\<lparr>k_thread := (k_thread k)\<lparr>g_thread_storage := v\<rparr>\<rparr>"

definition set_processes :: "ptr list \<Rightarrow> Kernel \<Rightarrow> Kernel" where
  "set_processes v k = k\<lparr>k_process := (k_process k)\<lparr>g_process_storage := v\<rparr>\<rparr>"

definition set_exit_queues :: "ptr list \<Rightarrow> Kernel \<Rightarrow> Kernel" where
  "set_exit_queues v k = k\<lparr>k_exit := (k_exit k)\<lparr>g_exit_queues := v\<rparr>\<rparr>"

definition set_resources :: "ptr list \<Rightarrow> Kernel \<Rightarrow> Kernel" where
  "set_resources v k = k\<lparr>k_res := (k_res k)\<lparr>g_resources := v\<rparr>\<rparr>"

lemmas set_registry_defs [kernel_defs] =
  set_tables_def set_endpoints_def set_spaces_def set_threads_def set_processes_def
  set_exit_queues_def set_resources_def

interpretation tables: object_registry "\<lambda>k. g_tables (k_cap k)" set_tables
  by unfold_locales (simp add: set_tables_def)

interpretation endpoints: object_registry "\<lambda>k. g_endpoints (k_ep k)" set_endpoints
  by unfold_locales (simp add: set_endpoints_def)

interpretation spaces: object_registry "\<lambda>k. g_space_storage (k_space k)" set_spaces
  by unfold_locales (simp add: set_spaces_def)

interpretation threads: object_registry "\<lambda>k. g_thread_storage (k_thread k)" set_threads
  by unfold_locales (simp add: set_threads_def)

interpretation processes: object_registry "\<lambda>k. g_process_storage (k_process k)" set_processes
  by unfold_locales (simp add: set_processes_def)

interpretation exit_queues: object_registry "\<lambda>k. g_exit_queues (k_exit k)" set_exit_queues
  by unfold_locales (simp add: set_exit_queues_def)

interpretation resources: object_registry "\<lambda>k. g_resources (k_res k)" set_resources
  by unfold_locales (simp add: set_resources_def)

end
