(* ===== verification/Address_Space.thy ===== *)
theory Address_Space
  imports Registries
begin

text \<open>
  Address spaces, \<^verbatim>\<open>kernel/address_space.c\<close>: a page map with an identity. User spaces own the
  PML4 entries 1 to 255 and share the kernel's other entries; the checks here confine user mappings
  to the user range and keep them from being writable and executable at once.
\<close>

abbreviation (input) ADDRESS_SPACE_USER_BASE :: u64 where
  "ADDRESS_SPACE_USER_BASE \<equiv> 0x0000008000000000"

abbreviation (input) ADDRESS_SPACE_USER_LIMIT :: u64 where
  "ADDRESS_SPACE_USER_LIMIT \<equiv> 0x0000800000000000"

text \<open>Operations of the memory subsystem on the kernel state.\<close>

definition on_mm :: "(Mm \<Rightarrow> 'a \<times> Mm) \<Rightarrow> Kernel \<Rightarrow> 'a \<times> Kernel" where
  "on_mm f k = (case f (k_mm k) of (a, mm) \<Rightarrow> (a, k\<lparr>k_mm := mm\<rparr>))"

abbreviation space_page_map :: "Kernel \<Rightarrow> ptr \<Rightarrow> VmPageMap" where
  "space_page_map k p \<equiv> page_map_at (k_mm k) (space_page_map_addr p)"

definition address_space_cr3 :: "Kernel \<Rightarrow> ptr \<Rightarrow> u64" where
  "address_space_cr3 k p =
     (if \<not> space_storage_live k p \<or> root_frame (space_page_map k p) = FRAME_INVALID \<or>
         destroy_pending (space_page_map k p) then 0
      else frame_to_phys (root_frame (space_page_map k p)))"

definition unpublished_root :: "Kernel \<Rightarrow> frame_t" where
  "unpublished_root k = root_frame (page_map_at (k_mm k) (g_unpublished_map (k_space k)))"

definition address_space_creation_cleanup_pending :: "Kernel \<Rightarrow> bool" where
  "address_space_creation_cleanup_pending k \<longleftrightarrow> unpublished_root k \<noteq> FRAME_INVALID"

definition address_space_reclaim_unpublished :: "Kernel \<Rightarrow> bool \<times> Kernel" where
  "address_space_reclaim_unpublished k =
     (if unpublished_root k = FRAME_INVALID then (True, k)
      else on_mm (vmm_page_map_destroy (g_unpublished_map (k_space k))) k)"

section \<open>Fault injection\<close>

definition no_space_fault :: SpaceCreateFault where
  "no_space_fault = \<lparr>sf_target = 0, sf_fault = SPACE_CREATE_TEST_ALLOCATE,
     sf_fail_rollback = False, sf_armed = False\<rparr>"

definition set_space_fault :: "SpaceCreateFault \<Rightarrow> Kernel \<Rightarrow> Kernel" where
  "set_space_fault f k = k\<lparr>k_space := (k_space k)\<lparr>space_create_fault_state := f\<rparr>\<rparr>"

definition address_space_test_fail_create_once ::
  "ptr \<Rightarrow> SpaceCreateTestFault \<Rightarrow> bool \<Rightarrow> Kernel \<Rightarrow> bool \<times> Kernel" where
  "address_space_test_fail_create_once target fault fail_rollback k =
     (if target = 0 \<or> (fault = SPACE_CREATE_TEST_ALLOCATE \<and> fail_rollback) then (False, k)
      else if \<not> sf_armed (space_create_fault_state (k_space k)) \<and> \<not> space_storage_live k target \<and>
         unpublished_root k = FRAME_INVALID \<and> \<not> pmm_test_free_failure_armed (mm_pmm (k_mm k))
      then (True, set_space_fault \<lparr>sf_target = target, sf_fault = fault,
                    sf_fail_rollback = fail_rollback, sf_armed = True\<rparr> k)
      else (False, k))"

definition address_space_test_create_fault_armed :: "Kernel \<Rightarrow> bool" where
  "address_space_test_create_fault_armed k = sf_armed (space_create_fault_state (k_space k))"

definition address_space_test_clear_create_fault :: "Kernel \<Rightarrow> Kernel" where
  "address_space_test_clear_create_fault k = set_space_fault no_space_fault k"

definition address_space_test_unpublished_root :: "Kernel \<Rightarrow> frame_t" where
  "address_space_test_unpublished_root k = unpublished_root k"

definition space_create_fault :: "ptr \<Rightarrow> SpaceCreateTestFault \<Rightarrow> Kernel \<Rightarrow> bool \<times> Kernel" where
  "space_create_fault target fault k =
     (let f = space_create_fault_state (k_space k) in
      if \<not> sf_armed f \<or> sf_target f \<noteq> target \<or> sf_fault f \<noteq> fault then (False, k)
      else
        let k = set_space_fault no_space_fault k in
        (True,
         if sf_fail_rollback f then
           k\<lparr>k_mm := (k_mm k)\<lparr>mm_pmm :=
               snd (pmm_test_fail_free_range_once (mm_pmm (k_mm k)) (unpublished_root k) 1)\<rparr>\<rparr>
         else k))"

section \<open>Creation and destruction\<close>

definition user_virtual_address :: "u64 \<Rightarrow> bool" where
  "user_virtual_address address \<longleftrightarrow>
     address \<ge> ADDRESS_SPACE_USER_BASE \<and> address < ADDRESS_SPACE_USER_LIMIT"

definition address_space_kernel_init :: "Kernel \<Rightarrow> bool \<times> Kernel" where
  "address_space_kernel_init k =
     (if g_kernel_ready (k_space k) then (False, k)
      else
        let p = g_kernel_space (k_space k);
            k = upd_space p (\<lambda>s. s\<lparr>sp_id := 0, sp_kernel := True\<rparr>) k
        in
        case on_mm (vmm_page_map_create (space_page_map_addr p)) k of (ok, k) \<Rightarrow>
        if \<not> ok then (False, k)
        else
          let k = k\<lparr>k_space := (k_space k)\<lparr>g_next_space_id := 1\<rparr>\<rparr>;
              k = set_spaces ((g_space_storage (k_space k))[0 := p]) k
          in (True, k\<lparr>k_space := (k_space k)\<lparr>g_kernel_ready := True\<rparr>\<rparr>))"

definition address_space_kernel :: "Kernel \<Rightarrow> ptr" where
  "address_space_kernel k = (if \<not> g_kernel_ready (k_space k) then 0 else g_kernel_space (k_space k))"

definition space_set_page_map :: "ptr \<Rightarrow> VmPageMap \<Rightarrow> Kernel \<Rightarrow> Kernel" where
  "space_set_page_map p m k = k\<lparr>k_mm := update_map p (\<lambda>_. m) (k_mm k)\<rparr>"

text \<open>The \<^verbatim>\<open>fail\<close> label: release the unpublished map and report failure.\<close>

definition space_create_fail :: "Kernel \<Rightarrow> bool \<times> Kernel" where
  "space_create_fail k = (False, snd (address_space_reclaim_unpublished k))"

text \<open>Sharing the kernel's high entries, one PML4 slot after the other.\<close>

definition share_high_entries :: "Kernel \<Rightarrow> bool \<times> Kernel" where
  "share_high_entries k =
     (let scratch = g_unpublished_map (k_space k);
          source = space_page_map_addr (g_kernel_space (k_space k))
      in loop_all (\<lambda>index. on_mm (vmm_page_map_share_pml4_entry scratch source index))
           (map of_nat [256..<512]) k)"

definition address_space_create_locked :: "ptr \<Rightarrow> Kernel \<Rightarrow> bool \<times> Kernel" where
  "address_space_create_locked p k =
     (if p = 0 \<or> space_storage_live k p then (False, k)
      else
        let k = upd_space p (\<lambda>_. zero_space) k;
            k = space_set_page_map (space_page_map_addr p) (zero_page_map\<lparr>root_frame := FRAME_INVALID\<rparr>) k;
            slots = g_space_storage (k_space k); slot = object_storage_empty slots;
            scratch = g_unpublished_map (k_space k);
            source = space_page_map_addr (g_kernel_space (k_space k))
        in
        if \<not> g_kernel_ready (k_space k) \<or> g_next_space_id (k_space k) = 0 \<or>
           unpublished_root k \<noteq> FRAME_INVALID then (False, k)
        else if slot = length slots then (False, k)
        else
          case space_create_fault p SPACE_CREATE_TEST_ALLOCATE k of (fault, k) \<Rightarrow>
          if fault then (False, k)
          else
            case on_mm (vmm_page_map_create_owned_range scratch 1 256) k of (ok, k) \<Rightarrow>
            if \<not> ok then space_create_fail k
            else
              case space_create_fault p SPACE_CREATE_TEST_AFTER_ROOT k of (fault, k) \<Rightarrow>
              if fault then space_create_fail k
              else
                case on_mm (vmm_page_map_share_pml4_entry scratch source 0) k of (ok, k) \<Rightarrow>
                if \<not> ok then space_create_fail k
                else
                  case space_create_fault p SPACE_CREATE_TEST_AFTER_SHARE k of (fault, k) \<Rightarrow>
                  if fault then space_create_fail k
                  else
                    case share_high_entries k of (ok, k) \<Rightarrow>
                    if \<not> ok then space_create_fail k
                    else
                      let k = space_set_page_map (space_page_map_addr p) (page_map_at (k_mm k) scratch) k;
                          k = upd_space p (\<lambda>s. s\<lparr>sp_id := g_next_space_id (k_space k)\<rparr>) k;
                          k = k\<lparr>k_space := (k_space k)\<lparr>g_next_space_id := g_next_space_id (k_space k) + 1\<rparr>\<rparr>;
                          k = set_spaces (slots[slot := p]) k
                      in (True, space_set_page_map scratch (zero_page_map\<lparr>root_frame := FRAME_INVALID\<rparr>) k))"

definition address_space_create :: "ptr \<Rightarrow> Kernel \<Rightarrow> bool \<times> Kernel" where
  "address_space_create p k = address_space_create_locked p k"

definition address_space_destroy :: "ptr \<Rightarrow> Kernel \<Rightarrow> bool \<times> Kernel" where
  "address_space_destroy p k =
     (let slots = g_space_storage (k_space k); slot = object_storage_find slots p in
      if slot = length slots \<or> p = g_kernel_space (k_space k) \<or> sp_kernel (h_space k p) \<or>
         sp_capability_refs (h_space k p) \<noteq> 0 then (False, k)
      else
        case on_mm (vmm_page_map_destroy (space_page_map_addr p)) k of (ok, k) \<Rightarrow>
        if \<not> ok then (False, k)
        else (True, upd_space p (\<lambda>s. s\<lparr>sp_id := 0\<rparr>) (set_spaces (slots[slot := 0]) k)))"

section \<open>Mappings\<close>

definition address_space_map_page ::
  "ptr \<Rightarrow> u64 \<Rightarrow> frame_t \<Rightarrow> vm_flags_t \<Rightarrow> Kernel \<Rightarrow> bool \<times> Kernel" where
  "address_space_map_page p v frame flags k =
     (if \<not> space_storage_live k p then (False, k)
      else if \<not> sp_kernel (h_space k p) then
        if \<not> user_virtual_address v then (False, k)
        else if has flags VM_WRITE \<and> has flags VM_EXEC then (False, k)
        else on_mm (vmm_map_page (space_page_map_addr p) v frame (flags OR VM_USER)) k
      else on_mm (vmm_map_page (space_page_map_addr p) v frame flags) k)"

definition address_space_unmap_page :: "ptr \<Rightarrow> u64 \<Rightarrow> Kernel \<Rightarrow> frame_t option \<times> Kernel" where
  "address_space_unmap_page p v k =
     (if \<not> space_storage_live k p then (None, k)
      else if \<not> sp_kernel (h_space k p) \<and> \<not> user_virtual_address v then (None, k)
      else on_mm (vmm_unmap_page (space_page_map_addr p) v) k)"

definition address_space_query_page :: "Kernel \<Rightarrow> ptr \<Rightarrow> u64 \<Rightarrow> (frame_t \<times> vm_flags_t) option" where
  "address_space_query_page k p v =
     (if \<not> space_storage_live k p then None
      else vmm_query_page (k_mm k) (space_page_map_addr p) v)"

end
