(* ===== verification/Device_Resource.thy ===== *)
theory Device_Resource
  imports Registries
begin

text \<open>
  Device resources, \<^verbatim>\<open>kernel/device_resource.c\<close>: registered objects with an identity, a kind
  and a count of the capability slots that name them.
\<close>

definition device_resource_valid :: "Kernel \<Rightarrow> ptr \<Rightarrow> bool" where
  "device_resource_valid k p \<longleftrightarrow>
     p \<noteq> 0 \<and> dr_initialized (h_resource k p) \<and> dr_id (h_resource k p) \<noteq> 0 \<and>
     dr_kind (h_resource k p) \<noteq> DEVICE_RESOURCE_NONE \<and> resource_registered k p"

definition device_resource_create :: "ptr \<Rightarrow> DeviceResourceKind \<Rightarrow> Kernel \<Rightarrow> bool \<times> Kernel" where
  "device_resource_create p kind k =
     (if p = 0 \<or> kind = DEVICE_RESOURCE_NONE then (False, k)
      else
        let slots = g_resources (k_res k); slot = object_storage_empty slots in
        if slot < length slots \<and> object_storage_find slots p = length slots \<and>
           g_next_resource_id (k_res k) \<noteq> 0
        then
          let k = upd_resource p (\<lambda>_. zero_resource\<lparr>dr_id := g_next_resource_id (k_res k),
                    dr_kind := kind, dr_initialized := True\<rparr>) k;
              k = k\<lparr>k_res := (k_res k)\<lparr>g_next_resource_id := g_next_resource_id (k_res k) + 1\<rparr>\<rparr>
          in (True, set_resources (slots[slot := p]) k)
        else (False, k))"

definition device_resource_destroy :: "ptr \<Rightarrow> Kernel \<Rightarrow> bool \<times> Kernel" where
  "device_resource_destroy p k =
     (if p = 0 then (False, k)
      else
        let slots = g_resources (k_res k); slot = object_storage_find slots p in
        if slot < length slots \<and> dr_initialized (h_resource k p) \<and> dr_id (h_resource k p) \<noteq> 0 \<and>
           dr_capability_refs (h_resource k p) = 0
        then (True, upd_resource p (\<lambda>_. zero_resource) (set_resources (slots[slot := 0]) k))
        else (False, k))"

section \<open>Creation, destruction and identity\<close>

lemma resource_create_effect:
  assumes ok: "device_resource_create r kind k = (True, k')" and reg: "reg_ok (g_resources (k_res k))"
  shows "r \<noteq> 0" and "\<not> resource_registered k r" and "g_next_resource_id (k_res k) \<noteq> 0"
    and "g_next_resource_id (k_res k') = g_next_resource_id (k_res k) + 1"
    and "reg_ok (g_resources (k_res k'))" and "resource_registered k' q \<longleftrightarrow> q = r \<or> resource_registered k q"
    and "h_resource k' = (h_resource k)(r := zero_resource\<lparr>dr_id := g_next_resource_id (k_res k),
           dr_kind := kind, dr_initialized := True\<rparr>)"
    and "k' = k\<lparr>h_resource := h_resource k', k_res := k_res k'\<rparr>" and "kind \<noteq> DEVICE_RESOURCE_NONE"
proof -
  let ?slots = "g_resources (k_res k)"
  have r: "r \<noteq> 0" and nl: "r \<notin> set ?slots" and id: "g_next_resource_id (k_res k) \<noteq> 0" and zero: "0 \<in> set ?slots"
    and kind: "kind \<noteq> DEVICE_RESOURCE_NONE"
    using ok by (auto simp: device_resource_create_def Let_def split: if_splits)
  have k': "k' = k\<lparr>h_resource := (h_resource k)(r := zero_resource\<lparr>dr_id := g_next_resource_id (k_res k),
           dr_kind := kind, dr_initialized := True\<rparr>),
         k_res := (k_res k)\<lparr>g_next_resource_id := g_next_resource_id (k_res k) + 1,
           g_resources := ?slots[object_storage_empty ?slots := r]\<rparr>\<rparr>"
    using ok r nl id zero kind by (simp add: device_resource_create_def Let_def upd_defs set_resources_def)
  note rg = resources.register [OF reg zero nl]
  show "r \<noteq> 0" "g_next_resource_id (k_res k) \<noteq> 0" "kind \<noteq> DEVICE_RESOURCE_NONE" by fact+
  show "\<not> resource_registered k r" using nl by (simp add: live_defs)
  show "g_next_resource_id (k_res k') = g_next_resource_id (k_res k) + 1"
    "h_resource k' = (h_resource k)(r := zero_resource\<lparr>dr_id := g_next_resource_id (k_res k),
           dr_kind := kind, dr_initialized := True\<rparr>)"
    "k' = k\<lparr>h_resource := h_resource k', k_res := k_res k'\<rparr>" by (simp_all add: k')
  show "reg_ok (g_resources (k_res k'))" using rg(1) by (simp add: k' set_resources_def)
  show "resource_registered k' q \<longleftrightarrow> q = r \<or> resource_registered k q"
    using rg(2) [of q] r by (auto simp: live_defs k' set_resources_def)
qed

lemma resource_destroy_effect:
  assumes ok: "device_resource_destroy r k = (True, k')" and reg: "reg_ok (g_resources (k_res k))"
  shows "resource_registered k r" and "dr_capability_refs (h_resource k r) = 0"
    and "g_next_resource_id (k_res k') = g_next_resource_id (k_res k)"
    and "reg_ok (g_resources (k_res k'))" and "resource_registered k' q \<longleftrightarrow> q \<noteq> r \<and> resource_registered k q"
    and "h_resource k' = (h_resource k)(r := zero_resource)"
    and "k' = k\<lparr>h_resource := h_resource k', k_res := k_res k'\<rparr>"
proof -
  let ?slots = "g_resources (k_res k)"
  have r: "r \<noteq> 0" "r \<in> set ?slots" and c: "dr_capability_refs (h_resource k r) = 0"
    and k': "k' = k\<lparr>h_resource := (h_resource k)(r := zero_resource),
         k_res := (k_res k)\<lparr>g_resources := ?slots[object_storage_find ?slots r := 0]\<rparr>\<rparr>"
    using ok by (auto simp: device_resource_destroy_def Let_def upd_defs set_resources_def split: if_splits)
  note rg = resources.unregister [OF reg r]
  show "resource_registered k r" using r by (simp add: live_defs)
  show "dr_capability_refs (h_resource k r) = 0" by fact
  show "g_next_resource_id (k_res k') = g_next_resource_id (k_res k)"
    "h_resource k' = (h_resource k)(r := zero_resource)"
    "k' = k\<lparr>h_resource := h_resource k', k_res := k_res k'\<rparr>" by (simp_all add: k')
  show "reg_ok (g_resources (k_res k'))" using rg(1) by (simp add: k' set_resources_def)
  show "resource_registered k' q \<longleftrightarrow> q \<noteq> r \<and> resource_registered k q"
    using rg(2) [of q] r by (auto simp: live_defs k' set_resources_def)
qed

definition resource_creates :: "Kernel \<Rightarrow> ptr \<Rightarrow> Kernel \<Rightarrow> bool" where
  "resource_creates k r k' \<longleftrightarrow> reg_ok (g_resources (k_res k)) \<and> (\<exists>kind. device_resource_create r kind k = (True, k'))"

definition resource_destroys :: "Kernel \<Rightarrow> ptr \<Rightarrow> Kernel \<Rightarrow> bool" where
  "resource_destroys k r k' \<longleftrightarrow> reg_ok (g_resources (k_res k)) \<and> device_resource_destroy r k = (True, k')"

interpretation resource_ids: id_issuer resource_registered "\<lambda>k r. dr_id (h_resource k r)"
  "\<lambda>k. g_next_resource_id (k_res k)" resource_creates resource_destroys
proof unfold_locales
  fix k r k' q
  assume "resource_creates k r k'"
  then obtain kind where ok: "device_resource_create r kind k = (True, k')" and reg: "reg_ok (g_resources (k_res k))"
    by (auto simp: resource_creates_def)
  note eff = resource_create_effect [OF ok reg]
  show "g_next_resource_id (k_res k) \<noteq> 0 \<and> g_next_resource_id (k_res k') = g_next_resource_id (k_res k) + 1"
    "dr_id (h_resource k' r) = g_next_resource_id (k_res k)"
    "resource_registered k' q = (q = r \<or> resource_registered k q)"
    "\<not> resource_registered k r" using eff(2-4,6) by (simp_all add: eff(7))
  show "q \<noteq> r \<Longrightarrow> resource_registered k q \<Longrightarrow> dr_id (h_resource k' q) = dr_id (h_resource k q)" by (simp add: eff(7))
next
  fix k r k' q
  assume "resource_destroys k r k'"
  then have ok: "device_resource_destroy r k = (True, k')" and reg: "reg_ok (g_resources (k_res k))"
    by (auto simp: resource_destroys_def)
  note eff = resource_destroy_effect [OF ok reg]
  show "g_next_resource_id (k_res k') = g_next_resource_id (k_res k)"
    "resource_registered k' q = (q \<noteq> r \<and> resource_registered k q)" using eff(3,5) by simp_all
  show "resource_registered k' q \<Longrightarrow> dr_id (h_resource k' q) = dr_id (h_resource k q)"
    using eff(5) [of q] by (simp add: eff(6))
qed

end
