(* ===== verification/Capability.thy ===== *)
theory Capability
  imports Address_Space Device_Resource
begin

text \<open>
  Capability tables, \<^verbatim>\<open>kernel/capability.c\<close>. A handle is a slot index with the generation
  the slot got when it was filled; every occupied slot pins its object by the count
  \<^verbatim>\<open>capability_refs\<close> inside the object. An output parameter of the source is the result
  \<open>Some\<close>, false is \<open>None\<close>.
\<close>

section \<open>Definitions\<close>

abbreviation (input) CAPABILITY_RIGHT_READ :: u64 where "CAPABILITY_RIGHT_READ \<equiv> 1"
abbreviation (input) CAPABILITY_RIGHT_WRITE :: u64 where "CAPABILITY_RIGHT_WRITE \<equiv> 2"
abbreviation (input) CAPABILITY_RIGHT_EXECUTE :: u64 where "CAPABILITY_RIGHT_EXECUTE \<equiv> 4"
abbreviation (input) CAPABILITY_RIGHT_TRANSFER :: u64 where "CAPABILITY_RIGHT_TRANSFER \<equiv> 8"
abbreviation (input) CAPABILITY_RIGHT_MANAGE :: u64 where "CAPABILITY_RIGHT_MANAGE \<equiv> 16"
abbreviation (input) CAPABILITY_RIGHT_SEND :: u64 where "CAPABILITY_RIGHT_SEND \<equiv> 32"
abbreviation (input) CAPABILITY_RIGHT_RECEIVE :: u64 where "CAPABILITY_RIGHT_RECEIVE \<equiv> 64"
abbreviation (input) CAPABILITY_RIGHT_ALL :: u64 where "CAPABILITY_RIGHT_ALL \<equiv> 127"

abbreviation (input) CAPABILITY_TABLE_CAPACITY :: nat where "CAPABILITY_TABLE_CAPACITY \<equiv> 64"
abbreviation (input) CAPABILITY_GENERATION_MAX :: u64 where "CAPABILITY_GENERATION_MAX \<equiv> 0xFFFFFFFF"

definition type_valid :: "CapabilityType \<Rightarrow> bool" where
  "type_valid type \<longleftrightarrow>
     type = CAPABILITY_TYPE_THREAD \<or> type = CAPABILITY_TYPE_ADDRESS_SPACE \<or>
     type = CAPABILITY_TYPE_ENDPOINT \<or> type = CAPABILITY_TYPE_DEVICE_RESOURCE"

text \<open>
  \<^verbatim>\<open>object_refs\<close> gives the identity of a canonical object; the counter it points to is
  the one \<open>refs_of\<close> reads and \<open>set_refs\<close> writes.
\<close>

definition object_refs :: "Kernel \<Rightarrow> ptr \<Rightarrow> CapabilityType \<Rightarrow> bool \<Rightarrow> u64 option" where
  "object_refs k object type inserting =
     (if object = 0 then None
      else case type of
        CAPABILITY_TYPE_NONE \<Rightarrow> None
      | CAPABILITY_TYPE_THREAD \<Rightarrow>
          let thread = h_thread k object in
          if \<not> thread_storage_in_use k object \<or> th_id thread = 0 \<or> th_process thread = 0 \<or>
             th_state thread = THREAD_STATE_INVALID then None
          else if inserting \<and> th_state thread = THREAD_STATE_DEAD then None
          else Some (th_id thread)
      | CAPABILITY_TYPE_ADDRESS_SPACE \<Rightarrow>
          if \<not> address_space_storage_in_use k object then None
          else if inserting \<and>
             (address_space_cr3 k object = 0 \<or> destroy_pending (space_page_map k object)) then None
          else Some (sp_id (h_space k object))
      | CAPABILITY_TYPE_ENDPOINT \<Rightarrow>
          let endpoint = h_endpoint k object in
          if \<not> endpoint_storage_in_use k object \<or> \<not> ep_initialized endpoint \<or> ep_id endpoint = 0
          then None
          else if inserting \<and> ep_closed endpoint then None
          else Some (ep_id endpoint)
      | CAPABILITY_TYPE_DEVICE_RESOURCE \<Rightarrow>
          if \<not> device_resource_valid k object then None
          else Some (dr_id (h_resource k object)))"

definition refs_of :: "Kernel \<Rightarrow> CapabilityType \<Rightarrow> ptr \<Rightarrow> u64" where
  "refs_of k type object =
     (case type of
        CAPABILITY_TYPE_NONE \<Rightarrow> 0
      | CAPABILITY_TYPE_THREAD \<Rightarrow> th_capability_refs (h_thread k object)
      | CAPABILITY_TYPE_ADDRESS_SPACE \<Rightarrow> sp_capability_refs (h_space k object)
      | CAPABILITY_TYPE_ENDPOINT \<Rightarrow> ep_capability_refs (h_endpoint k object)
      | CAPABILITY_TYPE_DEVICE_RESOURCE \<Rightarrow> dr_capability_refs (h_resource k object))"

definition set_refs :: "CapabilityType \<Rightarrow> ptr \<Rightarrow> u64 \<Rightarrow> Kernel \<Rightarrow> Kernel" where
  "set_refs type object n k =
     (case type of
        CAPABILITY_TYPE_NONE \<Rightarrow> k
      | CAPABILITY_TYPE_THREAD \<Rightarrow> upd_thread object (\<lambda>x. x\<lparr>th_capability_refs := n\<rparr>) k
      | CAPABILITY_TYPE_ADDRESS_SPACE \<Rightarrow> upd_space object (\<lambda>x. x\<lparr>sp_capability_refs := n\<rparr>) k
      | CAPABILITY_TYPE_ENDPOINT \<Rightarrow> upd_endpoint object (\<lambda>x. x\<lparr>ep_capability_refs := n\<rparr>) k
      | CAPABILITY_TYPE_DEVICE_RESOURCE \<Rightarrow> upd_resource object (\<lambda>x. x\<lparr>dr_capability_refs := n\<rparr>) k)"

definition slot_refs :: "Kernel \<Rightarrow> CapabilitySlot \<Rightarrow> bool" where
  "slot_refs k slot \<longleftrightarrow>
     slot_occupied slot \<and> slot_generation slot \<noteq> 0 \<and> slot_rights slot \<noteq> 0 \<and>
     \<not> has (slot_rights slot) (NOT CAPABILITY_RIGHT_ALL) \<and>
     (case object_refs k (slot_object slot) (slot_type slot) False of
        None \<Rightarrow> False
      | Some identity \<Rightarrow>
          refs_of k (slot_type slot) (slot_object slot) \<noteq> 0 \<and> identity = slot_object_id slot)"

abbreviation slot_at :: "Kernel \<Rightarrow> ptr \<Rightarrow> nat \<Rightarrow> CapabilitySlot" where
  "slot_at k t i \<equiv> ct_slots (h_table k t) ! i"

definition occupied_count :: "CapabilityTable \<Rightarrow> nat" where
  "occupied_count table = length (filter slot_occupied (ct_slots table))"

definition table_valid :: "Kernel \<Rightarrow> ptr \<Rightarrow> bool" where
  "table_valid k t \<longleftrightarrow>
     table_live k t \<and> ct_initialized (h_table k t) \<and>
     \<not> ct_count (h_table k t) > of_nat CAPABILITY_TABLE_CAPACITY \<and>
     list_all (\<lambda>slot.
       if slot_occupied slot then slot_refs k slot
       else \<not> (slot_object slot \<noteq> 0 \<or> slot_object_id slot \<noteq> 0 \<or> slot_rights slot \<noteq> 0 \<or>
               slot_type slot \<noteq> CAPABILITY_TYPE_NONE)) (ct_slots (h_table k t)) \<and>
     of_nat (occupied_count (h_table k t)) = ct_count (h_table k t)"

text \<open>The generation taken and the counter after it.\<close>

definition take_generation :: "u64 \<Rightarrow> (u32 \<times> u64) option" where
  "take_generation next_generation =
     (if next_generation = 0 \<or> next_generation > CAPABILITY_GENERATION_MAX then None
      else Some (ucast next_generation, next_generation + 1))"

definition capability_table_init :: "ptr \<Rightarrow> Kernel \<Rightarrow> bool \<times> Kernel" where
  "capability_table_init t k =
     (if t = 0 then (False, k)
      else
        let slots = g_tables (k_cap k); slot = object_storage_empty slots in
        if \<not> table_live k t \<and> slot < length slots then
          let k = (if g_issuers_initialized (k_cap k) then k
                   else k\<lparr>k_cap := (k_cap k)\<lparr>g_next_generation := replicate CAPABILITY_TABLE_CAPACITY 1,
                            g_issuers_initialized := True\<rparr>\<rparr>);
              k = upd_table t (\<lambda>_. zero_table\<lparr>ct_initialized := True\<rparr>) k
          in (True, set_tables (slots[slot := t]) k)
        else (False, k))"

definition capability_table_destroy :: "ptr \<Rightarrow> Kernel \<Rightarrow> bool \<times> Kernel" where
  "capability_table_destroy t k =
     (if table_valid k t \<and> ct_count (h_table k t) = 0 then
        let slots = g_tables (k_cap k) in
        (True, upd_table t (\<lambda>_. zero_table) (set_tables (slots[object_storage_find slots t := 0]) k))
      else (False, k))"

definition capability_table_count :: "Kernel \<Rightarrow> ptr \<Rightarrow> u32" where
  "capability_table_count k t =
     (if table_live k t \<and> ct_initialized (h_table k t) then ct_count (h_table k t) else 0)"

definition capability_table_empty :: "Kernel \<Rightarrow> ptr \<Rightarrow> bool" where
  "capability_table_empty k t \<longleftrightarrow> table_valid k t \<and> ct_count (h_table k t) = 0"

definition set_slot :: "ptr \<Rightarrow> nat \<Rightarrow> CapabilitySlot \<Rightarrow> Kernel \<Rightarrow> Kernel" where
  "set_slot t i slot k = upd_table t (\<lambda>table. table\<lparr>ct_slots := (ct_slots table)[i := slot]\<rparr>) k"

text \<open>The first free slot whose index still has generations to give.\<close>

definition free_slot :: "Kernel \<Rightarrow> ptr \<Rightarrow> nat option" where
  "free_slot k t =
     find (\<lambda>i. \<not> slot_occupied (slot_at k t i) \<and> take_generation (g_next_generation (k_cap k) ! i) \<noteq> None)
       [0..<CAPABILITY_TABLE_CAPACITY]"

definition make_handle :: "u32 \<Rightarrow> nat \<Rightarrow> CapabilityHandle" where
  "make_handle generation i = push_bit 32 (ucast generation) OR of_nat i"

text \<open>Filling slot \<open>i\<close> with the generation taken for it.\<close>

definition insert_at ::
  "ptr \<Rightarrow> nat \<Rightarrow> ptr \<Rightarrow> u64 \<Rightarrow> CapabilityType \<Rightarrow> CapabilityRights \<Rightarrow> u32 \<Rightarrow> u64 \<Rightarrow> Kernel \<Rightarrow> Kernel" where
  "insert_at t i object identity type rights generation next_generation k =
     (let k = k\<lparr>k_cap := (k_cap k)\<lparr>g_next_generation :=
                  (g_next_generation (k_cap k))[i := next_generation]\<rparr>\<rparr>;
          k = set_slot t i \<lparr>slot_object = object, slot_object_id = identity, slot_rights = rights,
                slot_generation = generation, slot_type = type, slot_occupied = True\<rparr> k;
          k = set_refs type object (refs_of k type object + 1) k
      in upd_table t (\<lambda>table. table\<lparr>ct_count := ct_count table + 1\<rparr>) k)"

definition capability_insert ::
  "ptr \<Rightarrow> ptr \<Rightarrow> CapabilityType \<Rightarrow> CapabilityRights \<Rightarrow> Kernel \<Rightarrow> CapabilityHandle option \<times> Kernel" where
  "capability_insert t object type rights k =
     (if \<not> table_valid k t \<or> \<not> type_valid type \<or> rights = 0 \<or> has rights (NOT CAPABILITY_RIGHT_ALL) \<or>
         ct_count (h_table k t) = of_nat CAPABILITY_TABLE_CAPACITY then (None, k)
      else
        case object_refs k object type True of
          None \<Rightarrow> (None, k)
        | Some identity \<Rightarrow>
            if refs_of k type object = U64_MAX then (None, k)
            else
              (case free_slot k t of
                 None \<Rightarrow> (None, k)
               | Some i \<Rightarrow>
                   (case take_generation (g_next_generation (k_cap k) ! i) of
                      None \<Rightarrow> (None, k)
                    | Some (generation, next_generation) \<Rightarrow>
                        (Some (make_handle generation i),
                         insert_at t i object identity type rights generation next_generation k))))"

definition resolve_slot :: "Kernel \<Rightarrow> ptr \<Rightarrow> CapabilityHandle \<Rightarrow> nat option" where
  "resolve_slot k t handle =
     (if \<not> table_live k t \<or> \<not> ct_initialized (h_table k t) \<or> handle = 0 then None
      else
        let index = (ucast handle :: u32); generation = (ucast (drop_bit 32 handle) :: u32) in
        if index \<ge> of_nat CAPABILITY_TABLE_CAPACITY \<or> generation = 0 then None
        else
          let slot = slot_at k t (unat index) in
          if slot_generation slot \<noteq> generation \<or> \<not> slot_refs k slot then None
          else Some (unat index))"

definition capability_lookup_rights ::
  "Kernel \<Rightarrow> ptr \<Rightarrow> CapabilityHandle \<Rightarrow> CapabilityType \<Rightarrow> CapabilityRights \<Rightarrow> ptr option" where
  "capability_lookup_rights k t handle expected_type required_rights =
     (case resolve_slot k t handle of
        None \<Rightarrow> None
      | Some i \<Rightarrow>
          let slot = slot_at k t i in
          if type_valid expected_type \<and> \<not> has required_rights (NOT CAPABILITY_RIGHT_ALL) \<and>
             slot_type slot = expected_type \<and> slot_rights slot AND required_rights = required_rights
          then Some (slot_object slot) else None)"

definition capability_lookup ::
  "Kernel \<Rightarrow> ptr \<Rightarrow> CapabilityHandle \<Rightarrow> CapabilityType \<Rightarrow> ptr option" where
  "capability_lookup k t handle expected_type = capability_lookup_rights k t handle expected_type 0"

definition delete_slot :: "ptr \<Rightarrow> nat \<Rightarrow> Kernel \<Rightarrow> Kernel" where
  "delete_slot t i k =
     (let slot = slot_at k t i;
          k = set_refs (slot_type slot) (slot_object slot)
                (refs_of k (slot_type slot) (slot_object slot) - 1) k;
          k = set_slot t i (slot\<lparr>slot_object := 0, slot_object_id := 0, slot_rights := 0,
                slot_type := CAPABILITY_TYPE_NONE, slot_occupied := False\<rparr>) k
      in upd_table t (\<lambda>table. table\<lparr>ct_count := ct_count table - 1\<rparr>) k)"

definition capability_revoke :: "ptr \<Rightarrow> CapabilityHandle \<Rightarrow> Kernel \<Rightarrow> bool \<times> Kernel" where
  "capability_revoke t handle k =
     (case resolve_slot k t handle of
        None \<Rightarrow> (False, k)
      | Some i \<Rightarrow> if table_valid k t then (True, delete_slot t i k) else (False, k))"

definition slot_selected :: "ptr \<Rightarrow> CapabilityType \<Rightarrow> bool \<Rightarrow> CapabilitySlot \<Rightarrow> bool" where
  "slot_selected object type every slot \<longleftrightarrow>
     slot_occupied slot \<and> (every \<or> (slot_object slot = object \<and> slot_type slot = type))"

definition matching_slots :: "CapabilityTable \<Rightarrow> CapabilitySlot \<Rightarrow> nat" where
  "matching_slots table slot =
     length (filter (\<lambda>other. slot_occupied other \<and> slot_object other = slot_object slot \<and>
                             slot_type other = slot_type slot) (ct_slots table))"

definition delete_selected :: "ptr \<Rightarrow> ptr \<Rightarrow> CapabilityType \<Rightarrow> bool \<Rightarrow> Kernel \<Rightarrow> bool \<times> Kernel" where
  "delete_selected t object type every k =
     (if \<not> table_valid k t then (False, k)
      else if \<not> list_all (\<lambda>slot. slot_selected object type every slot \<longrightarrow>
                slot_refs k slot \<and>
                \<not> refs_of k (slot_type slot) (slot_object slot) < of_nat (matching_slots (h_table k t) slot))
              (ct_slots (h_table k t)) then (False, k)
      else
        (True, fold (\<lambda>i k. if slot_selected object type every (slot_at k t i) then delete_slot t i k else k)
                 [0..<CAPABILITY_TABLE_CAPACITY] k))"

definition capability_revoke_all :: "ptr \<Rightarrow> Kernel \<Rightarrow> bool \<times> Kernel" where
  "capability_revoke_all t k = delete_selected t 0 CAPABILITY_TYPE_NONE True k"

definition capability_revoke_object :: "ptr \<Rightarrow> ptr \<Rightarrow> CapabilityType \<Rightarrow> Kernel \<Rightarrow> bool \<times> Kernel" where
  "capability_revoke_object t object type k =
     (if object = 0 \<or> \<not> type_valid type then (False, k)
      else delete_selected t object type False k)"

text \<open>The boundary check on a private counter.\<close>

definition capability_test_generation_boundary :: bool where
  "capability_test_generation_boundary \<longleftrightarrow>
     (case take_generation CAPABILITY_GENERATION_MAX of
        None \<Rightarrow> False
      | Some (last_generation, next_generation) \<Rightarrow>
          last_generation = ucast CAPABILITY_GENERATION_MAX \<and>
          next_generation = CAPABILITY_GENERATION_MAX + 1 \<and>
          take_generation next_generation = None)"

section \<open>What the operations change\<close>

text \<open>What the identity of an object depends on.\<close>

lemma object_refs_cong:
  assumes "thread_storage_live k' p = thread_storage_live k p"
    and "th_id (h_thread k' p) = th_id (h_thread k p)"
    and "(th_process (h_thread k' p) = 0) = (th_process (h_thread k p) = 0)"
    and "th_state (h_thread k' p) = th_state (h_thread k p)"
    and "space_storage_live k' p = space_storage_live k p"
    and "space_page_map k' p = space_page_map k p"
    and "sp_id (h_space k' p) = sp_id (h_space k p)"
    and "endpoint_live k' p = endpoint_live k p"
    and "ep_initialized (h_endpoint k' p) = ep_initialized (h_endpoint k p)"
    and "ep_id (h_endpoint k' p) = ep_id (h_endpoint k p)"
    and "ep_closed (h_endpoint k' p) = ep_closed (h_endpoint k p)"
    and "device_resource_valid k' p = device_resource_valid k p"
    and "dr_id (h_resource k' p) = dr_id (h_resource k p)"
  shows "object_refs k' p T ins = object_refs k p T ins"
  using assms
  by (cases T) (simp_all add: object_refs_def Let_def address_space_cr3_def)

lemma object_refs_set_refs [simp]: "object_refs (set_refs T p n k) = object_refs k"
  by (intro ext object_refs_cong; cases T)
    (auto simp: set_refs_def upd_defs live_defs device_resource_valid_def)

lemma refs_of_set_refs:
  "refs_of (set_refs T p n k) T' q =
     (if T = T' \<and> p = q \<and> T \<noteq> CAPABILITY_TYPE_NONE then n else refs_of k T' q)"
  by (cases T; cases T') (simp_all add: refs_of_def set_refs_def upd_defs)

lemma set_refs_sel [simp]:
  "h_table (set_refs T p n k) = h_table k" "k_cap (set_refs T p n k) = k_cap k"
  by (cases T; simp add: set_refs_def upd_defs)+

lemma refs_of_cap_update [simp]:
  "refs_of (k\<lparr>k_cap := c\<rparr>) = refs_of k" "refs_of (upd_table t f k) = refs_of k"
  "refs_of (set_slot t i s k) = refs_of k" "refs_of (set_tables v k) = refs_of k"
  by (simp_all add: fun_eq_iff refs_of_def upd_table_def set_slot_def set_tables_def
      split: CapabilityType.split)

lemma object_refs_cap_update [simp]:
  "object_refs (k\<lparr>k_cap := c\<rparr>) = object_refs k" "object_refs (upd_table t f k) = object_refs k"
  "object_refs (set_slot t i s k) = object_refs k" "object_refs (set_tables v k) = object_refs k"
  by (intro ext object_refs_cong;
      simp add: upd_table_def set_slot_def set_tables_def live_defs device_resource_valid_def)+

lemma cap_sel [simp]:
  "h_table (k\<lparr>k_cap := c\<rparr>) = h_table k"
  "k_cap (upd_table t f k) = k_cap k" "h_table (upd_table t f k) = (h_table k)(t := f (h_table k t))"
  "k_cap (set_slot t i s k) = k_cap k"
  "h_table (set_slot t i s k) =
     (h_table k)(t := (h_table k t)\<lparr>ct_slots := (ct_slots (h_table k t))[i := s]\<rparr>)"
  "h_table (set_tables v k) = h_table k" "k_cap (set_tables v k) = (k_cap k)\<lparr>g_tables := v\<rparr>"
  by (simp_all add: upd_table_def set_slot_def set_tables_def)

lemma table_live_iff: "table_live k t \<longleftrightarrow> t \<noteq> 0 \<and> t \<in> set (g_tables (k_cap k))"
  by (rule live_defs(1))

section \<open>The invariant\<close>

text \<open>The occupied slots of all live tables, and those that name one object.\<close>

definition cap_entries :: "Kernel \<Rightarrow> (ptr \<times> nat) set" where
  "cap_entries k = {(t, i). table_live k t \<and> i < 64 \<and> slot_occupied (slot_at k t i)}"

definition object_slots :: "Kernel \<Rightarrow> CapabilityType \<Rightarrow> ptr \<Rightarrow> (ptr \<times> nat) set" where
  "object_slots k T p =
     {(t, i). (t, i) \<in> cap_entries k \<and> slot_type (slot_at k t i) = T \<and> slot_object (slot_at k t i) = p}"

definition slot_clean :: "CapabilitySlot \<Rightarrow> bool" where
  "slot_clean s \<longleftrightarrow> slot_object s = 0 \<and> slot_object_id s = 0 \<and> slot_rights s = 0 \<and>
     slot_type s = CAPABILITY_TYPE_NONE"

definition table_ok :: "Kernel \<Rightarrow> ptr \<Rightarrow> bool" where
  "table_ok k t \<longleftrightarrow>
     length (ct_slots (h_table k t)) = 64 \<and> ct_initialized (h_table k t) \<and>
     unat (ct_count (h_table k t)) = occupied_count (h_table k t) \<and>
     (\<forall>i < 64. \<not> slot_occupied (slot_at k t i) \<longrightarrow> slot_clean (slot_at k t i))"

definition slot_ok :: "Kernel \<Rightarrow> nat \<Rightarrow> CapabilitySlot \<Rightarrow> bool" where
  "slot_ok k i s \<longleftrightarrow>
     slot_type s \<noteq> CAPABILITY_TYPE_NONE \<and> slot_rights s \<noteq> 0 \<and>
     \<not> has (slot_rights s) (NOT CAPABILITY_RIGHT_ALL) \<and> slot_generation s \<noteq> 0 \<and>
     unat (slot_generation s) < unat (g_next_generation (k_cap k) ! i) \<and>
     object_refs k (slot_object s) (slot_type s) False = Some (slot_object_id s)"

definition issuers_ok :: "Kernel \<Rightarrow> bool" where
  "issuers_ok k \<longleftrightarrow> g_issuers_initialized (k_cap k) \<and> length (g_next_generation (k_cap k)) = 64 \<and>
     (\<forall>i < 64. 1 \<le> unat (g_next_generation (k_cap k) ! i) \<and>
               unat (g_next_generation (k_cap k) ! i) \<le> 2 ^ 32)"

text \<open>
  Every occupied slot names a live object under its identity (no dangling capability), the
  generations of two slots with the same index differ, and each live object's counter is the
  number of slots that name it.
\<close>

definition cap_inv :: "Kernel \<Rightarrow> bool" where
  "cap_inv k \<longleftrightarrow>
     reg_ok (g_tables (k_cap k)) \<and> length (g_tables (k_cap k)) \<le> 256 \<and>
     (\<forall>t. table_live k t \<longrightarrow> table_ok k t) \<and>
     (g_issuers_initialized (k_cap k) \<or> (\<exists>t. table_live k t) \<longrightarrow> issuers_ok k) \<and>
     (\<forall>t i. (t, i) \<in> cap_entries k \<longrightarrow> slot_ok k i (slot_at k t i)) \<and>
     (\<forall>t u i. (t, i) \<in> cap_entries k \<and> (u, i) \<in> cap_entries k \<and>
        slot_generation (slot_at k t i) = slot_generation (slot_at k u i) \<longrightarrow> t = u) \<and>
     (\<forall>T p. object_refs k p T False \<noteq> None \<longrightarrow>
        unat (refs_of k T p) = card (object_slots k T p))"

lemma cap_entries_subset: "cap_entries k \<subseteq> set (g_tables (k_cap k)) \<times> {..<64}"
  by (auto simp: cap_entries_def table_live_iff)

lemma finite_cap_entries [simp]: "finite (cap_entries k)"
  by (rule finite_subset [OF cap_entries_subset]) simp

lemma object_slots_subset: "object_slots k T p \<subseteq> cap_entries k"
  by (auto simp: object_slots_def)

lemma finite_object_slots [simp]: "finite (object_slots k T p)"
  by (rule finite_subset [OF object_slots_subset]) simp

lemma card_object_slots:
  assumes "cap_inv k"
  shows "card (object_slots k T p) \<le> 16384"
proof -
  have "card (object_slots k T p) \<le> card (set (g_tables (k_cap k)) \<times> {..<64::nat})"
    by (intro card_mono order_trans [OF object_slots_subset cap_entries_subset]) simp
  also have "\<dots> = card (set (g_tables (k_cap k))) * 64"
    by (simp add: card_cartesian_product)
  also have "\<dots> \<le> length (g_tables (k_cap k)) * 64"
    by (intro mult_le_mono1 card_length)
  also have "\<dots> \<le> 16384" using assms by (simp add: cap_inv_def)
  finally show ?thesis .
qed

lemma occupied_count_card:
  "occupied_count table = card {i. i < length (ct_slots table) \<and> slot_occupied (ct_slots table ! i)}"
  by (simp add: occupied_count_def length_filter_conv_card)

text \<open>Under the invariant the run-time checks of live tables succeed.\<close>

lemma cap_invD:
  assumes "cap_inv k" and "(t, i) \<in> cap_entries k"
  shows "slot_ok k i (slot_at k t i)" and "(t, i) \<in> object_slots k (slot_type (slot_at k t i)) (slot_object (slot_at k t i))"
  using assms by (auto simp: cap_inv_def object_slots_def)

lemma cap_inv_unique:
  assumes "cap_inv k" and "(t, i) \<in> cap_entries k" and "(u, i) \<in> cap_entries k"
    and "slot_generation (slot_at k t i) = slot_generation (slot_at k u i)"
  shows "t = u"
  using assms unfolding cap_inv_def by blast

lemma slot_refs_entry:
  assumes inv: "cap_inv k" and e: "(t, i) \<in> cap_entries k"
  shows "slot_refs k (slot_at k t i)"
proof -
  let ?s = "slot_at k t i"
  note ok = cap_invD(1) [OF assms]
  have "0 < card (object_slots k (slot_type ?s) (slot_object ?s))"
    using cap_invD(2) [OF assms] by (auto simp: card_gt_0_iff)
  moreover have "unat (refs_of k (slot_type ?s) (slot_object ?s)) = card (object_slots k (slot_type ?s) (slot_object ?s))"
    using inv ok by (simp add: cap_inv_def slot_ok_def)
  ultimately have "refs_of k (slot_type ?s) (slot_object ?s) \<noteq> 0" by auto
  then show ?thesis
    using ok e by (auto simp: slot_refs_def slot_ok_def cap_entries_def)
qed

lemma table_valid_live:
  assumes inv: "cap_inv k"
  shows "table_valid k t \<longleftrightarrow> table_live k t"
proof
  assume live: "table_live k t"
  then have ok: "table_ok k t" using inv by (simp add: cap_inv_def)
  have le: "occupied_count (h_table k t) \<le> 64"
    using ok by (auto simp: occupied_count_def table_ok_def intro: order_trans [OF length_filter_le])
  then have "ct_count (h_table k t) = of_nat (occupied_count (h_table k t))"
    using ok le by (simp add: table_ok_def word_unat_eq_iff unat_of_nat take_bit_eq_mod)
  then show "table_valid k t"
    using live ok le slot_refs_entry [OF inv, of t]
    by (auto simp: table_valid_def table_ok_def list_all_length cap_entries_def slot_clean_def
        word_less_nat_alt)
qed (simp add: table_valid_def)

section \<open>Insertion\<close>

lemma insert_at_sel:
  fixes k :: Kernel and t i p ident T rights g n
  assumes "T \<noteq> CAPABILITY_TYPE_NONE"
  defines "k' \<equiv> insert_at t i p ident T rights g n k"
  shows "table_live k' = table_live k" and "g_tables (k_cap k') = g_tables (k_cap k)"
    and "g_issuers_initialized (k_cap k') = g_issuers_initialized (k_cap k)"
    and "g_next_generation (k_cap k') = (g_next_generation (k_cap k))[i := n]"
    and "object_refs k' = object_refs k"
    and "refs_of k' T' q = refs_of k T' q + (if T' = T \<and> q = p then 1 else 0)"
    and "ct_slots (h_table k' u) = (if u = t then (ct_slots (h_table k t))[i :=
           \<lparr>slot_object = p, slot_object_id = ident, slot_rights = rights, slot_generation = g,
            slot_type = T, slot_occupied = True\<rparr>] else ct_slots (h_table k u))"
    and "ct_count (h_table k' u) = ct_count (h_table k u) + (if u = t then 1 else 0)"
    and "ct_initialized (h_table k' u) = ct_initialized (h_table k u)"
  using assms by (simp_all add: insert_at_def Let_def refs_of_set_refs table_live_iff fun_eq_iff)

lemma delete_slot_sel:
  fixes k :: Kernel and t i
  defines "s \<equiv> slot_at k t i"
  assumes "slot_type s \<noteq> CAPABILITY_TYPE_NONE"
  defines "k' \<equiv> delete_slot t i k"
  shows "table_live k' = table_live k" and "k_cap k' = k_cap k" and "object_refs k' = object_refs k"
    and "refs_of k' T' q = (if T' = slot_type s \<and> q = slot_object s then refs_of k T' q - 1 else refs_of k T' q)"
    and "ct_slots (h_table k' u) = (if u = t then (ct_slots (h_table k t))[i :=
           s\<lparr>slot_object := 0, slot_object_id := 0, slot_rights := 0,
             slot_type := CAPABILITY_TYPE_NONE, slot_occupied := False\<rparr>] else ct_slots (h_table k u))"
    and "ct_count (h_table k' u) = (if u = t then ct_count (h_table k t) - 1 else ct_count (h_table k u))"
    and "ct_initialized (h_table k' u) = ct_initialized (h_table k u)"
  using assms by (simp_all add: delete_slot_def Let_def refs_of_set_refs table_live_iff fun_eq_iff)

lemma take_generation_Some:
  "take_generation n = Some (g, m) \<longleftrightarrow>
     1 \<le> unat n \<and> unat n < 2 ^ 32 \<and> g = ucast n \<and> m = n + 1"
proof -
  have "n = 0 \<longleftrightarrow> unat n = 0" by (simp add: unat_eq_zero)
  then show ?thesis by (auto simp: take_generation_def word_nat not_less)
qed

lemma take_generation_unat:
  assumes "take_generation n = Some (g, m)"
  shows "unat g = unat n" and "g \<noteq> 0" and "unat m = unat n + 1"
proof -
  have n: "1 \<le> unat n" "unat n < 2 ^ 32" "g = ucast n" "m = n + 1"
    using assms by (simp_all add: take_generation_Some)
  show u: "unat g = unat n" using n(2,3) by (simp add: unsigned_ucast_eq take_bit_eq_mod)
  show "g \<noteq> 0" using u n(1) by auto
  show "unat m = unat n + 1" unfolding n(4) using n(2) by (subst unat_add_no_wrap) simp_all
qed

lemma occupied_count_update:
  assumes "i < length (ct_slots table)" and "slot_occupied (ct_slots table ! i) \<noteq> slot_occupied s"
  shows "occupied_count (table\<lparr>ct_slots := (ct_slots table)[i := s]\<rparr>) =
    (if slot_occupied s then occupied_count table + 1 else occupied_count table - 1)"
proof -
  let ?A = "{j. j < length (ct_slots table) \<and> slot_occupied (ct_slots table ! j)}"
  let ?B = "{j. j < length (ct_slots table) \<and> slot_occupied ((ct_slots table)[i := s] ! j)}"
  have "finite ?A" by simp
  have "?B = (if slot_occupied s then insert i ?A else ?A - {i})"
    using assms by (auto simp: nth_list_update split: if_splits)
  then show ?thesis
    using assms \<open>finite ?A\<close> by (auto simp: occupied_count_card card_Diff_singleton)
qed

lemma occupied_count_cong:
  "ct_slots a = ct_slots b \<Longrightarrow> occupied_count a = occupied_count b"
  by (simp add: occupied_count_def)

text \<open>
  Filling a free slot with a fresh generation keeps the invariant. \<open>insertable\<close> is what
  \<open>capability_insert\<close> has checked when it writes the slot.
\<close>

definition insertable ::
  "Kernel \<Rightarrow> ptr \<Rightarrow> nat \<Rightarrow> ptr \<Rightarrow> u64 \<Rightarrow> CapabilityType \<Rightarrow> CapabilityRights \<Rightarrow> u32 \<Rightarrow> u64 \<Rightarrow> bool" where
  "insertable k t i p ident T rights g n \<longleftrightarrow>
     cap_inv k \<and> table_live k t \<and> i < 64 \<and> \<not> slot_occupied (slot_at k t i) \<and>
     take_generation (g_next_generation (k_cap k) ! i) = Some (g, n) \<and> T \<noteq> CAPABILITY_TYPE_NONE \<and>
     rights \<noteq> 0 \<and> \<not> has rights (NOT CAPABILITY_RIGHT_ALL) \<and> object_refs k p T False = Some ident"

definition new_slot :: "ptr \<Rightarrow> u64 \<Rightarrow> CapabilityType \<Rightarrow> CapabilityRights \<Rightarrow> u32 \<Rightarrow> CapabilitySlot" where
  "new_slot p ident T rights g =
     \<lparr>slot_object = p, slot_object_id = ident, slot_rights = rights, slot_generation = g,
      slot_type = T, slot_occupied = True\<rparr>"

lemma new_slot_sel [simp]:
  "slot_object (new_slot p ident T rights g) = p" "slot_object_id (new_slot p ident T rights g) = ident"
  "slot_rights (new_slot p ident T rights g) = rights" "slot_generation (new_slot p ident T rights g) = g"
  "slot_type (new_slot p ident T rights g) = T" "slot_occupied (new_slot p ident T rights g)"
  by (simp_all add: new_slot_def)

lemma table_live_ok: "cap_inv k \<Longrightarrow> table_live k t \<Longrightarrow> table_ok k t"
  by (simp add: cap_inv_def)

lemma table_live_issuers: "cap_inv k \<Longrightarrow> table_live k t \<Longrightarrow> issuers_ok k"
  by (auto simp: cap_inv_def)

lemma table_ok_length: "table_ok k t \<Longrightarrow> length (ct_slots (h_table k t)) = 64"
  by (simp add: table_ok_def)

lemma cap_entries_small: "(t, i) \<in> cap_entries k \<Longrightarrow> i < 64 \<and> table_live k t"
  by (simp add: cap_entries_def)

lemma insert_at_slots:
  assumes "insertable k t i p ident T rights g n"
  defines "k' \<equiv> insert_at t i p ident T rights g n k"
  shows "j < 64 \<Longrightarrow> slot_at k' u j = (if u = t \<and> j = i then new_slot p ident T rights g else slot_at k u j)"
    and "j < 64 \<Longrightarrow> g_next_generation (k_cap k') ! j = (if j = i then n else g_next_generation (k_cap k) ! j)"
    and "(t, i) \<notin> cap_entries k"
    and "cap_entries k' = insert (t, i) (cap_entries k)"
    and "object_slots k' T' q =
      (if T' = T \<and> q = p then insert (t, i) (object_slots k T' q) else object_slots k T' q)"
proof -
  have T: "T \<noteq> CAPABILITY_TYPE_NONE" and i: "i < 64" "\<not> slot_occupied (slot_at k t i)"
    and live: "table_live k t" and ok: "table_ok k t" "issuers_ok k"
    using assms(1) by (auto simp: insertable_def intro: table_live_ok table_live_issuers)
  note sel = insert_at_sel [OF T, of t i p ident rights g n k, folded k'_def]
  show slot: "slot_at k' u j = (if u = t \<and> j = i then new_slot p ident T rights g else slot_at k u j)"
    if "j < 64" for u j
    using ok(1) i(1) that by (simp add: sel nth_list_update table_ok_length new_slot_def)
  show "g_next_generation (k_cap k') ! j = (if j = i then n else g_next_generation (k_cap k) ! j)" if "j < 64"
    using that ok(2) by (simp add: sel(4) issuers_ok_def nth_list_update)
  show fresh: "(t, i) \<notin> cap_entries k" using i by (simp add: cap_entries_def)
  show ent: "cap_entries k' = insert (t, i) (cap_entries k)"
    using live i(1) by (auto simp: cap_entries_def sel(1) slot split: if_splits)
  have "(u, j) \<in> object_slots k' T' q \<longleftrightarrow>
      (u = t \<and> j = i \<and> T' = T \<and> q = p) \<or> (u, j) \<in> object_slots k T' q" for u j
    using i(1) fresh by (cases "j < 64") (auto simp: object_slots_def ent slot dest: cap_entries_small)
  then show "object_slots k' T' q =
      (if T' = T \<and> q = p then insert (t, i) (object_slots k T' q) else object_slots k T' q)" by auto
qed

lemma occupied_count_le: "table_ok k t \<Longrightarrow> occupied_count (h_table k t) \<le> 64"
  by (auto simp: occupied_count_def table_ok_def intro: order_trans [OF length_filter_le])

lemma insert_at_table_ok:
  assumes ins: "insertable k t i p ident T rights g n" and live: "table_live k u"
  defines "k' \<equiv> insert_at t i p ident T rights g n k"
  shows "table_ok k' u"
proof -
  have T: "T \<noteq> CAPABILITY_TYPE_NONE" and i: "i < 64" "\<not> slot_occupied (slot_at k t i)"
    and ok: "table_ok k u" "table_ok k t"
    using ins live by (auto simp: insertable_def intro: table_live_ok)
  note sel = insert_at_sel [OF T, of t i p ident rights g n k, folded k'_def]
  note slot = insert_at_slots(1) [OF ins, folded k'_def]
  have cnt: "unat (ct_count (h_table k' u)) = occupied_count (h_table k' u)"
  proof (cases "u = t")
    case True
    have "occupied_count (h_table k' t) = occupied_count (h_table k t) + 1"
      using occupied_count_update [of i "h_table k t" "new_slot p ident T rights g"] i table_ok_length [OF ok(2)]
      by (subst occupied_count_cong [where b = "(h_table k t)\<lparr>ct_slots :=
            (ct_slots (h_table k t))[i := new_slot p ident T rights g]\<rparr>"]) (simp_all add: sel new_slot_def)
    moreover have "unat (ct_count (h_table k t) + 1) = unat (ct_count (h_table k t)) + 1"
      using ok(2) occupied_count_le [OF ok(2)] by (simp add: table_ok_def unat_word_ariths)
    ultimately show ?thesis using ok True by (simp add: table_ok_def sel)
  next
    case False
    then show ?thesis using ok by (simp add: table_ok_def sel occupied_count_def)
  qed
  have "slot_clean (slot_at k' u j)" if "j < 64" "\<not> slot_occupied (slot_at k' u j)" for j
    using ok that slot [OF that(1), of u] by (auto simp: table_ok_def split: if_splits)
  then show ?thesis using ok cnt by (auto simp: table_ok_def sel(7,9))
qed

lemma insert_at_slot_ok:
  assumes ins: "insertable k t i p ident T rights g n"
  defines "k' \<equiv> insert_at t i p ident T rights g n k"
  assumes e: "(u, j) \<in> cap_entries k'"
  shows "slot_ok k' j (slot_at k' u j)"
proof -
  have T: "T \<noteq> CAPABILITY_TYPE_NONE" and inv: "cap_inv k" and i: "i < 64" and r: "rights \<noteq> 0" "\<not> has rights (NOT CAPABILITY_RIGHT_ALL)"
    and obj: "object_refs k p T False = Some ident" using ins by (auto simp: insertable_def)
  have g: "take_generation (g_next_generation (k_cap k) ! i) = Some (g, n)"
    using ins by (simp add: insertable_def)
  note gen = take_generation_unat [OF g]
  note sel = insert_at_sel(5) [OF T, of t i p ident rights g n k, folded k'_def]
  note slots = insert_at_slots [OF ins, folded k'_def]
  show ?thesis
  proof (cases "(u, j) = (t, i)")
    case True
    then show ?thesis using T r gen obj i by (simp add: slots slot_ok_def sel)
  next
    case False
    then have "(u, j) \<in> cap_entries k" using e slots(4) by auto
    then have "slot_ok k j (slot_at k u j)" "j < 64" using inv by (auto simp: cap_inv_def cap_entries_def)
    then show ?thesis using False gen by (auto simp: slots slot_ok_def sel)
  qed
qed

lemma insert_at_unique:
  assumes ins: "insertable k t i p ident T rights g n"
  defines "k' \<equiv> insert_at t i p ident T rights g n k"
  assumes e: "(u, j) \<in> cap_entries k'" "(v, j) \<in> cap_entries k'"
    and eq: "slot_generation (slot_at k' u j) = slot_generation (slot_at k' v j)"
  shows "u = v"
proof (rule ccontr)
  assume ne: "u \<noteq> v"
  have inv: "cap_inv k" and i: "i < 64" using ins by (auto simp: insertable_def)
  have g: "take_generation (g_next_generation (k_cap k) ! i) = Some (g, n)"
    using ins by (simp add: insertable_def)
  note slots = insert_at_slots [OF ins, folded k'_def]
  have j: "j < 64" using e(1) i by (auto simp: slots(4) dest: cap_entries_small)
  have old: "slot_generation (slot_at k w j) \<noteq> g" if "(w, j) \<in> cap_entries k" "j = i" for w
    using cap_invD(1) [OF inv that(1)] that(2) take_generation_unat(1) [OF g] by (auto simp: slot_ok_def)
  note eq' = eq [unfolded slots(1) [OF j]]
  show False
  proof (cases "j = i \<and> (u = t \<or> v = t)")
    case True
    then show False using e eq' ne old slots(3,4) by (auto split: if_splits)
  next
    case False
    then have "(u, j) \<in> cap_entries k" "(v, j) \<in> cap_entries k"
      "slot_generation (slot_at k u j) = slot_generation (slot_at k v j)"
      using e eq' slots(4) by auto
    then show False using inv ne unfolding cap_inv_def by blast
  qed
qed

lemma insert_at_refs:
  assumes ins: "insertable k t i p ident T rights g n"
  defines "k' \<equiv> insert_at t i p ident T rights g n k"
  assumes "object_refs k' q T' False \<noteq> None"
  shows "unat (refs_of k' T' q) = card (object_slots k' T' q)"
proof -
  have T: "T \<noteq> CAPABILITY_TYPE_NONE" and inv: "cap_inv k" using ins by (auto simp: insertable_def)
  note sel = insert_at_sel [OF T, of t i p ident rights g n k, folded k'_def]
  note slots = insert_at_slots [OF ins, folded k'_def]
  have old: "unat (refs_of k T' q) = card (object_slots k T' q)"
    using inv assms(3) by (simp add: cap_inv_def sel(5))
  have nin: "(t, i) \<notin> object_slots k T' q" using slots(3) object_slots_subset by blast
  have "unat (refs_of k T' q) + 1 < 18446744073709551616"
    using old card_object_slots [OF inv, of T' q] by simp
  then show ?thesis using old nin by (cases "T' = T \<and> q = p") (auto simp: sel(6) slots(5) unat_add_no_wrap)
qed

lemma insert_at_inv:
  assumes ins: "insertable k t i p ident T rights g n"
  shows "cap_inv (insert_at t i p ident T rights g n k)" (is "cap_inv ?k")
proof -
  have T: "T \<noteq> CAPABILITY_TYPE_NONE" and inv: "cap_inv k" and iss: "issuers_ok k" and i: "i < 64"
    using ins by (auto simp: insertable_def intro: table_live_issuers)
  have g: "take_generation (g_next_generation (k_cap k) ! i) = Some (g, n)"
    using ins by (simp add: insertable_def)
  note sel = insert_at_sel [OF T, of t i p ident rights g n k]
  have bound: "unat (g_next_generation (k_cap k) ! i) < 2 ^ 32"
    using g by (simp add: take_generation_Some)
  have "issuers_ok ?k"
    using iss take_generation_unat(3) [OF g] bound i
    by (auto simp: issuers_ok_def sel(3,4) nth_list_update)
  then show ?thesis
    unfolding cap_inv_def sel(1,2)
    using inv insert_at_table_ok [OF ins] insert_at_slot_ok [OF ins] insert_at_unique [OF ins]
      insert_at_refs [OF ins] by (auto simp: cap_inv_def)
qed

section \<open>Deletion\<close>

definition cleared_slot :: "CapabilitySlot \<Rightarrow> CapabilitySlot" where
  "cleared_slot s = s\<lparr>slot_object := 0, slot_object_id := 0, slot_rights := 0,
     slot_type := CAPABILITY_TYPE_NONE, slot_occupied := False\<rparr>"

lemma cleared_slot_simps [simp]: "slot_clean (cleared_slot s)" "\<not> slot_occupied (cleared_slot s)"
  by (simp_all add: slot_clean_def cleared_slot_def)

lemma entry_type: "cap_inv k \<Longrightarrow> (t, i) \<in> cap_entries k \<Longrightarrow> slot_type (slot_at k t i) \<noteq> CAPABILITY_TYPE_NONE"
  using cap_invD(1) by (auto simp: slot_ok_def)

lemma delete_slot_slots:
  assumes inv: "cap_inv k" and e: "(t, i) \<in> cap_entries k"
  defines "k' \<equiv> delete_slot t i k"
  shows "j < 64 \<Longrightarrow> slot_at k' u j = (if u = t \<and> j = i then cleared_slot (slot_at k t i) else slot_at k u j)"
    and "cap_entries k' = cap_entries k - {(t, i)}"
    and "object_slots k' T q = object_slots k T q - {(t, i)}"
proof -
  have i: "i < 64" and ok: "table_ok k t" using e inv by (auto simp: cap_entries_def intro: table_live_ok)
  note sel = delete_slot_sel [OF entry_type [OF inv e], folded k'_def]
  show slot: "slot_at k' u j = (if u = t \<and> j = i then cleared_slot (slot_at k t i) else slot_at k u j)"
    if "j < 64" for u j
    using ok i that by (simp add: sel nth_list_update table_ok_length cleared_slot_def)
  show ent: "cap_entries k' = cap_entries k - {(t, i)}"
    using i by (auto simp: cap_entries_def sel(1) slot split: if_splits)
  have "(u, j) \<in> object_slots k' T q \<longleftrightarrow> (u, j) \<in> object_slots k T q - {(t, i)}" for u j
    by (cases "j < 64") (auto simp: object_slots_def ent slot dest: cap_entries_small)
  then show "object_slots k' T q = object_slots k T q - {(t, i)}" by auto
qed

lemma delete_slot_table_ok:
  assumes inv: "cap_inv k" and e: "(t, i) \<in> cap_entries k" and live: "table_live k u"
  shows "table_ok (delete_slot t i k) u" (is "table_ok ?k u")
proof -
  have i: "i < 64" "slot_occupied (slot_at k t i)" and ok: "table_ok k u" "table_ok k t"
    using e inv live by (auto simp: cap_entries_def intro: table_live_ok)
  note sel = delete_slot_sel [OF entry_type [OF inv e]]
  note slot = delete_slot_slots(1) [OF inv e]
  have cnt: "unat (ct_count (h_table ?k u)) = occupied_count (h_table ?k u)"
  proof (cases "u = t")
    case True
    have "occupied_count (h_table ?k t) = occupied_count (h_table k t) - 1"
      using occupied_count_update [of i "h_table k t" "cleared_slot (slot_at k t i)"] i table_ok_length [OF ok(2)]
      by (subst occupied_count_cong [where b = "(h_table k t)\<lparr>ct_slots :=
            (ct_slots (h_table k t))[i := cleared_slot (slot_at k t i)]\<rparr>"]) (simp_all add: sel cleared_slot_def)
    moreover have "0 < occupied_count (h_table k t)"
      using i table_ok_length [OF ok(2)] by (auto simp: occupied_count_card card_gt_0_iff)
    moreover have "unat (ct_count (h_table k t) - 1) = unat (ct_count (h_table k t)) - 1"
      if "0 < unat (ct_count (h_table k t))"
      using that by (simp add: unat_minus_one unat_gt_0)
    ultimately show ?thesis using ok True by (simp add: table_ok_def sel)
  next
    case False
    then show ?thesis using ok by (simp add: table_ok_def sel occupied_count_def)
  qed
  have "slot_clean (slot_at ?k u j)" if "j < 64" "\<not> slot_occupied (slot_at ?k u j)" for j
    using ok that slot [OF that(1), of u] by (auto simp: table_ok_def split: if_splits)
  then show ?thesis using ok cnt by (auto simp: table_ok_def sel(5,7))
qed

lemma delete_slot_refs:
  assumes inv: "cap_inv k" and e: "(t, i) \<in> cap_entries k" and q: "object_refs k q T False \<noteq> None"
  shows "unat (refs_of (delete_slot t i k) T q) = card (object_slots (delete_slot t i k) T q)"
proof -
  let ?s = "slot_at k t i"
  note sel = delete_slot_sel [OF entry_type [OF inv e]]
  have old: "unat (refs_of k T q) = card (object_slots k T q)"
    using inv q by (simp add: cap_inv_def)
  show ?thesis
  proof (cases "T = slot_type ?s \<and> q = slot_object ?s")
    case True
    then have m: "(t, i) \<in> object_slots k T q" using e by (simp add: object_slots_def)
    then have "0 < card (object_slots k T q)" by (auto simp: card_gt_0_iff)
    then have "refs_of k T q \<noteq> 0" using old by auto
    then have "unat (refs_of k T q - 1) = unat (refs_of k T q) - 1" by (rule unat_minus_one)
    then show ?thesis
      using True old m by (simp add: sel(4) delete_slot_slots(3) [OF inv e])
  next
    case False
    then have "(t, i) \<notin> object_slots k T q" by (auto simp: object_slots_def)
    then show ?thesis
      using False old by (auto simp: sel(4) delete_slot_slots(3) [OF inv e])
  qed
qed

lemma delete_slot_inv:
  assumes inv: "cap_inv k" and e: "(t, i) \<in> cap_entries k"
  shows "cap_inv (delete_slot t i k)" (is "cap_inv ?k")
proof -
  note sel = delete_slot_sel [OF entry_type [OF inv e]]
  note slots = delete_slot_slots [OF inv e]
  have keep: "slot_at ?k u j = slot_at k u j \<and> (u, j) \<in> cap_entries k" if "(u, j) \<in> cap_entries ?k" for u j
    using that cap_entries_small [of u j k] by (auto simp: slots)
  have 1: "slot_ok ?k j (slot_at ?k u j)" if "(u, j) \<in> cap_entries ?k" for u j
    using keep [OF that] cap_invD(1) [OF inv, of u j] by (simp add: slot_ok_def sel)
  have 2: "u = v" if "(u, j) \<in> cap_entries ?k" "(v, j) \<in> cap_entries ?k"
    "slot_generation (slot_at ?k u j) = slot_generation (slot_at ?k v j)" for u v j
    using keep [OF that(1)] keep [OF that(2)] that(3) cap_inv_unique [OF inv] by auto
  show ?thesis
    unfolding cap_inv_def sel(1,2,3)
    using inv 1 2 delete_slot_table_ok [OF inv e] delete_slot_refs [OF inv e]
    by (auto simp: cap_inv_def issuers_ok_def sel)
qed

section \<open>Handles\<close>

lemma make_handle_index: "i < 64 \<Longrightarrow> (ucast (make_handle g i) :: u32) = of_nat i"
  by (rule bit_word_eqI)
    (auto simp: make_handle_def bit_simps)

lemma make_handle_generation: "i < 64 \<Longrightarrow> (ucast (drop_bit 32 (make_handle g i)) :: u32) = g"
proof (rule bit_word_eqI)
  fix n :: nat assume i: "i < 64" and n: "n < LENGTH(32)"
  have "i < 2 ^ (32 + n)" using i by (rule less_le_trans) (simp add: power_add)
  then have "\<not> bit i (32 + n)" by (simp add: bit_iff_odd)
  then show "bit (ucast (drop_bit 32 (make_handle g i)) :: u32) n = bit g n"
    using n by (auto simp: make_handle_def bit_simps)
qed

lemma make_handle_inverse:
  assumes "(ucast h :: u32) < 64"
  shows "make_handle (ucast (drop_bit 32 h)) (unat (ucast h :: u32)) = h"
proof (rule bit_word_eqI)
  fix n :: nat assume n: "n < LENGTH(64)"
  have low: "bit (unat (ucast h :: u32)) n \<longleftrightarrow> n < 32 \<and> bit h n"
    by (auto simp: bit_simps)
  show "bit (make_handle (ucast (drop_bit 32 h)) (unat (ucast h :: u32))) n = bit h n"
  proof (cases "n < 32")
    case True
    then show ?thesis using n by (simp add: make_handle_def bit_simps)
  next
    case False
    then have "n - 32 < 32" "32 + (n - 32) = n" using n by simp_all
    then show ?thesis using n False by (auto simp: make_handle_def bit_simps)
  qed
qed

lemma make_handle_inj:
  assumes "make_handle g i = make_handle g' j" and "i < 64" and "j < 64"
  shows "g = g' \<and> i = j"
proof -
  have "(of_nat i :: u32) = of_nat j" using assms make_handle_index by metis
  then have "i = j" using assms(2,3) by (simp add: word_unat_eq_iff unat_of_nat take_bit_eq_mod)
  then show ?thesis using assms make_handle_generation by metis
qed

text \<open>Under the invariant a handle resolves exactly when it was made for an occupied slot.\<close>

lemma resolve_slot_iff:
  assumes inv: "cap_inv k"
  shows "resolve_slot k t h = Some i \<longleftrightarrow>
    (t, i) \<in> cap_entries k \<and> h = make_handle (slot_generation (slot_at k t i)) i"
proof
  assume r: "resolve_slot k t h = Some i"
  let ?i = "ucast h :: u32"
  have small: "?i < 64" using r by (auto simp: resolve_slot_def Let_def not_le split: if_splits)
  have i: "i = unat ?i" using r by (auto simp: resolve_slot_def Let_def split: if_splits)
  have g: "slot_generation (slot_at k t i) = ucast (drop_bit 32 h)" "slot_occupied (slot_at k t i)" "table_live k t"
    using r by (auto simp: resolve_slot_def Let_def slot_refs_def split: if_splits)
  have "unat ?i < 64" using small by (simp add: word_less_nat_alt)
  then show "(t, i) \<in> cap_entries k \<and> h = make_handle (slot_generation (slot_at k t i)) i"
    using g make_handle_inverse [OF small] i by (simp add: cap_entries_def)
next
  assume a: "(t, i) \<in> cap_entries k \<and> h = make_handle (slot_generation (slot_at k t i)) i"
  then have e: "(t, i) \<in> cap_entries k" and i: "i < 64" and live: "table_live k t"
    by (auto simp: cap_entries_def)
  have gen: "slot_generation (slot_at k t i) \<noteq> 0" using cap_invD(1) [OF inv e] by (simp add: slot_ok_def)
  have idx: "(ucast h :: u32) = of_nat i" and hg: "ucast (drop_bit 32 h) = slot_generation (slot_at k t i)"
    using a i by (simp_all add: make_handle_index make_handle_generation)
  have "h \<noteq> 0" using hg gen by auto
  moreover have "unat (of_nat i :: u32) = i" using i by (simp add: unat_of_nat take_bit_eq_mod)
  ultimately show "resolve_slot k t h = Some i"
    using idx hg gen i live slot_refs_entry [OF inv e] table_live_ok [OF inv live]
    by (simp add: resolve_slot_def Let_def table_ok_def word_le_nat_alt)
qed

section \<open>The abstract table\<close>

lemma option_eqI: "(\<And>c. x = Some c \<longleftrightarrow> y = Some c) \<Longrightarrow> x = y"
  by (cases x; cases y) auto

text \<open>
  What a table promises: a finite map from handles to the type, the object, its identity and the
  rights granted.
\<close>

type_synonym cap = "CapabilityType \<times> ptr \<times> u64 \<times> CapabilityRights"

definition slot_cap :: "CapabilitySlot \<Rightarrow> cap" where
  "slot_cap s = (slot_type s, slot_object s, slot_object_id s, slot_rights s)"

definition view :: "Kernel \<Rightarrow> ptr \<Rightarrow> CapabilityHandle \<rightharpoonup> cap" where
  "view k t h = map_option (\<lambda>i. slot_cap (slot_at k t i)) (resolve_slot k t h)"

lemma view_Some:
  assumes "cap_inv k"
  shows "view k t h = Some c \<longleftrightarrow>
    (\<exists>i. (t, i) \<in> cap_entries k \<and> h = make_handle (slot_generation (slot_at k t i)) i \<and>
         c = slot_cap (slot_at k t i))"
  using resolve_slot_iff [OF assms, of t h] by (auto simp: view_def)

lemma view_None:
  assumes "cap_inv k"
  shows "view k t h = None \<longleftrightarrow>
    (\<forall>i. (t, i) \<in> cap_entries k \<longrightarrow> h \<noteq> make_handle (slot_generation (slot_at k t i)) i)"
  using resolve_slot_iff [OF assms, of t h] by (cases "resolve_slot k t h") (auto simp: view_def)

lemma view_entry:
  assumes "cap_inv k" and "(t, i) \<in> cap_entries k"
  shows "view k t (make_handle (slot_generation (slot_at k t i)) i) = Some (slot_cap (slot_at k t i))"
  using assms by (auto simp: view_Some)

text \<open>The two updates, seen on the abstract table.\<close>

lemma view_eqI:
  assumes "cap_inv k" and "cap_inv k'"
    and "\<And>i. (t, i) \<in> cap_entries k' \<longleftrightarrow> (t, i) \<in> cap_entries k"
    and "\<And>i. (t, i) \<in> cap_entries k \<Longrightarrow> slot_at k' t i = slot_at k t i"
  shows "view k' t = view k t"
proof
  fix h
  show "view k' t h = view k t h"
    by (rule option_eqI, unfold view_Some [OF assms(1)] view_Some [OF assms(2)]) (use assms(3,4) in auto)
qed

lemma insert_at_view:
  assumes ins: "insertable k t i p ident T rights g n"
  defines "k' \<equiv> insert_at t i p ident T rights g n k" and "h \<equiv> make_handle g i"
  shows "view k' t = (view k t)(h \<mapsto> (T, p, ident, rights))" and "u \<noteq> t \<Longrightarrow> view k' u = view k u"
proof -
  have inv: "cap_inv k" and i: "i < 64" using ins by (auto simp: insertable_def)
  have inv': "cap_inv k'" using insert_at_inv [OF ins] by (simp add: k'_def)
  note slots = insert_at_slots [OF ins, folded k'_def]
  have keep: "slot_at k' u j = slot_at k u j" if "(u, j) \<in> cap_entries k" for u j
    using slots(1) [of j u] slots(3) cap_entries_small [OF that] that by auto
  show "view k' u = view k u" if "u \<noteq> t"
    using that by (intro view_eqI inv inv' keep) (auto simp: slots)
  show "view k' t = (view k t)(h \<mapsto> (T, p, ident, rights))"
  proof
    fix x
    show "view k' t x = ((view k t)(h \<mapsto> (T, p, ident, rights))) x"
    proof (cases "x = h")
      case True
      have "(t, i) \<in> cap_entries k'" by (simp add: slots)
      from view_entry [OF inv' this] show ?thesis
        using True i by (simp add: slots(1) h_def slot_cap_def)
    next
      case False
      have "view k' t x = Some c \<longleftrightarrow> view k t x = Some c" for c
        unfolding view_Some [OF inv] view_Some [OF inv'] slots(4)
        using False slots(1) [OF i, of t] slots(3) keep by (auto simp: h_def)
      then show ?thesis using False by (intro option_eqI) simp
    qed
  qed
qed

lemma delete_slot_view:
  assumes inv: "cap_inv k" and e: "(t, i) \<in> cap_entries k"
  defines "k' \<equiv> delete_slot t i k" and "h \<equiv> make_handle (slot_generation (slot_at k t i)) i"
  shows "view k' t = (view k t)(h := None)" and "u \<noteq> t \<Longrightarrow> view k' u = view k u"
proof -
  have inv': "cap_inv k'" using delete_slot_inv [OF inv e] by (simp add: k'_def)
  note slots = delete_slot_slots [OF inv e, folded k'_def]
  have keep: "slot_at k' u j = slot_at k u j" if "(u, j) \<in> cap_entries k" "(u, j) \<noteq> (t, i)" for u j
    using slots(1) [of j u] cap_entries_small [OF that(1)] that by auto
  show "view k' u = view k u" if "u \<noteq> t"
    using that by (intro view_eqI inv inv' keep) (auto simp: slots)
  have other: "(t, j) \<in> cap_entries k' \<and> x = make_handle (slot_generation (slot_at k' t j)) j \<and> c = slot_cap (slot_at k' t j)
      \<longleftrightarrow> x \<noteq> h \<and> (t, j) \<in> cap_entries k \<and> x = make_handle (slot_generation (slot_at k t j)) j \<and>
          c = slot_cap (slot_at k t j)" for x c j
    using keep [of t j] cap_entries_small [of t j k] cap_entries_small [OF e]
    by (cases "j = i") (auto simp: h_def slots(2) dest!: make_handle_inj)
  have "view k' t x = Some c \<longleftrightarrow> x \<noteq> h \<and> view k t x = Some c" for x c
    unfolding view_Some [OF inv] view_Some [OF inv'] other by blast
  then show "view k' t = (view k t)(h := None)" by (intro ext option_eqI) auto
qed

text \<open>
  An operation that keeps the occupied slots, the objects they pin and the counters keeps the
  invariant and every abstract table.
\<close>

lemma cap_inv_transfer:
  assumes inv: "cap_inv k"
    and reg: "reg_ok (g_tables (k_cap k'))" "length (g_tables (k_cap k')) \<le> 256"
    and tab: "\<And>t. table_live k' t \<Longrightarrow> table_ok k' t"
    and iss: "g_issuers_initialized (k_cap k') \<or> (\<exists>t. table_live k' t) \<Longrightarrow> issuers_ok k'"
    and ent: "cap_entries k' = cap_entries k"
    and slot: "\<And>t i. (t, i) \<in> cap_entries k \<Longrightarrow> slot_at k' t i = slot_at k t i"
    and gen: "\<And>t i. (t, i) \<in> cap_entries k \<Longrightarrow> g_next_generation (k_cap k') ! i = g_next_generation (k_cap k) ! i"
    and obj: "\<And>p T. object_slots k T p \<noteq> {} \<Longrightarrow> object_refs k' p T False = object_refs k p T False"
    and refs: "\<And>p T. object_refs k' p T False \<noteq> None \<Longrightarrow> unat (refs_of k' T p) = card (object_slots k T p)"
  shows "cap_inv k'" and "view k' = view k"
proof -
  have objs: "object_slots k' T p = object_slots k T p" for T p
    by (auto simp: object_slots_def ent slot)
  have 1: "slot_ok k' i (slot_at k' t i)" if e: "(t, i) \<in> cap_entries k'" for t i
  proof -
    have e': "(t, i) \<in> cap_entries k" using e ent by simp
    then have "object_slots k (slot_type (slot_at k t i)) (slot_object (slot_at k t i)) \<noteq> {}"
      by (auto simp: object_slots_def)
    then show ?thesis
      using cap_invD(1) [OF inv e'] gen [OF e'] obj by (simp add: slot_ok_def slot [OF e'])
  qed
  have 2: "t = u" if "(t, i) \<in> cap_entries k'" "(u, i) \<in> cap_entries k'"
    "slot_generation (slot_at k' t i) = slot_generation (slot_at k' u i)" for t u i
    using that cap_inv_unique [OF inv] by (simp add: ent slot)
  show inv': "cap_inv k'"
    unfolding cap_inv_def objs using reg tab iss 1 2 refs by blast
  show "view k' = view k"
    by (intro ext fun_cong [OF view_eqI [OF inv inv']]) (simp_all add: ent slot)
qed

section \<open>The operations\<close>

lemma object_refs_inserting: "object_refs k p T True = Some x \<Longrightarrow> object_refs k p T False = Some x"
  by (cases T) (auto simp: object_refs_def Let_def split: if_splits)

lemma type_valid_iff: "type_valid T \<longleftrightarrow> T \<noteq> CAPABILITY_TYPE_NONE"
  by (cases T) (simp_all add: type_valid_def)

lemma find_upt_Some:
  "find P [0..<n] = Some i \<Longrightarrow> i < n \<and> P i" "find P [0..<n] = None \<longleftrightarrow> (\<forall>i < n. \<not> P i)"
  by (auto simp: find_Some_iff find_None_iff)

lemma capability_insert_cases:
  assumes inv: "cap_inv k"
  obtains (fail) "capability_insert t p T rights k = (None, k)"
  | (ok) i ident g n where "insertable k t i p ident T rights g n"
      "object_refs k p T True = Some ident"
      "capability_insert t p T rights k = (Some (make_handle g i), insert_at t i p ident T rights g n k)"
proof (cases "fst (capability_insert t p T rights k)")
  case None
  then show ?thesis
    by (intro fail) (auto simp: capability_insert_def Let_def split: if_splits option.splits)
next
  case (Some h)
  then obtain i ident g n where o: "object_refs k p T True = Some ident" and f: "free_slot k t = Some i"
    and g: "take_generation (g_next_generation (k_cap k) ! i) = Some (g, n)"
    and r: "table_valid k t" "type_valid T" "rights \<noteq> 0" "\<not> has rights (NOT CAPABILITY_RIGHT_ALL)"
    and eq: "capability_insert t p T rights k = (Some (make_handle g i), insert_at t i p ident T rights g n k)"
    by (auto simp: capability_insert_def Let_def split: if_splits option.splits)
  have "i < 64 \<and> \<not> slot_occupied (slot_at k t i)"
    using find_upt_Some(1) [OF f [unfolded free_slot_def]] by simp
  then have "insertable k t i p ident T rights g n"
    using inv o g r by (simp add: insertable_def table_valid_live type_valid_iff object_refs_inserting)
  from ok [OF this o eq] show ?thesis .
qed

text \<open>The number of slots naming an object is far below the counter's maximum.\<close>

lemma refs_below_max:
  assumes "cap_inv k" and "object_refs k p T False \<noteq> None"
  shows "refs_of k T p \<noteq> - 1"
proof
  assume "refs_of k T p = - 1"
  then have "unat (refs_of k T p) = 2 ^ 64 - 1" by (simp add: unsigned_minus_1_eq_mask mask_eq_exp_minus_1)
  moreover have "unat (refs_of k T p) = card (object_slots k T p)" using assms by (simp add: cap_inv_def)
  ultimately show False using card_object_slots [OF assms(1), of T p] by simp
qed

lemma table_full:
  assumes ok: "table_ok k t" and "i < 64" and "\<not> slot_occupied (slot_at k t i)"
  shows "ct_count (h_table k t) \<noteq> 64"
proof
  assume "ct_count (h_table k t) = 64"
  moreover have "slot_at k t i \<in> set (ct_slots (h_table k t))"
    using assms by (simp add: table_ok_def)
  then have "occupied_count (h_table k t) < 64"
    using length_filter_less [where P = slot_occupied] assms(3) ok by (metis occupied_count_def table_ok_length)
  ultimately show False using ok by (simp add: table_ok_def)
qed

text \<open>When an insertion succeeds.\<close>

lemma capability_insert_succeeds:
  assumes inv: "cap_inv k"
  shows "fst (capability_insert t p T rights k) \<noteq> None \<longleftrightarrow>
    table_live k t \<and> rights \<noteq> 0 \<and> \<not> has rights (NOT CAPABILITY_RIGHT_ALL) \<and>
    object_refs k p T True \<noteq> None \<and>
    (\<exists>i < 64. \<not> slot_occupied (slot_at k t i) \<and> take_generation (g_next_generation (k_cap k) ! i) \<noteq> None)"
    (is "?ok \<longleftrightarrow> ?cond")
proof
  assume ?ok
  then show ?cond
    by (cases rule: capability_insert_cases [OF inv, of t p T rights]) (auto simp: insertable_def)
next
  assume c: ?cond
  then obtain ident where o: "object_refs k p T True = Some ident" by auto
  have T: "type_valid T" using o by (auto simp: type_valid_iff object_refs_def split: if_splits)
  have refs: "refs_of k T p \<noteq> - 1"
    using refs_below_max [OF inv, of p T] object_refs_inserting [OF o] by simp
  have "free_slot k t \<noteq> None" unfolding free_slot_def find_upt_Some(2) using c by blast
  then obtain i where f: "free_slot k t = Some i" by blast
  then have i: "i < 64" "\<not> slot_occupied (slot_at k t i)" "take_generation (g_next_generation (k_cap k) ! i) \<noteq> None"
    using find_upt_Some(1) [OF f [unfolded free_slot_def]] by auto
  have "ct_count (h_table k t) \<noteq> 64"
    using c i table_full [OF table_live_ok [OF inv]] by blast
  then show ?ok
    using c o T refs f i by (auto simp: capability_insert_def table_valid_live [OF inv])
qed

subsection \<open>Selective deletion\<close>

definition delete_if :: "ptr \<Rightarrow> ptr \<Rightarrow> CapabilityType \<Rightarrow> bool \<Rightarrow> nat \<Rightarrow> Kernel \<Rightarrow> Kernel" where
  "delete_if t object type every i k =
     (if slot_selected object type every (slot_at k t i) then delete_slot t i k else k)"

lemma fold_delete_if:
  fixes p T every
  assumes "cap_inv k" and "table_live k t" and "set is \<subseteq> {..<64}"
  defines "k' \<equiv> fold (delete_if t p T every) is k"
  shows "cap_inv k' \<and> k_cap k' = k_cap k \<and> object_refs k' = object_refs k \<and>
    cap_entries k' = cap_entries k - {(t, i) | i. i \<in> set is \<and> slot_selected p T every (slot_at k t i)} \<and>
    (\<forall>u j. (u, j) \<in> cap_entries k' \<longrightarrow> slot_at k' u j = slot_at k u j)"
  using assms(1-3) unfolding k'_def
proof (induction "is" arbitrary: k)
  case Nil
  then show ?case by simp
next
  case (Cons i xs)
  let ?k = "delete_if t p T every i k"
  show ?case
  proof (cases "slot_selected p T every (slot_at k t i)")
    case True
    then have e: "(t, i) \<in> cap_entries k" using Cons.prems by (auto simp: cap_entries_def slot_selected_def)
    note sel = delete_slot_sel [OF entry_type [OF Cons.prems(1) e]]
    note slots = delete_slot_slots [OF Cons.prems(1) e]
    have k: "?k = delete_slot t i k" using True by (simp add: delete_if_def)
    have sl: "slot_at ?k u j = (if u = t \<and> j = i then cleared_slot (slot_at k t i) else slot_at k u j)" if "j < 64" for u j
      using slots(1) [OF that] by (simp add: k)
    have keep: "slot_at ?k u j = slot_at k u j" if "(u, j) \<in> cap_entries ?k" for u j
      using that sl [of j u] cap_entries_small [of u j k] by (auto simp: k slots(2))
    have selx: "j \<in> set xs \<and> slot_selected p T every (slot_at ?k t j) \<or> j = i \<longleftrightarrow>
        (j \<in> set (i # xs) \<and> slot_selected p T every (slot_at k t j))" for j
      using Cons.prems(3) True sl [of j t]
      by (cases "j < 64"; cases "j = i") (auto simp: slot_selected_def)
    have inv: "cap_inv ?k" "table_live ?k t" using delete_slot_inv [OF Cons.prems(1) e] Cons.prems(2) sel(1) by (simp_all add: k)
    have xs: "set xs \<subseteq> {..<64}" using Cons.prems(3) by simp
    note IH = Cons.IH [OF inv xs]
    have ent: "cap_entries (fold (delete_if t p T every) (i # xs) k) =
        cap_entries k - {(t, j) | j. j \<in> set xs \<and> slot_selected p T every (slot_at ?k t j) \<or> j = i}"
      using IH by (auto simp: k slots(2))
    let ?f = "fold (delete_if t p T every) (i # xs) k"
    have "k_cap ?k = k_cap k" "object_refs ?k = object_refs k" by (simp_all add: k sel)
    then have "cap_inv ?f \<and> k_cap ?f = k_cap k \<and> object_refs ?f = object_refs k" using IH by simp
    moreover have "\<forall>u j. (u, j) \<in> cap_entries ?f \<longrightarrow> slot_at ?f u j = slot_at k u j"
      using IH keep by simp
    ultimately show ?thesis using ent [unfolded selx] by blast
  next
    case False
    then have "?k = k" by (simp add: delete_if_def)
    moreover have "{(t, j) | j. j \<in> set (i # xs) \<and> slot_selected p T every (slot_at k t j)} =
        {(t, j) | j. j \<in> set xs \<and> slot_selected p T every (slot_at k t j)}" using False by auto
    ultimately show ?thesis using Cons.IH [OF Cons.prems(1,2)] Cons.prems(3) by simp
  qed
qed

lemma delete_selected_check:
  assumes inv: "cap_inv k" and live: "table_live k t" and s: "s \<in> set (ct_slots (h_table k t))"
    and occ: "slot_occupied s"
  shows "slot_refs k s \<and> \<not> refs_of k (slot_type s) (slot_object s) < of_nat (matching_slots (h_table k t) s)"
proof -
  have len: "length (ct_slots (h_table k t)) = 64" using inv live by (simp add: table_ok_length table_live_ok)
  obtain i where i: "i < 64" "s = slot_at k t i" using s len by (auto simp: in_set_conv_nth)
  then have e: "(t, i) \<in> cap_entries k" using live occ by (simp add: cap_entries_def)
  let ?A = "{j. j < 64 \<and> slot_occupied (slot_at k t j) \<and> slot_object (slot_at k t j) = slot_object s \<and>
    slot_type (slot_at k t j) = slot_type s}"
  have m: "matching_slots (h_table k t) s = card ?A"
    by (simp add: matching_slots_def length_filter_conv_card len)
  have "card ?A = card (Pair t ` ?A)" by (simp add: card_image inj_on_def)
  also have "\<dots> \<le> card (object_slots k (slot_type s) (slot_object s))"
    using live by (intro card_mono finite_object_slots) (auto simp: object_slots_def cap_entries_def)
  also have "\<dots> = unat (refs_of k (slot_type s) (slot_object s))"
    using inv cap_invD(1) [OF inv e] i by (simp add: cap_inv_def slot_ok_def)
  finally have "card ?A \<le> unat (refs_of k (slot_type s) (slot_object s))" .
  then have "(of_nat (card ?A) :: u64) \<le> refs_of k (slot_type s) (slot_object s)"
    by (auto simp: word_le_nat_alt unat_of_nat take_bit_eq_mod intro: order_trans [OF mod_less_eq_dividend])
  then show ?thesis using slot_refs_entry [OF inv e] i m by (simp add: not_less)
qed

lemma delete_selected_ok:
  assumes inv: "cap_inv k" and live: "table_live k t"
  shows "delete_selected t p T every k = (True, fold (delete_if t p T every) [0..<64] k)"
proof -
  have "list_all (\<lambda>slot. slot_selected p T every slot \<longrightarrow> slot_refs k slot \<and>
      \<not> refs_of k (slot_type slot) (slot_object slot) < of_nat (matching_slots (h_table k t) slot))
      (ct_slots (h_table k t))"
    using delete_selected_check [OF inv live] by (simp add: list_all_iff slot_selected_def)
  moreover have "(\<lambda>i k. if slot_selected p T every (slot_at k t i) then delete_slot t i k else k) =
      delete_if t p T every" by (simp add: fun_eq_iff delete_if_def)
  ultimately show ?thesis
    using inv live by (simp add: delete_selected_def table_valid_live)
qed

definition cap_selected :: "ptr \<Rightarrow> CapabilityType \<Rightarrow> bool \<Rightarrow> cap \<Rightarrow> bool" where
  "cap_selected p T every c \<longleftrightarrow> every \<or> (fst c = T \<and> fst (snd c) = p)"

lemma slot_selected_cap:
  "(t, i) \<in> cap_entries k \<Longrightarrow>
    slot_selected p T every (slot_at k t i) \<longleftrightarrow> cap_selected p T every (slot_cap (slot_at k t i))"
  by (auto simp: cap_entries_def slot_selected_def cap_selected_def slot_cap_def)

lemma delete_selected_view:
  fixes p T every
  assumes inv: "cap_inv k" and live: "table_live k t"
  defines "k' \<equiv> snd (delete_selected t p T every k)"
  shows "cap_inv k'" and "k_cap k' = k_cap k" and "u \<noteq> t \<Longrightarrow> view k' u = view k u"
    and "view k' t = (\<lambda>h. case view k t h of None \<Rightarrow> None | Some c \<Rightarrow> if cap_selected p T every c then None else Some c)"
proof -
  have k': "k' = fold (delete_if t p T every) [0..<64] k"
    using delete_selected_ok [OF inv live] by (simp add: k'_def)
  have "set [0..<64] \<subseteq> {..<64::nat}" by auto
  note F = fold_delete_if [OF inv live this, of p T every, folded k']
  show inv': "cap_inv k'" and "k_cap k' = k_cap k" using F by auto
  have ent: "cap_entries k' = cap_entries k - {(t, i) | i. i < 64 \<and> slot_selected p T every (slot_at k t i)}"
    and keep: "\<And>u j. (u, j) \<in> cap_entries k' \<Longrightarrow> slot_at k' u j = slot_at k u j" using F by auto
  show "view k' u = view k u" if "u \<noteq> t"
    using that keep by (intro view_eqI inv inv') (auto simp: ent)
  have other: "(t, j) \<in> cap_entries k' \<and> h = make_handle (slot_generation (slot_at k' t j)) j \<and> c = slot_cap (slot_at k' t j)
      \<longleftrightarrow> ((t, j) \<in> cap_entries k \<and> h = make_handle (slot_generation (slot_at k t j)) j \<and>
          c = slot_cap (slot_at k t j)) \<and> \<not> cap_selected p T every c" for h c j
    using slot_selected_cap [of t j k p T every] cap_entries_small [of t j k] keep [of t j]
    by (cases "(t, j) \<in> cap_entries k'") (simp, auto simp: ent)
  have iff: "view k' t h = Some c \<longleftrightarrow> view k t h = Some c \<and> \<not> cap_selected p T every c" for h c
    unfolding view_Some [OF inv] view_Some [OF inv'] other by blast
  show "view k' t = (\<lambda>h. case view k t h of None \<Rightarrow> None | Some c \<Rightarrow> if cap_selected p T every c then None else Some c)"
    by (intro ext option_eqI, unfold iff) (auto split: option.split)
qed

end
