(* ===== verification/Intrusive_List.thy ===== *)
theory Intrusive_List
  imports Prelude
begin

text \<open>
  The contract of the kernel's intrusive lists. A state holds a list of distinct elements; adding
  appends, deleting removes exactly a member, and a refused operation changes nothing. The thread
  list of a process and the run queue of the scheduler are its two instances.
\<close>

datatype 'e list_op = Add_op 'e | Del_op 'e

locale intrusive_list =
  fixes holds :: "'s \<Rightarrow> 'e list \<Rightarrow> bool"
    and add :: "'e \<Rightarrow> 's \<Rightarrow> bool \<times> 's"
    and del :: "'e \<Rightarrow> 's \<Rightarrow> bool \<times> 's"
  assumes holds_distinct: "holds s xs \<Longrightarrow> distinct xs"
    and add_appends: "holds s xs \<Longrightarrow> add e s = (True, s') \<Longrightarrow> holds s' (xs @ [e])"
    and add_refused: "add e s = (False, s') \<Longrightarrow> s' = s"
    and del_member: "holds s xs \<Longrightarrow> e \<in> set xs \<Longrightarrow> \<exists>s'. del e s = (True, s') \<and> holds s' (remove1 e xs)"
    and del_absent: "holds s xs \<Longrightarrow> e \<notin> set xs \<Longrightarrow> del e s = (False, s)"
begin

lemma add_fresh: "holds s xs \<Longrightarrow> add e s = (True, s') \<Longrightarrow> e \<notin> set xs"
  using add_appends holds_distinct by fastforce

lemma add_then_del:
  assumes "holds s xs" and "add e s = (True, s')"
  shows "\<exists>s''. del e s' = (True, s'') \<and> holds s'' xs"
  using del_member [OF add_appends [OF assms], of e] add_fresh [OF assms] by (simp add: remove1_append)

lemma del_iff: "holds s xs \<Longrightarrow> fst (del e s) \<longleftrightarrow> e \<in> set xs"
  using del_member [of s xs e] del_absent [of s xs e] by fastforce

text \<open>A sequence of operations, with the answers the additions gave.\<close>

fun run_ops :: "'e list_op list \<Rightarrow> 's \<Rightarrow> bool list \<times> 's" where
  "run_ops [] s = ([], s)"
| "run_ops (Add_op e # ops) s = (case add e s of (b, s') \<Rightarrow> case run_ops ops s' of (bs, t) \<Rightarrow> (b # bs, t))"
| "run_ops (Del_op e # ops) s = (case del e s of (b, s') \<Rightarrow> case run_ops ops s' of (bs, t) \<Rightarrow> (b # bs, t))"

end

text \<open>The same sequence on plain lists.\<close>

fun list_ops :: "'e list_op list \<Rightarrow> bool list \<Rightarrow> 'e list \<Rightarrow> 'e list" where
  "list_ops (Add_op e # ops) (b # bs) xs = list_ops ops bs (if b then xs @ [e] else xs)"
| "list_ops (Del_op e # ops) (b # bs) xs = list_ops ops bs (remove1 e xs)"
| "list_ops _ _ xs = xs"

context intrusive_list
begin

lemma run_ops_refines:
  assumes "holds s xs" and "run_ops ops s = (bs, t)"
  shows "holds t (list_ops ops bs xs)"
  using assms
proof (induction ops arbitrary: s xs bs)
  case (Cons op ops)
  show ?case
  proof (cases op)
    case (Add_op e)
    obtain b s' where a: "add e s = (b, s')" by fastforce
    obtain bs' where r: "run_ops ops s' = (bs', t)" "bs = b # bs'"
      using Cons.prems(2) Add_op a by (auto split: prod.splits)
    have "holds s' (if b then xs @ [e] else xs)"
      using Cons.prems(1) a add_appends [of s xs e s'] add_refused [of e s s'] by (cases b) auto
    from Cons.IH [OF this r(1)] show ?thesis by (simp add: Add_op r(2))
  next
    case (Del_op e)
    obtain b s' where d: "del e s = (b, s')" by fastforce
    obtain bs' where r: "run_ops ops s' = (bs', t)" "bs = b # bs'"
      using Cons.prems(2) Del_op d by (auto split: prod.splits)
    have "holds s' (remove1 e xs)"
      using Cons.prems(1) d del_member [of s xs e] del_absent [of s xs e]
      by (cases "e \<in> set xs") (auto simp: remove1_idem)
    from Cons.IH [OF this r(1)] show ?thesis by (simp add: Del_op r(2))
  qed
qed simp

end

end
