(* ===== verification/Process_Threads.thy ===== *)
theory Process_Threads
  imports Registries Intrusive_List
begin

text \<open>
  The queries of \<^verbatim>\<open>kernel/process.c\<close> and the list of threads a process owns: a doubly
  linked list through \<^verbatim>\<open>process_prev\<close> and \<^verbatim>\<open>process_next\<close> of its threads with head,
  tail and count in the process. The lemmas relate it to the list of thread addresses it
  represents.
\<close>

section \<open>Definitions\<close>

definition process_live :: "Kernel \<Rightarrow> ptr \<Rightarrow> bool" where
  "process_live k p \<longleftrightarrow>
     process_initialized (k_process k) \<and> process_storage_live k p \<and> pr_initialized (h_process k p)"

definition process_kernel :: "Kernel \<Rightarrow> ptr" where
  "process_kernel k =
     (if \<not> process_initialized (k_process k) \<or>
         \<not> pr_initialized (h_process k (g_kernel_process (k_process k))) then 0
      else g_kernel_process (k_process k))"

definition process_address_space :: "Kernel \<Rightarrow> ptr \<Rightarrow> ptr" where
  "process_address_space k p = (if \<not> process_live k p then 0 else pr_address_space (h_process k p))"

definition process_capabilities :: "Kernel \<Rightarrow> ptr \<Rightarrow> ptr" where
  "process_capabilities k p = (if \<not> process_live k p then 0 else process_capabilities_addr p)"

definition process_thread_count :: "Kernel \<Rightarrow> ptr \<Rightarrow> u64" where
  "process_thread_count k p = (if \<not> process_live k p then 0 else thread_count (h_process k p))"

text \<open>The counted walk along \<^verbatim>\<open>process_next\<close>.\<close>

primrec contains_scan :: "nat \<Rightarrow> Kernel \<Rightarrow> ptr \<Rightarrow> ptr \<Rightarrow> ptr \<Rightarrow> bool" where
  "contains_scan 0 k process thread current = False"
| "contains_scan (Suc n) k process thread current =
     (if current = 0 \<or> th_id (h_thread k current) = 0 \<or> th_process (h_thread k current) \<noteq> process then False
      else if current = thread then True
      else contains_scan n k process thread (process_next (h_thread k current)))"

definition process_thread_contains :: "Kernel \<Rightarrow> ptr \<Rightarrow> ptr \<Rightarrow> bool" where
  "process_thread_contains k p t =
     (if \<not> process_live k p \<or> t = 0 \<or> th_id (h_thread k t) = 0 \<or> th_process (h_thread k t) \<noteq> p then False
      else contains_scan (unat (thread_count (h_process k p))) k p t (thread_head (h_process k p)))"

definition process_thread_first :: "Kernel \<Rightarrow> ptr \<Rightarrow> ptr" where
  "process_thread_first k p =
     (if \<not> process_live k p \<or> thread_count (h_process k p) = 0 then 0 else thread_head (h_process k p))"

definition process_thread_attach :: "ptr \<Rightarrow> ptr \<Rightarrow> Kernel \<Rightarrow> bool \<times> Kernel" where
  "process_thread_attach p t k =
     (if \<not> process_live k p \<or> pr_id (h_process k p) = 0 \<or> t = 0 \<or> th_id (h_thread k t) = 0 \<or>
         th_process (h_thread k t) \<noteq> p \<or> thread_count (h_process k p) = U64_MAX then (False, k)
      else if ei_reason (exit_info (h_process k p)) \<noteq> PROCESS_EXIT_NONE then (False, k)
      else if process_thread_contains k p t then (False, k)
      else if process_prev (h_thread k t) \<noteq> 0 \<or> process_next (h_thread k t) \<noteq> 0 then (False, k)
      else if thread_count (h_process k p) = 0 then
        (if thread_head (h_process k p) \<noteq> 0 \<or> thread_tail (h_process k p) \<noteq> 0 then (False, k)
         else (True, upd_process p (\<lambda>x. x\<lparr>thread_head := t, thread_tail := t,
                       thread_count := thread_count x + 1\<rparr>) k))
      else
        let tail = thread_tail (h_process k p) in
        if thread_head (h_process k p) = 0 \<or> tail = 0 \<or> process_next (h_thread k tail) \<noteq> 0 then (False, k)
        else
          let k = upd_thread t (\<lambda>x. x\<lparr>process_prev := tail\<rparr>) k;
              k = upd_thread tail (\<lambda>x. x\<lparr>process_next := t\<rparr>) k
          in (True, upd_process p (\<lambda>x. x\<lparr>thread_tail := t, thread_count := thread_count x + 1\<rparr>) k))"

text \<open>
  The validating walk of \<^verbatim>\<open>process_thread_can_detach\<close>; its result is the flag
  \<^verbatim>\<open>found\<close> with the final \<^verbatim>\<open>current\<close> and \<^verbatim>\<open>previous\<close>, or \<open>None\<close> for the
  early return of false.
\<close>

primrec detach_scan ::
  "nat \<Rightarrow> Kernel \<Rightarrow> ptr \<Rightarrow> ptr \<Rightarrow> ptr \<Rightarrow> ptr \<Rightarrow> bool \<Rightarrow> (bool \<times> ptr \<times> ptr) option" where
  "detach_scan 0 k process thread current previous found = Some (found, current, previous)"
| "detach_scan (Suc n) k process thread current previous found =
     (if current = 0 \<or> th_id (h_thread k current) = 0 \<or> th_process (h_thread k current) \<noteq> process then None
      else if process_prev (h_thread k current) \<noteq> previous then None
      else detach_scan n k process thread (process_next (h_thread k current)) current
             (found \<or> current = thread))"

definition process_thread_can_detach :: "Kernel \<Rightarrow> ptr \<Rightarrow> ptr \<Rightarrow> bool" where
  "process_thread_can_detach k p t =
     (if \<not> process_live k p \<or> pr_id (h_process k p) = 0 \<or> t = 0 \<or> th_id (h_thread k t) = 0 \<or>
         th_process (h_thread k t) \<noteq> p \<or> thread_count (h_process k p) = 0 then False
      else if thread_head (h_process k p) = 0 \<or> thread_tail (h_process k p) = 0 then False
      else
        case detach_scan (unat (thread_count (h_process k p))) k p t (thread_head (h_process k p)) 0 False of
          None \<Rightarrow> False
        | Some (found, current, previous) \<Rightarrow>
            found \<and> current = 0 \<and> previous = thread_tail (h_process k p))"

definition process_thread_detach :: "ptr \<Rightarrow> ptr \<Rightarrow> Kernel \<Rightarrow> bool \<times> Kernel" where
  "process_thread_detach p t k =
     (if \<not> process_thread_can_detach k p t then (False, k)
      else
        let previous = process_prev (h_thread k t); succ = process_next (h_thread k t);
            k = (if previous \<noteq> 0 then upd_thread previous (\<lambda>x. x\<lparr>process_next := succ\<rparr>) k
                 else upd_process p (\<lambda>x. x\<lparr>thread_head := succ\<rparr>) k);
            k = (if succ \<noteq> 0 then upd_thread succ (\<lambda>x. x\<lparr>process_prev := previous\<rparr>) k
                 else upd_process p (\<lambda>x. x\<lparr>thread_tail := previous\<rparr>) k);
            k = upd_thread t (\<lambda>x. x\<lparr>process_prev := 0, process_next := 0\<rparr>) k;
            k = upd_process p (\<lambda>x. x\<lparr>thread_count := thread_count x - 1\<rparr>) k
        in (True, if thread_count (h_process k p) = 0
                  then upd_process p (\<lambda>x. x\<lparr>thread_head := 0, thread_tail := 0\<rparr>) k else k))"

section \<open>The list a process owns\<close>

text \<open>
  \<open>thread_seg h p prev xs next\<close>: starting after \<open>prev\<close> the threads \<open>xs\<close> of process \<open>p\<close> are
  linked in both directions and the last one points to \<open>next\<close>.
\<close>

definition thread_node :: "(ptr \<Rightarrow> Thread) \<Rightarrow> ptr \<Rightarrow> ptr \<Rightarrow> ptr \<Rightarrow> ptr \<Rightarrow> bool" where
  "thread_node h p prev t succ \<longleftrightarrow>
     t \<noteq> 0 \<and> th_id (h t) \<noteq> 0 \<and> th_process (h t) = p \<and> process_prev (h t) = prev \<and> process_next (h t) = succ"

primrec thread_seg :: "(ptr \<Rightarrow> Thread) \<Rightarrow> ptr \<Rightarrow> ptr \<Rightarrow> ptr list \<Rightarrow> ptr \<Rightarrow> bool" where
  "thread_seg h p prev [] succ = True"
| "thread_seg h p prev (t # ts) succ \<longleftrightarrow>
     thread_node h p prev t (hd (ts @ [succ])) \<and> thread_seg h p t ts succ"

definition owns_threads :: "Kernel \<Rightarrow> ptr \<Rightarrow> ptr list \<Rightarrow> bool" where
  "owns_threads k p ts \<longleftrightarrow>
     distinct ts \<and> thread_seg (h_thread k) p 0 ts 0 \<and>
     unat (thread_count (h_process k p)) = length ts \<and>
     thread_head (h_process k p) = hd (ts @ [0]) \<and> thread_tail (h_process k p) = last (0 # ts)"

lemma thread_seg_append:
  "thread_seg h p prev (xs @ ys) succ \<longleftrightarrow>
     thread_seg h p prev xs (hd (ys @ [succ])) \<and> thread_seg h p (last (prev # xs)) ys succ"
  by (induction xs arbitrary: prev) (auto simp: hd_append)

lemma thread_seg_nodes:
  "thread_seg h p prev ts succ \<Longrightarrow> t \<in> set ts \<Longrightarrow> t \<noteq> 0 \<and> th_id (h t) \<noteq> 0 \<and> th_process (h t) = p"
  by (induction ts arbitrary: prev) (auto simp: thread_node_def)

lemma thread_seg_cong:
  assumes "\<And>t. t \<in> set ts \<Longrightarrow> th_id (h' t) = th_id (h t) \<and> th_process (h' t) = th_process (h t) \<and>
      process_prev (h' t) = process_prev (h t) \<and> process_next (h' t) = process_next (h t)"
  shows "thread_seg h' p prev ts succ = thread_seg h p prev ts succ"
  using assms by (induction ts arbitrary: prev) (simp_all add: thread_node_def)

lemma thread_seg_set_next:
  assumes "thread_seg h p prev (xs @ [x]) succ" and "x \<notin> set xs"
  shows "thread_seg (h(x := (h x)\<lparr>process_next := s\<rparr>)) p prev (xs @ [x]) s"
proof -
  have "thread_seg (h(x := (h x)\<lparr>process_next := s\<rparr>)) p prev xs x = thread_seg h p prev xs x"
    using assms(2) by (intro thread_seg_cong) auto
  then show ?thesis using assms(1) by (simp add: thread_seg_append thread_node_def)
qed

lemma thread_seg_set_prev:
  assumes "thread_seg h p prev (y # ys) succ" and "y \<notin> set ys"
  shows "thread_seg (h(y := (h y)\<lparr>process_prev := s\<rparr>)) p s (y # ys) succ"
proof -
  have "thread_seg (h(y := (h y)\<lparr>process_prev := s\<rparr>)) p y ys succ = thread_seg h p y ys succ"
    using assms(2) by (intro thread_seg_cong) auto
  then show ?thesis using assms(1) by (simp add: thread_node_def)
qed

lemma contains_scan_seg:
  "thread_seg (h_thread k) p prev ts succ \<Longrightarrow>
     contains_scan (length ts) k p t (hd (ts @ [succ])) \<longleftrightarrow> t \<in> set ts"
  by (induction ts arbitrary: prev) (auto simp: thread_node_def)

lemma detach_scan_seg:
  "thread_seg (h_thread k) p prev ts succ \<Longrightarrow>
     detach_scan (length ts) k p t (hd (ts @ [succ])) prev found =
       Some (found \<or> t \<in> set ts, succ, last (prev # ts))"
  by (induction ts arbitrary: prev found) (auto simp: thread_node_def)

lemma owns_threads_contains:
  assumes "owns_threads k p ts" and "process_live k p"
  shows "process_thread_contains k p t \<longleftrightarrow> t \<in> set ts"
  using assms contains_scan_seg [of k p 0 ts 0 t] thread_seg_nodes [of "h_thread k" p 0 ts 0 t]
  by (auto simp: process_thread_contains_def owns_threads_def)

lemma owns_threads_can_detach:
  assumes "owns_threads k p ts" and "process_live k p" and "pr_id (h_process k p) \<noteq> 0"
  shows "process_thread_can_detach k p t \<longleftrightarrow> t \<in> set ts"
proof (cases ts)
  case Nil
  then show ?thesis using assms by (simp add: process_thread_can_detach_def owns_threads_def unat_eq_zero)
next
  case (Cons u us)
  note seg = assms(1) [unfolded owns_threads_def, THEN conjunct2, THEN conjunct1]
  have c: "thread_count (h_process k p) \<noteq> 0" using assms(1) Cons by (auto simp: owns_threads_def)
  have n: "thread_head (h_process k p) \<noteq> 0" "thread_tail (h_process k p) \<noteq> 0"
    using assms(1) Cons thread_seg_nodes [OF seg] last_in_set [of ts] by (auto simp: owns_threads_def)
  show ?thesis
    using assms c n detach_scan_seg [OF seg, of t False] thread_seg_nodes [OF seg, of t]
    by (auto simp: process_thread_can_detach_def owns_threads_def)
qed

text \<open>Operations on one process keep the lists of the others.\<close>

lemma owns_threads_other:
  assumes "owns_threads k q us"
    and "\<And>t. th_process (h_thread k t) = q \<Longrightarrow> h_thread k' t = h_thread k t" and "h_process k' q = h_process k q"
  shows "owns_threads k' q us"
proof -
  have "thread_seg (h_thread k') q 0 us 0 = thread_seg (h_thread k) q 0 us 0"
    using assms thread_seg_nodes [of "h_thread k" q 0 us 0] by (intro thread_seg_cong) (simp add: owns_threads_def)
  then show ?thesis using assms(1,3) by (simp add: owns_threads_def)
qed

lemma attach_succeeds:
  assumes own: "owns_threads k p ts" and live: "process_live k p"
  shows "fst (process_thread_attach p t k) \<longleftrightarrow>
    pr_id (h_process k p) \<noteq> 0 \<and> t \<noteq> 0 \<and> th_id (h_thread k t) \<noteq> 0 \<and> th_process (h_thread k t) = p \<and>
    length ts < 2 ^ 64 - 1 \<and> ei_reason (exit_info (h_process k p)) = PROCESS_EXIT_NONE \<and> t \<notin> set ts \<and>
    process_prev (h_thread k t) = 0 \<and> process_next (h_thread k t) = 0"
proof -
  have max: "thread_count (h_process k p) = - 1 \<longleftrightarrow> \<not> length ts < 2 ^ 64 - 1"
  proof -
    have "thread_count (h_process k p) = - 1 \<longleftrightarrow> unat (thread_count (h_process k p)) = 2 ^ 64 - 1"
      by (simp add: word_unat_eq_iff unsigned_minus_1_eq_mask mask_eq_exp_minus_1)
    moreover have "unat (thread_count (h_process k p)) < 2 ^ LENGTH(64)" by (rule unsigned_less)
    then have "length ts < 2 ^ LENGTH(64)" using own unfolding owns_threads_def by argo
    ultimately show ?thesis using own by (auto simp: owns_threads_def)
  qed
  have tail: "thread_head (h_process k p) \<noteq> 0 \<and> thread_tail (h_process k p) \<noteq> 0 \<and>
      process_next (h_thread k (thread_tail (h_process k p))) = 0" if "ts \<noteq> []"
  proof -
    obtain us u where ts: "ts = us @ [u]" using \<open>ts \<noteq> []\<close> by (metis rev_exhaust)
    have "thread_node (h_thread k) p (last (0 # us)) u 0"
      using own by (simp add: owns_threads_def ts thread_seg_append)
    moreover have "hd ts \<noteq> 0"
      using own that thread_seg_nodes [of "h_thread k" p 0 ts 0 "hd ts"] by (simp add: owns_threads_def)
    ultimately show ?thesis using own ts by (auto simp: owns_threads_def thread_node_def hd_append split: if_splits)
  qed
  have c: "thread_count (h_process k p) = 0 \<longleftrightarrow> ts = []"
    using own by (auto simp: owns_threads_def unat_eq_zero)
  show ?thesis
    using tail own live
    by (cases "ts = []") (auto simp: process_thread_attach_def Let_def max c owns_threads_contains [OF own live] owns_threads_def)
qed

lemma attach_owns:
  assumes own: "owns_threads k p ts" and live: "process_live k p"
    and ok: "process_thread_attach p t k = (True, k')"
  shows "owns_threads k' p (ts @ [t])"
proof -
  have t: "t \<noteq> 0" "th_id (h_thread k t) \<noteq> 0" "th_process (h_thread k t) = p" "t \<notin> set ts"
    "process_prev (h_thread k t) = 0" "process_next (h_thread k t) = 0" and len: "length ts < 2 ^ 64 - 1"
    using attach_succeeds [OF own live, of t] ok by auto
  have c: "thread_count (h_process k p) = 0 \<longleftrightarrow> ts = []"
    using own by (auto simp: owns_threads_def unat_eq_zero)
  have count: "unat (thread_count (h_process k p) + 1) = length ts + 1"
    using own len by (subst unat_add_no_wrap) (auto simp: owns_threads_def)
  show ?thesis
  proof (cases "ts = []")
    case True
    then have "k' = upd_process p (\<lambda>x. x\<lparr>thread_head := t, thread_tail := t, thread_count := thread_count x + 1\<rparr>) k"
      using ok c by (auto simp: process_thread_attach_def Let_def split: if_splits)
    then show ?thesis using True t count by (simp add: owns_threads_def upd_defs thread_node_def)
  next
    case False
    then obtain us u where ts: "ts = us @ [u]" by (metis rev_exhaust)
    have tail: "thread_tail (h_process k p) = u" using own ts by (simp add: owns_threads_def)
    let ?h = "(h_thread k)(t := (h_thread k t)\<lparr>process_prev := u\<rparr>)"
    have k': "k' = upd_process p (\<lambda>x. x\<lparr>thread_tail := t, thread_count := thread_count x + 1\<rparr>)
        (upd_thread u (\<lambda>x. x\<lparr>process_next := t\<rparr>) (upd_thread t (\<lambda>x. x\<lparr>process_prev := u\<rparr>) k))"
      using ok c False tail by (auto simp: process_thread_attach_def Let_def split: if_splits)
    have h: "h_thread k' = ?h(u := (?h u)\<lparr>process_next := t\<rparr>)" by (simp add: k' upd_defs)
    have "thread_seg ?h p 0 ts 0"
      using own t(4) by (subst thread_seg_cong [where h = "h_thread k"]) (auto simp: owns_threads_def)
    then have "thread_seg (h_thread k') p 0 ts t"
      using own unfolding h ts by (intro thread_seg_set_next) (simp_all add: owns_threads_def ts)
    moreover have "thread_node (h_thread k') p u t 0"
      using t ts by (simp add: h thread_node_def)
    ultimately show ?thesis
      using own t(4) count False ts
      by (simp add: owns_threads_def k' upd_defs thread_seg_append hd_append eq_commute [of u t])
  qed
qed

lemma attach_other:
  assumes own: "owns_threads k p ts" and live: "process_live k p"
    and ok: "process_thread_attach p t k = (True, k')" and q: "q \<noteq> p" "owns_threads k q us"
  shows "owns_threads k' q us"
proof (rule owns_threads_other [OF q(2)])
  have t: "th_process (h_thread k t) = p" using attach_succeeds [OF own live, of t] ok by auto
  have tail: "th_process (h_thread k (thread_tail (h_process k p))) = p" if "thread_count (h_process k p) \<noteq> 0"
    using own that thread_seg_nodes [of "h_thread k" p 0 ts 0 "last ts"] by (auto simp: owns_threads_def unat_eq_zero)
  show "h_thread k' u = h_thread k u" if "th_process (h_thread k u) = q" for u
    using ok q(1) that t tail by (auto simp: process_thread_attach_def Let_def upd_defs split: if_splits)
  show "h_process k' q = h_process k q"
    using ok q(1) by (auto simp: process_thread_attach_def Let_def upd_defs split: if_splits)
qed

text \<open>Unlinking from the middle, on the heap of threads.\<close>

lemma thread_seg_unlink:
  assumes seg: "thread_seg h p 0 (xs @ t # ys) 0" and dist: "distinct (xs @ t # ys)"
  defines "prev \<equiv> last (0 # xs)" and "succ \<equiv> hd (ys @ [0])"
  defines "h1 \<equiv> (if prev \<noteq> 0 then h(prev := (h prev)\<lparr>process_next := succ\<rparr>) else h)"
  defines "h2 \<equiv> (if succ \<noteq> 0 then h1(succ := (h1 succ)\<lparr>process_prev := prev\<rparr>) else h1)"
  shows "thread_seg h2 p 0 (xs @ ys) 0" and "prev = 0 \<longleftrightarrow> xs = []" and "succ = 0 \<longleftrightarrow> ys = []"
    and "prev \<noteq> t" and "succ \<noteq> t" and "process_prev (h t) = prev" and "process_next (h t) = succ"
proof -
  have nz: "u \<noteq> 0" if "u \<in> set xs \<or> u \<in> set ys" for u using thread_seg_nodes [OF seg, of u] that by auto
  show p0: "prev = 0 \<longleftrightarrow> xs = []" using nz [of "last xs"] by (auto simp: prev_def)
  show s0: "succ = 0 \<longleftrightarrow> ys = []" using nz [of "hd ys"] by (cases ys) (auto simp: succ_def)
  have t0: "t \<noteq> 0" using thread_seg_nodes [OF seg, of t] by simp
  show "prev \<noteq> t" "succ \<noteq> t"
    using dist t0 by (auto simp: prev_def succ_def hd_append split: if_splits)
  show "process_prev (h t) = prev" "process_next (h t) = succ"
    using seg by (simp_all add: thread_seg_append thread_node_def prev_def succ_def)
  have xs: "thread_seg h p 0 xs t" and ys: "thread_seg h p t ys 0"
    using seg by (simp_all add: thread_seg_append)
  have disj: "last xs \<notin> set ys" if "xs \<noteq> []" using dist last_in_set [OF that] by auto
  have xs1: "thread_seg h1 p 0 xs succ"
  proof (cases "xs = []")
    case False
    then obtain zs z where z: "xs = zs @ [z]" by (metis rev_exhaust)
    then show ?thesis
      using xs p0 dist thread_seg_set_next [of h p 0 zs z t succ] by (simp add: h1_def prev_def)
  qed simp
  have ys1: "thread_seg h1 p t ys 0"
    using ys disj p0
    by (subst thread_seg_cong [where h = h]) (auto simp: h1_def prev_def)
  have xs2: "thread_seg h2 p 0 xs succ"
    using xs1 dist s0 by (subst thread_seg_cong [where h = h1]) (auto simp: h2_def succ_def hd_append)
  have ys2: "thread_seg h2 p prev ys 0"
  proof (cases ys)
    case (Cons y zs)
    then show ?thesis
      using ys1 s0 dist thread_seg_set_prev [of h1 p t y zs 0 prev] by (simp add: h2_def succ_def)
  qed simp
  show "thread_seg h2 p 0 (xs @ ys) 0"
    using xs2 ys2 by (simp add: thread_seg_append succ_def prev_def)
qed

lemma detach_owns:
  assumes own: "owns_threads k p ts" and live: "process_live k p"
    and ok: "process_thread_detach p t k = (True, k')"
  shows "t \<in> set ts" and "owns_threads k' p (remove1 t ts)"
    and "process_prev (h_thread k' t) = 0 \<and> process_next (h_thread k' t) = 0"
    and "\<And>u. th_process (h_thread k u) \<noteq> p \<Longrightarrow> h_thread k' u = h_thread k u"
    and "\<And>q. q \<noteq> p \<Longrightarrow> h_process k' q = h_process k q"
proof -
  have can: "process_thread_can_detach k p t" using ok by (auto simp: process_thread_detach_def split: if_splits)
  then have id: "pr_id (h_process k p) \<noteq> 0" by (auto simp: process_thread_can_detach_def split: if_splits)
  show mem: "t \<in> set ts" using can owns_threads_can_detach [OF own live id] by simp
  then obtain xs ys where ts: "ts = xs @ t # ys" by (meson split_list)
  have dist: "distinct (xs @ t # ys)" and seg: "thread_seg (h_thread k) p 0 (xs @ t # ys) 0"
    and count: "unat (thread_count (h_process k p)) = Suc (length (xs @ ys))"
    and hd: "thread_head (h_process k p) = hd (xs @ [t])" and tl: "thread_tail (h_process k p) = last (t # ys)"
    using own by (auto simp: owns_threads_def ts hd_append)
  note link = thread_seg_unlink [OF seg dist]
  define h where "h = h_thread k"
  let ?prev = "last (0 # xs)" and ?succ = "hd (ys @ [0])"
  define h1 where "h1 = (if ?prev \<noteq> 0 then h(?prev := (h ?prev)\<lparr>process_next := ?succ\<rparr>) else h)"
  define h2 where "h2 = (if ?succ \<noteq> 0 then h1(?succ := (h1 ?succ)\<lparr>process_prev := ?prev\<rparr>) else h1)"
  have cnt: "unat (thread_count (h_process k p) - 1) = length (xs @ ys)"
    using count by (subst unat_sub_no_wrap) (auto simp: word_nat)
  have c0: "thread_count (h_process k p) - 1 = 0 \<longleftrightarrow> xs @ ys = []"
    using cnt by (auto simp: unat_eq_zero [symmetric] simp del: append_is_Nil_conv)
  have k': "h_thread k' = h2(t := (h2 t)\<lparr>process_prev := 0, process_next := 0\<rparr>) \<and>
      thread_count (h_process k' p) = thread_count (h_process k p) - 1 \<and>
      thread_head (h_process k' p) = hd ((xs @ ys) @ [0]) \<and> thread_tail (h_process k' p) = last (0 # xs @ ys) \<and>
      (\<forall>q. q \<noteq> p \<longrightarrow> h_process k' q = h_process k q)"
    using ok can link(2-7) hd tl c0
    by (cases "xs = []"; cases "ys = []")
      (auto simp: process_thread_detach_def Let_def upd_defs h1_def h2_def h_def hd_append)
  show "\<And>q. q \<noteq> p \<Longrightarrow> h_process k' q = h_process k q" using k' by blast
  show "process_prev (h_thread k' t) = 0 \<and> process_next (h_thread k' t) = 0" using k' by simp
  have "thread_seg h2 p 0 (xs @ ys) 0"
    using link(1) by (simp only: h1_def h2_def h_def)
  then have "thread_seg (h_thread k') p 0 (xs @ ys) 0"
    using k' dist by (subst thread_seg_cong [where h = h2]) auto
  then show "owns_threads k' p (remove1 t ts)"
    using dist k' cnt by (simp add: owns_threads_def ts remove1_append)
  show "h_thread k' u = h_thread k u" if "th_process (h_thread k u) \<noteq> p" for u
  proof -
    have "u \<noteq> x" if "x \<in> set ts" for x
      using thread_seg_nodes [OF seg, of x] that \<open>th_process (h_thread k u) \<noteq> p\<close> by (auto simp: ts)
    then have "u \<noteq> t" "?prev \<noteq> 0 \<Longrightarrow> u \<noteq> ?prev" "?succ \<noteq> 0 \<Longrightarrow> u \<noteq> ?succ"
      unfolding link(2,3) by (auto simp: ts)
    then show ?thesis using k' by (auto simp: h1_def h2_def h_def)
  qed
qed

text \<open>Attaching and detaching keep the process live under its identity.\<close>

definition process_kept :: "ptr \<Rightarrow> Kernel \<Rightarrow> Kernel \<Rightarrow> bool" where
  "process_kept p k k' \<longleftrightarrow> process_live k' p = process_live k p \<and> pr_id (h_process k' p) = pr_id (h_process k p)"

lemma process_kept_thread [simp]: "process_kept p k (upd_thread t f k') = process_kept p k k'"
  by (simp add: process_kept_def process_live_def process_storage_live_def upd_thread_def)

lemma process_kept_process [simp]:
  "(\<And>x. pr_id (f x) = pr_id x \<and> pr_initialized (f x) = pr_initialized x) \<Longrightarrow>
     process_kept p k (upd_process q f k') = process_kept p k k'"
  by (simp add: process_kept_def process_live_def process_storage_live_def upd_process_def)

lemma process_kept_refl [simp]: "process_kept p k k"
  by (simp add: process_kept_def)

lemma attach_keeps: "process_kept p k (snd (process_thread_attach p t k))"
  by (simp add: process_thread_attach_def Let_def)

lemma detach_keeps: "process_kept p k (snd (process_thread_detach p t k))"
  by (simp add: process_thread_detach_def Let_def)

definition process_holds :: "ptr \<Rightarrow> Kernel \<Rightarrow> ptr list \<Rightarrow> bool" where
  "process_holds p k ts \<longleftrightarrow> owns_threads k p ts \<and> process_live k p \<and> pr_id (h_process k p) \<noteq> 0"

interpretation process_list: intrusive_list "process_holds p" "process_thread_attach p" "process_thread_detach p" for p
proof
  fix s s' :: Kernel and xs e
  show "process_holds p s xs \<Longrightarrow> distinct xs" by (simp add: process_holds_def owns_threads_def)
  show "process_holds p s xs \<Longrightarrow> process_thread_attach p e s = (True, s') \<Longrightarrow> process_holds p s' (xs @ [e])"
    using attach_owns [of s p xs e s'] attach_keeps [of p s e] by (simp add: process_holds_def process_kept_def)
  show "process_thread_attach p e s = (False, s') \<Longrightarrow> s' = s"
    by (auto simp: process_thread_attach_def Let_def split: if_splits)
  show "process_holds p s xs \<Longrightarrow> e \<in> set xs \<Longrightarrow>
      \<exists>s'. process_thread_detach p e s = (True, s') \<and> process_holds p s' (remove1 e xs)"
  proof -
    assume h: "process_holds p s xs" and e: "e \<in> set xs"
    then have "process_thread_can_detach s p e" using owns_threads_can_detach [of s p xs e] by (simp add: process_holds_def)
    then obtain s' where "process_thread_detach p e s = (True, s')"
      by (auto simp: process_thread_detach_def Let_def)
    then show ?thesis
      using h detach_owns(2) [of s p xs e s'] detach_keeps [of p s e] by (auto simp: process_holds_def process_kept_def)
  qed
  show "process_holds p s xs \<Longrightarrow> e \<notin> set xs \<Longrightarrow> process_thread_detach p e s = (False, s)"
    using owns_threads_can_detach [of s p xs e] by (simp add: process_holds_def process_thread_detach_def)
qed

section \<open>Properties\<close>

lemma process_thread_attach_correct_facts:
  assumes own: "owns_threads k p ts" and live: "process_live k p"
  shows "fst (process_thread_attach p t k) \<longleftrightarrow>
      pr_id (h_process k p) \<noteq> 0 \<and> t \<noteq> 0 \<and> th_id (h_thread k t) \<noteq> 0 \<and> th_process (h_thread k t) = p \<and>
      length ts < 2 ^ 64 - 1 \<and> ei_reason (exit_info (h_process k p)) = PROCESS_EXIT_NONE \<and> t \<notin> set ts \<and>
      process_prev (h_thread k t) = 0 \<and> process_next (h_thread k t) = 0"
    and "case process_thread_attach p t k of (ok, k') \<Rightarrow>
      if ok then owns_threads k' p (ts @ [t]) \<and> (\<forall>q us. q \<noteq> p \<longrightarrow> owns_threads k q us \<longrightarrow> owns_threads k' q us)
      else k' = k"
proof -
  show "case process_thread_attach p t k of (ok, k') \<Rightarrow>
      if ok then owns_threads k' p (ts @ [t]) \<and> (\<forall>q us. q \<noteq> p \<longrightarrow> owns_threads k q us \<longrightarrow> owns_threads k' q us)
      else k' = k"
  proof (cases "fst (process_thread_attach p t k)")
    case True
    then obtain k' where "process_thread_attach p t k = (True, k')" by (metis prod.collapse)
    then show ?thesis using attach_owns [OF own live] attach_other [OF own live] by auto
  next
    case False
    then show ?thesis by (auto simp: process_thread_attach_def Let_def split: if_splits)
  qed
qed (rule attach_succeeds [OF own live])

text \<open>C20. \<^verbatim>\<open>process_thread_attach\<close> on a live process whose intrusive list represents
  \<open>ts\<close> succeeds exactly when the process has an identity and no terminal record, the thread is
  initialised, names the process, has clear links, is not in the list and the counter can grow.
  It then appends the thread at the tail and keeps the lists of all other processes; when it
  fails nothing changes.\<close>

theorem process_thread_attach_correct:
  assumes "owns_threads k p ts" and "process_live k p"
  shows "case process_thread_attach p t k of (ok, k') \<Rightarrow>
      (ok \<longleftrightarrow> pr_id (h_process k p) \<noteq> 0 \<and> t \<noteq> 0 \<and> th_id (h_thread k t) \<noteq> 0 \<and> th_process (h_thread k t) = p \<and>
        length ts < 2 ^ 64 - 1 \<and> ei_reason (exit_info (h_process k p)) = PROCESS_EXIT_NONE \<and> t \<notin> set ts \<and>
        process_prev (h_thread k t) = 0 \<and> process_next (h_thread k t) = 0) \<and>
      (if ok then owns_threads k' p (ts @ [t]) \<and> (\<forall>q us. q \<noteq> p \<longrightarrow> owns_threads k q us \<longrightarrow> owns_threads k' q us)
       else k' = k)"
  using process_thread_attach_correct_facts [OF assms, of t] by (cases "process_thread_attach p t k") simp

lemma process_thread_detach_correct_facts:
  assumes own: "owns_threads k p ts" and live: "process_live k p" and id: "pr_id (h_process k p) \<noteq> 0"
  shows "process_thread_contains k p t \<longleftrightarrow> t \<in> set ts"
    and "process_thread_can_detach k p t \<longleftrightarrow> t \<in> set ts"
    and "case process_thread_detach p t k of (ok, k') \<Rightarrow>
      (ok \<longleftrightarrow> t \<in> set ts) \<and>
      (if ok then owns_threads k' p (remove1 t ts) \<and> process_prev (h_thread k' t) = 0 \<and>
         process_next (h_thread k' t) = 0 \<and> (\<forall>q us. q \<noteq> p \<longrightarrow> owns_threads k q us \<longrightarrow> owns_threads k' q us)
       else k' = k)"
proof -
  show "process_thread_contains k p t \<longleftrightarrow> t \<in> set ts" by (rule owns_threads_contains [OF own live])
  show can: "process_thread_can_detach k p t \<longleftrightarrow> t \<in> set ts" by (rule owns_threads_can_detach [OF own live id])
  show "case process_thread_detach p t k of (ok, k') \<Rightarrow>
      (ok \<longleftrightarrow> t \<in> set ts) \<and>
      (if ok then owns_threads k' p (remove1 t ts) \<and> process_prev (h_thread k' t) = 0 \<and>
         process_next (h_thread k' t) = 0 \<and> (\<forall>q us. q \<noteq> p \<longrightarrow> owns_threads k q us \<longrightarrow> owns_threads k' q us)
       else k' = k)"
  proof (cases "t \<in> set ts")
    case True
    then obtain k' where ok: "process_thread_detach p t k = (True, k')"
      using can by (auto simp: process_thread_detach_def Let_def)
    have "owns_threads k' q us" if "q \<noteq> p" "owns_threads k q us" for q us
      using detach_owns(4,5) [OF own live ok] that by (intro owns_threads_other [OF that(2)]) auto
    then show ?thesis using ok True detach_owns(2,3) [OF own live ok] by simp
  next
    case False
    then show ?thesis using can by (simp add: process_thread_detach_def)
  qed
qed

text \<open>C21. \<^verbatim>\<open>process_thread_detach\<close> succeeds exactly for the threads in the list; it removes
  the thread from wherever it stands, clears its links, keeps the order of the rest and the
  lists of all other processes; the walk that validates the list and
  \<^verbatim>\<open>process_thread_contains\<close> agree with membership in the represented list.\<close>

theorem process_thread_detach_correct:
  assumes "owns_threads k p ts" and "process_live k p" and "pr_id (h_process k p) \<noteq> 0"
  shows "(process_thread_contains k p t \<longleftrightarrow> t \<in> set ts) \<and> (process_thread_can_detach k p t \<longleftrightarrow> t \<in> set ts) \<and>
    (case process_thread_detach p t k of (ok, k') \<Rightarrow>
      (ok \<longleftrightarrow> t \<in> set ts) \<and>
      (if ok then owns_threads k' p (remove1 t ts) \<and> process_prev (h_thread k' t) = 0 \<and>
         process_next (h_thread k' t) = 0 \<and> (\<forall>q us. q \<noteq> p \<longrightarrow> owns_threads k q us \<longrightarrow> owns_threads k' q us)
       else k' = k))"
  by (intro conjI process_thread_detach_correct_facts [OF assms])

text \<open>A process at 64 with one thread at 512; the thread at 1024 is not attached.\<close>

definition demo_threads :: Kernel where
  "demo_threads = small_kernel\<lparr>
     h_process := (\<lambda>_. zero_process)(64 := zero_process\<lparr>pr_id := 2, pr_initialized := True,
       thread_head := 512, thread_tail := 512, thread_count := 1\<rparr>),
     h_thread := (\<lambda>_. zero_thread)(512 := zero_thread\<lparr>th_id := 2, th_process := 64\<rparr>,
       1024 := zero_thread\<lparr>th_id := 3, th_process := 64\<rparr>),
     k_process := (k_process small_kernel)\<lparr>g_process_storage := [64]\<rparr>\<rparr>"

lemma demo_threads_ok:
  "owns_threads demo_threads 64 [512]" "process_live demo_threads 64" "pr_id (h_process demo_threads 64) \<noteq> 0"
  by (simp_all add: demo_threads_def owns_threads_def thread_node_def process_live_def live_defs small_kernel_def
      zero_thread_def)

theorem process_thread_attach_correct_witness:
  "\<exists>k'. process_thread_attach 64 1024 demo_threads = (True, k') \<and> owns_threads k' 64 [512, 1024]"
  using process_thread_attach_correct [OF demo_threads_ok(1,2), of 1024]
  by (auto simp: demo_threads_def zero_thread_def zero_process_def zero_exit_info_def split: prod.splits)

theorem process_thread_detach_correct_witness:
  "\<exists>k'. process_thread_detach 64 512 demo_threads = (True, k') \<and> owns_threads k' 64 []"
  using process_thread_detach_correct [OF demo_threads_ok, of 512] by (auto split: prod.splits)

end
