(* ===== verification/Endpoint.thy ===== *)
theory Endpoint
  imports Process_Threads
begin

text \<open>
  Endpoints, \<^verbatim>\<open>kernel/endpoint.c\<close>: creation and destruction in caller storage, the mailbox
  of one message, and the queries by owner. A null message pointer is \<open>None\<close>; the message a
  receiver gets is the result \<open>Some\<close>.
\<close>

section \<open>Definitions\<close>

abbreviation (input) IPC_MESSAGE_MAX_WORDS :: u32 where "IPC_MESSAGE_MAX_WORDS \<equiv> 4"

definition endpoint_system_init :: "Kernel \<Rightarrow> bool \<times> Kernel" where
  "endpoint_system_init k =
     (if endpoint_initialized (k_ep k) then (False, k)
      else (True, k\<lparr>k_ep := (k_ep k)\<lparr>g_next_endpoint_id := 1, endpoint_initialized := True\<rparr>\<rparr>))"

definition endpoint_create_locked :: "ptr \<Rightarrow> u64 \<Rightarrow> Kernel \<Rightarrow> bool \<times> Kernel" where
  "endpoint_create_locked e owner k =
     (if \<not> endpoint_initialized (k_ep k) \<or> e = 0 \<or> g_next_endpoint_id (k_ep k) = 0 \<or> endpoint_live k e
      then (False, k)
      else
        let slots = g_endpoints (k_ep k); slot = object_storage_empty slots in
        if slot = length slots then (False, k)
        else
          let k = upd_endpoint e (\<lambda>_. zero_endpoint\<lparr>ep_id := g_next_endpoint_id (k_ep k),
                    owner_process_id := owner, ep_initialized := True\<rparr>) k;
              k = k\<lparr>k_ep := (k_ep k)\<lparr>g_next_endpoint_id := g_next_endpoint_id (k_ep k) + 1\<rparr>\<rparr>
          in (True, set_endpoints (slots[slot := e]) k))"

definition endpoint_create :: "ptr \<Rightarrow> Kernel \<Rightarrow> bool \<times> Kernel" where
  "endpoint_create e k = endpoint_create_locked e 0 k"

definition endpoint_create_owned :: "ptr \<Rightarrow> ptr \<Rightarrow> Kernel \<Rightarrow> bool \<times> Kernel" where
  "endpoint_create_owned e owner k =
     (if process_capabilities k owner \<noteq> 0 \<and> pr_id (h_process k owner) \<noteq> 0
      then endpoint_create_locked e (pr_id (h_process k owner)) k else (False, k))"

definition endpoint_valid :: "Kernel \<Rightarrow> ptr \<Rightarrow> bool" where
  "endpoint_valid k e \<longleftrightarrow>
     endpoint_initialized (k_ep k) \<and> endpoint_live k e \<and> ep_initialized (h_endpoint k e) \<and>
     ep_id (h_endpoint k e) \<noteq> 0"

definition endpoint_destroy :: "ptr \<Rightarrow> Kernel \<Rightarrow> bool \<times> Kernel" where
  "endpoint_destroy e k =
     (let endpoint = h_endpoint k e in
      if \<not> endpoint_valid k e then (False, k)
      else if ep_capability_refs endpoint \<noteq> 0 then (False, k)
      else if message_ready endpoint then (False, k)
      else if waiting_receiver endpoint \<noteq> 0 \<or> waiting_receiver_id endpoint \<noteq> 0 then (False, k)
      else if waiting_sender endpoint \<noteq> 0 \<or> waiting_sender_id endpoint \<noteq> 0 then (False, k)
      else if waiting_sender_message_ready endpoint then (False, k)
      else
        let slots = g_endpoints (k_ep k) in
        (True, upd_endpoint e (\<lambda>_. zero_endpoint)
                 (set_endpoints (slots[object_storage_find slots e := 0]) k)))"

text \<open>The copy of a message: a zeroed buffer, the count and the counted words.\<close>

definition copy_message :: "IpcMessage \<Rightarrow> IpcMessage" where
  "copy_message m =
     \<lparr>words = map (\<lambda>i. if i < unat (word_count m) then words m ! i else 0) [0..<4],
      word_count = word_count m\<rparr>"

definition endpoint_try_send :: "ptr \<Rightarrow> IpcMessage option \<Rightarrow> Kernel \<Rightarrow> bool \<times> Kernel" where
  "endpoint_try_send e message k =
     (case message of
        None \<Rightarrow> (False, k)
      | Some m \<Rightarrow>
          if e = 0 \<or> \<not> endpoint_valid k e \<or> ep_closed (h_endpoint k e) then (False, k)
          else if word_count m = 0 \<or> word_count m > IPC_MESSAGE_MAX_WORDS then (False, k)
          else if message_ready (h_endpoint k e) then (False, k)
          else (True, upd_endpoint e (\<lambda>x. x\<lparr>ep_message := copy_message m, message_ready := True\<rparr>) k))"

definition endpoint_try_receive :: "ptr \<Rightarrow> Kernel \<Rightarrow> IpcMessage option \<times> Kernel" where
  "endpoint_try_receive e k =
     (if e = 0 \<or> \<not> endpoint_valid k e \<or> ep_closed (h_endpoint k e) then (None, k)
      else if \<not> message_ready (h_endpoint k e) then (None, k)
      else (Some (ep_message (h_endpoint k e)),
            upd_endpoint e (\<lambda>x. x\<lparr>ep_message := zero_message, message_ready := False\<rparr>) k))"

definition endpoint_message_ready :: "Kernel \<Rightarrow> ptr \<Rightarrow> bool" where
  "endpoint_message_ready k e \<longleftrightarrow> endpoint_valid k e \<and> message_ready (h_endpoint k e)"

definition endpoint_receiver_waiting :: "Kernel \<Rightarrow> ptr \<Rightarrow> bool" where
  "endpoint_receiver_waiting k e \<longleftrightarrow> endpoint_valid k e \<and> waiting_receiver (h_endpoint k e) \<noteq> 0"

definition endpoint_sender_waiting :: "Kernel \<Rightarrow> ptr \<Rightarrow> bool" where
  "endpoint_sender_waiting k e \<longleftrightarrow> endpoint_valid k e \<and> waiting_sender (h_endpoint k e) \<noteq> 0"

definition endpoint_closed :: "Kernel \<Rightarrow> ptr \<Rightarrow> bool" where
  "endpoint_closed k e \<longleftrightarrow> endpoint_valid k e \<and> ep_closed (h_endpoint k e)"

definition endpoint_owner_process_id :: "Kernel \<Rightarrow> ptr \<Rightarrow> u64" where
  "endpoint_owner_process_id k e =
     (if endpoint_live k e \<and> ep_initialized (h_endpoint k e) \<and> ep_id (h_endpoint k e) \<noteq> 0
      then owner_process_id (h_endpoint k e) else 0)"

definition endpoint_owned_by :: "Kernel \<Rightarrow> u64 \<Rightarrow> ptr \<Rightarrow> bool" where
  "endpoint_owned_by k owner e \<longleftrightarrow>
     e \<noteq> 0 \<and> ep_initialized (h_endpoint k e) \<and> ep_id (h_endpoint k e) \<noteq> 0 \<and>
     owner_process_id (h_endpoint k e) = owner"

definition endpoint_owned_from :: "Kernel \<Rightarrow> u64 \<Rightarrow> nat \<Rightarrow> ptr" where
  "endpoint_owned_from k owner start =
     (if owner = 0 then 0
      else case find (endpoint_owned_by k owner) (drop start (g_endpoints (k_ep k))) of
             None \<Rightarrow> 0 | Some e \<Rightarrow> e)"

definition endpoint_owned_first :: "Kernel \<Rightarrow> u64 \<Rightarrow> ptr" where
  "endpoint_owned_first k owner = endpoint_owned_from k owner 0"

definition endpoint_owned_next :: "Kernel \<Rightarrow> u64 \<Rightarrow> ptr \<Rightarrow> ptr" where
  "endpoint_owned_next k owner e =
     (let slots = g_endpoints (k_ep k); slot = object_storage_find slots e in
      if slot < length slots \<and> owner_process_id (h_endpoint k e) = owner \<and> slot + 1 < length slots
      then endpoint_owned_from k owner (slot + 1) else 0)"

definition endpoint_process_has_open_owned :: "Kernel \<Rightarrow> u64 \<Rightarrow> bool" where
  "endpoint_process_has_open_owned k owner \<longleftrightarrow>
     owner \<noteq> 0 \<and> list_ex (\<lambda>e. endpoint_owned_by k owner e \<and> \<not> ep_closed (h_endpoint k e)) (g_endpoints (k_ep k))"

section \<open>Creation, destruction and identity\<close>

lemma endpoint_live_iff: "endpoint_live k e \<longleftrightarrow> e \<noteq> 0 \<and> e \<in> set (g_endpoints (k_ep k))"
  by (rule live_defs(2))

lemma endpoint_create_effect:
  assumes ok: "endpoint_create_locked e owner k = (True, k')" and reg: "reg_ok (g_endpoints (k_ep k))"
  shows "e \<noteq> 0" and "\<not> endpoint_live k e" and "g_next_endpoint_id (k_ep k) \<noteq> 0"
    and "g_next_endpoint_id (k_ep k') = g_next_endpoint_id (k_ep k) + 1"
    and "reg_ok (g_endpoints (k_ep k'))" and "endpoint_live k' q \<longleftrightarrow> q = e \<or> endpoint_live k q"
    and "h_endpoint k' = (h_endpoint k)(e := zero_endpoint\<lparr>ep_id := g_next_endpoint_id (k_ep k),
           owner_process_id := owner, ep_initialized := True\<rparr>)"
    and "k' = k\<lparr>h_endpoint := h_endpoint k', k_ep := k_ep k'\<rparr>"
    and "endpoint_initialized (k_ep k') = endpoint_initialized (k_ep k)"
proof -
  let ?slots = "g_endpoints (k_ep k)"
  have e: "e \<noteq> 0" and nl: "\<not> endpoint_live k e" and id: "g_next_endpoint_id (k_ep k) \<noteq> 0"
    and zero: "0 \<in> set ?slots"
    using ok by (auto simp: endpoint_create_locked_def Let_def split: if_splits)
  have k': "k' = k\<lparr>h_endpoint := (h_endpoint k)(e := zero_endpoint\<lparr>ep_id := g_next_endpoint_id (k_ep k),
           owner_process_id := owner, ep_initialized := True\<rparr>),
         k_ep := (k_ep k)\<lparr>g_next_endpoint_id := g_next_endpoint_id (k_ep k) + 1,
           g_endpoints := ?slots[object_storage_empty ?slots := e]\<rparr>\<rparr>"
    using ok e nl id zero by (auto simp: endpoint_create_locked_def Let_def upd_defs set_endpoints_def split: if_splits)
  have notin: "e \<notin> set ?slots" using nl e by (simp add: endpoint_live_iff)
  note r = endpoints.register [OF reg zero notin]
  show "e \<noteq> 0" "\<not> endpoint_live k e" "g_next_endpoint_id (k_ep k) \<noteq> 0" by fact+
  show "g_next_endpoint_id (k_ep k') = g_next_endpoint_id (k_ep k) + 1"
    "h_endpoint k' = (h_endpoint k)(e := zero_endpoint\<lparr>ep_id := g_next_endpoint_id (k_ep k),
           owner_process_id := owner, ep_initialized := True\<rparr>)"
    "k' = k\<lparr>h_endpoint := h_endpoint k', k_ep := k_ep k'\<rparr>"
    "endpoint_initialized (k_ep k') = endpoint_initialized (k_ep k)" by (simp_all add: k')
  show "reg_ok (g_endpoints (k_ep k'))" using r(1) by (simp add: k' set_endpoints_def)
  show "endpoint_live k' q \<longleftrightarrow> q = e \<or> endpoint_live k q"
    using r(2) [of q] e by (auto simp: endpoint_live_iff k' set_endpoints_def)
qed

lemma endpoint_destroy_effect:
  assumes ok: "endpoint_destroy e k = (True, k')" and reg: "reg_ok (g_endpoints (k_ep k))"
  shows "endpoint_live k e" and "ep_capability_refs (h_endpoint k e) = 0"
    and "g_next_endpoint_id (k_ep k') = g_next_endpoint_id (k_ep k)"
    and "reg_ok (g_endpoints (k_ep k'))" and "endpoint_live k' q \<longleftrightarrow> q \<noteq> e \<and> endpoint_live k q"
    and "h_endpoint k' = (h_endpoint k)(e := zero_endpoint)"
    and "k' = k\<lparr>h_endpoint := h_endpoint k', k_ep := k_ep k'\<rparr>"
    and "endpoint_initialized (k_ep k') = endpoint_initialized (k_ep k)"
    and "waiting_receiver (h_endpoint k e) = 0" and "waiting_sender (h_endpoint k e) = 0"
    and "\<not> message_ready (h_endpoint k e)"
proof -
  let ?slots = "g_endpoints (k_ep k)"
  have "endpoint_valid k e" and c: "ep_capability_refs (h_endpoint k e) = 0"
    "waiting_receiver (h_endpoint k e) = 0" "waiting_sender (h_endpoint k e) = 0" "\<not> message_ready (h_endpoint k e)"
    and k': "k' = k\<lparr>h_endpoint := (h_endpoint k)(e := zero_endpoint),
         k_ep := (k_ep k)\<lparr>g_endpoints := ?slots[object_storage_find ?slots e := 0]\<rparr>\<rparr>"
    using ok by (auto simp: endpoint_destroy_def Let_def upd_defs set_endpoints_def split: if_splits)
  then show live: "endpoint_live k e" by (simp add: endpoint_valid_def)
  then have e: "e \<noteq> 0" "e \<in> set ?slots" by (simp_all add: endpoint_live_iff)
  note r = endpoints.unregister [OF reg e]
  show "ep_capability_refs (h_endpoint k e) = 0" "waiting_receiver (h_endpoint k e) = 0"
    "waiting_sender (h_endpoint k e) = 0" "\<not> message_ready (h_endpoint k e)" by fact+
  show "g_next_endpoint_id (k_ep k') = g_next_endpoint_id (k_ep k)"
    "h_endpoint k' = (h_endpoint k)(e := zero_endpoint)"
    "k' = k\<lparr>h_endpoint := h_endpoint k', k_ep := k_ep k'\<rparr>"
    "endpoint_initialized (k_ep k') = endpoint_initialized (k_ep k)" by (simp_all add: k')
  show "reg_ok (g_endpoints (k_ep k'))" using r(1) by (simp add: k' set_endpoints_def)
  show "endpoint_live k' q \<longleftrightarrow> q \<noteq> e \<and> endpoint_live k q"
    using r(2) [of q] e by (auto simp: endpoint_live_iff k' set_endpoints_def)
qed

definition endpoint_creates :: "Kernel \<Rightarrow> ptr \<Rightarrow> Kernel \<Rightarrow> bool" where
  "endpoint_creates k e k' \<longleftrightarrow> reg_ok (g_endpoints (k_ep k)) \<and> (\<exists>owner. endpoint_create_locked e owner k = (True, k'))"

definition endpoint_destroys :: "Kernel \<Rightarrow> ptr \<Rightarrow> Kernel \<Rightarrow> bool" where
  "endpoint_destroys k e k' \<longleftrightarrow> reg_ok (g_endpoints (k_ep k)) \<and> endpoint_destroy e k = (True, k')"

interpretation endpoint_ids: id_issuer endpoint_live "\<lambda>k e. ep_id (h_endpoint k e)"
  "\<lambda>k. g_next_endpoint_id (k_ep k)" endpoint_creates endpoint_destroys
proof unfold_locales
  fix k e k' q
  assume "endpoint_creates k e k'"
  then obtain owner where ok: "endpoint_create_locked e owner k = (True, k')" and reg: "reg_ok (g_endpoints (k_ep k))"
    by (auto simp: endpoint_creates_def)
  note eff = endpoint_create_effect [OF ok reg]
  show "g_next_endpoint_id (k_ep k) \<noteq> 0 \<and> g_next_endpoint_id (k_ep k') = g_next_endpoint_id (k_ep k) + 1"
    "ep_id (h_endpoint k' e) = g_next_endpoint_id (k_ep k)" "endpoint_live k' q = (q = e \<or> endpoint_live k q)"
    "\<not> endpoint_live k e" using eff(2-4,6) by (simp_all add: eff(7))
  show "q \<noteq> e \<Longrightarrow> endpoint_live k q \<Longrightarrow> ep_id (h_endpoint k' q) = ep_id (h_endpoint k q)" by (simp add: eff(7))
next
  fix k e k' q
  assume "endpoint_destroys k e k'"
  then have ok: "endpoint_destroy e k = (True, k')" and reg: "reg_ok (g_endpoints (k_ep k))"
    by (auto simp: endpoint_destroys_def)
  note eff = endpoint_destroy_effect [OF ok reg]
  show "g_next_endpoint_id (k_ep k') = g_next_endpoint_id (k_ep k)"
    "endpoint_live k' q = (q \<noteq> e \<and> endpoint_live k q)" using eff(3,5) by simp_all
  show "endpoint_live k' q \<Longrightarrow> ep_id (h_endpoint k' q) = ep_id (h_endpoint k q)" using eff(5) [of q] by (simp add: eff(6))
qed

section \<open>Properties\<close>

text \<open>C28. Endpoint identities are unique among live endpoints and never reissued: after any
  sequence of creations and destructions live endpoints have pairwise different non-zero
  identities, and the identity of a destroyed endpoint is not the identity of any endpoint
  created later, also when its storage is reused or the counter is exhausted.\<close>

theorem endpoint_identity_unique:
  assumes inv: "endpoint_ids.id_inv k" and reg: "reg_ok (g_endpoints (k_ep k))"
    and live: "endpoint_live k e" and d: "endpoint_destroy e k = (True, k')"
    and steps: "endpoint_ids.issue_step\<^sup>*\<^sup>* k' k''"
  shows "(\<forall>p. endpoint_live k'' p \<longrightarrow> ep_id (h_endpoint k'' p) \<noteq> 0 \<and> ep_id (h_endpoint k'' p) \<noteq> ep_id (h_endpoint k e)) \<and>
    (\<forall>p q. endpoint_live k'' p \<and> endpoint_live k'' q \<and> ep_id (h_endpoint k'' p) = ep_id (h_endpoint k'' q) \<longrightarrow> p = q)"
proof -
  have d': "endpoint_destroys k e k'" using reg d by (simp add: endpoint_destroys_def)
  have inv': "endpoint_ids.id_inv k''"
    by (rule endpoint_ids.id_inv_steps [OF steps endpoint_ids.destroy_inv [OF inv d']])
  have "endpoint_ids.id_retired k'' (ep_id (h_endpoint k e))"
    by (rule endpoint_ids.retired_forever [OF steps endpoint_ids.destroy_retires [OF inv d' live]])
  then show ?thesis
    using endpoint_ids.id_invD(1,3) [OF inv'] by (auto simp: endpoint_ids.id_retired_def)
qed

text \<open>C29. The mailbox holds one message. A send succeeds exactly on a live, open endpoint with
  an empty mailbox and a count from 1 to 4; the next receive then returns exactly the count and
  the counted words, the rest zeroed, and leaves the mailbox empty; in between a second send is
  refused. Failed operations change nothing.\<close>

theorem endpoint_mailbox:
  assumes "length (words m) = 4"
  shows "case endpoint_try_send e (Some m) k of (ok, k') \<Rightarrow>
    (ok \<longleftrightarrow> e \<noteq> 0 \<and> endpoint_valid k e \<and> \<not> ep_closed (h_endpoint k e) \<and> \<not> message_ready (h_endpoint k e) \<and>
       1 \<le> unat (word_count m) \<and> unat (word_count m) \<le> 4) \<and>
    (if ok then \<not> fst (endpoint_try_send e m' k') \<and>
       (\<exists>r k''. endpoint_try_receive e k' = (Some r, k'') \<and> word_count r = word_count m \<and>
          take (unat (word_count m)) (words r) = take (unat (word_count m)) (words m) \<and> length (words r) = 4 \<and>
          \<not> endpoint_message_ready k'' e \<and> k'' = upd_endpoint e (\<lambda>x. x\<lparr>ep_message := zero_message\<rparr>) k)
     else k' = k)"
proof -
  have count: "word_count m = 0 \<or> 4 < word_count m \<longleftrightarrow> \<not> (1 \<le> unat (word_count m) \<and> unat (word_count m) \<le> 4)"
    by (auto simp: word_less_nat_alt unat_eq_zero Suc_le_eq)
  have copy: "take (unat (word_count m)) (words (copy_message m)) = take (unat (word_count m)) (words m)"
    if "unat (word_count m) \<le> 4"
    using that assms by (intro nth_equalityI) (simp_all add: copy_message_def)
  have valid: "endpoint_valid (upd_endpoint e f k) q \<longleftrightarrow> endpoint_valid k q"
    if "\<And>x. ep_initialized (f x) = ep_initialized x" "\<And>x. ep_id (f x) = ep_id x" for f q
    using that by (simp add: endpoint_valid_def live_defs upd_endpoint_def)
  show ?thesis
  proof (cases "e \<noteq> 0 \<and> endpoint_valid k e \<and> \<not> ep_closed (h_endpoint k e) \<and> \<not> message_ready (h_endpoint k e) \<and>
       1 \<le> unat (word_count m) \<and> unat (word_count m) \<le> 4")
    case True
    then have c: "\<not> (word_count m = 0 \<or> 4 < word_count m)" using count by blast
    let ?k = "upd_endpoint e (\<lambda>x. x\<lparr>ep_message := copy_message m, message_ready := True\<rparr>) k"
    let ?k2 = "upd_endpoint e (\<lambda>x. x\<lparr>ep_message := zero_message\<rparr>) k"
    have send: "endpoint_try_send e (Some m) k = (True, ?k)" using True c by (simp add: endpoint_try_send_def)
    have v: "endpoint_valid ?k e" "endpoint_valid ?k2 e" using True by (simp_all add: valid)
    have recv: "endpoint_try_receive e ?k = (Some (copy_message m), ?k2)"
    proof -
      have eq: "(h_endpoint k e)\<lparr>ep_message := zero_message, message_ready := False\<rparr> =
          (h_endpoint k e)\<lparr>ep_message := zero_message\<rparr>"
        using True by (cases "h_endpoint k e") simp
      show ?thesis using True v by (simp add: endpoint_try_receive_def) (simp add: upd_endpoint_def eq)
    qed
    have full: "\<not> fst (endpoint_try_send e m' ?k)"
      by (cases m') (simp_all add: endpoint_try_send_def upd_endpoint_def)
    show ?thesis
      unfolding send using True full recv copy v
      by (simp add: copy_message_def endpoint_message_ready_def) (simp add: upd_endpoint_def)
  next
    case False
    then show ?thesis using count by (auto simp: endpoint_try_send_def)
  qed
qed

text \<open>One endpoint at 64.\<close>

definition demo_endpoint :: Kernel where
  "demo_endpoint = snd (endpoint_create 64 small_kernel)"

lemma demo_endpoint_created: "endpoint_create_locked 64 0 small_kernel = (True, demo_endpoint)"
proof -
  have "fst (endpoint_create_locked 64 0 small_kernel)"
    by (simp add: endpoint_create_locked_def Let_def live_defs) (simp add: small_kernel_def)
  then show ?thesis by (simp add: demo_endpoint_def endpoint_create_def prod_eq_iff)
qed

lemma small_endpoints: "reg_ok (g_endpoints (k_ep small_kernel))" "\<not> endpoint_live small_kernel e"
  "endpoint_ids.id_inv small_kernel"
  by (auto simp: small_kernel_def reg_ok_def live_defs endpoint_ids.id_inv_def)

lemma demo_endpoint_ok:
  "endpoint_ids.id_inv demo_endpoint" "reg_ok (g_endpoints (k_ep demo_endpoint))" "endpoint_live demo_endpoint 64"
  "endpoint_valid demo_endpoint 64" "h_endpoint demo_endpoint 64 = zero_endpoint\<lparr>ep_id := 1, ep_initialized := True\<rparr>"
proof -
  note eff = endpoint_create_effect [OF demo_endpoint_created small_endpoints(1)]
  have c: "endpoint_creates small_kernel 64 demo_endpoint"
    using demo_endpoint_created small_endpoints(1) by (auto simp: endpoint_creates_def)
  show "endpoint_ids.id_inv demo_endpoint" by (rule endpoint_ids.create_inv [OF small_endpoints(3) c])
  show "reg_ok (g_endpoints (k_ep demo_endpoint))" by (rule eff(5))
  show live: "endpoint_live demo_endpoint 64" using eff(6) [of 64] by simp
  show h: "h_endpoint demo_endpoint 64 = zero_endpoint\<lparr>ep_id := 1, ep_initialized := True\<rparr>"
    by (simp add: eff(7)) (simp add: small_kernel_def zero_endpoint_def)
  show "endpoint_valid demo_endpoint 64"
    using live eff(9) by (simp add: endpoint_valid_def h) (simp add: small_kernel_def)
qed

theorem endpoint_identity_unique_witness:
  "\<exists>k'. endpoint_destroy 64 demo_endpoint = (True, k') \<and>
     (\<forall>p. endpoint_live k' p \<longrightarrow> ep_id (h_endpoint k' p) \<noteq> 1)"
proof -
  have "fst (endpoint_destroy 64 demo_endpoint)"
    using demo_endpoint_ok(4) by (simp add: endpoint_destroy_def Let_def demo_endpoint_ok(5) zero_endpoint_def)
  then obtain k' where d: "endpoint_destroy 64 demo_endpoint = (True, k')" by (metis prod.collapse)
  then show ?thesis
    using endpoint_identity_unique [OF demo_endpoint_ok(1-3) d rtranclp.rtrancl_refl] demo_endpoint_ok(5) by auto
qed

theorem endpoint_mailbox_witness:
  "\<exists>k' r k''. endpoint_try_send 64 (Some \<lparr>words = [7, 8, 0, 0], word_count = 2\<rparr>) demo_endpoint = (True, k') \<and>
     endpoint_try_receive 64 k' = (Some r, k'') \<and> word_count r = 2 \<and> take 2 (words r) = [7, 8]"
  using endpoint_mailbox [of "\<lparr>words = [7, 8, 0, 0], word_count = 2\<rparr>" 64 demo_endpoint None] demo_endpoint_ok(4,5)
  by (auto simp: zero_endpoint_def split: prod.splits)

end
