(* ===== verification/Capability_Laws.thy ===== *)
theory Capability_Laws
  imports Capability Endpoint
begin

text \<open>
  The properties of capability tables over whole executions: each operation of
  \<^verbatim>\<open>kernel/capability.c\<close> refines an update of the abstract table, the invariant is kept
  by them and by the creation and destruction of the objects capabilities name, and a handle
  that has been revoked never grants anything again.
\<close>

section \<open>Table creation and destruction\<close>

lemma zero_table_sel [simp]:
  "ct_slots zero_table = replicate 64 zero_slot" "ct_count zero_table = 0" "\<not> ct_initialized zero_table"
  by (simp_all add: zero_table_def)

lemma zero_slot_sel [simp]: "\<not> slot_occupied zero_slot" "slot_clean zero_slot"
  by (simp_all add: zero_slot_def slot_clean_def)

lemma occupied_count_zero [simp]: "occupied_count (zero_table\<lparr>ct_initialized := b\<rparr>) = 0" "occupied_count zero_table = 0"
  by (simp_all add: occupied_count_def filter_replicate)

lemma table_init_effect:
  assumes ok: "capability_table_init t k = (True, k')" and inv: "cap_inv k"
  shows "t \<noteq> 0" and "\<not> table_live k t" and "table_live k' u \<longleftrightarrow> u = t \<or> table_live k u"
    and "h_table k' = (h_table k)(t := zero_table\<lparr>ct_initialized := True\<rparr>)"
    and "reg_ok (g_tables (k_cap k'))" and "length (g_tables (k_cap k')) = length (g_tables (k_cap k))"
    and "g_issuers_initialized (k_cap k')"
    and "g_next_generation (k_cap k') =
           (if g_issuers_initialized (k_cap k) then g_next_generation (k_cap k) else replicate 64 1)"
    and "object_refs k' = object_refs k" and "refs_of k' = refs_of k"
proof -
  let ?slots = "g_tables (k_cap k)"
  have t: "t \<noteq> 0" and nl: "\<not> table_live k t" and zero: "0 \<in> set ?slots"
    using ok by (auto simp: capability_table_init_def Let_def split: if_splits)
  let ?k = "if g_issuers_initialized (k_cap k) then k
            else k\<lparr>k_cap := (k_cap k)\<lparr>g_next_generation := replicate 64 1, g_issuers_initialized := True\<rparr>\<rparr>"
  have k': "k' = set_tables (?slots[object_storage_empty ?slots := t]) (upd_table t (\<lambda>_. zero_table\<lparr>ct_initialized := True\<rparr>) ?k)"
    using ok t nl zero by (simp add: capability_table_init_def Let_def)
  have notin: "t \<notin> set ?slots" using nl t by (simp add: table_live_iff)
  have reg: "reg_ok ?slots" using inv by (simp add: cap_inv_def)
  note r = tables.register [OF reg zero notin]
  show "t \<noteq> 0" "\<not> table_live k t" by fact+
  show "h_table k' = (h_table k)(t := zero_table\<lparr>ct_initialized := True\<rparr>)" "g_issuers_initialized (k_cap k')"
    "g_next_generation (k_cap k') =
       (if g_issuers_initialized (k_cap k) then g_next_generation (k_cap k) else replicate 64 1)"
    "object_refs k' = object_refs k" "refs_of k' = refs_of k"
    "length (g_tables (k_cap k')) = length (g_tables (k_cap k))" by (simp_all add: k')
  show "reg_ok (g_tables (k_cap k'))" using r(1) by (simp add: k')
  show "table_live k' u \<longleftrightarrow> u = t \<or> table_live k u"
    using r(2) [of u] t by (auto simp: table_live_iff k')
qed

lemma table_init_inv:
  assumes ok: "capability_table_init t k = (True, k')" and inv: "cap_inv k"
  shows "cap_inv k'" and "view k' = view k"
proof -
  note eff = table_init_effect [OF ok inv]
  have h: "h_table k' u = (if u = t then zero_table\<lparr>ct_initialized := True\<rparr> else h_table k u)" for u
    by (simp add: eff(4))
  have ent: "cap_entries k' = cap_entries k"
    using eff(2) by (auto simp: cap_entries_def eff(3) h nth_replicate split: if_splits)
  have ne: "u \<noteq> t" if "(u, i) \<in> cap_entries k" for u i using that eff(2) by (auto simp: cap_entries_def)
  have iss: "issuers_ok k'"
    using inv by (auto simp: issuers_ok_def eff(7,8) cap_inv_def nth_replicate)
  have gen: "g_next_generation (k_cap k') = g_next_generation (k_cap k)" if "(u, i) \<in> cap_entries k" for u i
    using table_live_issuers [OF inv, of u] cap_entries_small [OF that] by (simp add: eff(8) issuers_ok_def)
  have tab: "table_ok k' u" if "table_live k' u" for u
    using table_live_ok [OF inv, of u] that eff(3)
    by (cases "u = t") (auto simp: table_ok_def h nth_replicate)
  note transfer = cap_inv_transfer [OF inv, of k']
  show "cap_inv k'" "view k' = view k"
    by (rule transfer; use inv eff(5,6) iss tab ent gen ne in \<open>auto simp: h eff(9,10) cap_inv_def\<close>)+
qed

lemma table_destroy_effect:
  assumes ok: "capability_table_destroy t k = (True, k')" and inv: "cap_inv k"
  shows "table_live k t" and "ct_count (h_table k t) = 0" and "table_live k' u \<longleftrightarrow> u \<noteq> t \<and> table_live k u"
    and "h_table k' = (h_table k)(t := zero_table)"
    and "reg_ok (g_tables (k_cap k'))" and "length (g_tables (k_cap k')) = length (g_tables (k_cap k))"
    and "g_issuers_initialized (k_cap k') = g_issuers_initialized (k_cap k)"
    and "g_next_generation (k_cap k') = g_next_generation (k_cap k)"
    and "object_refs k' = object_refs k" and "refs_of k' = refs_of k"
proof -
  let ?slots = "g_tables (k_cap k)"
  have c: "table_valid k t" "ct_count (h_table k t) = 0"
    using ok by (auto simp: capability_table_destroy_def Let_def split: if_splits)
  then show live: "table_live k t" "ct_count (h_table k t) = 0" by (simp_all add: table_valid_def)
  have k': "k' = upd_table t (\<lambda>_. zero_table) (set_tables (?slots[object_storage_find ?slots t := 0]) k)"
    using ok c by (simp add: capability_table_destroy_def Let_def)
  have reg: "reg_ok ?slots" using inv by (simp add: cap_inv_def)
  have t: "t \<noteq> 0" "t \<in> set ?slots" using live by (simp_all add: table_live_iff)
  note r = tables.unregister [OF reg t]
  show "h_table k' = (h_table k)(t := zero_table)" "g_issuers_initialized (k_cap k') = g_issuers_initialized (k_cap k)"
    "g_next_generation (k_cap k') = g_next_generation (k_cap k)"
    "object_refs k' = object_refs k" "refs_of k' = refs_of k"
    "length (g_tables (k_cap k')) = length (g_tables (k_cap k))" by (simp_all add: k')
  show "reg_ok (g_tables (k_cap k'))" using r(1) by (simp add: k')
  show "table_live k' u \<longleftrightarrow> u \<noteq> t \<and> table_live k u"
    using r(2) [of u] t by (auto simp: table_live_iff k')
qed

lemma empty_table_entries:
  assumes "cap_inv k" and "table_live k t" and "ct_count (h_table k t) = 0"
  shows "(t, i) \<notin> cap_entries k"
proof
  assume e: "(t, i) \<in> cap_entries k"
  have ok: "table_ok k t" by (rule table_live_ok [OF assms(1,2)])
  then have "occupied_count (h_table k t) = 0" using assms(3) by (simp add: table_ok_def)
  then have "filter slot_occupied (ct_slots (h_table k t)) = []" by (simp add: occupied_count_def)
  then show False using e table_ok_length [OF ok] by (auto simp: cap_entries_def filter_empty_conv)
qed

lemma table_destroy_inv:
  assumes ok: "capability_table_destroy t k = (True, k')" and inv: "cap_inv k"
  shows "cap_inv k'" and "view k' = view k"
proof -
  note eff = table_destroy_effect [OF ok inv]
  have h: "h_table k' u = (if u = t then zero_table else h_table k u)" for u by (simp add: eff(4))
  have ne: "u \<noteq> t" if "(u, i) \<in> cap_entries k" for u i using that empty_table_entries [OF inv eff(1,2)] by blast
  have ent: "cap_entries k' = cap_entries k"
  proof -
    have "(u, i) \<in> cap_entries k' \<longleftrightarrow> (u, i) \<in> cap_entries k" for u i
      using ne [of u i] by (cases "u = t") (auto simp: cap_entries_def eff(3) h)
    then show ?thesis by auto
  qed
  have tab: "table_ok k' u" if "table_live k' u" for u
    using table_live_ok [OF inv, of u] that by (simp add: eff(3) table_ok_def h)
  have iss: "issuers_ok k'" if "g_issuers_initialized (k_cap k') \<or> (\<exists>t. table_live k' t)"
    using that inv eff(3) by (auto simp: issuers_ok_def eff(7,8) cap_inv_def)
  note transfer = cap_inv_transfer [OF inv, of k']
  show "cap_inv k'" "view k' = view k"
    by (rule transfer; use inv eff(5,6) iss tab ent ne in \<open>auto simp: h eff(8,9,10) cap_inv_def\<close>)+
qed

section \<open>Operations on the objects\<close>

text \<open>
  An operation outside \<^verbatim>\<open>capability.c\<close> keeps the invariant and the tables when it leaves
  the identity and the counter of every object alone, except for objects no slot names that are
  gone afterwards or have a zero counter.
\<close>

definition object_kept :: "Kernel \<Rightarrow> Kernel \<Rightarrow> ptr \<Rightarrow> CapabilityType \<Rightarrow> bool" where
  "object_kept k k' p T \<longleftrightarrow>
     object_refs k' p T False = object_refs k p T False \<and> refs_of k' T p = refs_of k T p"

definition object_fresh :: "Kernel \<Rightarrow> Kernel \<Rightarrow> ptr \<Rightarrow> CapabilityType \<Rightarrow> bool" where
  "object_fresh k k' p T \<longleftrightarrow>
     (object_refs k p T False = None \<or> refs_of k T p = 0) \<and>
     (object_refs k' p T False = None \<or> refs_of k' T p = 0)"

lemma no_slots:
  assumes inv: "cap_inv k" and "object_refs k p T False = None \<or> refs_of k T p = 0"
  shows "object_slots k T p = {}"
proof (rule ccontr)
  assume "object_slots k T p \<noteq> {}"
  then obtain t i where e: "(t, i) \<in> cap_entries k" "slot_type (slot_at k t i) = T" "slot_object (slot_at k t i) = p"
    by (auto simp: object_slots_def)
  then have o: "object_refs k p T False \<noteq> None" using cap_invD(1) [OF inv e(1)] by (simp add: slot_ok_def)
  then have "card (object_slots k T p) = unat (refs_of k T p)" using inv by (simp add: cap_inv_def)
  moreover have "refs_of k T p = 0" using o assms(2) by auto
  ultimately show False using \<open>object_slots k T p \<noteq> {}\<close> by simp
qed

lemma cap_inv_objects:
  assumes inv: "cap_inv k" and cap: "k_cap k' = k_cap k" "h_table k' = h_table k"
    and obj: "\<And>p T. object_kept k k' p T \<or> object_fresh k k' p T"
  shows "cap_inv k'" and "view k' = view k"
proof -
  have live: "table_live k' = table_live k" by (simp add: fun_eq_iff table_live_iff cap)
  have ent: "cap_entries k' = cap_entries k" by (simp add: cap_entries_def live cap)
  have tab: "table_ok k' = table_ok k" by (simp add: fun_eq_iff table_ok_def cap)
  have iss: "issuers_ok k' = issuers_ok k" by (simp add: issuers_ok_def cap)
  have keep: "object_refs k' p T False = object_refs k p T False" if "object_slots k T p \<noteq> {}" for p T
    using obj [of p T] no_slots [OF inv, of p T] that by (auto simp: object_kept_def object_fresh_def)
  have refs: "unat (refs_of k' T p) = card (object_slots k T p)" if "object_refs k' p T False \<noteq> None" for p T
  proof (cases "object_kept k k' p T")
    case True
    then show ?thesis using inv that by (simp add: cap_inv_def object_kept_def)
  next
    case False
    then show ?thesis using obj [of p T] no_slots [OF inv, of p T] that by (auto simp: object_fresh_def)
  qed
  note transfer = cap_inv_transfer [OF inv, of k']
  show "cap_inv k'" "view k' = view k"
    by (rule transfer; use inv tab iss ent keep refs live in \<open>auto simp: cap cap_inv_def\<close>)+
qed

lemma endpoint_change_objects:
  assumes k': "k' = k\<lparr>h_endpoint := h_endpoint k', k_ep := k_ep k'\<rparr>"
    and h: "\<And>q. q \<noteq> e \<Longrightarrow> h_endpoint k' q = h_endpoint k q"
    and live: "\<And>q. q \<noteq> e \<Longrightarrow> endpoint_live k' q = endpoint_live k q"
    and ne: "\<not> (T = CAPABILITY_TYPE_ENDPOINT \<and> p = e)"
  shows "object_kept k k' p T"
proof (cases "T = CAPABILITY_TYPE_ENDPOINT")
  case True
  then show ?thesis using ne h live by (simp add: object_kept_def object_refs_def refs_of_def Let_def)
next
  case False
  have "h_thread k' = h_thread k" "h_space k' = h_space k" "h_resource k' = h_resource k" "k_mm k' = k_mm k"
    "k_thread k' = k_thread k" "k_space k' = k_space k" "k_res k' = k_res k"
    by (subst k', simp)+
  then show ?thesis
    using False by (cases T) (simp_all add: object_kept_def object_refs_def refs_of_def Let_def live_defs
        device_resource_valid_def address_space_cr3_def)
qed

lemma endpoint_create_cap:
  assumes ok: "endpoint_create_locked e owner k = (True, k')" and inv: "cap_inv k"
    and reg: "reg_ok (g_endpoints (k_ep k))"
  shows "cap_inv k'" and "view k' = view k" and "k_cap k' = k_cap k"
proof -
  note eff = endpoint_create_effect [OF ok reg]
  have cap: "k_cap k' = k_cap k" "h_table k' = h_table k" by (subst eff(8), simp)+
  have "object_kept k k' p T \<or> object_fresh k k' p T" for p T
  proof (cases "T = CAPABILITY_TYPE_ENDPOINT \<and> p = e")
    case True
    then have "object_refs k p T False = None" "refs_of k' T p = 0"
      using eff(2) by (simp_all add: object_refs_def refs_of_def Let_def eff(7) zero_endpoint_def)
    then show ?thesis by (simp add: object_fresh_def)
  next
    case False
    have "object_kept k k' p T"
      by (rule endpoint_change_objects [OF eff(8) _ _ False]) (simp_all add: eff(6,7))
    then show ?thesis ..
  qed
  from cap_inv_objects [OF inv cap this] show "cap_inv k'" "view k' = view k" by auto
  show "k_cap k' = k_cap k" by (rule cap)
qed

lemma endpoint_destroy_cap:
  assumes ok: "endpoint_destroy e k = (True, k')" and inv: "cap_inv k" and reg: "reg_ok (g_endpoints (k_ep k))"
  shows "cap_inv k'" and "view k' = view k" and "k_cap k' = k_cap k"
proof -
  note eff = endpoint_destroy_effect [OF ok reg]
  have cap: "k_cap k' = k_cap k" "h_table k' = h_table k" by (subst eff(7), simp)+
  have "object_kept k k' p T \<or> object_fresh k k' p T" for p T
  proof (cases "T = CAPABILITY_TYPE_ENDPOINT \<and> p = e")
    case True
    then have "refs_of k T p = 0" "refs_of k' T p = 0"
      using eff(2) by (simp_all add: refs_of_def eff(6) zero_endpoint_def)
    then show ?thesis by (simp add: object_fresh_def)
  next
    case False
    have "object_kept k k' p T"
      by (rule endpoint_change_objects [OF eff(7) _ _ False]) (simp_all add: eff(5,6))
    then show ?thesis ..
  qed
  from cap_inv_objects [OF inv cap this] show "cap_inv k'" "view k' = view k" by auto
  show "k_cap k' = k_cap k" by (rule cap)
qed

lemma resource_change_objects:
  assumes k': "k' = k\<lparr>h_resource := h_resource k', k_res := k_res k'\<rparr>"
    and h: "\<And>q. q \<noteq> r \<Longrightarrow> h_resource k' q = h_resource k q"
    and live: "\<And>q. q \<noteq> r \<Longrightarrow> resource_registered k' q = resource_registered k q"
    and ne: "\<not> (T = CAPABILITY_TYPE_DEVICE_RESOURCE \<and> p = r)"
  shows "object_kept k k' p T"
proof (cases "T = CAPABILITY_TYPE_DEVICE_RESOURCE")
  case True
  then show ?thesis using ne h live by (simp add: object_kept_def object_refs_def refs_of_def device_resource_valid_def)
next
  case False
  have "h_thread k' = h_thread k" "h_space k' = h_space k" "h_endpoint k' = h_endpoint k" "k_mm k' = k_mm k"
    "k_thread k' = k_thread k" "k_space k' = k_space k" "k_ep k' = k_ep k"
    by (subst k', simp)+
  then show ?thesis
    using False by (cases T) (simp_all add: object_kept_def object_refs_def refs_of_def Let_def live_defs
        address_space_cr3_def)
qed

lemma resource_create_cap:
  assumes ok: "device_resource_create r kind k = (True, k')" and inv: "cap_inv k"
    and reg: "reg_ok (g_resources (k_res k))"
  shows "cap_inv k'" and "view k' = view k" and "k_cap k' = k_cap k"
proof -
  note eff = resource_create_effect [OF ok reg]
  have cap: "k_cap k' = k_cap k" "h_table k' = h_table k" by (subst eff(8), simp)+
  have "object_kept k k' p T \<or> object_fresh k k' p T" for p T
  proof (cases "T = CAPABILITY_TYPE_DEVICE_RESOURCE \<and> p = r")
    case True
    then have "object_refs k p T False = None" "refs_of k' T p = 0"
      using eff(2) by (simp_all add: object_refs_def device_resource_valid_def refs_of_def eff(7) zero_resource_def)
    then show ?thesis by (simp add: object_fresh_def)
  next
    case False
    have "object_kept k k' p T"
      by (rule resource_change_objects [OF eff(8) _ _ False]) (simp_all add: eff(6,7))
    then show ?thesis ..
  qed
  from cap_inv_objects [OF inv cap this] show "cap_inv k'" "view k' = view k" by auto
  show "k_cap k' = k_cap k" by (rule cap)
qed

lemma resource_destroy_cap:
  assumes ok: "device_resource_destroy r k = (True, k')" and inv: "cap_inv k" and reg: "reg_ok (g_resources (k_res k))"
  shows "cap_inv k'" and "view k' = view k" and "k_cap k' = k_cap k"
proof -
  note eff = resource_destroy_effect [OF ok reg]
  have cap: "k_cap k' = k_cap k" "h_table k' = h_table k" by (subst eff(7), simp)+
  have "object_kept k k' p T \<or> object_fresh k k' p T" for p T
  proof (cases "T = CAPABILITY_TYPE_DEVICE_RESOURCE \<and> p = r")
    case True
    then have "refs_of k T p = 0" "refs_of k' T p = 0"
      using eff(2) by (simp_all add: refs_of_def eff(6) zero_resource_def)
    then show ?thesis by (simp add: object_fresh_def)
  next
    case False
    have "object_kept k k' p T"
      by (rule resource_change_objects [OF eff(7) _ _ False]) (simp_all add: eff(5,6))
    then show ?thesis ..
  qed
  from cap_inv_objects [OF inv cap this] show "cap_inv k'" "view k' = view k" by auto
  show "k_cap k' = k_cap k" by (rule cap)
qed

section \<open>Issued handles\<close>

text \<open>The handles the generation counters have given out.\<close>

definition issued :: "Kernel \<Rightarrow> CapabilityHandle set" where
  "issued k = {make_handle g i | g i. i < 64 \<and> g \<noteq> 0 \<and> g_issuers_initialized (k_cap k) \<and>
     unat g < unat (g_next_generation (k_cap k) ! i)}"

lemma issued_iff:
  "i < 64 \<Longrightarrow> make_handle g i \<in> issued k \<longleftrightarrow>
     g \<noteq> 0 \<and> g_issuers_initialized (k_cap k) \<and> unat g < unat (g_next_generation (k_cap k) ! i)"
  by (auto simp: issued_def dest: make_handle_inj)

lemma view_issued:
  assumes inv: "cap_inv k" and v: "view k t h = Some c"
  shows "h \<in> issued k"
proof -
  obtain i where i: "(t, i) \<in> cap_entries k" "h = make_handle (slot_generation (slot_at k t i)) i"
    using v view_Some [OF inv] by blast
  then show ?thesis
    using cap_invD(1) [OF inv i(1)] cap_entries_small [OF i(1)] table_live_issuers [OF inv, of t]
    by (simp add: issued_iff slot_ok_def issuers_ok_def)
qed

lemma insert_at_issued:
  assumes ins: "insertable k t i p ident T rights g n"
  shows "make_handle g i \<notin> issued k"
    and "issued (insert_at t i p ident T rights g n k) = insert (make_handle g i) (issued k)"
proof -
  have T: "T \<noteq> CAPABILITY_TYPE_NONE" and i: "i < 64" and iss: "issuers_ok k"
    using ins by (auto simp: insertable_def intro: table_live_issuers)
  have g: "take_generation (g_next_generation (k_cap k) ! i) = Some (g, n)" using ins by (simp add: insertable_def)
  note gen = take_generation_unat [OF g]
  show "make_handle g i \<notin> issued k" using i gen(1) by (simp add: issued_iff)
  let ?k = "insert_at t i p ident T rights g n k"
  have eq: "make_handle x j \<in> issued ?k \<longleftrightarrow> make_handle x j = make_handle g i \<or> make_handle x j \<in> issued k" if "j < 64" for x j
  proof (cases "j = i")
    case True
    have "unat x < unat n \<longleftrightarrow> x = g \<or> unat x < unat (g_next_generation (k_cap k) ! i)"
      using gen by (auto simp: word_unat_eq_iff)
    then show ?thesis
      using True i iss gen(2) insert_at_sel(3) [OF T, of t i p ident rights g n k] insert_at_slots(2) [OF ins, of i]
      by (auto simp: issued_iff issuers_ok_def dest: make_handle_inj)
  next
    case False
    then show ?thesis
      using that i insert_at_sel(3) [OF T, of t i p ident rights g n k] insert_at_slots(2) [OF ins, of j]
      by (auto simp: issued_iff dest: make_handle_inj)
  qed
  have form: "\<exists>x j. j < 64 \<and> h = make_handle x j" if "h \<in> issued k'" for h k' using that by (auto simp: issued_def)
  show "issued ?k = insert (make_handle g i) (issued k)"
  proof (rule set_eqI)
    fix h
    show "h \<in> issued ?k \<longleftrightarrow> h \<in> insert (make_handle g i) (issued k)"
      using form [of h k] form [of h ?k] eq i by (metis insert_iff)
  qed
qed

lemma issued_cong: "k_cap k' = k_cap k \<Longrightarrow> issued k' = issued k"
  by (simp add: issued_def)

lemma table_init_issued:
  assumes "capability_table_init t k = (True, k')" and "cap_inv k"
  shows "issued k' = issued k"
proof -
  note eff = table_init_effect [OF assms]
  have "\<not> unat g < unat (1 :: u64)" if "g \<noteq> (0 :: u32)" for g
    using that by (simp add: unat_eq_zero)
  then show ?thesis by (auto simp: issued_def eff(7,8) nth_replicate unat_eq_zero)
qed

section \<open>The interface\<close>

text \<open>
  A handle space: a state gives each table a map from handles to capabilities; handles are
  drawn from a growing set of issued ones, and a step may drop a capability but not put one
  under an old handle. Then a handle keeps its meaning until it loses it for good.
\<close>

locale handle_space =
  fixes inv :: "'s \<Rightarrow> bool"
    and caps :: "'s \<Rightarrow> 't \<Rightarrow> 'h \<rightharpoonup> 'c"
    and given :: "'s \<Rightarrow> 'h set"
    and step :: "'s \<Rightarrow> 's \<Rightarrow> bool"
  assumes caps_given: "inv s \<Longrightarrow> caps s t h = Some c \<Longrightarrow> h \<in> given s"
    and step_inv: "inv s \<Longrightarrow> step s s' \<Longrightarrow> inv s'"
    and step_given: "inv s \<Longrightarrow> step s s' \<Longrightarrow> given s \<subseteq> given s'"
    and step_caps: "inv s \<Longrightarrow> step s s' \<Longrightarrow> h \<in> given s \<Longrightarrow> caps s' t h = None \<or> caps s' t h = caps s t h"
begin

lemma steps_keep:
  assumes "step\<^sup>*\<^sup>* s s'" and "inv s" and "h \<in> given s"
  shows "inv s' \<and> given s \<subseteq> given s' \<and> (caps s' t h = None \<or> caps s' t h = caps s t h)"
  using assms(1)
proof (induction rule: rtranclp_induct)
  case base
  then show ?case using assms by simp
next
  case (step y z)
  then have "h \<in> given y" using assms(3) by auto
  then show ?case using step step_inv [of y z] step_given [of y z] step_caps [of y z h t] by auto
qed

lemma stale_forever:
  assumes "step\<^sup>*\<^sup>* s s'" and "inv s" and "h \<in> given s" and "caps s t h = None"
  shows "caps s' t h = None"
  using steps_keep [OF assms(1-3), of t] assms(4) by auto

lemma meaning_fixed:
  assumes "step\<^sup>*\<^sup>* s s'" and "inv s" and "caps s t h = Some c" and "caps s' t h = Some c'"
  shows "c' = c"
  using steps_keep [OF assms(1,2) caps_given [OF assms(2,3)], of t] assms(3,4) by auto

end

section \<open>Executions\<close>

text \<open>The successful operations on capabilities and on the objects they name.\<close>

inductive cap_step :: "Kernel \<Rightarrow> Kernel \<Rightarrow> bool" where
  insert: "capability_insert t p T rights k = (Some h, k') \<Longrightarrow> cap_step k k'"
| revoke: "capability_revoke t h k = (True, k') \<Longrightarrow> cap_step k k'"
| revoke_all: "capability_revoke_all t k = (True, k') \<Longrightarrow> cap_step k k'"
| revoke_object: "capability_revoke_object t p T k = (True, k') \<Longrightarrow> cap_step k k'"
| table_init: "capability_table_init t k = (True, k') \<Longrightarrow> cap_step k k'"
| table_destroy: "capability_table_destroy t k = (True, k') \<Longrightarrow> cap_step k k'"
| endpoint_create: "endpoint_create_locked e owner k = (True, k') \<Longrightarrow> cap_step k k'"
| endpoint_destroy: "endpoint_destroy e k = (True, k') \<Longrightarrow> cap_step k k'"
| resource_create: "device_resource_create r kind k = (True, k') \<Longrightarrow> cap_step k k'"
| resource_destroy: "device_resource_destroy r k = (True, k') \<Longrightarrow> cap_step k k'"

inductive_cases cap_stepE: "cap_step k k'"

definition cap_world :: "Kernel \<Rightarrow> bool" where
  "cap_world k \<longleftrightarrow> cap_inv k \<and> reg_ok (g_endpoints (k_ep k)) \<and> reg_ok (g_resources (k_res k))"

lemma set_refs_modules [simp]: "k_ep (set_refs T p n k) = k_ep k" "k_res (set_refs T p n k) = k_res k"
  by (cases T; simp add: set_refs_def upd_defs)+

lemma cap_modules [simp]:
  "k_ep (insert_at t i p ident T rights g n k) = k_ep k" "k_res (insert_at t i p ident T rights g n k) = k_res k"
  "k_ep (delete_slot t i k) = k_ep k" "k_res (delete_slot t i k) = k_res k"
  by (simp_all add: insert_at_def delete_slot_def set_slot_def upd_table_def Let_def)

lemma delete_selected_modules:
  "k_ep (snd (delete_selected t p T every k)) = k_ep k" "k_res (snd (delete_selected t p T every k)) = k_res k"
proof -
  have "k_ep (fold (delete_if t p T every) xs k) = k_ep k \<and> k_res (fold (delete_if t p T every) xs k) = k_res k" for xs k
    by (induction xs arbitrary: k) (simp_all add: delete_if_def)
  moreover have "(\<lambda>i k. if slot_selected p T every (slot_at k t i) then delete_slot t i k else k) =
      delete_if t p T every" by (simp add: fun_eq_iff delete_if_def)
  ultimately show "k_ep (snd (delete_selected t p T every k)) = k_ep k"
    "k_res (snd (delete_selected t p T every k)) = k_res k"
    by (simp_all add: delete_selected_def)
qed

text \<open>What a handle grants after a step: nothing, what it granted before, or it is new.\<close>

definition step_ok :: "Kernel \<Rightarrow> Kernel \<Rightarrow> bool" where
  "step_ok k k' \<longleftrightarrow> cap_inv k' \<and> issued k \<subseteq> issued k' \<and>
     (\<forall>t h. h \<in> issued k \<longrightarrow> view k' t h = None \<or> view k' t h = view k t h)"

lemma step_ok_same: "cap_inv k' \<Longrightarrow> issued k' = issued k \<Longrightarrow> view k' = view k \<Longrightarrow> step_ok k k'"
  by (simp add: step_ok_def)

lemma insert_step:
  assumes "capability_insert t p T rights k = (Some h, k')" and inv: "cap_inv k"
  shows "step_ok k k'" and "k_ep k' = k_ep k" and "k_res k' = k_res k"
proof (rule_tac [!] capability_insert_cases [OF inv, of t p T rights])
  fix i ident g n
  assume ins: "insertable k t i p ident T rights g n"
    and eq: "capability_insert t p T rights k = (Some (make_handle g i), insert_at t i p ident T rights g n k)"
  then have k': "k' = insert_at t i p ident T rights g n k" using assms(1) by simp
  show "k_ep k' = k_ep k" "k_res k' = k_res k" by (simp_all add: k')
  show "step_ok k k'"
    unfolding step_ok_def k' using insert_at_issued [OF ins] insert_at_view [OF ins] insert_at_inv [OF ins]
    by (metis fun_upd_other insertI2 subsetI)
qed (use assms in auto)

lemma revoke_effect:
  assumes "capability_revoke t h k = (True, k')"
  obtains i where "resolve_slot k t h = Some i" "k' = delete_slot t i k"
  using assms by (auto simp: capability_revoke_def split: option.splits if_splits)

lemma resolve_slot_live: "resolve_slot k t h = Some i \<Longrightarrow> table_live k t"
  by (auto simp: resolve_slot_def split: if_splits)

lemma delete_slot_step:
  assumes inv: "cap_inv k" and e: "(t, i) \<in> cap_entries k"
  shows "step_ok k (delete_slot t i k)"
proof -
  have "issued (delete_slot t i k) = issued k"
    by (rule issued_cong, rule delete_slot_sel(2) [OF entry_type [OF inv e]])
  then show ?thesis
    unfolding step_ok_def using delete_slot_view [OF inv e] delete_slot_inv [OF inv e]
    by (metis fun_upd_apply order_refl)
qed

lemma delete_selected_step:
  assumes ok: "delete_selected t p T every k = (True, k')" and inv: "cap_inv k"
  shows "step_ok k k'" and "k_ep k' = k_ep k" and "k_res k' = k_res k"
proof -
  have live: "table_live k t"
    using ok by (auto simp: delete_selected_def table_valid_def split: if_splits)
  have k': "k' = snd (delete_selected t p T every k)" using ok by simp
  show "k_ep k' = k_ep k" "k_res k' = k_res k" by (simp_all add: k' delete_selected_modules)
  note V = delete_selected_view [OF inv live, where p = p and T = T and every = every, folded k']
  have "view k' u h = None \<or> view k' u h = view k u h" for u h
    using V(3) [of u] V(4) by (cases "u = t") (auto split: option.split)
  then show "step_ok k k'" unfolding step_ok_def using V(1) issued_cong [OF V(2)] by simp
qed

lemma table_init_modules:
  "k_ep (snd (capability_table_init t k)) = k_ep k" "k_res (snd (capability_table_init t k)) = k_res k"
  "k_ep (snd (capability_table_destroy t k)) = k_ep k" "k_res (snd (capability_table_destroy t k)) = k_res k"
  by (simp_all add: capability_table_init_def capability_table_destroy_def Let_def upd_defs set_tables_def)

lemma cap_step_ok:
  assumes s: "cap_step k k'" and w: "cap_world k"
  shows "step_ok k k' \<and> cap_world k'"
proof -
  have inv: "cap_inv k" and er: "reg_ok (g_endpoints (k_ep k))" and rr: "reg_ok (g_resources (k_res k))"
    using w by (simp_all add: cap_world_def)
  have final: ?thesis if "step_ok k k'" "reg_ok (g_endpoints (k_ep k'))" "reg_ok (g_resources (k_res k'))"
    using that by (simp add: cap_world_def step_ok_def)
  from s show ?thesis
  proof cases
    case (insert t p T rights h)
    then show ?thesis using insert_step [OF insert inv] er rr by (intro final) simp_all
  next
    case (revoke t h)
    then obtain i where i: "resolve_slot k t h = Some i" "k' = delete_slot t i k" by (rule revoke_effect)
    then have "(t, i) \<in> cap_entries k" using resolve_slot_iff [OF inv] by blast
    from delete_slot_step [OF inv this] show ?thesis using er rr i by (intro final) simp_all
  next
    case (revoke_all t)
    then show ?thesis
      using delete_selected_step [OF _ inv] er rr by (intro final) (simp_all add: capability_revoke_all_def)
  next
    case (revoke_object t p T)
    then have "delete_selected t p T False k = (True, k')"
      by (auto simp: capability_revoke_object_def split: if_splits)
    from delete_selected_step [OF this inv] show ?thesis using er rr by (intro final) simp_all
  next
    case (table_init t)
    then show ?thesis
      using table_init_inv [OF table_init inv] table_init_issued [OF table_init inv] table_init_modules(1,2) [of t k] er rr
      by (intro final step_ok_same) simp_all
  next
    case (table_destroy t)
    have "issued k' = issued k" using table_destroy_effect(7,8) [OF table_destroy inv] by (simp add: issued_def)
    then show ?thesis
      using table_destroy_inv [OF table_destroy inv] table_init_modules(3,4) [of t k] er rr table_destroy
      by (intro final step_ok_same) simp_all
  next
    case (endpoint_create e owner)
    note eff = endpoint_create_effect [OF endpoint_create er] and c = endpoint_create_cap [OF endpoint_create inv er]
    have "k_res k' = k_res k" by (subst eff(8), simp)
    then show ?thesis using eff(5) c rr issued_cong [OF c(3)] by (intro final step_ok_same) simp_all
  next
    case (endpoint_destroy e)
    note eff = endpoint_destroy_effect [OF endpoint_destroy er] and c = endpoint_destroy_cap [OF endpoint_destroy inv er]
    have "k_res k' = k_res k" by (subst eff(7), simp)
    then show ?thesis using eff(4) c rr issued_cong [OF c(3)] by (intro final step_ok_same) simp_all
  next
    case (resource_create r kind)
    note eff = resource_create_effect [OF resource_create rr] and c = resource_create_cap [OF resource_create inv rr]
    have "k_ep k' = k_ep k" by (subst eff(8), simp)
    then show ?thesis using eff(5) c er issued_cong [OF c(3)] by (intro final step_ok_same) simp_all
  next
    case (resource_destroy r)
    note eff = resource_destroy_effect [OF resource_destroy rr] and c = resource_destroy_cap [OF resource_destroy inv rr]
    have "k_ep k' = k_ep k" by (subst eff(7), simp)
    then show ?thesis using eff(4) c er issued_cong [OF c(3)] by (intro final step_ok_same) simp_all
  qed
qed

interpretation handles: handle_space cap_world view issued cap_step
proof unfold_locales
  fix k k' t h c
  show "cap_world k \<Longrightarrow> view k t h = Some c \<Longrightarrow> h \<in> issued k" by (auto simp: cap_world_def intro: view_issued)
  show "cap_world k \<Longrightarrow> cap_step k k' \<Longrightarrow> cap_world k'" using cap_step_ok by blast
  show "cap_world k \<Longrightarrow> cap_step k k' \<Longrightarrow> issued k \<subseteq> issued k'" using cap_step_ok by (auto simp: step_ok_def)
  show "cap_world k \<Longrightarrow> cap_step k k' \<Longrightarrow> h \<in> issued k \<Longrightarrow> view k' t h = None \<or> view k' t h = view k t h"
    using cap_step_ok [of k k'] by (simp add: step_ok_def)
qed

section \<open>Properties\<close>

text \<open>The number of handles that grant an object is the number of slots that name it.\<close>

definition grants :: "Kernel \<Rightarrow> CapabilityType \<Rightarrow> ptr \<Rightarrow> (ptr \<times> CapabilityHandle) set" where
  "grants k T p = {(t, h). \<exists>ident r. view k t h = Some (T, p, ident, r)}"

lemma card_grants:
  assumes inv: "cap_inv k"
  shows "card (grants k T p) = card (object_slots k T p)"
proof -
  let ?f = "\<lambda>(t, i). (t, make_handle (slot_generation (slot_at k t i)) i)"
  have "grants k T p = ?f ` object_slots k T p"
    by (auto simp: grants_def view_Some [OF inv] object_slots_def slot_cap_def image_iff)
  moreover have "inj_on ?f (object_slots k T p)"
    by (auto simp: inj_on_def object_slots_def dest!: make_handle_inj cap_entries_small)
  ultimately show ?thesis by (simp add: card_image)
qed

lemma view_live:
  assumes inv: "cap_inv k" and v: "view k t h = Some (T, p, ident, r)"
  shows "object_refs k p T False = Some ident \<and> r \<noteq> 0 \<and> r AND NOT CAPABILITY_RIGHT_ALL = 0"
proof -
  obtain i where "(t, i) \<in> cap_entries k" "(T, p, ident, r) = slot_cap (slot_at k t i)"
    using v view_Some [OF inv] by blast
  then show ?thesis using cap_invD(1) [OF inv] by (auto simp: slot_ok_def slot_cap_def has_def)
qed

lemma no_dangling_capability_facts:
  assumes w: "cap_world k" and steps: "cap_step\<^sup>*\<^sup>* k k'"
  shows "view k' t h = Some (T, p, ident, r) \<Longrightarrow> object_refs k' p T False = Some ident \<and> r \<noteq> 0 \<and> r AND NOT CAPABILITY_RIGHT_ALL = 0"
    and "object_refs k' p T False \<noteq> None \<Longrightarrow> unat (refs_of k' T p) = card (grants k' T p)"
proof -
  have w': "cap_world k'"
    using steps w by (induction rule: rtranclp_induct) (auto simp: cap_step_ok)
  then have inv: "cap_inv k'" by (simp add: cap_world_def)
  show "object_refs k' p T False \<noteq> None \<Longrightarrow> unat (refs_of k' T p) = card (grants k' T p)"
    using inv by (simp add: cap_inv_def card_grants)
  show "view k' t h = Some (T, p, ident, r) \<Longrightarrow> object_refs k' p T False = Some ident \<and> r \<noteq> 0 \<and> r AND NOT CAPABILITY_RIGHT_ALL = 0"
    by (rule view_live [OF inv])
qed

text \<open>C1. Along every execution of capability operations and of creations and destructions of
  endpoints and device resources no capability dangles: whatever a handle of a live table grants
  is a live object under the identity it had when the capability was made, so that storage
  reused for another object is not reached through an old capability, and the
  \<^verbatim>\<open>capability_refs\<close> counter of every live object is exactly the number of handles that grant it.\<close>

theorem no_dangling_capability:
  assumes "cap_world k" and "cap_step\<^sup>*\<^sup>* k k'"
  shows "(\<forall>t h T p ident r. view k' t h = Some (T, p, ident, r) \<longrightarrow>
        object_refs k' p T False = Some ident \<and> r \<noteq> 0 \<and> r AND NOT CAPABILITY_RIGHT_ALL = 0) \<and>
      (\<forall>T p. object_refs k' p T False \<noteq> None \<longrightarrow> unat (refs_of k' T p) = card (grants k' T p))"
  using no_dangling_capability_facts [OF assms] by blast

lemma handle_never_reused_facts:
  assumes w: "cap_world k" and steps: "cap_step\<^sup>*\<^sup>* k k'"
  shows "h \<in> issued k \<Longrightarrow> view k t h = None \<Longrightarrow> view k' t h = None"
    and "view k t h = Some c \<Longrightarrow> view k' t h = Some c' \<Longrightarrow> c' = c"
  using handles.stale_forever [OF steps w] handles.meaning_fixed [OF steps w] by blast+

text \<open>C2. A handle that has been issued and grants nothing in a table never grants anything in
  that table again, whatever capability operations follow, even after the slot index, the table
  or the object storage is reused; and a handle that grants something at two moments of an
  execution grants the same object incarnation, type and rights at both.\<close>

theorem handle_never_reused:
  assumes "cap_world k" and "cap_step\<^sup>*\<^sup>* k k'"
  shows "(h \<in> issued k \<longrightarrow> view k t h = None \<longrightarrow> view k' t h = None) \<and>
      (\<forall>c c'. view k t h = Some c \<longrightarrow> view k' t h = Some c' \<longrightarrow> c' = c)"
  using handle_never_reused_facts [OF assms] by blast

lemma capability_insert_correct_facts:
  assumes inv: "cap_inv k"
  shows "fst (capability_insert t p T rights k) \<noteq> None \<longleftrightarrow>
      table_live k t \<and> rights \<noteq> 0 \<and> rights AND NOT CAPABILITY_RIGHT_ALL = 0 \<and> object_refs k p T True \<noteq> None \<and>
      (\<exists>i < 64. \<not> slot_occupied (slot_at k t i) \<and> take_generation (g_next_generation (k_cap k) ! i) \<noteq> None)"
    and "capability_insert t p T rights k = (None, k') \<Longrightarrow> k' = k"
    and "capability_insert t p T rights k = (Some h, k') \<Longrightarrow>
      cap_inv k' \<and> h \<notin> issued k \<and> issued k' = insert h (issued k) \<and>
      (\<exists>ident. object_refs k p T True = Some ident \<and>
         view k' = (view k)(t := (view k t)(h \<mapsto> (T, p, ident, rights)))) \<and>
      (\<forall>T' q. refs_of k' T' q = refs_of k T' q + (if T' = T \<and> q = p then 1 else 0))"
proof -
  show "fst (capability_insert t p T rights k) \<noteq> None \<longleftrightarrow>
      table_live k t \<and> rights \<noteq> 0 \<and> rights AND NOT CAPABILITY_RIGHT_ALL = 0 \<and> object_refs k p T True \<noteq> None \<and>
      (\<exists>i < 64. \<not> slot_occupied (slot_at k t i) \<and> take_generation (g_next_generation (k_cap k) ! i) \<noteq> None)"
    using capability_insert_succeeds [OF inv] by (simp add: has_def)
  show "capability_insert t p T rights k = (None, k') \<Longrightarrow> k' = k"
    by (rule capability_insert_cases [OF inv, of t p T rights]) auto
  assume ok: "capability_insert t p T rights k = (Some h, k')"
  then obtain i ident g n where ins: "insertable k t i p ident T rights g n" and o: "object_refs k p T True = Some ident"
    and h: "h = make_handle g i" and k': "k' = insert_at t i p ident T rights g n k"
    by (cases rule: capability_insert_cases [OF inv, of t p T rights]) auto
  have T: "T \<noteq> CAPABILITY_TYPE_NONE" using ins by (simp add: insertable_def)
  have v: "view k' = (view k)(t := (view k t)(h \<mapsto> (T, p, ident, rights)))"
    using insert_at_view [OF ins] by (auto simp: fun_eq_iff h k')
  have r: "refs_of k' T' q = refs_of k T' q + (if T' = T \<and> q = p then 1 else 0)" for T' q
    by (simp add: insert_at_sel(6) [OF T] k')
  show "cap_inv k' \<and> h \<notin> issued k \<and> issued k' = insert h (issued k) \<and>
      (\<exists>ident. object_refs k p T True = Some ident \<and>
         view k' = (view k)(t := (view k t)(h \<mapsto> (T, p, ident, rights)))) \<and>
      (\<forall>T' q. refs_of k' T' q = refs_of k T' q + (if T' = T \<and> q = p then 1 else 0))"
    using insert_at_inv [OF ins] insert_at_issued [OF ins] o v r by (simp add: h k')
qed

text \<open>C10. \<^verbatim>\<open>capability_insert\<close> refines an update of the abstract table at a fresh
  handle. It succeeds exactly when the table is live, the rights are a non-empty subset of the
  defined ones, the object is live and still accepts capabilities, and some free slot has
  generations left. The new handle was never issued before in any table, it grants exactly the
  object with the rights asked for, every other handle of every table keeps its meaning, and
  only the counter of the object grows, by one. A failure changes nothing.\<close>

theorem capability_insert_correct:
  assumes "cap_inv k"
  shows "(fst (capability_insert t p T rights k) \<noteq> None \<longleftrightarrow>
      table_live k t \<and> rights \<noteq> 0 \<and> rights AND NOT CAPABILITY_RIGHT_ALL = 0 \<and> object_refs k p T True \<noteq> None \<and>
      (\<exists>i < 64. \<not> slot_occupied (slot_at k t i) \<and> take_generation (g_next_generation (k_cap k) ! i) \<noteq> None)) \<and>
    (\<forall>k'. capability_insert t p T rights k = (None, k') \<longrightarrow> k' = k) \<and>
    (\<forall>h k'. capability_insert t p T rights k = (Some h, k') \<longrightarrow>
      cap_inv k' \<and> h \<notin> issued k \<and> issued k' = insert h (issued k) \<and>
      (\<exists>ident. object_refs k p T True = Some ident \<and>
         view k' = (view k)(t := (view k t)(h \<mapsto> (T, p, ident, rights)))) \<and>
      (\<forall>T' q. refs_of k' T' q = refs_of k T' q + (if T' = T \<and> q = p then 1 else 0)))"
  by (intro conjI allI impI; (rule capability_insert_correct_facts(1) [OF assms] | erule capability_insert_correct_facts(2) [OF assms] |
      (drule capability_insert_correct_facts(3) [OF assms], blast)))



lemma capability_revoke_correct_facts:
  assumes inv: "cap_inv k"
  shows "fst (capability_revoke t h k) \<longleftrightarrow> view k t h \<noteq> None"
    and "capability_revoke t h k = (False, k') \<Longrightarrow> k' = k"
    and "capability_revoke t h k = (True, k') \<Longrightarrow> view k t h = Some (T, p, ident, r) \<Longrightarrow>
      cap_inv k' \<and> issued k' = issued k \<and> view k' = (view k)(t := (view k t)(h := None)) \<and>
      unat (refs_of k' T p) = unat (refs_of k T p) - 1 \<and> refs_of k T p \<noteq> 0 \<and>
      (\<forall>T' q. (T', q) \<noteq> (T, p) \<longrightarrow> refs_of k' T' q = refs_of k T' q)"
proof -
  show "fst (capability_revoke t h k) \<longleftrightarrow> view k t h \<noteq> None"
    using resolve_slot_live [of k t h] table_valid_live [OF inv, of t]
    by (cases "resolve_slot k t h") (simp_all add: capability_revoke_def view_def)
  show "capability_revoke t h k = (False, k') \<Longrightarrow> k' = k"
    by (auto simp: capability_revoke_def split: option.splits if_splits)
  assume "capability_revoke t h k = (True, k')" and v: "view k t h = Some (T, p, ident, r)"
  then obtain i where i: "resolve_slot k t h = Some i" and k': "k' = delete_slot t i k" by (auto elim: revoke_effect)
  have e: "(t, i) \<in> cap_entries k" and h: "h = make_handle (slot_generation (slot_at k t i)) i"
    using resolve_slot_iff [OF inv] i by blast+
  have c: "slot_type (slot_at k t i) = T" "slot_object (slot_at k t i) = p"
    using v i by (auto simp: view_def slot_cap_def)
  note sel = delete_slot_sel [OF entry_type [OF inv e], folded k']
  have nz: "refs_of k T p \<noteq> 0"
    using slot_refs_entry [OF inv e] c by (auto simp: slot_refs_def split: option.splits)
  then have "unat (refs_of k' T p) = unat (refs_of k T p) - 1"
    by (simp add: sel(4) c unat_minus_one)
  moreover have "view k' = (view k)(t := (view k t)(h := None))"
    using delete_slot_view [OF inv e] by (auto simp: fun_eq_iff h k')
  moreover have "\<forall>T' q. (T', q) \<noteq> (T, p) \<longrightarrow> refs_of k' T' q = refs_of k T' q"
    by (auto simp: sel(4) c)
  ultimately show "cap_inv k' \<and> issued k' = issued k \<and> view k' = (view k)(t := (view k t)(h := None)) \<and>
      unat (refs_of k' T p) = unat (refs_of k T p) - 1 \<and> refs_of k T p \<noteq> 0 \<and>
      (\<forall>T' q. (T', q) \<noteq> (T, p) \<longrightarrow> refs_of k' T' q = refs_of k T' q)"
    using nz delete_slot_inv [OF inv e] issued_cong [OF sel(2)] by (simp add: k')
qed

text \<open>C12. \<^verbatim>\<open>capability_revoke\<close> succeeds exactly for handles that grant something; it
  removes that capability from its table and no other capability of any table, and returns the
  reference it held on the object.\<close>

theorem capability_revoke_correct:
  assumes "cap_inv k"
  shows "(fst (capability_revoke t h k) \<longleftrightarrow> view k t h \<noteq> None) \<and>
    (\<forall>k'. capability_revoke t h k = (False, k') \<longrightarrow> k' = k) \<and>
    (\<forall>k' T p ident r. capability_revoke t h k = (True, k') \<longrightarrow> view k t h = Some (T, p, ident, r) \<longrightarrow>
      cap_inv k' \<and> issued k' = issued k \<and> view k' = (view k)(t := (view k t)(h := None)) \<and>
      unat (refs_of k' T p) = unat (refs_of k T p) - 1 \<and> refs_of k T p \<noteq> 0 \<and>
      (\<forall>T' q. (T', q) \<noteq> (T, p) \<longrightarrow> refs_of k' T' q = refs_of k T' q))"
  using capability_revoke_correct_facts [OF assms] by meson

lemma capability_revoke_many_correct_facts:
  assumes inv: "cap_inv k" and live: "table_live k t" and obj: "p \<noteq> 0" "T \<noteq> CAPABILITY_TYPE_NONE"
  shows "\<exists>k'. capability_revoke_object t p T k = (True, k') \<and> cap_inv k' \<and> issued k' = issued k \<and>
      view k' = (view k)(t := (\<lambda>h. case view k t h of
        Some (T', q, ident, r) \<Rightarrow> if T' = T \<and> q = p then None else Some (T', q, ident, r) | None \<Rightarrow> None))"
    and "\<exists>k'. capability_revoke_all t k = (True, k') \<and> cap_inv k' \<and> issued k' = issued k \<and>
      view k' = (view k)(t := Map.empty) \<and> fst (capability_table_destroy t k')"
proof -
  note V = delete_selected_view [OF inv live]
  have "view (snd (delete_selected t p T False k)) = (view k)(t := (\<lambda>h. case view k t h of
        Some (T', q, ident, r) \<Rightarrow> if T' = T \<and> q = p then None else Some (T', q, ident, r) | None \<Rightarrow> None))"
    (is "view ?k1 = ?v")
  proof (intro ext)
    fix u h
    show "view ?k1 u h = ?v u h"
    proof (cases "u = t")
      case True
      show ?thesis by (cases "view k t h") (auto simp: True V(4) cap_selected_def)
    qed (simp add: V(3))
  qed
  then show "\<exists>k'. capability_revoke_object t p T k = (True, k') \<and> cap_inv k' \<and> issued k' = issued k \<and>
      view k' = (view k)(t := (\<lambda>h. case view k t h of
        Some (T', q, ident, r) \<Rightarrow> if T' = T \<and> q = p then None else Some (T', q, ident, r) | None \<Rightarrow> None))"
    using delete_selected_ok [OF inv live, of p T False] V(1) [where p = p and T = T and every = False] obj
      issued_cong [OF V(2) [where p = p and T = T and every = False]]
    by (simp add: capability_revoke_object_def type_valid_iff)
  let ?k = "snd (delete_selected t 0 CAPABILITY_TYPE_NONE True k)"
  have none: "view ?k = (view k)(t := Map.empty)"
    (is "_ = ?v")
  proof (intro ext)
    fix u h
    show "view ?k u h = ?v u h"
    proof (cases "u = t")
      case True
      show ?thesis by (cases "view k t h") (simp_all add: True V(4) cap_selected_def)
    qed (simp add: V(3))
  qed
  have inv': "cap_inv ?k" and cap: "k_cap ?k = k_cap k" by (rule V(1), rule V(2))
  have live': "table_live ?k t" using live cap by (simp add: table_live_iff)
  have "(t, i) \<notin> cap_entries ?k" for i using view_entry [OF inv', of t i] none by auto
  then have "occupied_count (h_table ?k t) = 0"
    using live' table_ok_length [OF table_live_ok [OF inv' live']] by (auto simp: occupied_count_card cap_entries_def)
  then have "ct_count (h_table ?k t) = 0"
    using table_live_ok [OF inv' live'] by (simp add: table_ok_def unat_eq_zero)
  then have "fst (capability_table_destroy t ?k)"
    using table_valid_live [OF inv'] live' by (simp add: capability_table_destroy_def Let_def)
  then show "\<exists>k'. capability_revoke_all t k = (True, k') \<and> cap_inv k' \<and> issued k' = issued k \<and>
      view k' = (view k)(t := Map.empty) \<and> fst (capability_table_destroy t k')"
    using delete_selected_ok [OF inv live, of 0 CAPABILITY_TYPE_NONE True] inv' none issued_cong [OF cap]
    by (simp add: capability_revoke_all_def)
qed

text \<open>C13. \<^verbatim>\<open>capability_revoke_object\<close> on a live table always succeeds, its
  pre-validation cannot fail under the invariant, and removes exactly the capabilities of the table that
  name the object; \<^verbatim>\<open>capability_revoke_all\<close> empties the table, so that
  \<^verbatim>\<open>capability_table_destroy\<close> succeeds afterwards. Other tables keep their
  capabilities.\<close>

theorem capability_revoke_many_correct:
  assumes "cap_inv k" and "table_live k t" and "p \<noteq> 0" and "T \<noteq> CAPABILITY_TYPE_NONE"
  shows "(\<exists>k'. capability_revoke_object t p T k = (True, k') \<and> cap_inv k' \<and> issued k' = issued k \<and>
      view k' = (view k)(t := (\<lambda>h. case view k t h of
        Some (T', q, ident, r) \<Rightarrow> if T' = T \<and> q = p then None else Some (T', q, ident, r) | None \<Rightarrow> None))) \<and>
    (\<exists>k'. capability_revoke_all t k = (True, k') \<and> cap_inv k' \<and> issued k' = issued k \<and>
      view k' = (view k)(t := Map.empty) \<and> fst (capability_table_destroy t k'))"
  by (intro conjI capability_revoke_many_correct_facts [OF assms])

section \<open>Witnesses\<close>

text \<open>A table at 64 and a device resource at 512; then a capability for it, then its revocation.\<close>

abbreviation (input) demo_type :: CapabilityType where "demo_type \<equiv> CAPABILITY_TYPE_DEVICE_RESOURCE"

definition demo_caps1 :: Kernel where
  "demo_caps1 = snd (capability_table_init 64 small_kernel)"

definition demo_caps2 :: Kernel where
  "demo_caps2 = snd (device_resource_create 512 DEVICE_RESOURCE_DISPLAY demo_caps1)"

definition demo_handle :: CapabilityHandle where
  "demo_handle = the (fst (capability_insert 64 512 demo_type CAPABILITY_RIGHT_READ demo_caps2))"

definition demo_caps3 :: Kernel where
  "demo_caps3 = snd (capability_insert 64 512 demo_type CAPABILITY_RIGHT_READ demo_caps2)"

definition demo_caps4 :: Kernel where
  "demo_caps4 = snd (capability_revoke 64 demo_handle demo_caps3)"

lemma small_object_refs: "object_refs small_kernel p T b = None"
  by (cases T) (simp_all add: object_refs_def live_defs device_resource_valid_def small_kernel_def zero_resource_def)

lemma reg_ok_replicate: "reg_ok (replicate n 0)"
  by (auto simp: reg_ok_def)

lemma small_world: "cap_world small_kernel"
proof -
  have tables: "\<not> table_live small_kernel t" for t by (simp add: live_defs small_kernel_def)
  have "cap_inv small_kernel"
    by (simp add: cap_inv_def small_object_refs tables cap_entries_def)
      (simp add: small_kernel_def reg_ok_replicate)
  then show ?thesis by (simp add: cap_world_def small_kernel_def reg_ok_replicate)
qed

lemma demo_init: "capability_table_init 64 small_kernel = (True, demo_caps1)"
proof -
  have "fst (capability_table_init 64 small_kernel)"
    by (simp add: capability_table_init_def Let_def live_defs) (simp add: small_kernel_def)
  then show ?thesis by (simp add: demo_caps1_def prod_eq_iff)
qed

lemma demo_world1: "cap_world demo_caps1"
  using cap_step_ok [OF cap_step.table_init [OF demo_init] small_world] by simp

lemma demo_resource: "device_resource_create 512 DEVICE_RESOURCE_DISPLAY demo_caps1 = (True, demo_caps2)"
proof -
  have "k_res demo_caps1 = k_res small_kernel" using table_init_modules(2) [of 64 small_kernel] by (simp add: demo_caps1_def)
  then have "fst (device_resource_create 512 DEVICE_RESOURCE_DISPLAY demo_caps1)"
    by (simp add: device_resource_create_def Let_def) (simp add: small_kernel_def)
  then show ?thesis by (simp add: demo_caps2_def prod_eq_iff)
qed

lemma demo_world2: "cap_world demo_caps2"
  using cap_step_ok [OF cap_step.resource_create [OF demo_resource] demo_world1] by simp

lemma demo_insert:
  "capability_insert 64 512 demo_type CAPABILITY_RIGHT_READ demo_caps2 = (Some demo_handle, demo_caps3)"
proof -
  have inv0: "cap_inv small_kernel" and inv: "cap_inv demo_caps2" and reg: "reg_ok (g_resources (k_res demo_caps1))"
    using small_world demo_world1 demo_world2 by (simp_all add: cap_world_def)
  note i = table_init_effect [OF demo_init inv0] and r = resource_create_effect [OF demo_resource reg]
  have cap: "k_cap demo_caps2 = k_cap demo_caps1" "h_table demo_caps2 = h_table demo_caps1" by (subst r(8), simp)+
  have live: "table_live demo_caps2 64" using i(3) [of 64] by (simp add: table_live_iff cap)
  have obj: "object_refs demo_caps2 512 demo_type True \<noteq> None"
    using r(3) r(6) [of 512] by (simp add: object_refs_def device_resource_valid_def r(7))
  have slot: "\<not> slot_occupied (slot_at demo_caps2 64 0)" by (simp add: cap i(4))
  have "g_next_generation (k_cap demo_caps2) ! 0 = 1" by (simp add: cap i(8)) (simp add: small_kernel_def)
  then have gen: "take_generation (g_next_generation (k_cap demo_caps2) ! 0) \<noteq> None"
    by (simp add: take_generation_def word_nat)
  have "fst (capability_insert 64 512 demo_type CAPABILITY_RIGHT_READ demo_caps2) \<noteq> None"
    unfolding capability_insert_succeeds [OF inv] using live obj
    by (simp add: has_def) (rule exI [of _ 0], use slot gen in simp)
  then show ?thesis by (auto simp: demo_handle_def demo_caps3_def prod_eq_iff)
qed

lemma demo_world3: "cap_world demo_caps3"
  using cap_step_ok [OF cap_step.insert [OF demo_insert] demo_world2] by simp

theorem capability_insert_correct_witness:
  "\<exists>ident. view demo_caps3 64 demo_handle = Some (demo_type, 512, ident, CAPABILITY_RIGHT_READ) \<and>
     demo_handle \<notin> issued demo_caps2"
  using capability_insert_correct [OF demo_world2 [unfolded cap_world_def, THEN conjunct1],
      of 64 512 demo_type CAPABILITY_RIGHT_READ] demo_insert by auto

lemma demo_view3: "\<exists>ident. view demo_caps3 64 demo_handle = Some (demo_type, 512, ident, CAPABILITY_RIGHT_READ)"
proof -
  have inv: "cap_inv demo_caps2" using demo_world2 by (simp add: cap_world_def)
  obtain i ident g n where ins: "insertable demo_caps2 64 i 512 ident demo_type CAPABILITY_RIGHT_READ g n"
    and eq: "demo_handle = make_handle g i" "demo_caps3 = insert_at 64 i 512 ident demo_type CAPABILITY_RIGHT_READ g n demo_caps2"
    by (rule capability_insert_cases [OF inv, of 64 512 demo_type CAPABILITY_RIGHT_READ]) (use demo_insert in auto)
  then show ?thesis using insert_at_view(1) [OF ins] by auto
qed


theorem capability_revoke_correct_witness:
  "\<exists>k'. capability_revoke 64 demo_handle demo_caps3 = (True, k') \<and> view k' 64 demo_handle = None"
proof -
  have inv: "cap_inv demo_caps3" using demo_world3 by (simp add: cap_world_def)
  obtain ident where v: "view demo_caps3 64 demo_handle = Some (demo_type, 512, ident, CAPABILITY_RIGHT_READ)"
    using demo_view3 by blast
  have "fst (capability_revoke 64 demo_handle demo_caps3)" using capability_revoke_correct [OF inv, of 64 demo_handle] v by simp
  then obtain k' where ok: "capability_revoke 64 demo_handle demo_caps3 = (True, k')" by (metis prod.collapse)
  then show ?thesis using capability_revoke_correct [OF inv, of 64 demo_handle] v by auto
qed

theorem capability_revoke_many_correct_witness:
  "\<exists>k'. capability_revoke_all 64 demo_caps3 = (True, k') \<and> fst (capability_table_destroy 64 k')"
proof -
  have inv: "cap_inv demo_caps3" using demo_world3 by (simp add: cap_world_def)
  obtain ident where v: "view demo_caps3 64 demo_handle = Some (demo_type, 512, ident, CAPABILITY_RIGHT_READ)"
    using demo_view3 by blast
  have live: "table_live demo_caps3 64" using v resolve_slot_live [of demo_caps3 64 demo_handle] by (auto simp: view_def)
  show ?thesis using capability_revoke_many_correct [OF inv live, of 512 demo_type] by auto
qed

lemma demo_revoke:
  "cap_step demo_caps3 demo_caps4" "view demo_caps4 64 demo_handle = None" "demo_handle \<in> issued demo_caps4"
proof -
  have inv: "cap_inv demo_caps3" using demo_world3 by (simp add: cap_world_def)
  obtain ident where v: "view demo_caps3 64 demo_handle = Some (demo_type, 512, ident, CAPABILITY_RIGHT_READ)"
    using demo_view3 by blast
  then obtain i where i: "resolve_slot demo_caps3 64 demo_handle = Some i" by (auto simp: view_def)
  then have e: "(64, i) \<in> cap_entries demo_caps3" and h: "demo_handle = make_handle (slot_generation (slot_at demo_caps3 64 i)) i"
    using resolve_slot_iff [OF inv] by blast+
  have ok: "capability_revoke 64 demo_handle demo_caps3 = (True, delete_slot 64 i demo_caps3)"
    using i resolve_slot_live [OF i] table_valid_live [OF inv] by (simp add: capability_revoke_def)
  then have k4: "demo_caps4 = delete_slot 64 i demo_caps3" by (simp add: demo_caps4_def)
  show "cap_step demo_caps3 demo_caps4" using cap_step.revoke [OF ok] k4 by simp
  show "view demo_caps4 64 demo_handle = None" using delete_slot_view(1) [OF inv e] h k4 by simp
  show "demo_handle \<in> issued demo_caps4"
    using view_issued [OF inv v] delete_slot_step [OF inv e] k4 by (auto simp: step_ok_def)
qed

theorem no_dangling_capability_witness:
  "\<exists>t h p ident r. view demo_caps3 t h = Some (demo_type, p, ident, r) \<and>
     object_refs demo_caps3 p demo_type False = Some ident \<and>
     unat (refs_of demo_caps3 demo_type p) = card (grants demo_caps3 demo_type p)"
proof -
  have steps: "cap_step\<^sup>*\<^sup>* small_kernel demo_caps3"
    using cap_step.table_init [OF demo_init] cap_step.resource_create [OF demo_resource] cap_step.insert [OF demo_insert]
    by (meson rtranclp.rtrancl_into_rtrancl rtranclp.rtrancl_refl)
  obtain ident where v: "view demo_caps3 64 demo_handle = Some (demo_type, 512, ident, CAPABILITY_RIGHT_READ)"
    using demo_view3 by blast
  show ?thesis
    using no_dangling_capability [OF small_world steps] v by blast
qed

theorem handle_never_reused_witness:
  "\<exists>k'. cap_step demo_caps4 k' \<and> view k' 64 demo_handle = None"
proof -
  have w: "cap_world demo_caps4" using cap_step_ok [OF demo_revoke(1) demo_world3] by simp
  have "fst (capability_revoke_all 64 demo_caps4)"
  proof -
    have inv: "cap_inv demo_caps4" "cap_inv demo_caps3" using w demo_world3 by (simp_all add: cap_world_def)
    obtain i where i: "resolve_slot demo_caps3 64 demo_handle = Some i" using demo_view3 by (auto simp: view_def)
    then have e: "(64, i) \<in> cap_entries demo_caps3" using resolve_slot_iff [OF inv(2)] by blast
    have "demo_caps4 = delete_slot 64 i demo_caps3"
      using i resolve_slot_live [OF i] table_valid_live [OF inv(2)] by (simp add: demo_caps4_def capability_revoke_def)
    then have "table_live demo_caps4 64"
      using delete_slot_sel(1) [OF entry_type [OF inv(2) e]] resolve_slot_live [OF i] by simp
    then show ?thesis using delete_selected_ok [OF inv(1)] by (simp add: capability_revoke_all_def)
  qed
  then obtain k' where ok: "capability_revoke_all 64 demo_caps4 = (True, k')" by (metis prod.collapse)
  then have s: "cap_step demo_caps4 k'" by (rule cap_step.revoke_all)
  then show ?thesis
    using handle_never_reused [OF w r_into_rtranclp [of cap_step, OF s], of demo_handle 64] demo_revoke(2,3) by blast
qed

end
