(* ===== verification/Kernel_Stack.thy ===== *)
theory Kernel_Stack
  imports Address_Space
begin

text \<open>
  Guarded kernel stacks, \<^verbatim>\<open>kernel/kernel_stack.c\<close>: each storage slot of a thread owns a
  fixed window of six pages below the user range, four of them mapped, with an absent guard page
  on both sides. A call of \<^verbatim>\<open>cpu_halt_forever\<close> is the outcome \<open>Halt\<close>.
\<close>

section \<open>Definitions\<close>

abbreviation (input) THREAD_KERNEL_STACK_PAGES :: u64 where "THREAD_KERNEL_STACK_PAGES \<equiv> 4"
abbreviation (input) THREAD_KERNEL_STACK_SIZE :: u64 where "THREAD_KERNEL_STACK_SIZE \<equiv> 0x4000"
abbreviation (input) KERNEL_STACK_SLOT_SIZE :: u64 where "KERNEL_STACK_SLOT_SIZE \<equiv> 0x6000"
abbreviation (input) KERNEL_STACK_ARENA_SIZE :: u64 where "KERNEL_STACK_ARENA_SIZE \<equiv> 0x01000000"
abbreviation (input) KERNEL_STACK_ARENA_BASE :: u64 where
  "KERNEL_STACK_ARENA_BASE \<equiv> ADDRESS_SPACE_USER_BASE - KERNEL_STACK_ARENA_SIZE"
abbreviation (input) KERNEL_STACK_PT_SPAN :: u64 where "KERNEL_STACK_PT_SPAN \<equiv> 0x200000"
abbreviation (input) THREAD_STORAGE_CAPACITY :: u32 where "THREAD_STORAGE_CAPACITY \<equiv> 512"
abbreviation (input) KERNEL_STACK_TOTAL_SLOTS :: u64 where "KERNEL_STACK_TOTAL_SLOTS \<equiv> 513"

definition read_cr3 :: "Kernel \<Rightarrow> u64" where
  "read_cr3 k = cr3 (mm_cpu (k_mm k))"

definition kernel_map_active :: "Kernel \<Rightarrow> bool" where
  "kernel_map_active k \<longleftrightarrow>
     g_stack_space (k_stack k) \<noteq> 0 \<and> address_space_cr3 k (g_stack_space (k_stack k)) \<noteq> 0 \<and>
     read_cr3 k AND NOT 0xFFF = address_space_cr3 k (g_stack_space (k_stack k))"

definition slot_stack_base :: "u32 \<Rightarrow> u64 option" where
  "slot_stack_base slot =
     (if slot = 0 \<or> (ucast slot :: u64) \<ge> KERNEL_STACK_TOTAL_SLOTS then None
      else
        let slot_offset = (ucast slot :: u64) * KERNEL_STACK_SLOT_SIZE in
        if slot_offset > KERNEL_STACK_ARENA_SIZE - KERNEL_STACK_SLOT_SIZE then None
        else Some (KERNEL_STACK_ARENA_BASE + slot_offset + VM_PAGE_SIZE))"

definition page_absent :: "Kernel \<Rightarrow> u64 \<Rightarrow> bool" where
  "page_absent k address \<longleftrightarrow>
     g_stack_space (k_stack k) \<noteq> 0 \<and> address_space_query_page k (g_stack_space (k_stack k)) address = None"

definition stack_base_valid :: "u64 \<Rightarrow> bool" where
  "stack_base_valid stack_base =
     (if stack_base = 0 \<or> has stack_base (VM_PAGE_SIZE - 1) then False
      else if stack_base < KERNEL_STACK_ARENA_BASE + VM_PAGE_SIZE then False
      else
        let slot_start = stack_base - VM_PAGE_SIZE in
        if slot_start < KERNEL_STACK_ARENA_BASE then False
        else
          let offset = slot_start - KERNEL_STACK_ARENA_BASE in
          if offset mod KERNEL_STACK_SLOT_SIZE \<noteq> 0 then False
          else
            let slot = offset div KERNEL_STACK_SLOT_SIZE in
            slot > 0 \<and> slot < KERNEL_STACK_TOTAL_SLOTS)"

definition stack_page :: "u64 \<Rightarrow> u64 \<Rightarrow> u64" where
  "stack_page stack_base i = stack_base + i * VM_PAGE_SIZE"

definition slot_clear :: "Kernel \<Rightarrow> u64 \<Rightarrow> bool" where
  "slot_clear k stack_base =
     (if g_stack_space (k_stack k) = 0 \<or> \<not> stack_base_valid stack_base then False
      else if \<not> page_absent k (stack_base - VM_PAGE_SIZE) then False
      else list_all (\<lambda>i. page_absent k (stack_page stack_base i)) (upto_u64 THREAD_KERNEL_STACK_PAGES) \<and>
           page_absent k (stack_base + THREAD_KERNEL_STACK_SIZE))"

definition stack_page_valid :: "Kernel \<Rightarrow> u64 \<Rightarrow> frame_t \<Rightarrow> bool" where
  "stack_page_valid k address expected =
     (case address_space_query_page k (g_stack_space (k_stack k)) address of
        None \<Rightarrow> False
      | Some (frame, flags) \<Rightarrow>
          frame = expected \<and> flags AND (VM_WRITE OR VM_USER OR VM_EXEC) = VM_WRITE)"

definition kernel_stack_mapping_valid :: "Kernel \<Rightarrow> u64 \<Rightarrow> u64 \<Rightarrow> bool" where
  "kernel_stack_mapping_valid k physical stack_base =
     (if \<not> g_arena_ready (k_stack k) \<or> g_stack_space (k_stack k) = 0 \<or> physical = 0 \<or>
         \<not> stack_base_valid stack_base then False
      else if has physical (FRAME_SIZE - 1) then False
      else if \<not> page_absent k (stack_base - VM_PAGE_SIZE) \<or>
         \<not> page_absent k (stack_base + THREAD_KERNEL_STACK_SIZE) then False
      else
        let first = phys_to_frame physical in
        first \<noteq> FRAME_INVALID \<and>
        list_all (\<lambda>i. stack_page_valid k (stack_page stack_base i) (first + i)) (upto_u64 THREAD_KERNEL_STACK_PAGES))"

definition kernel_stack_virtual_released :: "Kernel \<Rightarrow> u64 \<Rightarrow> bool" where
  "kernel_stack_virtual_released k stack_base \<longleftrightarrow> g_arena_ready (k_stack k) \<and> slot_clear k stack_base"

text \<open>The page map behind \<^verbatim>\<open>g_kernel_space\<close>.\<close>

definition stack_map :: "Kernel \<Rightarrow> ptr" where
  "stack_map k = space_page_map_addr (g_stack_space (k_stack k))"

definition restore_page :: "u64 \<Rightarrow> frame_t \<Rightarrow> u64 \<Rightarrow> Kernel \<Rightarrow> bool \<times> Kernel" where
  "restore_page stack_base first i k =
     (let address = stack_page stack_base i in
      case address_space_query_page k (g_stack_space (k_stack k)) address of
        Some (frame, flags) \<Rightarrow>
          (frame = first + i \<and> flags AND (VM_WRITE OR VM_USER OR VM_EXEC) = VM_WRITE, k)
      | None \<Rightarrow> on_mm (vmm_map_page (stack_map k) address (first + i) VM_WRITE) k)"

definition restore_mapping :: "u64 \<Rightarrow> u64 \<Rightarrow> Kernel \<Rightarrow> bool \<times> Kernel" where
  "restore_mapping physical stack_base k =
     (let first = phys_to_frame physical in
      if first = FRAME_INVALID then (False, k)
      else
        case loop_all (restore_page stack_base first) (upto_u64 THREAD_KERNEL_STACK_PAGES) k of (ok, k) \<Rightarrow>
        (ok \<and> kernel_stack_mapping_valid k physical stack_base, k))"

text \<open>The unmapping loop; a failure restores what was unmapped or halts.\<close>

fun unmap_pages :: "u64 \<Rightarrow> u64 \<Rightarrow> frame_t \<Rightarrow> u64 list \<Rightarrow> Kernel \<Rightarrow> (bool \<times> Kernel) outcome" where
  "unmap_pages physical stack_base first [] k = Done (kernel_stack_virtual_released k stack_base, k)"
| "unmap_pages physical stack_base first (i # rest) k =
     (case on_mm (vmm_unmap_page (stack_map k) (stack_page stack_base i)) k of
        (None, k) \<Rightarrow>
          (case restore_mapping physical stack_base k of
             (restored, k) \<Rightarrow> if restored then Done (False, k) else Halt)
      | (Some old, k) \<Rightarrow>
          if old \<noteq> first + i then Halt else unmap_pages physical stack_base first rest k)"

definition unmap_mapping :: "u64 \<Rightarrow> u64 \<Rightarrow> Kernel \<Rightarrow> (bool \<times> Kernel) outcome" where
  "unmap_mapping physical stack_base k =
     (if \<not> kernel_stack_mapping_valid k physical stack_base then Done (False, k)
      else unmap_pages physical stack_base (phys_to_frame physical) (upto_u64 THREAD_KERNEL_STACK_PAGES) k)"

text \<open>
  One page table span of the arena: a probe page is mapped and unmapped again. The loop of
  \<open>kernel_stack_arena_init\<close> runs over the addresses below the end of the last slot; the
  number of spans is that length divided by the span, rounded up.
\<close>

definition probe_span :: "ptr \<Rightarrow> frame_t \<Rightarrow> u64 \<Rightarrow> Kernel \<Rightarrow> bool \<times> Kernel" where
  "probe_span space probe address k =
     (if \<not> page_absent k address then (False, k)
      else
        case on_mm (vmm_map_page (space_page_map_addr space) address probe VM_WRITE) k of (ok, k) \<Rightarrow>
        if \<not> ok then (False, k)
        else
          case on_mm (vmm_unmap_page (space_page_map_addr space) address) k of (old, k) \<Rightarrow>
          (old = Some probe \<and> page_absent k address, k))"

definition kernel_stack_arena_init :: "ptr \<Rightarrow> u64 \<Rightarrow> Kernel \<Rightarrow> bool \<times> Kernel" where
  "kernel_stack_arena_init space probe_physical k =
     (if g_arena_ready (k_stack k) then (space = g_stack_space (k_stack k), k)
      else if space = 0 \<or> \<not> sp_kernel (h_space k space) \<or> address_space_cr3 k space = 0 then (False, k)
      else if read_cr3 k AND NOT 0xFFF \<noteq> address_space_cr3 k space then (False, k)
      else
        let probe = phys_to_frame (probe_physical AND NOT (FRAME_SIZE - 1)) in
        if probe = FRAME_INVALID then (False, k)
        else
          let k = k\<lparr>k_stack := (k_stack k)\<lparr>g_stack_space := space\<rparr>\<rparr>;
              used = KERNEL_STACK_TOTAL_SLOTS * KERNEL_STACK_SLOT_SIZE;
              spans = (used + KERNEL_STACK_PT_SPAN - 1) div KERNEL_STACK_PT_SPAN
          in
          case loop_all (\<lambda>i. probe_span space probe (KERNEL_STACK_ARENA_BASE + i * KERNEL_STACK_PT_SPAN))
                 (upto_u64 spans) k of (ok, k) \<Rightarrow>
          if \<not> ok then (False, k)
          else (True, k\<lparr>k_stack := (k_stack k)\<lparr>g_arena_ready := True\<rparr>\<rparr>))"

definition kernel_stack_arena_ready :: "Kernel \<Rightarrow> bool" where
  "kernel_stack_arena_ready k = g_arena_ready (k_stack k)"

text \<open>Undoing the pages mapped so far, last one first.\<close>

fun unmap_mapped :: "u64 \<Rightarrow> frame_t \<Rightarrow> u64 list \<Rightarrow> Kernel \<Rightarrow> Kernel outcome" where
  "unmap_mapped stack_base first [] k = Done k"
| "unmap_mapped stack_base first (i # rest) k =
     (case on_mm (vmm_unmap_page (stack_map k) (stack_page stack_base i)) k of
        (old, k) \<Rightarrow> if old = Some (first + i) then unmap_mapped stack_base first rest k else Halt)"

fun map_pages :: "u64 \<Rightarrow> frame_t \<Rightarrow> u64 list \<Rightarrow> u64 list \<Rightarrow> Kernel \<Rightarrow> (bool \<times> Kernel) outcome" where
  "map_pages stack_base first mapped [] k = Done (True, k)"
| "map_pages stack_base first mapped (i # rest) k =
     (case on_mm (vmm_map_page (stack_map k) (stack_page stack_base i) (first + i) VM_WRITE) k of
        (ok, k) \<Rightarrow>
          if ok then map_pages stack_base first (i # mapped) rest k
          else outcome_bind (unmap_mapped stack_base first mapped k) (\<lambda>k. Done (False, k)))"

definition map_slot :: "u32 \<Rightarrow> u64 \<Rightarrow> Kernel \<Rightarrow> (u64 option \<times> Kernel) outcome" where
  "map_slot slot physical k =
     (if \<not> g_arena_ready (k_stack k) \<or> \<not> kernel_map_active k \<or> physical = 0 then Done (None, k)
      else if has physical (FRAME_SIZE - 1) then Done (None, k)
      else
        case slot_stack_base slot of
          None \<Rightarrow> Done (None, k)
        | Some stack_base \<Rightarrow>
            if \<not> slot_clear k stack_base then Done (None, k)
            else
              let first = phys_to_frame physical in
              if first = FRAME_INVALID then Done (None, k)
              else
                outcome_bind (map_pages stack_base first [] (upto_u64 THREAD_KERNEL_STACK_PAGES) k)
                  (\<lambda>(ok, k).
                     if \<not> ok then Done (None, k)
                     else if \<not> kernel_stack_mapping_valid k physical stack_base then Halt
                     else Done (Some stack_base, k)))"

definition kernel_stack_map :: "u32 \<Rightarrow> u64 \<Rightarrow> Kernel \<Rightarrow> (u64 option \<times> Kernel) outcome" where
  "kernel_stack_map storage_slot physical k =
     (if storage_slot \<ge> THREAD_STORAGE_CAPACITY then Done (None, k) else map_slot storage_slot physical k)"

definition kernel_stack_map_scheduler_idle :: "u64 \<Rightarrow> Kernel \<Rightarrow> (u64 option \<times> Kernel) outcome" where
  "kernel_stack_map_scheduler_idle physical k = map_slot THREAD_STORAGE_CAPACITY physical k"

definition on_pmm :: "(Pmm \<Rightarrow> 'a \<times> Pmm) \<Rightarrow> Kernel \<Rightarrow> 'a \<times> Kernel" where
  "on_pmm f k = (case f (mm_pmm (k_mm k)) of (a, s) \<Rightarrow> (a, k\<lparr>k_mm := (k_mm k)\<lparr>mm_pmm := s\<rparr>\<rparr>))"

definition kernel_stack_discard_unpublished :: "u64 \<Rightarrow> u64 \<Rightarrow> Kernel \<Rightarrow> (bool \<times> Kernel) outcome" where
  "kernel_stack_discard_unpublished physical stack_base k =
     (if physical = 0 \<or> has physical (FRAME_SIZE - 1) then Done (False, k)
      else
        outcome_bind
          (if stack_base \<noteq> 0 then
             if \<not> kernel_map_active k then Done (False, k)
             else if kernel_stack_virtual_released k stack_base then Done (True, k)
             else unmap_mapping physical stack_base k
           else Done (True, k))
          (\<lambda>(ok, k).
             if \<not> ok then Done (False, k)
             else
               let first = phys_to_frame physical in
               if first = FRAME_INVALID then Done (False, k)
               else Done (on_pmm (\<lambda>s. frame_free_range s first THREAD_KERNEL_STACK_PAGES) k)))"

definition kernel_stack_release :: "u64 \<Rightarrow> u64 \<Rightarrow> Kernel \<Rightarrow> (bool \<times> Kernel) outcome" where
  "kernel_stack_release physical stack_base k =
     (if \<not> g_arena_ready (k_stack k) \<or> \<not> kernel_map_active k \<or> physical = 0 \<or> stack_base = 0 then Done (False, k)
      else
        outcome_bind (unmap_mapping physical stack_base k)
          (\<lambda>(ok, k).
             if \<not> ok then Done (False, k)
             else
               let first = phys_to_frame physical in
               if first = FRAME_INVALID then Halt
               else
                 case on_pmm (\<lambda>s. frame_free_range s first THREAD_KERNEL_STACK_PAGES) k of (freed, k) \<Rightarrow>
                 if freed then Done (True, k)
                 else
                   case restore_mapping physical stack_base k of (restored, k) \<Rightarrow>
                   if restored then Done (False, k) else Halt))"

end
