(* ===== verification/Thread_Wait.thy ===== *)
theory Thread_Wait
  imports Process_Threads
begin

text \<open>
  Wait reservations of \<^verbatim>\<open>kernel/thread.c\<close>. A thread that waits carries the kind, the object,
  a result and an identity that is never reissued; completion, cancellation and abort are decided
  by that identity and take effect at most once. The operations change only the wait fields of the
  thread they are given.
\<close>

section \<open>Definitions\<close>

definition thread_current :: "Kernel \<Rightarrow> ptr" where
  "thread_current k = (if \<not> thread_initialized (k_thread k) then 0 else g_current_thread (k_thread k))"

definition wait_kind_valid :: "ThreadWaitKind \<Rightarrow> bool" where
  "wait_kind_valid kind \<longleftrightarrow>
     kind = THREAD_WAIT_IPC_RECEIVE \<or> kind = THREAD_WAIT_IPC_SEND \<or> kind = THREAD_WAIT_PROCESS_EXIT"

definition wait_terminal :: "ThreadWaitResult \<Rightarrow> bool" where
  "wait_terminal result \<longleftrightarrow>
     result = THREAD_WAIT_RESULT_COMPLETED \<or> result = THREAD_WAIT_RESULT_CANCELLED \<or>
     result = THREAD_WAIT_RESULT_PEER_CLOSED \<or> result = THREAD_WAIT_RESULT_TIMED_OUT"

definition wait_clear :: "ptr \<Rightarrow> Kernel \<Rightarrow> Kernel" where
  "wait_clear t k =
     upd_thread t (\<lambda>x. x\<lparr>wait_kind := THREAD_WAIT_NONE, wait_result := THREAD_WAIT_RESULT_NONE,
       wait_object := 0, wait_id := 0\<rparr>) k"

definition thread_valid :: "Kernel \<Rightarrow> ptr \<Rightarrow> bool" where
  "thread_valid k t \<longleftrightarrow>
     thread_initialized (k_thread k) \<and> thread_storage_live k t \<and> th_id (h_thread k t) \<noteq> 0"

definition thread_wait_active :: "Kernel \<Rightarrow> ptr \<Rightarrow> bool" where
  "thread_wait_active k t \<longleftrightarrow>
     thread_valid k t \<and>
     (wait_kind (h_thread k t) \<noteq> THREAD_WAIT_NONE \<or> wait_result (h_thread k t) \<noteq> THREAD_WAIT_RESULT_NONE \<or>
      wait_object (h_thread k t) \<noteq> 0 \<or> wait_id (h_thread k t) \<noteq> 0)"

definition thread_wait_begin :: "ptr \<Rightarrow> ThreadWaitKind \<Rightarrow> ptr \<Rightarrow> Kernel \<Rightarrow> bool \<times> Kernel" where
  "thread_wait_begin t kind object k =
     (if \<not> thread_valid k t \<or> t \<noteq> g_current_thread (k_thread k) \<or> object = 0 \<or> \<not> wait_kind_valid kind \<or>
         g_next_wait_id (k_thread k) = 0 then (False, k)
      else if th_state (h_thread k t) \<noteq> THREAD_STATE_RUNNING \<or> \<not> on_run_queue (h_thread k t) then (False, k)
      else if thread_wait_active k t then (False, k)
      else
        let k = upd_thread t (\<lambda>x. x\<lparr>wait_kind := kind, wait_result := THREAD_WAIT_RESULT_PENDING,
                  wait_object := object, wait_id := g_next_wait_id (k_thread k)\<rparr>) k
        in (True, k\<lparr>k_thread := (k_thread k)\<lparr>g_next_wait_id := g_next_wait_id (k_thread k) + 1\<rparr>\<rparr>))"

definition thread_wait_matches :: "Kernel \<Rightarrow> ptr \<Rightarrow> ThreadWaitKind \<Rightarrow> ptr \<Rightarrow> bool" where
  "thread_wait_matches k t kind object \<longleftrightarrow>
     thread_valid k t \<and> object \<noteq> 0 \<and> wait_kind_valid kind \<and> wait_id (h_thread k t) \<noteq> 0 \<and>
     wait_kind (h_thread k t) = kind \<and> wait_object (h_thread k t) = object"

definition thread_wait_matches_id :: "Kernel \<Rightarrow> ptr \<Rightarrow> ThreadWaitKind \<Rightarrow> ptr \<Rightarrow> u64 \<Rightarrow> bool" where
  "thread_wait_matches_id k t kind object ident \<longleftrightarrow>
     ident \<noteq> 0 \<and> thread_wait_matches k t kind object \<and> wait_id (h_thread k t) = ident"

definition thread_wait_try_complete ::
  "ptr \<Rightarrow> ThreadWaitKind \<Rightarrow> ptr \<Rightarrow> u64 \<Rightarrow> ThreadWaitResult \<Rightarrow> Kernel \<Rightarrow> bool \<times> Kernel" where
  "thread_wait_try_complete t kind object ident result k =
     (if \<not> wait_terminal result \<or> \<not> thread_wait_matches_id k t kind object ident \<or>
         wait_result (h_thread k t) \<noteq> THREAD_WAIT_RESULT_PENDING then (False, k)
      else if th_state (h_thread k t) \<noteq> THREAD_STATE_BLOCKED \<and> th_state (h_thread k t) \<noteq> THREAD_STATE_READY \<and>
         \<not> (t = g_current_thread (k_thread k) \<and> th_state (h_thread k t) = THREAD_STATE_RUNNING) then (False, k)
      else (True, upd_thread t (\<lambda>x. x\<lparr>wait_result := result\<rparr>) k))"

definition thread_wait_cancel :: "ptr \<Rightarrow> ThreadWaitKind \<Rightarrow> ptr \<Rightarrow> Kernel \<Rightarrow> bool \<times> Kernel" where
  "thread_wait_cancel t kind object k =
     (if \<not> thread_wait_matches k t kind object then (False, k)
      else thread_wait_try_complete t kind object (wait_id (h_thread k t)) THREAD_WAIT_RESULT_CANCELLED k)"

definition thread_wait_cancelled :: "Kernel \<Rightarrow> ptr \<Rightarrow> ThreadWaitKind \<Rightarrow> ptr \<Rightarrow> bool" where
  "thread_wait_cancelled k t kind object \<longleftrightarrow>
     thread_wait_matches k t kind object \<and>
     (wait_result (h_thread k t) = THREAD_WAIT_RESULT_CANCELLED \<or>
      wait_result (h_thread k t) = THREAD_WAIT_RESULT_PEER_CLOSED)"

definition thread_wait_end :: "ptr \<Rightarrow> ThreadWaitKind \<Rightarrow> ptr \<Rightarrow> Kernel \<Rightarrow> bool \<times> Kernel" where
  "thread_wait_end t kind object k =
     (if t \<noteq> g_current_thread (k_thread k) \<or> \<not> thread_wait_matches k t kind object \<or>
         th_state (h_thread k t) \<noteq> THREAD_STATE_RUNNING \<or> \<not> wait_terminal (wait_result (h_thread k t))
      then (False, k) else (True, wait_clear t k))"

definition thread_wait_abort :: "ptr \<Rightarrow> ThreadWaitKind \<Rightarrow> ptr \<Rightarrow> Kernel \<Rightarrow> bool \<times> Kernel" where
  "thread_wait_abort t kind object k =
     (if t = g_current_thread (k_thread k) \<or> \<not> thread_wait_matches k t kind object then (False, k)
      else if th_state (h_thread k t) \<noteq> THREAD_STATE_BLOCKED \<and> th_state (h_thread k t) \<noteq> THREAD_STATE_READY
      then (False, k)
      else
        let k = (if wait_result (h_thread k t) = THREAD_WAIT_RESULT_PENDING
                 then upd_thread t (\<lambda>x. x\<lparr>wait_result := THREAD_WAIT_RESULT_CANCELLED\<rparr>) k else k)
        in if \<not> wait_terminal (wait_result (h_thread k t)) then (False, k) else (True, wait_clear t k))"

section \<open>The wait of a thread\<close>

text \<open>The abstract reservation: kind, object, identity and result while one is held.\<close>

definition wait_of :: "Kernel \<Rightarrow> ptr \<Rightarrow> (ThreadWaitKind \<times> ptr \<times> u64 \<times> ThreadWaitResult) option" where
  "wait_of k t =
     (if thread_wait_active k t
      then Some (wait_kind (h_thread k t), wait_object (h_thread k t), wait_id (h_thread k t), wait_result (h_thread k t))
      else None)"

text \<open>Reservations are whole: all fields set, or all clear.\<close>

definition wait_ok :: "Kernel \<Rightarrow> bool" where
  "wait_ok k \<longleftrightarrow>
     (\<forall>t. thread_wait_active k t \<longrightarrow>
        wait_kind_valid (wait_kind (h_thread k t)) \<and> wait_object (h_thread k t) \<noteq> 0 \<and>
        wait_id (h_thread k t) \<noteq> 0 \<and> wait_result (h_thread k t) \<noteq> THREAD_WAIT_RESULT_NONE)"

lemma thread_valid_upd [simp]:
  "\<lbrakk>\<And>x. th_id (f x) = th_id x\<rbrakk> \<Longrightarrow> thread_valid (upd_thread t f k) u = thread_valid k u"
  by (simp add: thread_valid_def live_defs upd_thread_def)

lemma upd_thread_sel [simp]:
  "h_thread (upd_thread t f k) = (h_thread k)(t := f (h_thread k t))" "k_thread (upd_thread t f k) = k_thread k"
  "h_process (upd_thread t f k) = h_process k" "k_process (upd_thread t f k) = k_process k"
  by (simp_all add: upd_thread_def)

lemma wait_matches_iff:
  "thread_wait_matches k t kind object \<longleftrightarrow>
     object \<noteq> 0 \<and> wait_kind_valid kind \<and>
     (\<exists>ident result. ident \<noteq> 0 \<and> wait_of k t = Some (kind, object, ident, result))"
  by (auto simp: thread_wait_matches_def wait_of_def thread_wait_active_def)

lemma wait_of_Some:
  "wait_of k t = Some (kind, object, ident, result) \<longleftrightarrow>
     thread_wait_active k t \<and> wait_kind (h_thread k t) = kind \<and> wait_object (h_thread k t) = object \<and>
     wait_id (h_thread k t) = ident \<and> wait_result (h_thread k t) = result"
  by (auto simp: wait_of_def)

text \<open>What each operation does to the reservations.\<close>

lemma wait_of_upd:
  assumes "thread_valid k' = thread_valid k" and "h_thread k' = (h_thread k)(t := x)"
  shows "wait_of k' = (wait_of k)(t :=
    (if thread_valid k t \<and> (wait_kind x \<noteq> THREAD_WAIT_NONE \<or> wait_result x \<noteq> THREAD_WAIT_RESULT_NONE \<or>
        wait_object x \<noteq> 0 \<or> wait_id x \<noteq> 0)
     then Some (wait_kind x, wait_object x, wait_id x, wait_result x) else None))"
  (is "_ = ?w")
proof
  fix u
  show "wait_of k' u = ?w u"
    by (cases "u = t") (simp_all add: wait_of_def thread_wait_active_def assms)
qed

lemma wait_begin_effect:
  assumes "thread_wait_begin t kind object k = (True, k')"
  shows "wait_of k t = None" and "wait_of k' = (wait_of k)(t \<mapsto> (kind, object, g_next_wait_id (k_thread k), THREAD_WAIT_RESULT_PENDING))"
    and "g_next_wait_id (k_thread k) \<noteq> 0" and "g_next_wait_id (k_thread k') = g_next_wait_id (k_thread k) + 1"
    and "object \<noteq> 0" and "wait_kind_valid kind" and "thread_valid k' = thread_valid k"
proof -
  have c: "thread_valid k t" "object \<noteq> 0" "wait_kind_valid kind" "g_next_wait_id (k_thread k) \<noteq> 0" "\<not> thread_wait_active k t"
    and k': "k' = (upd_thread t (\<lambda>x. x\<lparr>wait_kind := kind, wait_result := THREAD_WAIT_RESULT_PENDING,
                  wait_object := object, wait_id := g_next_wait_id (k_thread k)\<rparr>) k)
        \<lparr>k_thread := (k_thread k)\<lparr>g_next_wait_id := g_next_wait_id (k_thread k) + 1\<rparr>\<rparr>"
    using assms by (auto simp: thread_wait_begin_def Let_def split: if_splits)
  show "object \<noteq> 0" "wait_kind_valid kind" "g_next_wait_id (k_thread k) \<noteq> 0" by fact+
  show "wait_of k t = None" using c by (simp add: wait_of_def)
  show v: "thread_valid k' = thread_valid k" by (simp add: fun_eq_iff k' thread_valid_def live_defs upd_thread_def)
  show "g_next_wait_id (k_thread k') = g_next_wait_id (k_thread k) + 1" by (simp add: k')
  have h: "h_thread k' = (h_thread k)(t := (h_thread k t)\<lparr>wait_kind := kind, wait_result := THREAD_WAIT_RESULT_PENDING,
      wait_object := object, wait_id := g_next_wait_id (k_thread k)\<rparr>)" by (simp add: k')
  show "wait_of k' = (wait_of k)(t \<mapsto> (kind, object, g_next_wait_id (k_thread k), THREAD_WAIT_RESULT_PENDING))"
    unfolding wait_of_upd [OF v h] using c by (simp add: wait_kind_valid_def)
qed

lemma wait_complete_effect:
  assumes "thread_wait_try_complete t kind object ident result k = (True, k')"
  shows "wait_of k t = Some (kind, object, ident, THREAD_WAIT_RESULT_PENDING)"
    and "wait_of k' = (wait_of k)(t \<mapsto> (kind, object, ident, result))"
    and "wait_terminal result" and "k_thread k' = k_thread k" and "thread_valid k' = thread_valid k"
proof -
  have c: "wait_terminal result" "thread_wait_matches_id k t kind object ident"
      "wait_result (h_thread k t) = THREAD_WAIT_RESULT_PENDING"
    and k': "k' = upd_thread t (\<lambda>x. x\<lparr>wait_result := result\<rparr>) k"
    using assms by (auto simp: thread_wait_try_complete_def split: if_splits)
  show "wait_terminal result" by fact
  show v: "thread_valid k' = thread_valid k" "k_thread k' = k_thread k" by (simp_all add: fun_eq_iff k')
  have h: "h_thread k' = (h_thread k)(t := (h_thread k t)\<lparr>wait_result := result\<rparr>)" by (simp add: k')
  show "wait_of k t = Some (kind, object, ident, THREAD_WAIT_RESULT_PENDING)"
    using c by (auto simp: wait_of_def thread_wait_active_def thread_wait_matches_id_def thread_wait_matches_def)
  show "wait_of k' = (wait_of k)(t \<mapsto> (kind, object, ident, result))"
    unfolding wait_of_upd [OF v(1) h] using c by (auto simp: thread_wait_matches_id_def thread_wait_matches_def)
qed

lemma wait_clear_effect:
  shows "wait_of (wait_clear t k) = (wait_of k)(t := None)" and "k_thread (wait_clear t k) = k_thread k"
    and "thread_valid (wait_clear t k) = thread_valid k"
proof -
  show v: "thread_valid (wait_clear t k) = thread_valid k" "k_thread (wait_clear t k) = k_thread k"
    by (simp_all add: fun_eq_iff wait_clear_def)
  have h: "h_thread (wait_clear t k) = (h_thread k)(t := (h_thread k t)\<lparr>wait_kind := THREAD_WAIT_NONE,
      wait_result := THREAD_WAIT_RESULT_NONE, wait_object := 0, wait_id := 0\<rparr>)" by (simp add: wait_clear_def)
  show "wait_of (wait_clear t k) = (wait_of k)(t := None)"
    unfolding wait_of_upd [OF v(1) h] by simp
qed

lemma wait_end_effect:
  assumes "thread_wait_end t kind object k = (True, k')"
  shows "\<exists>ident result. wait_of k t = Some (kind, object, ident, result) \<and> wait_terminal result"
    and "k' = wait_clear t k" and "t = g_current_thread (k_thread k)"
  using assms by (auto simp: thread_wait_end_def wait_of_def thread_wait_active_def thread_wait_matches_def split: if_splits)

lemma wait_abort_effect:
  assumes "thread_wait_abort t kind object k = (True, k')"
  shows "\<exists>ident result. wait_of k t = Some (kind, object, ident, result)"
    and "wait_of k' = (wait_of k)(t := None)" and "k_thread k' = k_thread k" and "thread_valid k' = thread_valid k"
    and "t \<noteq> g_current_thread (k_thread k)"
proof -
  define k1 where "k1 = (if wait_result (h_thread k t) = THREAD_WAIT_RESULT_PENDING
    then upd_thread t (\<lambda>x. x\<lparr>wait_result := THREAD_WAIT_RESULT_CANCELLED\<rparr>) k else k)"
  have m: "thread_wait_matches k t kind object" and k': "k' = wait_clear t k1"
    and c: "t \<noteq> g_current_thread (k_thread k)"
    using assms by (auto simp: thread_wait_abort_def Let_def k1_def split: if_splits)
  have v: "thread_valid k1 = thread_valid k" "k_thread k1 = k_thread k" by (simp_all add: k1_def fun_eq_iff)
  have w: "wait_of k1 u = wait_of k u" if "u \<noteq> t" for u
    using that by (simp add: wait_of_def thread_wait_active_def v) (simp add: k1_def)
  show "t \<noteq> g_current_thread (k_thread k)" by fact
  show "\<exists>ident result. wait_of k t = Some (kind, object, ident, result)" using m by (auto simp: wait_matches_iff)
  show "wait_of k' = (wait_of k)(t := None)"
    unfolding k' wait_clear_effect(1) using w by (simp add: fun_eq_iff)
  show "k_thread k' = k_thread k" "thread_valid k' = thread_valid k" by (simp_all add: k' wait_clear_effect v)
qed

section \<open>Identities of waits\<close>

definition wait_begins :: "Kernel \<Rightarrow> ptr \<Rightarrow> Kernel \<Rightarrow> bool" where
  "wait_begins k t k' \<longleftrightarrow> (\<exists>kind object. thread_wait_begin t kind object k = (True, k'))"

definition wait_ends :: "Kernel \<Rightarrow> ptr \<Rightarrow> Kernel \<Rightarrow> bool" where
  "wait_ends k t k' \<longleftrightarrow>
     (\<exists>kind object. thread_wait_end t kind object k = (True, k') \<or> thread_wait_abort t kind object k = (True, k'))"

lemma wait_active_of: "thread_wait_active k t \<longleftrightarrow> wait_of k t \<noteq> None"
  by (simp add: wait_of_def)

lemma wait_id_of: "wait_of k t = Some (kind, object, ident, result) \<Longrightarrow> wait_id (h_thread k t) = ident"
  by (auto simp: wait_of_def split: if_splits)

lemma wait_id_same:
  "wait_of k' t = wait_of k t \<Longrightarrow> thread_wait_active k t \<Longrightarrow> wait_id (h_thread k' t) = wait_id (h_thread k t)"
  by (auto simp: wait_of_def split: if_splits)

interpretation wait_ids: id_issuer thread_wait_active "\<lambda>k t. wait_id (h_thread k t)"
  "\<lambda>k. g_next_wait_id (k_thread k)" wait_begins wait_ends
proof unfold_locales
  fix k t k' u
  assume "wait_begins k t k'"
  then obtain kind object where ok: "thread_wait_begin t kind object k = (True, k')" by (auto simp: wait_begins_def)
  note eff = wait_begin_effect [OF ok]
  show "g_next_wait_id (k_thread k) \<noteq> 0 \<and> g_next_wait_id (k_thread k') = g_next_wait_id (k_thread k) + 1"
    using eff(3,4) by simp
  show "wait_id (h_thread k' t) = g_next_wait_id (k_thread k)" by (rule wait_id_of) (simp add: eff(2))
  show "thread_wait_active k' u = (u = t \<or> thread_wait_active k u)" "\<not> thread_wait_active k t"
    by (simp_all add: wait_active_of eff(1,2))
  show "u \<noteq> t \<Longrightarrow> thread_wait_active k u \<Longrightarrow> wait_id (h_thread k' u) = wait_id (h_thread k u)"
    by (rule wait_id_same) (simp_all add: eff(2))
next
  fix k t k' u
  assume "wait_ends k t k'"
  then obtain kind object where
    "thread_wait_end t kind object k = (True, k') \<or> thread_wait_abort t kind object k = (True, k')"
    by (auto simp: wait_ends_def)
  then have "wait_of k' = (wait_of k)(t := None) \<and> k_thread k' = k_thread k"
  proof
    assume "thread_wait_end t kind object k = (True, k')"
    from wait_end_effect(2) [OF this] show ?thesis by (simp add: wait_clear_effect)
  next
    assume "thread_wait_abort t kind object k = (True, k')"
    from wait_abort_effect(2,3) [OF this] show ?thesis by simp
  qed
  then have w: "wait_of k' = (wait_of k)(t := None)" and n: "k_thread k' = k_thread k" by simp_all
  show "g_next_wait_id (k_thread k') = g_next_wait_id (k_thread k)" by (simp add: n)
  show "thread_wait_active k' u = (u \<noteq> t \<and> thread_wait_active k u)" by (simp add: wait_active_of w)
  show "thread_wait_active k' u \<Longrightarrow> wait_id (h_thread k' u) = wait_id (h_thread k u)"
    by (rule wait_id_same) (auto simp: w wait_active_of split: if_splits)
qed

section \<open>Properties\<close>

lemma wait_ok_of:
  "wait_ok k \<longleftrightarrow> (\<forall>t kind object ident result. wait_of k t = Some (kind, object, ident, result) \<longrightarrow>
     wait_kind_valid kind \<and> object \<noteq> 0 \<and> ident \<noteq> 0 \<and> result \<noteq> THREAD_WAIT_RESULT_NONE)"
  by (simp add: wait_ok_def wait_of_Some)

definition wait_runnable :: "Kernel \<Rightarrow> ptr \<Rightarrow> bool" where
  "wait_runnable k t \<longleftrightarrow>
     th_state (h_thread k t) = THREAD_STATE_BLOCKED \<or> th_state (h_thread k t) = THREAD_STATE_READY \<or>
     t = g_current_thread (k_thread k) \<and> th_state (h_thread k t) = THREAD_STATE_RUNNING"

lemma not_terminal: "\<not> wait_terminal r \<longleftrightarrow> r = THREAD_WAIT_RESULT_NONE \<or> r = THREAD_WAIT_RESULT_PENDING"
  by (cases r) (simp_all add: wait_terminal_def)

lemma try_complete_iff:
  assumes "wait_ok k"
  shows "fst (thread_wait_try_complete t kind object ident result k) \<longleftrightarrow>
    wait_terminal result \<and> wait_of k t = Some (kind, object, ident, THREAD_WAIT_RESULT_PENDING) \<and> wait_runnable k t"
  using assms
  by (auto simp: thread_wait_try_complete_def wait_runnable_def wait_of_Some thread_wait_matches_id_def
      thread_wait_matches_def thread_wait_active_def wait_ok_def)

lemma wait_end_iff:
  assumes "wait_ok k"
  shows "fst (thread_wait_end t kind object k) \<longleftrightarrow>
    t = g_current_thread (k_thread k) \<and> th_state (h_thread k t) = THREAD_STATE_RUNNING \<and>
    (\<exists>ident result. wait_of k t = Some (kind, object, ident, result) \<and> wait_terminal result)"
  using assms
  by (auto simp: thread_wait_end_def wait_of_Some thread_wait_matches_def thread_wait_active_def wait_ok_def)

lemma wait_abort_cases:
  assumes "wait_ok k"
  shows "thread_wait_abort t kind object k =
    (if t \<noteq> g_current_thread (k_thread k) \<and> thread_wait_matches k t kind object \<and>
        (th_state (h_thread k t) = THREAD_STATE_BLOCKED \<or> th_state (h_thread k t) = THREAD_STATE_READY)
     then (True, wait_clear t (if wait_result (h_thread k t) = THREAD_WAIT_RESULT_PENDING
        then upd_thread t (\<lambda>x. x\<lparr>wait_result := THREAD_WAIT_RESULT_CANCELLED\<rparr>) k else k))
     else (False, k))"
proof -
  have "wait_result (h_thread k t) \<noteq> THREAD_WAIT_RESULT_NONE" if "thread_wait_matches k t kind object"
    using assms that by (auto simp: wait_ok_def thread_wait_matches_def thread_wait_active_def)
  moreover have "wait_terminal THREAD_WAIT_RESULT_CANCELLED" by (simp add: wait_terminal_def)
  ultimately show ?thesis using not_terminal by (auto simp: thread_wait_abort_def Let_def)
qed

text \<open>C26. The wait operations refine a reservation per thread. A wait begins only on a
  thread without one and gets the next identity; a completion succeeds exactly when the kind,
  object and identity match a pending reservation of a runnable or parked thread and records the
  terminal result; only the running owner ends a terminal wait; forced termination clears the
  reservation of a thread that does not run. Each touches no other thread's reservation, keeps
  reservations whole, and changes nothing when it fails.\<close>

theorem wait_protocol_refines:
  assumes ok: "wait_ok k"
  shows "(case thread_wait_begin t kind object k of (b, k') \<Rightarrow>
      if b then wait_of k t = None \<and> wait_ok k' \<and>
        wait_of k' = (wait_of k)(t \<mapsto> (kind, object, g_next_wait_id (k_thread k), THREAD_WAIT_RESULT_PENDING))
      else k' = k) \<and>
    (case thread_wait_try_complete t kind object ident result k of (b, k') \<Rightarrow>
      (b \<longleftrightarrow> wait_terminal result \<and> wait_of k t = Some (kind, object, ident, THREAD_WAIT_RESULT_PENDING) \<and> wait_runnable k t) \<and>
      (if b then wait_ok k' \<and> wait_of k' = (wait_of k)(t \<mapsto> (kind, object, ident, result)) else k' = k)) \<and>
    (case thread_wait_end t kind object k of (b, k') \<Rightarrow>
      (b \<longleftrightarrow> t = g_current_thread (k_thread k) \<and> th_state (h_thread k t) = THREAD_STATE_RUNNING \<and>
         (\<exists>i r. wait_of k t = Some (kind, object, i, r) \<and> wait_terminal r)) \<and>
      (if b then wait_ok k' \<and> wait_of k' = (wait_of k)(t := None) else k' = k)) \<and>
    (case thread_wait_abort t kind object k of (b, k') \<Rightarrow>
      (b \<longleftrightarrow> t \<noteq> g_current_thread (k_thread k) \<and> thread_wait_matches k t kind object \<and>
         (th_state (h_thread k t) = THREAD_STATE_BLOCKED \<or> th_state (h_thread k t) = THREAD_STATE_READY)) \<and>
      (if b then wait_ok k' \<and> wait_of k' = (wait_of k)(t := None) else k' = k))"
proof (intro conjI)
  have drop: "wait_ok k'" if "wait_of k' = (wait_of k)(t := None)" for k'
    using ok that by (auto simp: wait_ok_of)
  show "case thread_wait_begin t kind object k of (b, k') \<Rightarrow>
      if b then wait_of k t = None \<and> wait_ok k' \<and>
        wait_of k' = (wait_of k)(t \<mapsto> (kind, object, g_next_wait_id (k_thread k), THREAD_WAIT_RESULT_PENDING))
      else k' = k"
  proof (cases "thread_wait_begin t kind object k")
    case (Pair b k')
    show ?thesis
    proof (cases b)
      case True
      then have "thread_wait_begin t kind object k = (True, k')" using Pair by simp
      note eff = wait_begin_effect [OF this]
      have "wait_ok k'" using ok eff(3,5,6) by (auto simp: wait_ok_of eff(2))
      then show ?thesis using Pair True eff(1,2) by simp
    next
      case False
      then show ?thesis using Pair by (auto simp: thread_wait_begin_def Let_def split: if_splits)
    qed
  qed
  show "case thread_wait_try_complete t kind object ident result k of (b, k') \<Rightarrow>
      (b \<longleftrightarrow> wait_terminal result \<and> wait_of k t = Some (kind, object, ident, THREAD_WAIT_RESULT_PENDING) \<and> wait_runnable k t) \<and>
      (if b then wait_ok k' \<and> wait_of k' = (wait_of k)(t \<mapsto> (kind, object, ident, result)) else k' = k)"
  proof (cases "thread_wait_try_complete t kind object ident result k")
    case (Pair b k')
    show ?thesis
    proof (cases b)
      case True
      then have "thread_wait_try_complete t kind object ident result k = (True, k')" using Pair by simp
      note eff = wait_complete_effect [OF this]
      have "wait_ok k'" using ok eff(1,3) by (auto simp: wait_ok_of eff(2) wait_terminal_def)
      then show ?thesis using Pair True eff(2) try_complete_iff [OF ok, of t kind object ident result] by simp
    next
      case False
      then show ?thesis using Pair try_complete_iff [OF ok, of t kind object ident result]
        by (auto simp: thread_wait_try_complete_def split: if_splits)
    qed
  qed
  show "case thread_wait_end t kind object k of (b, k') \<Rightarrow>
      (b \<longleftrightarrow> t = g_current_thread (k_thread k) \<and> th_state (h_thread k t) = THREAD_STATE_RUNNING \<and>
         (\<exists>i r. wait_of k t = Some (kind, object, i, r) \<and> wait_terminal r)) \<and>
      (if b then wait_ok k' \<and> wait_of k' = (wait_of k)(t := None) else k' = k)"
  proof (cases "thread_wait_end t kind object k")
    case (Pair b k')
    then have "k' = (if b then wait_clear t k else k)" by (auto simp: thread_wait_end_def split: if_splits)
    then show ?thesis
      using Pair wait_end_iff [OF ok, of t kind object] drop [of "wait_clear t k"] wait_clear_effect(1) [of t k]
      by (cases b) (auto simp del: fun_upd_apply)
  qed
  show "case thread_wait_abort t kind object k of (b, k') \<Rightarrow>
      (b \<longleftrightarrow> t \<noteq> g_current_thread (k_thread k) \<and> thread_wait_matches k t kind object \<and>
         (th_state (h_thread k t) = THREAD_STATE_BLOCKED \<or> th_state (h_thread k t) = THREAD_STATE_READY)) \<and>
      (if b then wait_ok k' \<and> wait_of k' = (wait_of k)(t := None) else k' = k)"
  proof (cases "thread_wait_abort t kind object k")
    case (Pair b k')
    then show ?thesis
      using wait_abort_cases [OF ok, of t kind object] drop [of k'] wait_abort_effect(2) [of t kind object k k']
      by (cases b) (auto split: if_splits)
  qed
qed

text \<open>The current thread at 512 waits on the object at 64.\<close>

definition demo_wait :: Kernel where
  "demo_wait = small_kernel\<lparr>
     h_thread := (\<lambda>_. zero_thread)(512 := zero_thread\<lparr>th_id := 2, th_state := THREAD_STATE_RUNNING,
       on_run_queue := True, wait_kind := THREAD_WAIT_IPC_RECEIVE, wait_object := 64, wait_id := 1,
       wait_result := THREAD_WAIT_RESULT_PENDING\<rparr>),
     k_thread := (k_thread small_kernel)\<lparr>g_current_thread := 512, g_thread_storage := [512], g_next_wait_id := 2\<rparr>\<rparr>"

lemma demo_wait_active: "thread_wait_active demo_wait t \<longleftrightarrow> t = 512"
  by (auto simp: thread_wait_active_def thread_valid_def live_defs demo_wait_def small_kernel_def)

lemma demo_wait_ok: "wait_ok demo_wait" "wait_ids.id_inv demo_wait"
  by (simp_all add: wait_ok_def wait_ids.id_inv_def demo_wait_active)
    (simp_all add: demo_wait_def wait_kind_valid_def word_nat)

lemma demo_complete:
  "\<exists>k'. thread_wait_try_complete 512 THREAD_WAIT_IPC_RECEIVE 64 1 THREAD_WAIT_RESULT_TIMED_OUT demo_wait = (True, k')"
  by (simp add: thread_wait_try_complete_def wait_terminal_def thread_wait_matches_id_def thread_wait_matches_def
      thread_valid_def live_defs wait_kind_valid_def) (simp add: demo_wait_def small_kernel_def)

theorem wait_protocol_refines_witness:
  "wait_of demo_wait 512 = Some (THREAD_WAIT_IPC_RECEIVE, 64, 1, THREAD_WAIT_RESULT_PENDING) \<and>
   (\<exists>k'. thread_wait_try_complete 512 THREAD_WAIT_IPC_RECEIVE 64 1 THREAD_WAIT_RESULT_TIMED_OUT demo_wait = (True, k') \<and>
      wait_of k' 512 = Some (THREAD_WAIT_IPC_RECEIVE, 64, 1, THREAD_WAIT_RESULT_TIMED_OUT))"
proof -
  obtain k' where k': "thread_wait_try_complete 512 THREAD_WAIT_IPC_RECEIVE 64 1 THREAD_WAIT_RESULT_TIMED_OUT demo_wait = (True, k')"
    using demo_complete by blast
  then show ?thesis
    using wait_protocol_refines [OF demo_wait_ok(1), where t = 512 and kind = THREAD_WAIT_IPC_RECEIVE and object = 64 and
        ident = 1 and result = THREAD_WAIT_RESULT_TIMED_OUT]
    by simp
qed

end
