(* ===== verification/Thread.thy ===== *)
theory Thread
  imports Kernel_Stack Thread_Wait
begin

text \<open>
  Threads, \<^verbatim>\<open>kernel/thread.c\<close>: creation with a guarded kernel stack and its rollback,
  the first interrupt context, activation (address space and entry stack), the scheduler's idle
  transitions and destruction. The wait reservations of the same file are in the theory
  \<open>Thread_Wait\<close>. The address of \<^verbatim>\<open>thread_kernel_trampoline\<close> is an argument of
  \<open>thread_prepare_kernel\<close>.
\<close>

section \<open>Definitions\<close>

abbreviation (input) GDT_KERNEL_CODE_SELECTOR :: u64 where "GDT_KERNEL_CODE_SELECTOR \<equiv> 0x08"
abbreviation (input) GDT_KERNEL_DATA_SELECTOR :: u64 where "GDT_KERNEL_DATA_SELECTOR \<equiv> 0x10"
abbreviation (input) GDT_USER_DATA_SELECTOR :: u64 where "GDT_USER_DATA_SELECTOR \<equiv> 0x1B"
abbreviation (input) GDT_USER_CODE_SELECTOR :: u64 where "GDT_USER_CODE_SELECTOR \<equiv> 0x23"
abbreviation (input) interrupt_frame_size :: u64 where "interrupt_frame_size \<equiv> 176"

abbreviation upd_thread_module :: "(ThreadModule \<Rightarrow> ThreadModule) \<Rightarrow> Kernel \<Rightarrow> Kernel" where
  "upd_thread_module f k \<equiv> k\<lparr>k_thread := f (k_thread k)\<rparr>"

text \<open>
  The word at the anchor stays outside the model of the saved frame, whose 176 bytes start at
  \<open>frame_address\<close>.
\<close>

definition thread_build_interrupt_context ::
  "ptr \<Rightarrow> u64 \<Rightarrow> u64 \<Rightarrow> u64 \<Rightarrow> u64 \<Rightarrow> u64 \<Rightarrow> Kernel \<Rightarrow> bool \<times> Kernel" where
  "thread_build_interrupt_context t rip cs rflags return_rsp return_ss k =
     (let th = h_thread k t in
      if t = 0 \<or> rip = 0 \<or> cs = 0 \<or> return_rsp = 0 \<or> return_ss = 0 \<or> kernel_stack_base th = 0 \<or>
         kernel_stack_top th = 0 then (False, k)
      else
        let anchor = kernel_stack_top th - 8 in
        if anchor < kernel_stack_base th + interrupt_frame_size then (False, k)
        else
          let frame_address = anchor - interrupt_frame_size;
              k = upd_frame frame_address (\<lambda>_. zero_frame\<lparr>fr_rip := rip, fr_cs := cs, fr_rflags := rflags,
                    fr_rsp := return_rsp, fr_ss := return_ss\<rparr>) k
          in (True, upd_thread t (\<lambda>x. x\<lparr>interrupt_rsp := frame_address,
                interrupt_context_ready := True\<rparr>) k))"

definition thread_reclaim_unpublished_stack :: "Kernel \<Rightarrow> (bool \<times> Kernel) outcome" where
  "thread_reclaim_unpublished_stack k =
     outcome_bind
       (if g_unpublished_stack (k_thread k) = 0 then Done (True, k)
        else kernel_stack_discard_unpublished (g_unpublished_stack (k_thread k))
               (g_unpublished_stack_virtual (k_thread k)) k)
       (\<lambda>(result, k).
          Done (result,
            if result then upd_thread_module (\<lambda>m. m\<lparr>g_unpublished_stack := 0, g_unpublished_stack_virtual := 0\<rparr>) k
            else k))"

definition thread_creation_cleanup_pending :: "Kernel \<Rightarrow> bool" where
  "thread_creation_cleanup_pending k \<longleftrightarrow>
     g_unpublished_stack (k_thread k) \<noteq> 0 \<or> g_unpublished_stack_virtual (k_thread k) \<noteq> 0"

definition no_thread_fault :: ThreadCreateFault where
  "no_thread_fault = \<lparr>tf_target = 0, tf_fault = THREAD_CREATE_TEST_ALLOCATE,
     tf_fail_rollback = False, tf_armed = False\<rparr>"

definition thread_test_fail_create_once ::
  "ptr \<Rightarrow> ThreadCreateTestFault \<Rightarrow> bool \<Rightarrow> Kernel \<Rightarrow> bool \<times> Kernel" where
  "thread_test_fail_create_once target fault fail_rollback k =
     (if target = 0 \<or> (fault = THREAD_CREATE_TEST_ALLOCATE \<and> fail_rollback) then (False, k)
      else if \<not> tf_armed (thread_create_fault_state (k_thread k)) \<and> \<not> thread_storage_live k target \<and>
         g_unpublished_stack (k_thread k) = 0 \<and> g_unpublished_stack_virtual (k_thread k) = 0 \<and>
         \<not> pmm_test_free_failure_armed (mm_pmm (k_mm k))
      then (True, upd_thread_module (\<lambda>m. m\<lparr>thread_create_fault_state := \<lparr>tf_target = target,
              tf_fault = fault, tf_fail_rollback = fail_rollback, tf_armed = True\<rparr>\<rparr>) k)
      else (False, k))"

definition thread_test_create_fault_armed :: "Kernel \<Rightarrow> bool" where
  "thread_test_create_fault_armed k = tf_armed (thread_create_fault_state (k_thread k))"

definition thread_test_clear_create_fault :: "Kernel \<Rightarrow> Kernel" where
  "thread_test_clear_create_fault k =
     upd_thread_module (\<lambda>m. m\<lparr>thread_create_fault_state := no_thread_fault\<rparr>) k"

definition thread_test_unpublished_stack :: "Kernel \<Rightarrow> frame_t" where
  "thread_test_unpublished_stack k =
     (if g_unpublished_stack (k_thread k) \<noteq> 0 then phys_to_frame (g_unpublished_stack (k_thread k))
      else FRAME_INVALID)"

definition thread_create_fault :: "ptr \<Rightarrow> ThreadCreateTestFault \<Rightarrow> u64 \<Rightarrow> Kernel \<Rightarrow> bool \<times> Kernel" where
  "thread_create_fault target fault physical k =
     (let f = thread_create_fault_state (k_thread k) in
      if \<not> tf_armed f \<or> tf_target f \<noteq> target \<or> tf_fault f \<noteq> fault then (False, k)
      else
        let k = thread_test_clear_create_fault k in
        (True,
         if tf_fail_rollback f
         then snd (on_pmm (\<lambda>s. pmm_test_fail_free_range_once s (phys_to_frame physical)
                THREAD_KERNEL_STACK_PAGES) k)
         else k))"

definition thread_prepare_kernel :: "u64 \<Rightarrow> ptr \<Rightarrow> ptr \<Rightarrow> ptr \<Rightarrow> Kernel \<Rightarrow> bool \<times> Kernel" where
  "thread_prepare_kernel trampoline t entry argument k =
     (let th = h_thread k t in
      if \<not> thread_initialized (k_thread k) \<or> \<not> thread_storage_live k t \<or>
         t = g_current_thread (k_thread k) \<or> th_id th = 0 \<or> entry = 0 \<or>
         th_state th \<noteq> THREAD_STATE_READY \<or> \<not> owns_kernel_stack th then (False, k)
      else if kernel_stack_base th = 0 \<or> kernel_stack_top th = 0 \<or>
         kernel_stack_top th \<le> kernel_stack_base th then (False, k)
      else if has (kernel_stack_top th) 0xF then (False, k)
      else if kernel_stack_top th - kernel_stack_base th < 8 then (False, k)
      else if interrupt_context_ready th \<or> interrupt_rsp th \<noteq> 0 then (False, k)
      else
        let initial_rsp = kernel_stack_top th - 8;
            k = upd_thread t (\<lambda>x. x\<lparr>th_entry := entry, th_argument := argument\<rparr>) k
        in
        case thread_build_interrupt_context t trampoline GDT_KERNEL_CODE_SELECTOR 0x202 initial_rsp
               GDT_KERNEL_DATA_SELECTOR k of (built, k) \<Rightarrow>
        if built then (True, k)
        else (False, upd_thread t (\<lambda>x. x\<lparr>th_entry := 0, th_argument := 0\<rparr>) k))"

definition user_code_page_ok :: "Kernel \<Rightarrow> ptr \<Rightarrow> u64 \<Rightarrow> bool" where
  "user_code_page_ok k space page =
     (case address_space_query_page k space page of
        None \<Rightarrow> False
      | Some (frame, flags) \<Rightarrow> has flags VM_USER \<and> has flags VM_EXEC \<and> \<not> has flags VM_WRITE)"

definition user_stack_page_ok :: "Kernel \<Rightarrow> ptr \<Rightarrow> u64 \<Rightarrow> bool" where
  "user_stack_page_ok k space page =
     (case address_space_query_page k space page of
        None \<Rightarrow> False
      | Some (frame, flags) \<Rightarrow> has flags VM_USER \<and> has flags VM_WRITE \<and> \<not> has flags VM_EXEC)"

definition thread_prepare_user :: "ptr \<Rightarrow> u64 \<Rightarrow> u64 \<Rightarrow> Kernel \<Rightarrow> bool \<times> Kernel" where
  "thread_prepare_user t user_rip user_rsp k =
     (let th = h_thread k t in
      if \<not> thread_initialized (k_thread k) \<or> \<not> thread_storage_live k t \<or>
         t = g_current_thread (k_thread k) \<or> th_id th = 0 \<or> th_process th = 0 \<or>
         th_state th \<noteq> THREAD_STATE_READY \<or> \<not> owns_kernel_stack th then (False, k)
      else
        let process = th_process th; space = process_address_space k process in
        if space = 0 \<or> pr_kernel (h_process k process) \<or> sp_kernel (h_space k space) \<or>
           address_space_cr3 k space = 0 then (False, k)
        else if kernel_stack_base th = 0 \<or> kernel_stack_top th = 0 \<or>
           kernel_stack_top th \<le> kernel_stack_base th then (False, k)
        else if has (kernel_stack_top th) 0xF then (False, k)
        else if interrupt_context_ready th \<or> interrupt_rsp th \<noteq> 0 then (False, k)
        else if user_rip < ADDRESS_SPACE_USER_BASE \<or> user_rip \<ge> ADDRESS_SPACE_USER_LIMIT then (False, k)
        else if user_rsp \<le> ADDRESS_SPACE_USER_BASE \<or> user_rsp > ADDRESS_SPACE_USER_LIMIT then (False, k)
        else if \<not> user_code_page_ok k space (user_rip AND NOT (VM_PAGE_SIZE - 1)) then (False, k)
        else if \<not> user_stack_page_ok k space ((user_rsp - 1) AND NOT (VM_PAGE_SIZE - 1)) then (False, k)
        else
          thread_build_interrupt_context t user_rip GDT_USER_CODE_SELECTOR 0x202 user_rsp
            GDT_USER_DATA_SELECTOR (upd_thread t (\<lambda>x. x\<lparr>th_entry := 0, th_argument := 0\<rparr>) k))"

definition thread_system_init :: "ptr \<Rightarrow> u64 \<Rightarrow> u64 \<Rightarrow> u64 \<Rightarrow> Kernel \<Rightarrow> bool \<times> Kernel" where
  "thread_system_init kernel_process bootstrap_stack_base bootstrap_stack_size bootstrap_stack_top k =
     (let b = g_bootstrap_thread (k_thread k) in
      if thread_initialized (k_thread k) \<or> kernel_process = 0 \<or>
         \<not> pr_initialized (h_process k kernel_process) \<or> \<not> pr_kernel (h_process k kernel_process) \<or>
         bootstrap_stack_base = 0 \<or> bootstrap_stack_size = 0 \<or> bootstrap_stack_top = 0 then (False, k)
      else
        let kernel_space = process_address_space k kernel_process in
        if kernel_space = 0 \<or> \<not> sp_kernel (h_space k kernel_space) \<or>
           address_space_cr3 k kernel_space = 0 then (False, k)
        else
          case kernel_stack_arena_init kernel_space bootstrap_stack_base k of (ok, k) \<Rightarrow>
          if \<not> ok then (False, k)
          else if bootstrap_stack_base > NOT 0 - bootstrap_stack_size then (False, k)
          else
            let stack_end = bootstrap_stack_base + bootstrap_stack_size;
                stack_top = bootstrap_stack_top AND NOT 0xF
            in
            if stack_top \<le> bootstrap_stack_base \<or> stack_top > stack_end then (False, k)
            else
              let k = upd_thread b (\<lambda>_. zero_thread\<lparr>th_id := 1, th_process := kernel_process,
                        th_state := THREAD_STATE_RUNNING, kernel_stack_physical := bootstrap_stack_base,
                        kernel_stack_base := bootstrap_stack_base, kernel_stack_top := stack_top,
                        kernel_stack_size := stack_top - bootstrap_stack_base\<rparr>) k
              in
              case process_thread_attach kernel_process b k of (ok, k) \<Rightarrow>
              if \<not> ok then (False, upd_thread b (\<lambda>_. zero_thread) k)
              else
                (True, upd_thread_module (\<lambda>m. m\<lparr>g_thread_storage := (g_thread_storage m)[0 := b],
                   g_current_thread := b, g_next_thread_id := 2, thread_initialized := True\<rparr>) k))"

section \<open>Activation\<close>

definition gdt_set_rsp0 :: "u64 \<Rightarrow> Kernel \<Rightarrow> Kernel" where
  "gdt_set_rsp0 rsp0 k = k\<lparr>k_rsp0 := rsp0\<rparr>"

text \<open>\<^verbatim>\<open>if ((arch_read_cr3() & ~0xFFF) != target_cr3) arch_write_cr3(target_cr3)\<close>\<close>

definition load_cr3 :: "u64 \<Rightarrow> Kernel \<Rightarrow> Kernel" where
  "load_cr3 target_cr3 k =
     (if read_cr3 k AND NOT 0xFFF \<noteq> target_cr3
      then k\<lparr>k_mm := (k_mm k)\<lparr>mm_cpu := (mm_cpu (k_mm k))\<lparr>cr3 := target_cr3\<rparr>\<rparr>\<rparr>
      else k)"

definition thread_activate :: "ptr \<Rightarrow> Kernel \<Rightarrow> bool \<times> Kernel" where
  "thread_activate t k =
     (let th = h_thread k t; current = g_current_thread (k_thread k) in
      if \<not> thread_initialized (k_thread k) \<or> current = 0 \<or> \<not> thread_storage_live k t \<or> th_id th = 0 \<or>
         th_process th = 0 \<or> kernel_stack_top th = 0 then (False, k)
      else if has (kernel_stack_top th) 0xF then (False, k)
      else
        let space = process_address_space k (th_process th) in
        if space = 0 then (False, k)
        else
          let target_cr3 = address_space_cr3 k space in
          if target_cr3 = 0 then (False, k)
          else if t = current then
            if th_state th \<noteq> THREAD_STATE_RUNNING then (False, k)
            else (True, load_cr3 target_cr3 (gdt_set_rsp0 (kernel_stack_top th) k))
          else if th_state th \<noteq> THREAD_STATE_READY then (False, k)
          else if th_state (h_thread k current) \<noteq> THREAD_STATE_RUNNING then (False, k)
          else
            let k = load_cr3 target_cr3 (gdt_set_rsp0 (kernel_stack_top th) k);
                k = upd_thread current (\<lambda>x. x\<lparr>th_state := THREAD_STATE_READY\<rparr>) k;
                k = upd_thread t (\<lambda>x. x\<lparr>th_state := THREAD_STATE_RUNNING\<rparr>) k
            in (True, upd_thread_module (\<lambda>m. m\<lparr>g_current_thread := t\<rparr>) k))"

definition thread_scheduler_enter_idle :: "u64 \<Rightarrow> Kernel \<Rightarrow> bool \<times> Kernel" where
  "thread_scheduler_enter_idle idle_stack_top k =
     (let previous = g_current_thread (k_thread k); th = h_thread k previous in
      if \<not> thread_initialized (k_thread k) \<or> previous = 0 \<or> idle_stack_top = 0 \<or> has idle_stack_top 0xF
      then (False, k)
      else if \<not> thread_storage_live k previous \<or> th_id th = 0 \<or> th_state th \<noteq> THREAD_STATE_DEAD \<or>
         on_run_queue th \<or> run_next th \<noteq> 0 \<or> interrupt_context_ready th \<or> interrupt_rsp th \<noteq> 0 \<or>
         thread_wait_active k previous then (False, k)
      else
        let kernel = process_kernel k;
            space = (if kernel \<noteq> 0 then process_address_space k kernel else 0);
            target_cr3 = (if space \<noteq> 0 then address_space_cr3 k space else 0)
        in
        if kernel = 0 \<or> \<not> pr_kernel (h_process k kernel) \<or> space = 0 \<or> \<not> sp_kernel (h_space k space) \<or>
           target_cr3 = 0 then (False, k)
        else
          (True, upd_thread_module (\<lambda>m. m\<lparr>g_current_thread := 0\<rparr>)
                   (load_cr3 target_cr3 (gdt_set_rsp0 idle_stack_top k))))"

definition thread_scheduler_activate_from_idle :: "ptr \<Rightarrow> Kernel \<Rightarrow> bool \<times> Kernel" where
  "thread_scheduler_activate_from_idle t k =
     (let th = h_thread k t in
      if \<not> thread_initialized (k_thread k) \<or> g_current_thread (k_thread k) \<noteq> 0 \<or>
         \<not> thread_storage_live k t \<or> th_id th = 0 \<or> th_process th = 0 \<or>
         th_state th \<noteq> THREAD_STATE_READY \<or> \<not> on_run_queue th \<or> run_next th = 0 \<or>
         \<not> interrupt_context_ready th \<or> interrupt_rsp th = 0 \<or> kernel_stack_top th = 0 \<or>
         has (kernel_stack_top th) 0xF then (False, k)
      else
        let space = process_address_space k (th_process th);
            target_cr3 = (if space \<noteq> 0 then address_space_cr3 k space else 0)
        in
        if space = 0 \<or> target_cr3 = 0 then (False, k)
        else
          let k = load_cr3 target_cr3 (gdt_set_rsp0 (kernel_stack_top th) k);
              k = upd_thread t (\<lambda>x. x\<lparr>th_state := THREAD_STATE_RUNNING\<rparr>) k
          in (True, upd_thread_module (\<lambda>m. m\<lparr>g_current_thread := t\<rparr>) k))"

section \<open>Creation and destruction\<close>

text \<open>
  \<^verbatim>\<open>k_memset(direct, 0, THREAD_KERNEL_STACK_SIZE)\<close> through the physical map: the words of the
  stack's frames are zero.
\<close>

definition zero_stack_frames :: "u64 \<Rightarrow> Kernel \<Rightarrow> Kernel" where
  "zero_stack_frames physical k =
     (let first = physical div FRAME_SIZE in
      k\<lparr>k_mm := (k_mm k)\<lparr>pmem := (\<lambda>f. if f - first < THREAD_KERNEL_STACK_PAGES then (\<lambda>_. 0)
                                       else pmem (k_mm k) f)\<rparr>\<rparr>)"

text \<open>The label \<^verbatim>\<open>fail\<close> of the constructor.\<close>

definition thread_create_fail :: "ptr \<Rightarrow> Kernel \<Rightarrow> (bool \<times> Kernel) outcome" where
  "thread_create_fail t k =
     outcome_bind (thread_reclaim_unpublished_stack k)
       (\<lambda>(_, k). Done (False, upd_thread t (\<lambda>_. zero_thread) k))"

text \<open>The constructor after the stack is mapped: fill in the thread, attach it and publish it.\<close>

definition thread_create_commit ::
  "ptr \<Rightarrow> ptr \<Rightarrow> nat \<Rightarrow> u64 \<Rightarrow> u64 \<Rightarrow> Kernel \<Rightarrow> (bool \<times> Kernel) outcome" where
  "thread_create_commit t process slot physical virtual_base k =
     (let k = upd_thread_module (\<lambda>m. m\<lparr>g_unpublished_stack_virtual := virtual_base\<rparr>) k;
          virtual_top = virtual_base + THREAD_KERNEL_STACK_SIZE
      in
      if virtual_base > NOT 0 - THREAD_KERNEL_STACK_SIZE then thread_create_fail t k
      else if has virtual_top 0xF then thread_create_fail t k
      else
        let k = upd_thread t (\<lambda>x. x\<lparr>th_id := g_next_thread_id (k_thread k), th_process := process,
                  th_state := THREAD_STATE_READY, kernel_stack_physical := physical,
                  kernel_stack_base := virtual_base, kernel_stack_top := virtual_top,
                  kernel_stack_size := THREAD_KERNEL_STACK_SIZE, owns_kernel_stack := True\<rparr>) k
        in
        case thread_create_fault t THREAD_CREATE_TEST_ATTACH physical k of (fault, k) \<Rightarrow>
        if fault then thread_create_fail t k
        else
          case process_thread_attach process t k of (ok, k) \<Rightarrow>
          if \<not> ok then thread_create_fail t k
          else
            Done (True, upd_thread_module (\<lambda>m. m\<lparr>g_thread_storage := (g_thread_storage m)[slot := t],
              g_unpublished_stack := 0, g_unpublished_stack_virtual := 0,
              g_next_thread_id := g_next_thread_id m + 1\<rparr>) k))"

definition thread_create_locked :: "ptr \<Rightarrow> ptr \<Rightarrow> Kernel \<Rightarrow> (bool \<times> Kernel) outcome" where
  "thread_create_locked t process k =
     (if t = 0 \<or> thread_storage_live k t then Done (False, k)
      else
        let k = upd_thread t (\<lambda>_. zero_thread) k;
            slots = g_thread_storage (k_thread k);
            slot = object_storage_empty slots;
            space = process_address_space k process
        in
        if \<not> thread_initialized (k_thread k) \<or> process = 0 \<or> g_next_thread_id (k_thread k) = 0 \<or>
           \<not> kernel_stack_arena_ready k \<or> g_unpublished_stack (k_thread k) \<noteq> 0 \<or>
           g_unpublished_stack_virtual (k_thread k) \<noteq> 0 then Done (False, k)
        else if slot = length slots then Done (False, k)
        else if space = 0 \<or> address_space_cr3 k space = 0 then Done (False, k)
        else if \<not> pmm_phys_map_access_enabled (mm_pmm (k_mm k)) \<or>
           \<not> vmm_phys_map_access_enabled (k_mm k) then Done (False, k)
        else
          case thread_create_fault t THREAD_CREATE_TEST_ALLOCATE 0 k of (fault, k) \<Rightarrow>
          if fault then Done (False, k)
          else
            case on_pmm (\<lambda>s. pmm_alloc_pages s THREAD_KERNEL_STACK_PAGES) k of (physical, k) \<Rightarrow>
            if physical = 0 then Done (False, k)
            else
              let k = upd_thread_module (\<lambda>m. m\<lparr>g_unpublished_stack := physical\<rparr>) k in
              case thread_create_fault t THREAD_CREATE_TEST_ACCESS physical k of (fault, k) \<Rightarrow>
              if fault then thread_create_fail t k
              else if phys_to_virt physical = 0 then thread_create_fail t k
              else
                outcome_bind (kernel_stack_map (of_nat slot) physical (zero_stack_frames physical k))
                  (\<lambda>(virtual_base, k).
                     case virtual_base of
                       None \<Rightarrow> thread_create_fail t k
                     | Some virtual_base \<Rightarrow> thread_create_commit t process slot physical virtual_base k))"

definition thread_create :: "ptr \<Rightarrow> ptr \<Rightarrow> Kernel \<Rightarrow> (bool \<times> Kernel) outcome" where
  "thread_create t process k = thread_create_locked t process k"

definition thread_destroy_locked :: "ptr \<Rightarrow> Kernel \<Rightarrow> (bool \<times> Kernel) outcome" where
  "thread_destroy_locked t k =
     (let slots = g_thread_storage (k_thread k); storage_slot = object_storage_find slots t;
          th = h_thread k t; process = th_process th
      in
      if storage_slot = length slots then Done (False, k)
      else if \<not> thread_initialized (k_thread k) \<or> t = 0 \<or> t = g_current_thread (k_thread k) \<or>
         th_id th = 0 \<or> process = 0 \<or> th_state th = THREAD_STATE_INVALID \<or>
         th_state th = THREAD_STATE_RUNNING \<or> th_state th = THREAD_STATE_BLOCKED \<or>
         on_run_queue th \<or> run_next th \<noteq> 0 then Done (False, k)
      else if thread_wait_active k t \<or> th_capability_refs th \<noteq> 0 then Done (False, k)
      else if \<not> process_thread_can_detach k process t then Done (False, k)
      else
        outcome_bind
          (if owns_kernel_stack th
           then kernel_stack_release (kernel_stack_physical th) (kernel_stack_base th) k
           else Done (True, k))
          (\<lambda>(released, k).
             if \<not> released then Done (False, k)
             else
               case process_thread_detach process t k of (detached, k) \<Rightarrow>
               if \<not> detached then Halt
               else
                 let k = set_threads ((g_thread_storage (k_thread k))[storage_slot := 0]) k in
                 Done (True, upd_thread t (\<lambda>x. x\<lparr>th_process := 0, process_prev := 0, process_next := 0,
                   th_entry := 0, th_argument := 0, kernel_stack_physical := 0, kernel_stack_base := 0,
                   kernel_stack_top := 0, kernel_stack_size := 0, owns_kernel_stack := False,
                   run_next := 0, on_run_queue := False, th_id := 0, th_state := THREAD_STATE_DEAD,
                   interrupt_rsp := 0, interrupt_context_ready := False, wait_kind := THREAD_WAIT_NONE,
                   wait_result := THREAD_WAIT_RESULT_NONE, wait_object := 0, wait_id := 0\<rparr>) k)))"

definition thread_destroy :: "ptr \<Rightarrow> Kernel \<Rightarrow> (bool \<times> Kernel) outcome" where
  "thread_destroy t k = thread_destroy_locked t k"

end
