(* ===== verification/Scheduler.thy ===== *)
theory Scheduler
  imports Thread
begin

text \<open>
  The scheduler, \<^verbatim>\<open>kernel/scheduler.c\<close>: a circular run queue threaded through the
  threads, the context switches taken from an interrupt frame, and the private idle context.
  Interrupt frames are named by their address. The address of \<^verbatim>\<open>scheduler_idle_loop\<close> is
  an argument of the definitions that write it.
\<close>

section \<open>Definitions\<close>

abbreviation (input) SCHEDULER_TRAP_YIELD :: u32 where "SCHEDULER_TRAP_YIELD \<equiv> 1"
abbreviation (input) SCHEDULER_TRAP_BLOCK :: u32 where "SCHEDULER_TRAP_BLOCK \<equiv> 2"
abbreviation (input) SCHEDULER_TRAP_EXIT :: u32 where "SCHEDULER_TRAP_EXIT \<equiv> 3"
abbreviation (input) SCHEDULER_RFLAGS_FIXED :: u64 where "SCHEDULER_RFLAGS_FIXED \<equiv> 2"

abbreviation upd_sched :: "(SchedulerModule \<Rightarrow> SchedulerModule) \<Rightarrow> Kernel \<Rightarrow> Kernel" where
  "upd_sched f k \<equiv> k\<lparr>k_sched := f (k_sched k)\<rparr>"

text \<open>
  What a kernel thread's call does before the software interrupt of
  \<^verbatim>\<open>arch_reschedule_interrupt\<close>: return at once, trap with an operation code, or wait for one
  interrupt with \<^verbatim>\<open>sti; hlt; cli\<close> and return.
\<close>

datatype sched_call = Returns bool | Traps u32 | Idles

definition scheduler_interrupt_frame_valid :: "Kernel \<Rightarrow> ptr \<Rightarrow> ptr \<Rightarrow> bool" where
  "scheduler_interrupt_frame_valid k t frame =
     (let th = h_thread k t in
      if t = 0 \<or> frame = 0 \<or> kernel_stack_base th = 0 \<or> kernel_stack_top th = 0 \<or>
         kernel_stack_top th \<le> kernel_stack_base th then False
      else if kernel_stack_size th < interrupt_frame_size then False
      else if frame < kernel_stack_base th then False
      else \<not> frame > kernel_stack_top th - interrupt_frame_size)"

definition scheduler_idle_runtime_frame_valid :: "Kernel \<Rightarrow> ptr \<Rightarrow> bool" where
  "scheduler_idle_runtime_frame_valid k frame =
     (let s = k_sched k in
      if frame = 0 \<or> \<not> g_idle_context_ready s \<or> g_idle_stack_base s = 0 \<or> g_idle_stack_top s = 0 \<or>
         g_idle_stack_top s \<le> g_idle_stack_base s then False
      else frame \<ge> g_idle_stack_base s \<and> frame \<le> g_idle_stack_top s - 160)"

definition scheduler_idle_frame_build :: "u64 \<Rightarrow> u64 \<Rightarrow> u64 \<Rightarrow> Kernel \<Rightarrow> ptr option \<times> Kernel" where
  "scheduler_idle_frame_build idle_loop stack_base stack_top k =
     (if stack_base = 0 \<or> stack_top \<le> stack_base \<or> has stack_top 0xF then (None, k)
      else if stack_top - stack_base < interrupt_frame_size + 8 then (None, k)
      else
        let anchor = stack_top - 8; frame_address = anchor - interrupt_frame_size in
        if frame_address < stack_base then (None, k)
        else
          (Some frame_address,
           upd_frame frame_address (\<lambda>_. zero_frame\<lparr>fr_rip := idle_loop, fr_cs := GDT_KERNEL_CODE_SELECTOR,
             fr_rflags := SCHEDULER_RFLAGS_FIXED, fr_rsp := anchor, fr_ss := GDT_KERNEL_DATA_SELECTOR\<rparr>) k))"

definition scheduler_idle_stack_init :: "u64 \<Rightarrow> Kernel \<Rightarrow> (bool \<times> Kernel) outcome" where
  "scheduler_idle_stack_init idle_loop k =
     (let s = k_sched k in
      if g_idle_context_ready s \<or> g_idle_stack_physical s \<noteq> 0 \<or> g_idle_stack_base s \<noteq> 0 \<or>
         g_idle_stack_top s \<noteq> 0 then Done (False, k)
      else
        case on_pmm (\<lambda>s. pmm_alloc_pages s THREAD_KERNEL_STACK_PAGES) k of (physical, k) \<Rightarrow>
        let first = phys_to_frame physical;
            free = (\<lambda>k. snd (on_pmm (\<lambda>s. frame_free_range s first THREAD_KERNEL_STACK_PAGES) k))
        in
        if physical = 0 then Done (False, k)
        else if first = FRAME_INVALID then Done (False, k)
        else if phys_to_virt physical = 0 then Done (False, free k)
        else
          outcome_bind (kernel_stack_map_scheduler_idle physical (zero_stack_frames physical k))
            (\<lambda>(base, k).
               case base of
                 None \<Rightarrow> Done (False, free k)
               | Some base \<Rightarrow>
                   let discard = (\<lambda>k. outcome_bind (kernel_stack_discard_unpublished physical base k)
                                        (\<lambda>(_, k). Done (False, k)));
                       top = base + THREAD_KERNEL_STACK_SIZE
                   in
                   if base = 0 \<or> base > NOT 0 - THREAD_KERNEL_STACK_SIZE then discard k
                   else if has top 0xF then discard k
                   else
                     case scheduler_idle_frame_build idle_loop base top k of (probe, k) \<Rightarrow>
                     if probe = None \<or> probe = Some 0 \<or> \<not> kernel_stack_mapping_valid k physical base
                     then discard k
                     else
                       Done (True, upd_sched (\<lambda>s. s\<lparr>g_idle_stack_physical := physical,
                         g_idle_stack_base := base, g_idle_stack_top := top,
                         g_idle_context_ready := True\<rparr>) k)))"

definition scheduler_init :: "u64 \<Rightarrow> Kernel \<Rightarrow> (bool \<times> Kernel) outcome" where
  "scheduler_init idle_loop k =
     (let current = thread_current k; th = h_thread k current in
      if scheduler_initialized (k_sched k) then Done (False, k)
      else if current = 0 \<or> th_id th = 0 \<or> th_state th \<noteq> THREAD_STATE_RUNNING \<or> on_run_queue th
      then Done (False, k)
      else
        outcome_bind (scheduler_idle_stack_init idle_loop k)
          (\<lambda>(ok, k).
             if \<not> ok then Done (False, k)
             else
               Done (True, upd_sched (\<lambda>s. s\<lparr>g_run_head := current, g_run_tail := current, g_run_count := 1,
                   scheduler_initialized := True, g_preemption_enabled := False, g_preemption_count := 0,
                   g_reschedule_count := 0, g_idle_wait_count := 0, g_idle_active := False,
                   g_idle_entry_count := 0, g_idle_resume_count := 0\<rparr>)
                 (upd_thread current (\<lambda>x. x\<lparr>run_next := current, on_run_queue := True\<rparr>) k))))"

section \<open>The run queue\<close>

definition scheduler_add :: "ptr \<Rightarrow> Kernel \<Rightarrow> bool \<times> Kernel" where
  "scheduler_add t k =
     (let th = h_thread k t; s = k_sched k in
      if \<not> scheduler_initialized s \<or> t = 0 \<or> th_id th = 0 \<or> on_run_queue th \<or>
         th_state th \<noteq> THREAD_STATE_READY \<or> \<not> interrupt_context_ready th \<or> interrupt_rsp th = 0
      then (False, k)
      else if \<not> scheduler_interrupt_frame_valid k t (interrupt_rsp th) then (False, k)
      else if g_run_count s = 0 then
        if \<not> g_idle_active s \<or> g_run_head s \<noteq> 0 \<or> g_run_tail s \<noteq> 0 then (False, k)
        else
          (True, upd_sched (\<lambda>s. s\<lparr>g_run_head := t, g_run_tail := t, g_run_count := 1\<rparr>)
                   (upd_thread t (\<lambda>x. x\<lparr>run_next := t, on_run_queue := True\<rparr>) k))
      else if g_run_head s = 0 \<or> g_run_tail s = 0 then (False, k)
      else
        let k = upd_thread t (\<lambda>x. x\<lparr>run_next := g_run_head s\<rparr>) k;
            k = upd_thread (g_run_tail s) (\<lambda>x. x\<lparr>run_next := t\<rparr>) k;
            k = upd_sched (\<lambda>s. s\<lparr>g_run_tail := t\<rparr>) k;
            k = upd_thread t (\<lambda>x. x\<lparr>on_run_queue := True\<rparr>) k
        in (True, upd_sched (\<lambda>s. s\<lparr>g_run_count := g_run_count s + 1\<rparr>) k))"

primrec unlink_scan :: "nat \<Rightarrow> Kernel \<Rightarrow> ptr \<Rightarrow> ptr \<Rightarrow> ptr option" where
  "unlink_scan 0 k t previous = None"
| "unlink_scan (Suc n) k t previous =
     (if previous = 0 \<or> run_next (h_thread k previous) = 0 then None
      else if run_next (h_thread k previous) = t then Some previous
      else unlink_scan n k t (run_next (h_thread k previous)))"

definition scheduler_unlink :: "ptr \<Rightarrow> Kernel \<Rightarrow> bool \<times> Kernel" where
  "scheduler_unlink t k =
     (let s = k_sched k;
          finish = (\<lambda>k. (True, upd_sched (\<lambda>s. s\<lparr>g_run_count := g_run_count s - 1\<rparr>)
                      (upd_thread t (\<lambda>x. x\<lparr>run_next := 0, on_run_queue := False\<rparr>) k)))
      in
      if t = 0 \<or> \<not> on_run_queue (h_thread k t) \<or> g_run_head s = 0 \<or> g_run_tail s = 0 \<or> g_run_count s = 0
      then (False, k)
      else
        case unlink_scan (unat (g_run_count s)) k t (g_run_head s) of
          None \<Rightarrow> (False, k)
        | Some previous \<Rightarrow>
            if g_run_count s = 1 then
              if g_run_head s \<noteq> t \<or> g_run_tail s \<noteq> t then (False, k)
              else finish (upd_sched (\<lambda>s. s\<lparr>g_run_head := 0, g_run_tail := 0\<rparr>) k)
            else
              let k = upd_thread previous (\<lambda>x. x\<lparr>run_next := run_next (h_thread k t)\<rparr>) k;
                  k = (if g_run_head (k_sched k) = t
                       then upd_sched (\<lambda>s. s\<lparr>g_run_head := run_next (h_thread k t)\<rparr>) k else k);
                  k = (if g_run_tail (k_sched k) = t
                       then upd_sched (\<lambda>s. s\<lparr>g_run_tail := previous\<rparr>) k else k)
              in finish (upd_thread (g_run_tail (k_sched k)) (\<lambda>x. x\<lparr>run_next := g_run_head (k_sched k)\<rparr>) k))"

text \<open>The condition of both searches on a candidate.\<close>

definition interrupt_ready :: "Kernel \<Rightarrow> ptr \<Rightarrow> bool" where
  "interrupt_ready k t \<longleftrightarrow>
     (let th = h_thread k t in
      on_run_queue th \<and> th_state th = THREAD_STATE_READY \<and> interrupt_context_ready th \<and>
      interrupt_rsp th \<noteq> 0 \<and> scheduler_interrupt_frame_valid k t (interrupt_rsp th))"

primrec next_scan :: "nat \<Rightarrow> Kernel \<Rightarrow> ptr \<Rightarrow> ptr \<Rightarrow> ptr option" where
  "next_scan 0 k current candidate = None"
| "next_scan (Suc n) k current candidate =
     (if candidate = 0 then None
      else if candidate \<noteq> current \<and> interrupt_ready k candidate then Some candidate
      else next_scan n k current (run_next (h_thread k candidate)))"

definition scheduler_find_next_interrupt_thread :: "Kernel \<Rightarrow> ptr \<Rightarrow> (ptr \<times> ptr) option" where
  "scheduler_find_next_interrupt_thread k current =
     (if current = 0 \<or> run_next (h_thread k current) = 0 \<or> g_run_count (k_sched k) < 2 then None
      else
        map_option (\<lambda>t. (t, interrupt_rsp (h_thread k t)))
          (next_scan (unat (g_run_count (k_sched k)) - 1) k current (run_next (h_thread k current))))"

primrec idle_scan :: "nat \<Rightarrow> Kernel \<Rightarrow> ptr \<Rightarrow> ptr option" where
  "idle_scan 0 k candidate = None"
| "idle_scan (Suc n) k candidate =
     (if candidate = 0 \<or> run_next (h_thread k candidate) = 0 then None
      else if interrupt_ready k candidate then Some candidate
      else idle_scan n k (run_next (h_thread k candidate)))"

definition scheduler_find_idle_ready :: "Kernel \<Rightarrow> (ptr \<times> ptr) option" where
  "scheduler_find_idle_ready k =
     (let s = k_sched k in
      if \<not> g_idle_active s \<or> g_run_head s = 0 \<or> g_run_tail s = 0 \<or> g_run_count s = 0 then None
      else map_option (\<lambda>t. (t, interrupt_rsp (h_thread k t)))
             (idle_scan (unat (g_run_count s)) k (g_run_head s)))"

definition scheduler_remove :: "ptr \<Rightarrow> Kernel \<Rightarrow> bool \<times> Kernel" where
  "scheduler_remove t k =
     (if \<not> scheduler_initialized (k_sched k) \<or> t = 0 \<or> \<not> on_run_queue (h_thread k t) then (False, k)
      else if t = thread_current k then (False, k)
      else scheduler_unlink t k)"

text \<open>The current thread as the entry points of the scheduler require it.\<close>

definition current_runnable :: "Kernel \<Rightarrow> bool" where
  "current_runnable k \<longleftrightarrow>
     (let c = thread_current k; th = h_thread k c in
      c \<noteq> 0 \<and> th_id th \<noteq> 0 \<and> on_run_queue th \<and> th_state th = THREAD_STATE_RUNNING \<and> run_next th \<noteq> 0)"

definition scheduler_yield :: "Kernel \<Rightarrow> sched_call" where
  "scheduler_yield k =
     (let s = k_sched k in
      if \<not> scheduler_initialized s \<or> g_run_head s = 0 \<or> g_run_tail s = 0 \<or> g_run_count s = 0
      then Returns False
      else if \<not> current_runnable k then Returns False
      else if g_run_count s = 1 then Returns True
      else Traps SCHEDULER_TRAP_YIELD)"

definition scheduler_block_current :: "Kernel \<Rightarrow> sched_call" where
  "scheduler_block_current k =
     (let s = k_sched k in
      if \<not> scheduler_initialized s \<or> g_run_head s = 0 \<or> g_run_tail s = 0 \<or> g_run_count s < 2
      then Returns False
      else if \<not> current_runnable k then Returns False
      else Traps SCHEDULER_TRAP_BLOCK)"

definition scheduler_wait_current :: "Kernel \<Rightarrow> sched_call \<times> Kernel" where
  "scheduler_wait_current k =
     (let s = k_sched k; current = thread_current k in
      if \<not> scheduler_initialized s \<or> g_run_head s = 0 \<or> g_run_tail s = 0 \<or> g_run_count s = 0
      then (Returns False, k)
      else if current_runnable k \<and> g_run_count s > 1 then (scheduler_block_current k, k)
      else if current_runnable k \<and> g_run_count s = 1 \<and> g_run_head s = current \<and>
         g_run_tail s = current \<and> run_next (h_thread k current) = current
      then (Idles, upd_sched (\<lambda>s. s\<lparr>g_idle_wait_count := g_idle_wait_count s + 1\<rparr>) k)
      else (Returns False, k))"

section \<open>Counters and predicates\<close>

definition scheduler_idle_wait_count :: "Kernel \<Rightarrow> u64" where
  "scheduler_idle_wait_count k =
     (if scheduler_initialized (k_sched k) then g_idle_wait_count (k_sched k) else 0)"

definition scheduler_idle_context_ready :: "Kernel \<Rightarrow> bool" where
  "scheduler_idle_context_ready k \<longleftrightarrow>
     (let s = k_sched k in
      scheduler_initialized s \<and> g_idle_context_ready s \<and> g_idle_stack_physical s \<noteq> 0 \<and>
      g_idle_stack_base s \<noteq> 0 \<and> g_idle_stack_top s = g_idle_stack_base s + THREAD_KERNEL_STACK_SIZE)"

definition scheduler_idle_active :: "Kernel \<Rightarrow> bool" where
  "scheduler_idle_active k \<longleftrightarrow> scheduler_initialized (k_sched k) \<and> g_idle_active (k_sched k)"

definition scheduler_idle_stack_guarded :: "Kernel \<Rightarrow> bool" where
  "scheduler_idle_stack_guarded k \<longleftrightarrow>
     scheduler_idle_context_ready k \<and>
     kernel_stack_mapping_valid k (g_idle_stack_physical (k_sched k)) (g_idle_stack_base (k_sched k))"

definition scheduler_idle_entry_count :: "Kernel \<Rightarrow> u64" where
  "scheduler_idle_entry_count k =
     (if scheduler_initialized (k_sched k) then g_idle_entry_count (k_sched k) else 0)"

definition scheduler_idle_resume_count :: "Kernel \<Rightarrow> u64" where
  "scheduler_idle_resume_count k =
     (if scheduler_initialized (k_sched k) then g_idle_resume_count (k_sched k) else 0)"

definition scheduler_thread_count :: "Kernel \<Rightarrow> u64" where
  "scheduler_thread_count k =
     (if scheduler_initialized (k_sched k) then g_run_count (k_sched k) else 0)"

definition scheduler_preemption_enabled :: "Kernel \<Rightarrow> bool" where
  "scheduler_preemption_enabled k \<longleftrightarrow> scheduler_initialized (k_sched k) \<and> g_preemption_enabled (k_sched k)"

definition scheduler_preemption_count :: "Kernel \<Rightarrow> u64" where
  "scheduler_preemption_count k =
     (if scheduler_initialized (k_sched k) then g_preemption_count (k_sched k) else 0)"

definition scheduler_reschedule_count :: "Kernel \<Rightarrow> u64" where
  "scheduler_reschedule_count k =
     (if scheduler_initialized (k_sched k) then g_reschedule_count (k_sched k) else 0)"

definition scheduler_wake :: "ptr \<Rightarrow> Kernel \<Rightarrow> bool \<times> Kernel" where
  "scheduler_wake t k =
     (let th = h_thread k t in
      if \<not> scheduler_initialized (k_sched k) \<or> t = 0 \<or> th_id th = 0 \<or> t = thread_current k \<or>
         on_run_queue th \<or> run_next th \<noteq> 0 \<or> \<not> interrupt_context_ready th \<or> interrupt_rsp th = 0 \<or>
         th_state th \<noteq> THREAD_STATE_BLOCKED then (False, k)
      else if \<not> scheduler_interrupt_frame_valid k t (interrupt_rsp th) then (False, k)
      else
        case scheduler_add t (upd_thread t (\<lambda>x. x\<lparr>th_state := THREAD_STATE_READY\<rparr>) k) of (ok, k) \<Rightarrow>
        if \<not> ok then (False, upd_thread t (\<lambda>x. x\<lparr>th_state := THREAD_STATE_BLOCKED\<rparr>) k)
        else (True, k))"

definition scheduler_can_terminate_current :: "Kernel \<Rightarrow> bool" where
  "scheduler_can_terminate_current k =
     (let s = k_sched k; current = thread_current k in
      if \<not> scheduler_initialized s \<or> g_idle_active s \<or> g_run_count s = 0 \<or> g_run_head s = 0 \<or>
         g_run_tail s = 0 then False
      else if \<not> current_runnable k then False
      else if g_run_count s = 1 then
        scheduler_idle_context_ready k \<and> scheduler_idle_stack_guarded k \<and> g_run_head s = current \<and>
        g_run_tail s = current \<and> run_next (h_thread k current) = current
      else scheduler_find_next_interrupt_thread k current \<noteq> None)"

text \<open>The scan of \<open>scheduler_preemption_enable\<close>; the last value is \<^verbatim>\<open>saw_current\<close>.\<close>

primrec preemption_scan :: "nat \<Rightarrow> Kernel \<Rightarrow> ptr \<Rightarrow> bool \<Rightarrow> ptr \<Rightarrow> bool" where
  "preemption_scan 0 k current saw_current t = saw_current"
| "preemption_scan (Suc n) k current saw_current t =
     (let th = h_thread k t in
      if t = 0 \<or> th_id th = 0 \<or> \<not> on_run_queue th \<or> run_next th = 0 then False
      else if t = current then
        if saw_current \<or> th_state th \<noteq> THREAD_STATE_RUNNING then False
        else preemption_scan n k current True (run_next th)
      else if th_state th \<noteq> THREAD_STATE_READY \<or> \<not> interrupt_context_ready th \<or> interrupt_rsp th = 0 then False
      else if \<not> scheduler_interrupt_frame_valid k t (interrupt_rsp th) then False
      else preemption_scan n k current saw_current (run_next th))"

definition scheduler_preemption_enable :: "Kernel \<Rightarrow> bool \<times> Kernel" where
  "scheduler_preemption_enable k =
     (let s = k_sched k; current = thread_current k; th = h_thread k current in
      if \<not> scheduler_initialized s \<or> g_preemption_enabled s \<or> g_idle_active s \<or> g_run_head s = 0 \<or>
         g_run_tail s = 0 \<or> g_run_count s = 0 then (False, k)
      else if current = 0 \<or> th_id th = 0 \<or> \<not> on_run_queue th \<or> th_state th \<noteq> THREAD_STATE_RUNNING
      then (False, k)
      else if \<not> preemption_scan (unat (g_run_count s)) k current False (g_run_head s) then (False, k)
      else (True, upd_sched (\<lambda>s. s\<lparr>g_preemption_enabled := True\<rparr>) k))"

definition scheduler_preemption_disable :: "Kernel \<Rightarrow> bool \<times> Kernel" where
  "scheduler_preemption_disable k =
     (if \<not> scheduler_initialized (k_sched k) \<or> \<not> g_preemption_enabled (k_sched k) then (False, k)
      else (True, upd_sched (\<lambda>s. s\<lparr>g_preemption_enabled := False\<rparr>) k))"

section \<open>Switching from an interrupt frame\<close>

definition save_context :: "ptr \<Rightarrow> ptr \<Rightarrow> Kernel \<Rightarrow> Kernel" where
  "save_context t frame k =
     upd_thread t (\<lambda>x. x\<lparr>interrupt_rsp := frame, interrupt_context_ready := True\<rparr>) k"

definition drop_context :: "ptr \<Rightarrow> Kernel \<Rightarrow> Kernel" where
  "drop_context t k = upd_thread t (\<lambda>x. x\<lparr>interrupt_rsp := 0, interrupt_context_ready := False\<rparr>) k"

definition set_rax :: "ptr \<Rightarrow> u64 \<Rightarrow> Kernel \<Rightarrow> Kernel" where
  "set_rax frame v k = upd_frame frame (\<lambda>f. f\<lparr>fr_rax := v\<rparr>) k"

definition scheduler_switch_ready_from_interrupt :: "ptr \<Rightarrow> bool \<Rightarrow> Kernel \<Rightarrow> ptr \<times> Kernel" where
  "scheduler_switch_ready_from_interrupt frame timer_preemption k =
     (let s = k_sched k; current = thread_current k;
          answer = (\<lambda>v k. if \<not> timer_preemption then set_rax frame v k else k)
      in
      if frame = 0 \<or> \<not> scheduler_initialized s \<or> g_run_head s = 0 \<or> g_run_tail s = 0 \<or> g_run_count s < 2
      then (frame, k)
      else if \<not> current_runnable k then (frame, k)
      else if \<not> scheduler_interrupt_frame_valid k current frame then (frame, k)
      else
        case scheduler_find_next_interrupt_thread k current of
          None \<Rightarrow> (frame, answer 1 k)
        | Some (chosen, chosen_frame) \<Rightarrow>
            (case thread_activate chosen (save_context current frame (answer 1 k)) of (ok, k) \<Rightarrow>
             if \<not> ok then (frame, answer 0 (drop_context current k))
             else
               (chosen_frame,
                upd_sched (\<lambda>s. if timer_preemption then s\<lparr>g_preemption_count := g_preemption_count s + 1\<rparr>
                               else s\<lparr>g_reschedule_count := g_reschedule_count s + 1\<rparr>)
                  (drop_context chosen k))))"

definition scheduler_block_from_interrupt :: "ptr \<Rightarrow> Kernel \<Rightarrow> (ptr \<times> Kernel) outcome" where
  "scheduler_block_from_interrupt frame k =
     (if frame = 0 then Done (frame, k)
      else
        let k = set_rax frame 0 k; s = k_sched k; blocked = thread_current k in
        if \<not> scheduler_initialized s \<or> g_run_head s = 0 \<or> g_run_tail s = 0 \<or> g_run_count s < 2
        then Done (frame, k)
        else if \<not> current_runnable k \<or> \<not> scheduler_interrupt_frame_valid k blocked frame
        then Done (frame, k)
        else
          case scheduler_find_next_interrupt_thread k blocked of
            None \<Rightarrow> Done (frame, k)
          | Some (chosen, chosen_frame) \<Rightarrow>
              (case thread_activate chosen (save_context blocked frame (set_rax frame 1 k)) of (ok, k) \<Rightarrow>
               if \<not> ok then Done (frame, set_rax frame 0 (drop_context blocked k))
               else
                 case scheduler_unlink blocked k of (ok, k) \<Rightarrow>
                 if \<not> ok then Halt
                 else
                   Done (chosen_frame,
                     upd_sched (\<lambda>s. s\<lparr>g_reschedule_count := g_reschedule_count s + 1\<rparr>)
                       (drop_context chosen (upd_thread blocked (\<lambda>x. x\<lparr>th_state := THREAD_STATE_BLOCKED\<rparr>) k)))))"

definition scheduler_resume_from_idle :: "ptr \<Rightarrow> Kernel \<Rightarrow> (ptr \<times> Kernel) outcome" where
  "scheduler_resume_from_idle frame k =
     (if frame = 0 \<or> \<not> g_idle_active (k_sched k) then Done (frame, k)
      else if \<not> scheduler_idle_runtime_frame_valid k frame then Halt
      else if g_run_count (k_sched k) = 0 then Done (frame, k)
      else
        case scheduler_find_idle_ready k of
          None \<Rightarrow> Halt
        | Some (chosen, chosen_frame) \<Rightarrow>
            (case thread_scheduler_activate_from_idle chosen k of (ok, k) \<Rightarrow>
             if \<not> ok then Halt
             else
               Done (chosen_frame,
                 upd_sched (\<lambda>s. s\<lparr>g_idle_active := False, g_idle_resume_count := g_idle_resume_count s + 1,
                     g_reschedule_count := g_reschedule_count s + 1\<rparr>)
                   (drop_context chosen k))))"

definition count_reschedules :: "bool \<Rightarrow> Kernel \<Rightarrow> Kernel" where
  "count_reschedules count_reschedule k =
     (if count_reschedule then upd_sched (\<lambda>s. s\<lparr>g_reschedule_count := g_reschedule_count s + 1\<rparr>) k else k)"

definition make_dead :: "ptr \<Rightarrow> Kernel \<Rightarrow> Kernel" where
  "make_dead t k = drop_context t (upd_thread t (\<lambda>x. x\<lparr>th_state := THREAD_STATE_DEAD\<rparr>) k)"

text \<open>The last runnable thread exits: the scheduler's own idle context takes over.\<close>

definition exit_to_idle :: "u64 \<Rightarrow> bool \<Rightarrow> ptr \<Rightarrow> Kernel \<Rightarrow> (ptr \<times> Kernel) outcome" where
  "exit_to_idle idle_loop count_reschedule dying k =
     (if \<not> scheduler_can_terminate_current k then Halt
      else
        case scheduler_idle_frame_build idle_loop (g_idle_stack_base (k_sched k))
               (g_idle_stack_top (k_sched k)) k of (idle_frame, k) \<Rightarrow>
        if idle_frame = None \<or> idle_frame = Some 0 then Halt
        else
          case scheduler_unlink dying k of (ok, k) \<Rightarrow>
          if \<not> ok then Halt
          else
            case thread_scheduler_enter_idle (g_idle_stack_top (k_sched k)) (make_dead dying k) of (ok, k) \<Rightarrow>
            if \<not> ok then Halt
            else
              Done (the idle_frame,
                count_reschedules count_reschedule
                  (upd_sched (\<lambda>s. s\<lparr>g_idle_active := True, g_idle_entry_count := g_idle_entry_count s + 1\<rparr>) k)))"

definition exit_to_next :: "bool \<Rightarrow> ptr \<Rightarrow> Kernel \<Rightarrow> (ptr \<times> Kernel) outcome" where
  "exit_to_next count_reschedule dying k =
     (case scheduler_find_next_interrupt_thread k dying of
        None \<Rightarrow> Halt
      | Some (chosen, chosen_frame) \<Rightarrow>
          (case thread_activate chosen k of (ok, k) \<Rightarrow>
           if \<not> ok then Halt
           else
             case scheduler_unlink dying k of (ok, k) \<Rightarrow>
             if \<not> ok then Halt
             else Done (chosen_frame,
                    count_reschedules count_reschedule (drop_context chosen (make_dead dying k)))))"

definition scheduler_exit_from_interrupt :: "u64 \<Rightarrow> ptr \<Rightarrow> bool \<Rightarrow> Kernel \<Rightarrow> (ptr \<times> Kernel) outcome" where
  "scheduler_exit_from_interrupt idle_loop frame count_reschedule k =
     (let s = k_sched k; dying = thread_current k in
      if frame = 0 \<or> \<not> scheduler_initialized s \<or> g_run_head s = 0 \<or> g_run_tail s = 0 \<or> g_run_count s = 0
      then Halt
      else if \<not> current_runnable k \<or> \<not> scheduler_interrupt_frame_valid k dying frame then Halt
      else if g_run_count s = 1 then exit_to_idle idle_loop count_reschedule dying k
      else exit_to_next count_reschedule dying k)"

text \<open>The operation is an \<^verbatim>\<open>enum\<close>, so only the low 32 bits of \<^verbatim>\<open>rax\<close> select it.\<close>

definition scheduler_reschedule :: "u64 \<Rightarrow> ptr \<Rightarrow> Kernel \<Rightarrow> (ptr \<times> Kernel) outcome" where
  "scheduler_reschedule idle_loop frame k =
     (if frame = 0 then Done (0, k)
      else
        let operation = (ucast (fr_rax (h_frame k frame)) :: u32) in
        if operation = SCHEDULER_TRAP_YIELD then Done (scheduler_switch_ready_from_interrupt frame False k)
        else if operation = SCHEDULER_TRAP_BLOCK then scheduler_block_from_interrupt frame k
        else if operation = SCHEDULER_TRAP_EXIT then scheduler_exit_from_interrupt idle_loop frame True k
        else Done (frame, set_rax frame 0 k))"

definition scheduler_preempt :: "ptr \<Rightarrow> Kernel \<Rightarrow> (ptr \<times> Kernel) outcome" where
  "scheduler_preempt frame k =
     (if g_idle_active (k_sched k) then scheduler_resume_from_idle frame k
      else if frame = 0 \<or> \<not> g_preemption_enabled (k_sched k) then Done (frame, k)
      else Done (scheduler_switch_ready_from_interrupt frame True k))"

definition scheduler_can_terminate_thread :: "Kernel \<Rightarrow> ptr \<Rightarrow> bool" where
  "scheduler_can_terminate_thread k t =
     (let th = h_thread k t in
      if \<not> scheduler_initialized (k_sched k) \<or> t = 0 \<or> t = thread_current k \<or> th_id th = 0 then False
      else if th_state th = THREAD_STATE_READY then
        if on_run_queue th
        then \<not> (run_next th = 0 \<or> \<not> interrupt_context_ready th \<or> interrupt_rsp th = 0)
        else run_next th = 0
      else if th_state th = THREAD_STATE_BLOCKED then
        \<not> on_run_queue th \<and> run_next th = 0 \<and> interrupt_context_ready th \<and> interrupt_rsp th \<noteq> 0
      else False)"

definition scheduler_terminate_thread :: "ptr \<Rightarrow> Kernel \<Rightarrow> bool \<times> Kernel" where
  "scheduler_terminate_thread t k =
     (if \<not> scheduler_can_terminate_thread k t then (False, k)
      else if thread_wait_active k t then (False, k)
      else
        case (if th_state (h_thread k t) = THREAD_STATE_READY \<and> on_run_queue (h_thread k t)
              then scheduler_unlink t k else (True, k)) of (ok, k) \<Rightarrow>
        if \<not> ok then (False, k)
        else (True, upd_thread t (\<lambda>x. x\<lparr>th_state := THREAD_STATE_DEAD, interrupt_rsp := 0,
                interrupt_context_ready := False, run_next := 0, on_run_queue := False\<rparr>) k))"

definition scheduler_terminate_current_from_interrupt :: "u64 \<Rightarrow> ptr \<Rightarrow> Kernel \<Rightarrow> (ptr \<times> Kernel) outcome" where
  "scheduler_terminate_current_from_interrupt idle_loop frame k =
     scheduler_exit_from_interrupt idle_loop frame False k"

text \<open>A call that traps never returns; otherwise the processor halts.\<close>

definition scheduler_exit_current :: "Kernel \<Rightarrow> sched_call outcome" where
  "scheduler_exit_current k =
     (let c = thread_current k; th = h_thread k c in
      if \<not> scheduler_can_terminate_current k then Halt
      else if c = 0 \<or> th_id th = 0 \<or> \<not> on_run_queue th \<or> th_state th \<noteq> THREAD_STATE_RUNNING then Halt
      else Done (Traps SCHEDULER_TRAP_EXIT))"

end
