(* ===== verification/Run_Queue.thy ===== *)
theory Run_Queue
  imports Scheduler
begin

text \<open>
  The run queue of the scheduler refines a list: the ring of \<open>run_next\<close> pointers from the head
  spells the list, insertion appends to it and unlinking removes one element.
\<close>

section \<open>Ring segments\<close>

primrec run_seg :: "(ptr \<Rightarrow> Thread) \<Rightarrow> ptr list \<Rightarrow> ptr \<Rightarrow> bool" where
  "run_seg h [] succ = True"
| "run_seg h (t # ts) succ \<longleftrightarrow>
     t \<noteq> 0 \<and> on_run_queue (h t) \<and> run_next (h t) = hd (ts @ [succ]) \<and> run_seg h ts succ"

definition run_queue :: "Kernel \<Rightarrow> ptr list \<Rightarrow> bool" where
  "run_queue k ts \<longleftrightarrow>
     distinct ts \<and> run_seg (h_thread k) ts (hd (ts @ [0])) \<and>
     g_run_head (k_sched k) = hd (ts @ [0]) \<and> g_run_tail (k_sched k) = last (0 # ts) \<and>
     unat (g_run_count (k_sched k)) = length ts"

lemma run_seg_append:
  "run_seg h (xs @ ys) succ \<longleftrightarrow> run_seg h xs (hd (ys @ [succ])) \<and> run_seg h ys succ"
  by (induction xs) (auto simp: hd_append)

lemma run_seg_nodes:
  "run_seg h ts succ \<Longrightarrow> t \<in> set ts \<Longrightarrow> t \<noteq> 0 \<and> on_run_queue (h t)"
  by (induction ts) auto

lemma run_seg_hd: "run_seg h ts succ \<Longrightarrow> succ \<noteq> 0 \<Longrightarrow> hd (ts @ [succ]) \<noteq> 0"
  by (cases ts) auto

lemma run_seg_next_nonzero:
  "run_seg h ts succ \<Longrightarrow> t \<in> set ts \<Longrightarrow> succ \<noteq> 0 \<Longrightarrow> run_next (h t) \<noteq> 0"
  by (induction ts) (auto simp: run_seg_hd)

lemma run_seg_cong:
  assumes "\<And>t. t \<in> set ts \<Longrightarrow> run_next (h' t) = run_next (h t) \<and> on_run_queue (h' t) = on_run_queue (h t)"
  shows "run_seg h' ts succ = run_seg h ts succ"
  using assms by (induction ts) simp_all

lemma run_seg_set_last:
  assumes "run_seg h (xs @ [x]) succ" and "x \<notin> set xs"
    and "\<And>t. t \<in> set xs \<Longrightarrow> run_next (h' t) = run_next (h t) \<and> on_run_queue (h' t) = on_run_queue (h t)"
    and "on_run_queue (h' x)" and "run_next (h' x) = s"
  shows "run_seg h' (xs @ [x]) s"
  using assms run_seg_cong [of xs h' h x] by (simp add: run_seg_append)

text \<open>Seen from one of its elements the ring is a segment that comes back to the element.\<close>

lemma run_seg_rotate:
  assumes "run_seg h (xs @ c # ys) (hd (xs @ [c]))"
  shows "run_seg h (ys @ xs) c \<and> run_next (h c) = hd (ys @ xs @ [c])"
  using assms by (auto simp: run_seg_append hd_append split: if_splits)

lemma run_queue_empty: "run_queue k ts \<Longrightarrow> g_run_count (k_sched k) = 0 \<longleftrightarrow> ts = []"
  by (auto simp: run_queue_def unat_eq_zero)

lemma run_queue_single: "run_queue k ts \<Longrightarrow> g_run_count (k_sched k) = 1 \<longleftrightarrow> length ts = 1"
  by (simp add: run_queue_def word_unat_eq_iff)

lemma run_queue_few: "run_queue k ts \<Longrightarrow> g_run_count (k_sched k) < 2 \<longleftrightarrow> length ts < 2"
  by (simp add: run_queue_def word_less_nat_alt)

lemma run_queue_nodes: "run_queue k ts \<Longrightarrow> t \<in> set ts \<Longrightarrow> t \<noteq> 0 \<and> on_run_queue (h_thread k t)"
  using run_seg_nodes by (auto simp: run_queue_def)

lemma run_queue_ends:
  assumes "run_queue k ts" and "ts \<noteq> []"
  shows "g_run_head (k_sched k) = hd ts \<and> g_run_tail (k_sched k) = last ts \<and> hd ts \<noteq> 0 \<and> last ts \<noteq> 0"
  using assms run_queue_nodes [OF assms(1), of "hd ts"] run_queue_nodes [OF assms(1), of "last ts"]
  by (simp add: run_queue_def)

lemma run_queue_next:
  assumes "run_queue k ts" and "t \<in> set ts"
  shows "run_next (h_thread k t) \<noteq> 0"
proof -
  have "hd ts \<noteq> 0" using assms run_queue_ends [of k ts] by force
  moreover have "hd (ts @ [0]) = hd ts" using assms(2) by (cases ts) auto
  ultimately show ?thesis
    using assms run_seg_next_nonzero [of "h_thread k" ts "hd ts" t] by (simp add: run_queue_def)
qed

lemma run_queue_cong:
  assumes "run_queue k ts" and "k_sched k' = k_sched k"
    and "\<And>t. t \<in> set ts \<Longrightarrow> run_next (h_thread k' t) = run_next (h_thread k t) \<and>
            on_run_queue (h_thread k' t) = on_run_queue (h_thread k t)"
  shows "run_queue k' ts"
  using assms run_seg_cong [of ts "h_thread k'" "h_thread k"] by (simp add: run_queue_def)

section \<open>The searches\<close>

lemma unlink_scan_hit:
  assumes "run_seg (h_thread k) (xs @ [p]) t" and "t \<notin> set (tl (xs @ [p]))" and "t \<noteq> 0"
    and "length xs < n"
  shows "unlink_scan n k t (hd (xs @ [p])) = Some p"
  using assms
proof (induction xs arbitrary: n)
  case Nil
  then show ?case by (cases n) auto
next
  case (Cons x xs)
  then obtain m where n: "n = Suc m" "length xs < m" by (cases n) auto
  have ne: "hd (xs @ [p]) \<noteq> 0" "hd (xs @ [p]) \<noteq> t"
    using Cons.prems(1,2) by (cases xs; auto)+
  have t: "t \<notin> set (tl (xs @ [p]))" using Cons.prems(2) by (cases xs) auto
  have "run_next (h_thread k x) = hd (xs @ [p])" using Cons.prems(1) by (simp add: hd_append)
  then show ?case using Cons.IH [OF _ t Cons.prems(3) n(2)] Cons.prems(1) ne n by simp
qed

lemma unlink_scan_miss:
  assumes "run_seg (h_thread k) xs succ" and "t \<notin> set xs" and "t \<noteq> succ"
  shows "unlink_scan (length xs) k t (hd (xs @ [succ])) = None"
  using assms
proof (induction xs)
  case Nil
  then show ?case by simp
next
  case (Cons x xs)
  have "run_next (h_thread k x) \<noteq> t" using Cons.prems by (cases xs) auto
  then show ?case using Cons by (cases xs) simp_all
qed

lemma next_scan_find:
  "run_seg (h_thread k) xs c \<Longrightarrow> c \<notin> set xs \<Longrightarrow>
     next_scan (length xs) k c (hd (xs @ [c])) = find (interrupt_ready k) xs"
  by (induction xs) auto

lemma idle_scan_find:
  "run_seg (h_thread k) xs succ \<Longrightarrow> succ \<noteq> 0 \<Longrightarrow>
     idle_scan (length xs) k (hd (xs @ [succ])) = find (interrupt_ready k) xs"
  using run_seg_next_nonzero [of "h_thread k" xs succ] by (induction xs) (auto simp: hd_append)

text \<open>The candidate is the first ready thread after the current one, in the order of the ring.\<close>

lemma find_next_ring:
  assumes q: "run_queue k (xs @ c # ys)"
  shows "scheduler_find_next_interrupt_thread k c =
    map_option (\<lambda>t. (t, interrupt_rsp (h_thread k t))) (find (interrupt_ready k) (ys @ xs))"
proof -
  have "hd ((xs @ c # ys) @ [0]) = hd (xs @ [c])" by (simp add: hd_append)
  then have r: "run_seg (h_thread k) (ys @ xs) c" "run_next (h_thread k c) = hd ((ys @ xs) @ [c])"
    using q run_seg_rotate [of "h_thread k" xs c ys] by (auto simp: run_queue_def)
  have c: "c \<noteq> 0" "run_next (h_thread k c) \<noteq> 0" "c \<notin> set (ys @ xs)"
    using q run_queue_nodes [OF q, of c] run_queue_next [OF q, of c] by (auto simp: run_queue_def)
  have n: "unat (g_run_count (k_sched k)) - 1 = length (ys @ xs)" using q by (simp add: run_queue_def)
  show ?thesis
  proof (cases "ys @ xs = []")
    case True
    then have "g_run_count (k_sched k) < 2" using run_queue_few [OF q] by simp
    then show ?thesis using True by (simp add: scheduler_find_next_interrupt_thread_def)
  next
    case False
    then have "\<not> g_run_count (k_sched k) < 2" using run_queue_few [OF q] by (cases xs; cases ys) auto
    moreover have "next_scan (unat (g_run_count (k_sched k)) - 1) k c (run_next (h_thread k c)) =
        find (interrupt_ready k) (ys @ xs)"
      unfolding n r(2) by (rule next_scan_find [OF r(1) c(3)])
    ultimately show ?thesis using c by (simp add: scheduler_find_next_interrupt_thread_def)
  qed
qed

lemma find_idle_ring:
  assumes q: "run_queue k ts" and "ts \<noteq> []" and "g_idle_active (k_sched k)"
  shows "scheduler_find_idle_ready k =
    map_option (\<lambda>t. (t, interrupt_rsp (h_thread k t))) (find (interrupt_ready k) ts)"
proof -
  have e: "g_run_head (k_sched k) = hd ts" "g_run_tail (k_sched k) = last ts" "hd ts \<noteq> 0" "last ts \<noteq> 0"
    using run_queue_ends [OF q assms(2)] by auto
  have "idle_scan (length ts) k (hd (ts @ [hd ts])) = find (interrupt_ready k) ts"
    using q assms(2) e by (intro idle_scan_find) (simp_all add: run_queue_def)
  moreover have "g_run_count (k_sched k) \<noteq> 0" using run_queue_empty [OF q] assms(2) by simp
  moreover have "unat (g_run_count (k_sched k)) = length ts" using q by (simp add: run_queue_def)
  ultimately show ?thesis using assms(2,3) e by (simp add: scheduler_find_idle_ready_def Let_def)
qed

section \<open>Insertion\<close>

text \<open>What a run queue operation leaves alone: everything but the queue links.\<close>

definition links_only :: "Kernel \<Rightarrow> Kernel \<Rightarrow> bool" where
  "links_only k k' \<longleftrightarrow>
     k' = k\<lparr>h_thread := h_thread k', k_sched := k_sched k'\<rparr> \<and>
     k_sched k' = (k_sched k)\<lparr>g_run_head := g_run_head (k_sched k'), g_run_tail := g_run_tail (k_sched k'),
       g_run_count := g_run_count (k_sched k')\<rparr> \<and>
     (\<forall>u. h_thread k' u = (h_thread k u)\<lparr>run_next := run_next (h_thread k' u),
                              on_run_queue := on_run_queue (h_thread k' u)\<rparr>)"

lemma links_only_sel:
  assumes "links_only k k'"
  shows "k_thread k' = k_thread k" "k_mm k' = k_mm k" "h_process k' = h_process k" "k_process k' = k_process k"
    "h_space k' = h_space k" "k_space k' = k_space k" "h_frame k' = h_frame k" "k_stack k' = k_stack k"
    "g_idle_active (k_sched k') = g_idle_active (k_sched k)"
    "scheduler_initialized (k_sched k') = scheduler_initialized (k_sched k)"
    "g_idle_stack_top (k_sched k') = g_idle_stack_top (k_sched k)"
    "h_thread k' u = (h_thread k u)\<lparr>run_next := run_next (h_thread k' u), on_run_queue := on_run_queue (h_thread k' u)\<rparr>"
proof -
  obtain h s where k: "k' = k\<lparr>h_thread := h, k_sched := s\<rparr>" using assms unfolding links_only_def by blast
  obtain a b c where s: "s = (k_sched k)\<lparr>g_run_head := a, g_run_tail := b, g_run_count := c\<rparr>"
    using assms k by (auto simp: links_only_def)
  show "k_thread k' = k_thread k" "k_mm k' = k_mm k" "h_process k' = h_process k" "k_process k' = k_process k"
    "h_space k' = h_space k" "k_space k' = k_space k" "h_frame k' = h_frame k" "k_stack k' = k_stack k"
    "g_idle_active (k_sched k') = g_idle_active (k_sched k)"
    "scheduler_initialized (k_sched k') = scheduler_initialized (k_sched k)"
    "g_idle_stack_top (k_sched k') = g_idle_stack_top (k_sched k)"
    by (simp_all add: k s)
  show "h_thread k' u = (h_thread k u)\<lparr>run_next := run_next (h_thread k' u), on_run_queue := on_run_queue (h_thread k' u)\<rparr>"
    using assms by (simp add: links_only_def)
qed

definition addable :: "Kernel \<Rightarrow> ptr \<Rightarrow> bool" where
  "addable k t \<longleftrightarrow>
     (let th = h_thread k t in
      t \<noteq> 0 \<and> th_id th \<noteq> 0 \<and> \<not> on_run_queue th \<and> th_state th = THREAD_STATE_READY \<and>
      interrupt_context_ready th \<and> interrupt_rsp th \<noteq> 0 \<and>
      scheduler_interrupt_frame_valid k t (interrupt_rsp th))"

lemma distinct_nonzero_bound:
  assumes "distinct (ts :: u64 list)" and "0 \<notin> set ts"
  shows "length ts < 2 ^ 64"
proof -
  have "card (insert 0 (set ts)) \<le> CARD(u64)" by (rule card_mono) auto
  then show ?thesis using assms by (simp add: card_word distinct_card)
qed

lemma run_queue_add_count:
  assumes q: "run_queue k ts" and "t \<noteq> 0" and "t \<notin> set ts"
  shows "unat (g_run_count (k_sched k) + 1) = length ts + 1"
proof -
  have "0 \<notin> set ts" using run_queue_nodes [OF q] by blast
  then have "length (t # ts) < 2 ^ 64" using assms by (intro distinct_nonzero_bound) (auto simp: run_queue_def)
  then show ?thesis using q by (subst unat_add_no_wrap) (auto simp: run_queue_def)
qed

lemma scheduler_add_succeeds:
  assumes "run_queue k ts"
  shows "fst (scheduler_add t k) \<longleftrightarrow>
    scheduler_initialized (k_sched k) \<and> addable k t \<and> (ts = [] \<longrightarrow> g_idle_active (k_sched k))"
  using run_queue_empty [OF assms] run_queue_ends [OF assms] assms
  by (cases "ts = []") (auto simp: scheduler_add_def addable_def Let_def run_queue_def)

lemma scheduler_add_fails: "\<not> fst (scheduler_add t k) \<Longrightarrow> scheduler_add t k = (False, k)"
  by (auto simp: scheduler_add_def Let_def split: if_splits)

lemma scheduler_add_links:
  assumes "scheduler_add t k = (True, k')"
  shows "links_only k k'"
proof -
  have "h_thread k' u = (h_thread k u)\<lparr>run_next := run_next (h_thread k' u),
          on_run_queue := on_run_queue (h_thread k' u)\<rparr>" for u
    using assms by (cases "u = t"; cases "u = g_run_tail (k_sched k)")
      (auto simp: scheduler_add_def Let_def upd_defs split: if_splits)
  moreover have "k' = k\<lparr>h_thread := h_thread k', k_sched := k_sched k'\<rparr>"
    using assms by (auto simp: scheduler_add_def Let_def upd_defs split: if_splits)
  moreover have "k_sched k' = (k_sched k)\<lparr>g_run_head := g_run_head (k_sched k'),
      g_run_tail := g_run_tail (k_sched k'), g_run_count := g_run_count (k_sched k')\<rparr>"
    using assms by (auto simp: scheduler_add_def Let_def upd_defs split: if_splits)
  ultimately show ?thesis unfolding links_only_def by blast
qed

lemma scheduler_add_queue:
  assumes q: "run_queue k ts" and ok: "scheduler_add t k = (True, k')"
  shows "run_queue k' (ts @ [t])"
proof -
  have t: "t \<noteq> 0" "t \<notin> set ts"
    using ok run_queue_nodes [OF q, of t] by (auto simp: scheduler_add_def Let_def split: if_splits)
  note count = run_queue_add_count [OF q t]
  show ?thesis
  proof (cases "ts = []")
    case True
    then have "k' = upd_sched (\<lambda>s. s\<lparr>g_run_head := t, g_run_tail := t, g_run_count := 1\<rparr>)
        (upd_thread t (\<lambda>x. x\<lparr>run_next := t, on_run_queue := True\<rparr>) k)"
      using ok run_queue_empty [OF q] by (auto simp: scheduler_add_def Let_def split: if_splits)
    then show ?thesis using True t by (simp add: run_queue_def upd_defs)
  next
    case False
    then obtain us u where ts: "ts = us @ [u]" by (metis rev_exhaust)
    have e: "g_run_head (k_sched k) = hd ts" "g_run_tail (k_sched k) = u" "hd ts \<noteq> 0" "u \<noteq> 0"
      using run_queue_ends [OF q False] ts by auto
    have ut: "u \<noteq> t" "u \<notin> set us" using t q by (auto simp: ts run_queue_def)
    have h: "run_next (h_thread k' t) = hd ts" "on_run_queue (h_thread k' t)"
        "run_next (h_thread k' u) = t" "on_run_queue (h_thread k' u) = on_run_queue (h_thread k u)"
        "\<And>v. v \<noteq> t \<Longrightarrow> v \<noteq> u \<Longrightarrow> h_thread k' v = h_thread k v"
      and s: "g_run_head (k_sched k') = hd ts" "g_run_tail (k_sched k') = t"
        "g_run_count (k_sched k') = g_run_count (k_sched k) + 1"
      using ok run_queue_empty [OF q] False ut e
      by (auto simp: scheduler_add_def Let_def upd_defs split: if_splits)
    have seg: "run_seg (h_thread k) (us @ [u]) (hd ts)" using q by (cases us) (simp_all add: run_queue_def ts)
    have on: "on_run_queue (h_thread k u)" using run_queue_nodes [OF q, of u] by (simp add: ts)
    have other: "h_thread k' v = h_thread k v" if "v \<in> set us" for v
    proof (rule h(5))
      show "v \<noteq> t" using that t(2) ts by auto
      show "v \<noteq> u" using that ut(2) by auto
    qed
    have "run_seg (h_thread k') (us @ [u]) t"
      by (rule run_seg_set_last [OF seg ut(2)]) (simp_all add: other h(3,4) on)
    then have "run_seg (h_thread k') (ts @ [t]) (hd ts)"
      using h t by (simp add: ts run_seg_append)
    then show ?thesis using q s count False t by (simp add: run_queue_def)
  qed
qed

section \<open>Unlinking\<close>

lemma scheduler_unlink_single:
  assumes q: "run_queue k [t]"
  shows "scheduler_unlink t k =
    (True, upd_sched (\<lambda>s. s\<lparr>g_run_count := 0\<rparr>)
       (upd_thread t (\<lambda>x. x\<lparr>run_next := 0, on_run_queue := False\<rparr>)
          (upd_sched (\<lambda>s. s\<lparr>g_run_head := 0, g_run_tail := 0\<rparr>) k)))"
proof -
  have "g_run_count (k_sched k) = 1" using run_queue_single [OF q] by simp
  moreover have "unlink_scan 1 k t t = Some t" using q by (simp add: run_queue_def)
  ultimately show ?thesis using q by (simp add: scheduler_unlink_def Let_def run_queue_def upd_defs)
qed

text \<open>The predecessor of an element of a ring of two or more.\<close>

lemma unlink_scan_pred:
  assumes q: "run_queue k ts" and ts: "ts = xs @ p # t # ys \<or> ts = t # xs @ [p]"
  shows "unlink_scan (length ts) k t (hd ts) = Some p"
proof -
  have t: "t \<noteq> 0" using run_queue_nodes [OF q, of t] ts by auto
  have seg: "run_seg (h_thread k) ts (hd ts)" using q ts by (auto simp: run_queue_def hd_append)
  from ts show ?thesis
  proof
    assume eq: "ts = xs @ p # t # ys"
    then have "run_seg (h_thread k) (xs @ [p]) t" using seg by (simp add: run_seg_append)
    moreover have "t \<notin> set (xs @ [p])" using q eq by (auto simp: run_queue_def)
    then have "t \<notin> set (tl (xs @ [p]))" by (meson list.set_sel(2) append_is_Nil_conv not_Cons_self2)
    ultimately have "unlink_scan (length ts) k t (hd (xs @ [p])) = Some p"
      using t eq by (intro unlink_scan_hit) auto
    moreover have "hd ts = hd (xs @ [p])" using eq by (simp add: hd_append)
    ultimately show ?thesis by simp
  next
    assume eq: "ts = t # xs @ [p]"
    then have "run_seg (h_thread k) ((t # xs) @ [p]) t" using seg by simp
    moreover have "t \<notin> set (tl ((t # xs) @ [p]))" using q eq by (simp add: run_queue_def)
    ultimately have "unlink_scan (length ts) k t (hd ((t # xs) @ [p])) = Some p"
      using t eq by (intro unlink_scan_hit) auto
    then show ?thesis using eq by simp
  qed
qed

text \<open>Unlinking \<open>t\<close> after \<open>p\<close> from a ring of two or more, field by field.\<close>

definition new_head :: "Kernel \<Rightarrow> ptr \<Rightarrow> ptr" where
  "new_head k t = (if g_run_head (k_sched k) = t then run_next (h_thread k t) else g_run_head (k_sched k))"

definition new_tail :: "Kernel \<Rightarrow> ptr \<Rightarrow> ptr \<Rightarrow> ptr" where
  "new_tail k t p = (if g_run_tail (k_sched k) = t then p else g_run_tail (k_sched k))"

definition unlinked :: "Kernel \<Rightarrow> ptr \<Rightarrow> ptr \<Rightarrow> Kernel \<Rightarrow> bool" where
  "unlinked k t p k' \<longleftrightarrow>
     k' = k\<lparr>h_thread := h_thread k', k_sched := (k_sched k)\<lparr>g_run_head := new_head k t,
            g_run_tail := new_tail k t p, g_run_count := g_run_count (k_sched k) - 1\<rparr>\<rparr> \<and>
     (\<forall>u. h_thread k' u =
        (if u = t then (h_thread k u)\<lparr>run_next := 0, on_run_queue := False\<rparr>
         else if u = new_tail k t p then (h_thread k u)\<lparr>run_next := new_head k t\<rparr>
         else if u = p then (h_thread k u)\<lparr>run_next := run_next (h_thread k t)\<rparr> else h_thread k u))"

lemma unlinked_sched:
  assumes "unlinked k t p k'"
  shows "g_run_head (k_sched k') = new_head k t \<and> g_run_tail (k_sched k') = new_tail k t p \<and>
     g_run_count (k_sched k') = g_run_count (k_sched k) - 1"
proof -
  have k: "k' = k\<lparr>h_thread := h_thread k', k_sched := (k_sched k)\<lparr>g_run_head := new_head k t,
            g_run_tail := new_tail k t p, g_run_count := g_run_count (k_sched k) - 1\<rparr>\<rparr>"
    using assms by (simp add: unlinked_def)
  have "k_sched k' = (k_sched k)\<lparr>g_run_head := new_head k t,
            g_run_tail := new_tail k t p, g_run_count := g_run_count (k_sched k) - 1\<rparr>"
    by (subst k) simp
  then show ?thesis by simp
qed

lemma scheduler_unlink_fields:
  assumes scan: "unlink_scan (unat (g_run_count (k_sched k))) k t (g_run_head (k_sched k)) = Some p"
    and t: "t \<noteq> 0" "on_run_queue (h_thread k t)" "p \<noteq> t"
    and s: "g_run_head (k_sched k) \<noteq> 0" "g_run_tail (k_sched k) \<noteq> 0"
    and n: "g_run_count (k_sched k) \<noteq> 0" "g_run_count (k_sched k) \<noteq> 1"
  obtains k' where "scheduler_unlink t k = (True, k')" "unlinked k t p k'"
proof -
  define s' head tail where "s' = k_sched k" and "head = new_head k t" and "tail = new_tail k t p"
  have tt: "tail \<noteq> t" using t(3) by (simp add: tail_def new_tail_def)
  define h where "h = (h_thread k)(p := (h_thread k p)\<lparr>run_next := run_next (h_thread k t)\<rparr>)"
  define h' where "h' = h(tail := (h tail)\<lparr>run_next := head\<rparr>)"
  define k' where "k' = k\<lparr>h_thread := h'(t := (h' t)\<lparr>run_next := 0, on_run_queue := False\<rparr>),
    k_sched := s'\<lparr>g_run_head := head, g_run_tail := tail, g_run_count := g_run_count s' - 1\<rparr>\<rparr>"
  have ht: "h t = h_thread k t" using t(3) by (simp add: h_def)
  have "scheduler_unlink t k = (True, k')"
    using scan t s n
    by (simp add: scheduler_unlink_def Let_def upd_defs s'_def k'_def h'_def head_def tail_def new_head_def
          new_tail_def h_def [symmetric] ht)
  moreover have "h_thread k' u = (if u = t then (h_thread k u)\<lparr>run_next := 0, on_run_queue := False\<rparr>
       else if u = tail then (h_thread k u)\<lparr>run_next := head\<rparr>
       else if u = p then (h_thread k u)\<lparr>run_next := run_next (h_thread k t)\<rparr> else h_thread k u)" for u
    using tt t(3) by (simp add: k'_def h'_def h_def)
  then have "unlinked k t p k'" by (simp add: unlinked_def k'_def s'_def head_def tail_def)
  ultimately show ?thesis using that by blast
qed

lemma ring_cases:
  assumes "t \<in> set ts" and "ts \<noteq> [t]" and "distinct ts"
  obtains (inner) xs p ys where "ts = xs @ p # t # ys"
  | (first) xs p where "ts = t # xs @ [p]"
proof -
  obtain as bs where ts: "ts = as @ t # bs" using assms(1) by (meson split_list)
  show ?thesis
  proof (cases "as = []")
    case True
    then have "bs \<noteq> []" using ts assms(2) by simp
    then obtain xs p where "bs = xs @ [p]" by (metis rev_exhaust)
    then show ?thesis using first True ts by simp
  next
    case False
    then obtain xs p where "as = xs @ [p]" by (metis rev_exhaust)
    then show ?thesis using inner [of xs p bs] ts by simp
  qed
qed

lemma count_minus_one: "n \<noteq> 0 \<Longrightarrow> unat n = Suc m \<Longrightarrow> unat (n - 1) = m" for n :: u64
  by (metis diff_Suc_1 unat_minus_one)

lemma scheduler_unlink_inner:
  assumes q: "run_queue k ts" and ts: "ts = xs @ p # t # ys" and u: "unlinked k t p k'"
  shows "run_queue k' (xs @ p # ys)"
proof -
  have d: "distinct ts" and seg: "run_seg (h_thread k) ts (hd ts)"
    and e: "g_run_head (k_sched k) = hd ts" "g_run_tail (k_sched k) = last ts"
    and n: "unat (g_run_count (k_sched k)) = Suc (length (xs @ p # ys))"
    using q ts by (auto simp: run_queue_def hd_append)
  have ht: "hd ts \<noteq> t" using d ts by (cases xs) auto
  have hd: "new_head k t = hd ts" "hd ts = hd (xs @ [p])"
    using e ht ts by (auto simp: new_head_def hd_append)
  have tl: "new_tail k t p = last (p # ys)" using e d ts by (auto simp: new_tail_def split: if_splits)
  have h: "h_thread k' u =
        (if u = t then (h_thread k u)\<lparr>run_next := 0, on_run_queue := False\<rparr>
         else if u = last (p # ys) then (h_thread k u)\<lparr>run_next := hd ts\<rparr>
         else if u = p then (h_thread k u)\<lparr>run_next := run_next (h_thread k t)\<rparr> else h_thread k u)" for u
    using u unfolding unlinked_def hd(1) tl by blast
  have parts: "run_seg (h_thread k) xs p" "run_next (h_thread k t) = hd (ys @ [hd ts])"
    "run_seg (h_thread k) ys (hd ts)" "p \<noteq> 0" "on_run_queue (h_thread k p)"
    using seg ts by (auto simp: run_seg_append)
  have last: "run_next (h_thread k (last ys)) = hd ts" if "ys \<noteq> []"
    using that parts(3) by (cases ys rule: rev_cases) (auto simp: run_seg_append)
  have kept: "run_next (h_thread k' u) = run_next (h_thread k u) \<and>
      on_run_queue (h_thread k' u) = on_run_queue (h_thread k u)" if "u \<noteq> t" "u \<noteq> p" for u
    using that last by (simp add: h)
  have sep: "v \<noteq> t \<and> v \<noteq> p" if "v \<in> set xs \<union> set ys" for v using that d ts by auto
  have "run_seg (h_thread k') xs p = run_seg (h_thread k) xs p"
    by (rule run_seg_cong, rule kept) (simp_all add: sep)
  moreover have "run_seg (h_thread k') ys (hd ts) = run_seg (h_thread k) ys (hd ts)"
    by (rule run_seg_cong, rule kept) (simp_all add: sep)
  moreover have "p \<noteq> t" "ys \<noteq> [] \<Longrightarrow> p \<noteq> last ys" using d ts by auto
  then have "run_next (h_thread k' p) = hd (ys @ [hd ts])" "on_run_queue (h_thread k' p)"
    using parts by (auto simp: h)
  ultimately have "run_seg (h_thread k') (xs @ p # ys) (hd ts)"
    using parts by (simp add: run_seg_append)
  moreover have "hd ((xs @ p # ys) @ [0]) = hd ts" using hd by (simp add: hd_append)
  moreover have "g_run_count (k_sched k) \<noteq> 0" using n by auto
  then have "unat (g_run_count (k_sched k) - 1) = length (xs @ p # ys)" by (rule count_minus_one [OF _ n])
  ultimately show ?thesis
    using unlinked_sched [OF u] d ts hd(1) tl by (simp add: run_queue_def)
qed

lemma scheduler_unlink_first:
  assumes q: "run_queue k ts" and ts: "ts = t # xs @ [p]" and u: "unlinked k t p k'"
  shows "run_queue k' (xs @ [p])"
proof -
  have d: "distinct ts" and seg: "run_seg (h_thread k) ts t"
    and e: "g_run_head (k_sched k) = t" "g_run_tail (k_sched k) = p"
    and n: "unat (g_run_count (k_sched k)) = Suc (length (xs @ [p]))"
    using q ts by (auto simp: run_queue_def)
  have hd: "new_head k t = hd (xs @ [p])" "new_tail k t p = p"
    using e seg ts d by (auto simp: new_head_def new_tail_def hd_append)
  have h: "h_thread k' u =
        (if u = t then (h_thread k u)\<lparr>run_next := 0, on_run_queue := False\<rparr>
         else if u = p then (h_thread k u)\<lparr>run_next := hd (xs @ [p])\<rparr>
         else if u = p then (h_thread k u)\<lparr>run_next := run_next (h_thread k t)\<rparr> else h_thread k u)" for u
    using u unfolding unlinked_def hd by blast
  have s: "run_seg (h_thread k) (xs @ [p]) t" "p \<notin> set xs" "t \<noteq> p" "t \<notin> set xs" using seg d ts by auto
  have "run_seg (h_thread k') (xs @ [p]) (hd (xs @ [p]))"
  proof (rule run_seg_set_last [OF s(1,2)])
    show "run_next (h_thread k' u) = run_next (h_thread k u) \<and>
        on_run_queue (h_thread k' u) = on_run_queue (h_thread k u)" if "u \<in> set xs" for u
      using that s by (auto simp: h)
  qed (use s in \<open>auto simp: h run_seg_append\<close>)
  moreover have "hd ((xs @ [p]) @ [0]) = hd (xs @ [p])" by (simp add: hd_append)
  moreover have "g_run_count (k_sched k) \<noteq> 0" using n by auto
  then have "unat (g_run_count (k_sched k) - 1) = length (xs @ [p])" by (rule count_minus_one [OF _ n])
  ultimately show ?thesis using unlinked_sched [OF u] d ts hd by (simp only: run_queue_def) simp
qed

lemma unlinked_links:
  assumes "unlinked k t p k'"
  shows "links_only k k' \<and> run_next (h_thread k' t) = 0 \<and> \<not> on_run_queue (h_thread k' t) \<and>
    (\<forall>u. u \<noteq> t \<longrightarrow> on_run_queue (h_thread k' u) = on_run_queue (h_thread k u))"
proof -
  have h: "h_thread k' u =
        (if u = t then (h_thread k u)\<lparr>run_next := 0, on_run_queue := False\<rparr>
         else if u = new_tail k t p then (h_thread k u)\<lparr>run_next := new_head k t\<rparr>
         else if u = p then (h_thread k u)\<lparr>run_next := run_next (h_thread k t)\<rparr> else h_thread k u)" for u
    using assms by (simp add: unlinked_def)
  have k: "k' = k\<lparr>h_thread := h_thread k', k_sched := (k_sched k)\<lparr>g_run_head := new_head k t,
            g_run_tail := new_tail k t p, g_run_count := g_run_count (k_sched k) - 1\<rparr>\<rparr>"
    using assms by (simp add: unlinked_def)
  have s: "k_sched k' = (k_sched k)\<lparr>g_run_head := new_head k t,
            g_run_tail := new_tail k t p, g_run_count := g_run_count (k_sched k) - 1\<rparr>"
    by (subst k) simp
  have "k' = k\<lparr>h_thread := h_thread k', k_sched := k_sched k'\<rparr>" unfolding s by (rule k)
  moreover have "k_sched k' = (k_sched k)\<lparr>g_run_head := g_run_head (k_sched k'),
      g_run_tail := g_run_tail (k_sched k'), g_run_count := g_run_count (k_sched k')\<rparr>" unfolding s by simp
  moreover have "h_thread k' u = (h_thread k u)\<lparr>run_next := run_next (h_thread k' u),
                              on_run_queue := on_run_queue (h_thread k' u)\<rparr>" for u
    by (simp add: h)
  ultimately show ?thesis unfolding links_only_def by (simp add: h)
qed

lemma scheduler_unlink_queue:
  assumes q: "run_queue k ts" and t: "t \<in> set ts"
  obtains k' where "scheduler_unlink t k = (True, k')" "run_queue k' (remove1 t ts)" "links_only k k'"
    "run_next (h_thread k' t) = 0" "\<not> on_run_queue (h_thread k' t)"
    "\<forall>u. u \<noteq> t \<longrightarrow> on_run_queue (h_thread k' u) = on_run_queue (h_thread k u)"
proof (cases "ts = [t]")
  case True
  then show ?thesis
    using scheduler_unlink_single [of k t] q that by (simp add: run_queue_def links_only_def upd_defs)
next
  case False
  have d: "distinct ts" and t0: "t \<noteq> 0" "on_run_queue (h_thread k t)"
    using q run_queue_nodes [OF q t] by (auto simp: run_queue_def)
  have ne: "ts \<noteq> []" using t by auto
  have e: "g_run_head (k_sched k) = hd ts" "g_run_head (k_sched k) \<noteq> 0" "g_run_tail (k_sched k) \<noteq> 0"
    using run_queue_ends [OF q ne] by auto
  have len: "length ts \<noteq> 1" using False t by (auto simp: length_Suc_conv)
  have n: "g_run_count (k_sched k) \<noteq> 0" "g_run_count (k_sched k) \<noteq> 1"
    "unat (g_run_count (k_sched k)) = length ts"
    using q run_queue_empty [OF q] run_queue_single [OF q] ne len by (auto simp: run_queue_def)
  obtain p k' where k': "scheduler_unlink t k = (True, k')" "unlinked k t p k'" "run_queue k' (remove1 t ts)"
    using t False d
  proof (cases rule: ring_cases)
    case (inner xs p ys)
    have pt: "p \<noteq> t" "t \<notin> set xs" using d inner by auto
    have "unlink_scan (unat (g_run_count (k_sched k))) k t (g_run_head (k_sched k)) = Some p"
      unfolding n(3) e(1) using inner by (intro unlink_scan_pred [OF q]) blast
    from scheduler_unlink_fields [OF this t0 pt(1) e(2,3) n(1,2)] obtain k'
      where "scheduler_unlink t k = (True, k')" "unlinked k t p k'" .
    then show ?thesis
      using that scheduler_unlink_inner [OF q inner] inner pt by (simp add: remove1_append)
  next
    case (first xs p)
    have pt: "p \<noteq> t" using d first by auto
    have "unlink_scan (unat (g_run_count (k_sched k))) k t (g_run_head (k_sched k)) = Some p"
      unfolding n(3) e(1) using first by (intro unlink_scan_pred [OF q]) blast
    from scheduler_unlink_fields [OF this t0 pt e(2,3) n(1,2)] obtain k'
      where "scheduler_unlink t k = (True, k')" "unlinked k t p k'" .
    then show ?thesis using that scheduler_unlink_first [OF q first] first by simp
  qed
  then show ?thesis using that unlinked_links [OF k'(2)] by blast
qed

lemma scheduler_unlink_absent:
  assumes q: "run_queue k ts" and "t \<notin> set ts"
  shows "scheduler_unlink t k = (False, k)"
proof (cases "ts = [] \<or> t = 0")
  case True
  then show ?thesis using run_queue_empty [OF q] by (auto simp: scheduler_unlink_def Let_def)
next
  case False
  have e: "g_run_head (k_sched k) = hd ts" using run_queue_ends [OF q] False by simp
  have "run_seg (h_thread k) ts (hd ts)" using q False by (simp add: run_queue_def hd_append)
  moreover have "hd ts \<noteq> t" using assms(2) False hd_in_set [of ts] by metis
  ultimately have "unlink_scan (length ts) k t (hd (ts @ [hd ts])) = None"
    using assms(2) by (intro unlink_scan_miss) auto
  then have "unlink_scan (unat (g_run_count (k_sched k))) k t (g_run_head (k_sched k)) = None"
    using q False e by (simp add: run_queue_def hd_append)
  then show ?thesis by (simp add: scheduler_unlink_def Let_def)
qed

section \<open>The contract\<close>

interpretation run_list: intrusive_list run_queue scheduler_add scheduler_unlink
proof
  fix s s' :: Kernel and xs e
  show "run_queue s xs \<Longrightarrow> distinct xs" by (simp add: run_queue_def)
  show "run_queue s xs \<Longrightarrow> scheduler_add e s = (True, s') \<Longrightarrow> run_queue s' (xs @ [e])"
    by (rule scheduler_add_queue)
  show "scheduler_add e s = (False, s') \<Longrightarrow> s' = s" using scheduler_add_fails [of e s] by simp
  show "run_queue s xs \<Longrightarrow> e \<in> set xs \<Longrightarrow>
      \<exists>s'. scheduler_unlink e s = (True, s') \<and> run_queue s' (remove1 e xs)"
    by (metis scheduler_unlink_queue)
  show "run_queue s xs \<Longrightarrow> e \<notin> set xs \<Longrightarrow> scheduler_unlink e s = (False, s)"
    by (rule scheduler_unlink_absent)
qed

end
