(* ===== verification/Scheduler_Laws.thy ===== *)
theory Scheduler_Laws
  imports Run_Queue
begin

text \<open>
  The invariant of the scheduler and what it gives: every operation preserves it, a context switch
  follows the order of the ring, and timer preemption visits the queue round robin.
\<close>

section \<open>The invariant\<close>

text \<open>
  Either the idle context runs and no thread is current, or the current thread is the one running
  thread of the queue. All other queued threads can be resumed from a valid saved frame.
\<close>

definition sched_inv :: "Kernel \<Rightarrow> ptr list \<Rightarrow> bool" where
  "sched_inv k ts \<longleftrightarrow>
     run_queue k ts \<and> scheduler_initialized (k_sched k) \<and> thread_initialized (k_thread k) \<and>
     (\<forall>t\<in>set ts. th_id (h_thread k t) \<noteq> 0 \<and> (t \<noteq> g_current_thread (k_thread k) \<longrightarrow> interrupt_ready k t)) \<and>
     (if g_idle_active (k_sched k) then g_current_thread (k_thread k) = 0
      else g_current_thread (k_thread k) \<in> set ts \<and>
           th_state (h_thread k (g_current_thread (k_thread k))) = THREAD_STATE_RUNNING)"

definition activatable :: "Kernel \<Rightarrow> ptr \<Rightarrow> bool" where
  "activatable k t \<longleftrightarrow>
     (let th = h_thread k t; space = process_address_space k (th_process th) in
      thread_storage_live k t \<and> th_process th \<noteq> 0 \<and> kernel_stack_top th \<noteq> 0 \<and>
      \<not> has (kernel_stack_top th) 0xF \<and> space \<noteq> 0 \<and> address_space_cr3 k space \<noteq> 0)"

lemma frame_valid_cong:
  assumes "kernel_stack_base (h_thread k' t) = kernel_stack_base (h_thread k t)"
    "kernel_stack_top (h_thread k' t) = kernel_stack_top (h_thread k t)"
    "kernel_stack_size (h_thread k' t) = kernel_stack_size (h_thread k t)"
  shows "scheduler_interrupt_frame_valid k' t f = scheduler_interrupt_frame_valid k t f"
  using assms by (simp add: scheduler_interrupt_frame_valid_def Let_def)

lemma interrupt_ready_cong:
  assumes "h_thread k' t = (h_thread k t)\<lparr>run_next := x\<rparr>"
  shows "interrupt_ready k' t = interrupt_ready k t"
  using assms frame_valid_cong [of k' t k] by (simp add: interrupt_ready_def Let_def)

lemma sched_inv_current:
  assumes "sched_inv k ts"
  shows "thread_current k = g_current_thread (k_thread k)"
  using assms by (simp add: sched_inv_def thread_current_def)

lemma sched_inv_runnable:
  assumes "sched_inv k ts" and "\<not> g_idle_active (k_sched k)"
  shows "current_runnable k"
  using assms run_queue_nodes [of k ts "thread_current k"] run_queue_next [of k ts "thread_current k"]
  by (simp add: current_runnable_def Let_def sched_inv_def thread_current_def)

text \<open>At most one thread of the queue is running, and it is the current one.\<close>

lemma sched_inv_running:
  assumes "sched_inv k ts" and "t \<in> set ts" and "th_state (h_thread k t) = THREAD_STATE_RUNNING"
  shows "t = g_current_thread (k_thread k)"
  using assms by (auto simp: sched_inv_def interrupt_ready_def Let_def)

section \<open>Activation\<close>

definition set_state :: "ThreadState \<Rightarrow> Thread \<Rightarrow> Thread" where
  "set_state s x = x\<lparr>th_state := s\<rparr>"

lemma load_cr3_frame: "load_cr3 c k = k\<lparr>k_mm := k_mm (load_cr3 c k)\<rparr>"
  by (simp add: load_cr3_def)

lemma load_cr3_sel [simp]:
  "h_thread (load_cr3 c k) = h_thread k" "k_sched (load_cr3 c k) = k_sched k"
  "k_thread (load_cr3 c k) = k_thread k" "h_process (load_cr3 c k) = h_process k"
  "k_process (load_cr3 c k) = k_process k" "h_space (load_cr3 c k) = h_space k"
  "k_space (load_cr3 c k) = k_space k" "page_map_at (k_mm (load_cr3 c k)) = page_map_at (k_mm k)"
  by (simp_all add: load_cr3_def)

text \<open>What activation leaves alone: everything but thread states, the current thread, CR3 and RSP0.\<close>

definition activation_frame :: "Kernel \<Rightarrow> Kernel \<Rightarrow> bool" where
  "activation_frame k k' \<longleftrightarrow>
     k_sched k' = k_sched k \<and> h_process k' = h_process k \<and> k_process k' = k_process k \<and>
     h_space k' = h_space k \<and> k_space k' = k_space k \<and> page_map_at (k_mm k') = page_map_at (k_mm k) \<and>
     h_frame k' = h_frame k \<and>
     k_thread k' = (k_thread k)\<lparr>g_current_thread := g_current_thread (k_thread k')\<rparr>"

lemma load_cr3_h_frame [simp]: "h_frame (load_cr3 c k) = h_frame k"
  by (simp add: load_cr3_def)

lemma thread_activate_fails: "\<not> fst (thread_activate t k) \<Longrightarrow> thread_activate t k = (False, k)"
  by (auto simp: thread_activate_def Let_def split: if_splits)

lemma thread_activate_other:
  assumes "thread_activate t k = (True, k')" and "t \<noteq> g_current_thread (k_thread k)"
  shows "activation_frame k k'" and "g_current_thread (k_thread k') = t"
    and "h_thread k' = (h_thread k)(g_current_thread (k_thread k) := set_state THREAD_STATE_READY (h_thread k (g_current_thread (k_thread k))),
           t := set_state THREAD_STATE_RUNNING (h_thread k t))"
    and "activatable k t"
  using assms by (auto simp: thread_activate_def Let_def upd_defs gdt_set_rsp0_def activation_frame_def
      activatable_def set_state_def split: if_splits)

lemma thread_activate_succeeds:
  assumes "activatable k t" and "thread_initialized (k_thread k)" and "th_id (h_thread k t) \<noteq> 0"
    and "th_state (h_thread k t) = THREAD_STATE_READY" and "g_current_thread (k_thread k) \<noteq> 0"
    and "th_state (h_thread k (g_current_thread (k_thread k))) = THREAD_STATE_RUNNING"
  shows "fst (thread_activate t k)"
  using assms by (auto simp: thread_activate_def activatable_def Let_def)

lemma activate_from_idle:
  assumes "thread_scheduler_activate_from_idle t k = (True, k')"
  shows "activation_frame k k'" and "g_current_thread (k_thread k') = t"
    and "h_thread k' = (h_thread k)(t := set_state THREAD_STATE_RUNNING (h_thread k t))"
  using assms by (auto simp: thread_scheduler_activate_from_idle_def Let_def upd_defs gdt_set_rsp0_def
      activation_frame_def set_state_def split: if_splits)

lemma activate_from_idle_succeeds:
  assumes "activatable k t" and "thread_initialized (k_thread k)" and "th_id (h_thread k t) \<noteq> 0"
    and "g_current_thread (k_thread k) = 0" and "interrupt_ready k t" and "run_next (h_thread k t) \<noteq> 0"
  shows "fst (thread_scheduler_activate_from_idle t k)"
  using assms by (auto simp: thread_scheduler_activate_from_idle_def activatable_def interrupt_ready_def Let_def)

section \<open>Switching\<close>

text \<open>The part of the scheduler's state the invariant reads.\<close>

definition sched_core :: "SchedulerModule \<Rightarrow> ptr \<times> ptr \<times> u64 \<times> bool \<times> bool" where
  "sched_core s = (g_run_head s, g_run_tail s, g_run_count s, scheduler_initialized s, g_idle_active s)"

lemma sched_core_sel:
  assumes "sched_core s' = sched_core s"
  shows "g_run_head s' = g_run_head s" "g_run_tail s' = g_run_tail s" "g_run_count s' = g_run_count s"
    "scheduler_initialized s' = scheduler_initialized s" "g_idle_active s' = g_idle_active s"
  using assms by (simp_all add: sched_core_def)

lemma run_queue_core:
  assumes "run_queue k ts" and "sched_core (k_sched k') = sched_core (k_sched k)"
    and "\<And>t. t \<in> set ts \<Longrightarrow> run_next (h_thread k' t) = run_next (h_thread k t) \<and>
            on_run_queue (h_thread k' t) = on_run_queue (h_thread k t)"
  shows "run_queue k' ts"
  using assms(1) sched_core_sel [OF assms(2)] run_seg_cong [of ts "h_thread k'" "h_thread k"] assms(3)
  by (simp add: run_queue_def)

definition set_context :: "ptr \<Rightarrow> bool \<Rightarrow> Thread \<Rightarrow> Thread" where
  "set_context f b x = x\<lparr>interrupt_rsp := f, interrupt_context_ready := b\<rparr>"

text \<open>Two outcomes of a switch: only the saved context of the current thread changed, or
  \<open>c\<close> was saved with its frame and \<open>t\<close> resumed.\<close>

definition stayed :: "Kernel \<Rightarrow> ptr \<Rightarrow> Kernel \<Rightarrow> bool" where
  "stayed k c k' \<longleftrightarrow>
     sched_core (k_sched k') = sched_core (k_sched k) \<and> k_thread k' = k_thread k \<and>
     (\<exists>f b. h_thread k' = (h_thread k)(c := set_context f b (h_thread k c)) \<or> h_thread k' = h_thread k)"

definition switched :: "Kernel \<Rightarrow> ptr \<Rightarrow> ptr \<Rightarrow> ptr \<Rightarrow> Kernel \<Rightarrow> bool" where
  "switched k c frame t k' \<longleftrightarrow>
     sched_core (k_sched k') = sched_core (k_sched k) \<and>
     k_thread k' = (k_thread k)\<lparr>g_current_thread := t\<rparr> \<and>
     h_thread k' = (h_thread k)(c := set_state THREAD_STATE_READY (set_context frame True (h_thread k c)),
                                t := set_state THREAD_STATE_RUNNING (set_context 0 False (h_thread k t)))"

lemma stayed_inv:
  assumes inv: "sched_inv k ts" and c: "c = g_current_thread (k_thread k)" and s: "stayed k c k'"
  shows "sched_inv k' ts"
proof -
  obtain f b where h: "h_thread k' = (h_thread k)(c := set_context f b (h_thread k c)) \<or> h_thread k' = h_thread k"
    using s by (auto simp: stayed_def)
  have core: "sched_core (k_sched k') = sched_core (k_sched k)" and th: "k_thread k' = k_thread k"
    using s by (auto simp: stayed_def)
  have links: "run_next (h_thread k' t) = run_next (h_thread k t) \<and> on_run_queue (h_thread k' t) = on_run_queue (h_thread k t)
      \<and> th_id (h_thread k' t) = th_id (h_thread k t) \<and> th_state (h_thread k' t) = th_state (h_thread k t)" for t
    using h by (elim disjE) (simp_all add: set_context_def)
  have "interrupt_ready k' t = interrupt_ready k t" if "t \<noteq> c" for t
    using h that by (intro interrupt_ready_cong [where x = "run_next (h_thread k t)"]) auto
  moreover have "run_queue k' ts" using inv links by (intro run_queue_core [OF _ core]) (auto simp: sched_inv_def)
  ultimately show ?thesis using inv th links sched_core_sel [OF core] c by (simp add: sched_inv_def)
qed

lemma switched_inv:
  assumes inv: "sched_inv k ts" and c: "c = g_current_thread (k_thread k)" and "\<not> g_idle_active (k_sched k)"
    and t: "t \<in> set ts" "t \<noteq> c" and f: "scheduler_interrupt_frame_valid k c frame"
    and s: "switched k c frame t k'"
  shows "sched_inv k' ts"
proof -
  have core: "sched_core (k_sched k') = sched_core (k_sched k)"
    and th: "k_thread k' = (k_thread k)\<lparr>g_current_thread := t\<rparr>"
    and h: "h_thread k' = (h_thread k)(c := set_state THREAD_STATE_READY (set_context frame True (h_thread k c)),
                                t := set_state THREAD_STATE_RUNNING (set_context 0 False (h_thread k t)))"
    using s by (auto simp: switched_def)
  have links: "run_next (h_thread k' u) = run_next (h_thread k u) \<and> on_run_queue (h_thread k' u) = on_run_queue (h_thread k u)
      \<and> th_id (h_thread k' u) = th_id (h_thread k u)" for u
    by (simp add: h set_state_def set_context_def)
  have q: "run_queue k' ts" using inv links by (intro run_queue_core [OF _ core]) (auto simp: sched_inv_def)
  have cts: "c \<in> set ts" using inv c assms(3) by (simp add: sched_inv_def)
  have "interrupt_ready k' u" if u: "u \<in> set ts" "u \<noteq> t" for u
  proof (cases "u = c")
    case True
    have "frame \<noteq> 0" using f by (auto simp: scheduler_interrupt_frame_valid_def Let_def split: if_splits)
    moreover have "scheduler_interrupt_frame_valid k' c frame"
      using f frame_valid_cong [of k' c k frame] t(2) by (simp add: h set_state_def set_context_def)
    moreover have "on_run_queue (h_thread k c)" using run_queue_nodes [of k ts c] inv cts by (simp add: sched_inv_def)
    ultimately show ?thesis using True t(2) by (simp add: interrupt_ready_def Let_def h set_state_def set_context_def)
  next
    case False
    then have "interrupt_ready k u" using inv u c by (simp add: sched_inv_def)
    then show ?thesis using False u interrupt_ready_cong [of k' u "run_next (h_thread k u)" k] by (simp add: h)
  qed
  then show ?thesis
    using inv q th links sched_core_sel [OF core] t assms(3)
    by (simp add: sched_inv_def) (simp add: h set_state_def)
qed

lemma context_sel [simp]:
  "h_thread (set_rax f v k) = h_thread k" "k_sched (set_rax f v k) = k_sched k"
  "k_thread (set_rax f v k) = k_thread k"
  "h_thread (save_context t f k) = (h_thread k)(t := set_context f True (h_thread k t))"
  "k_sched (save_context t f k) = k_sched k" "k_thread (save_context t f k) = k_thread k"
  "h_thread (drop_context t k) = (h_thread k)(t := set_context 0 False (h_thread k t))"
  "k_sched (drop_context t k) = k_sched k" "k_thread (drop_context t k) = k_thread k"
  by (simp_all add: set_rax_def save_context_def drop_context_def set_context_def upd_defs)

lemma find_SomeD: "find P xs = Some x \<Longrightarrow> x \<in> set xs \<and> P x"
  by (induction xs) (auto split: if_splits)

text \<open>A candidate comes from the queue, is not the current thread and can be resumed.\<close>

lemma find_next_member:
  assumes "sched_inv k ts" and "c \<in> set ts"
    and "scheduler_find_next_interrupt_thread k c = Some (t, f)"
  shows "t \<in> set ts" and "t \<noteq> c" and "interrupt_ready k t" and "f = interrupt_rsp (h_thread k t)"
proof -
  obtain xs ys where ts: "ts = xs @ c # ys" using assms(2) by (meson split_list)
  have q: "run_queue k (xs @ c # ys)" using assms(1) by (simp add: sched_inv_def ts)
  have "find (interrupt_ready k) (ys @ xs) = Some t" and f: "f = interrupt_rsp (h_thread k t)"
    using assms(3) find_next_ring [OF q] by auto
  then have "t \<in> set (ys @ xs) \<and> interrupt_ready k t" by (simp only: find_SomeD)
  then show "t \<in> set ts" "t \<noteq> c" "interrupt_ready k t" "f = interrupt_rsp (h_thread k t)"
    using f q by (auto simp: ts run_queue_def)
qed

lemma switch_commit:
  assumes inv: "sched_inv k ts" and run: "\<not> g_idle_active (k_sched k)" and c: "c = g_current_thread (k_thread k)"
    and t: "t \<in> set ts" "t \<noteq> c" and k0: "h_thread k0 = (h_thread k)(c := set_context frame True (h_thread k c))"
      "k_thread k0 = k_thread k" "sched_core (k_sched k0) = sched_core (k_sched k)"
    and a: "thread_activate t k0 = (True, k1)" and k': "k' = drop_context t k1"
      "sched_core (k_sched k'') = sched_core (k_sched k')" "h_thread k'' = h_thread k'" "k_thread k'' = k_thread k'"
  shows "switched k c frame t k''"
proof -
  have tc: "t \<noteq> g_current_thread (k_thread k0)" using t(2) c k0(2) by simp
  note o = thread_activate_other [OF a tc]
  have "h_thread k1 = (h_thread k)(c := set_state THREAD_STATE_READY (set_context frame True (h_thread k c)),
      t := set_state THREAD_STATE_RUNNING (h_thread k t))"
    using o(3) k0 c t(2) by (simp add: fun_upd_def fun_eq_iff)
  moreover have "set_context 0 False (set_state THREAD_STATE_RUNNING x) = set_state THREAD_STATE_RUNNING (set_context 0 False x)" for x
    by (simp add: set_context_def set_state_def)
  ultimately have "h_thread k'' = (h_thread k)(c := set_state THREAD_STATE_READY (set_context frame True (h_thread k c)),
      t := set_state THREAD_STATE_RUNNING (set_context 0 False (h_thread k t)))"
    using k' t(2) by (simp add: fun_eq_iff)
  moreover have "k_thread k'' = (k_thread k)\<lparr>g_current_thread := t\<rparr>"
    using o(1,2) k' k0(2) by (simp add: activation_frame_def)
  moreover have "sched_core (k_sched k'') = sched_core (k_sched k)"
    using o(1) k' k0(3) by (simp add: activation_frame_def)
  ultimately show ?thesis by (simp add: switched_def)
qed

lemma switch_outcome:
  assumes inv: "sched_inv k ts" and run: "\<not> g_idle_active (k_sched k)" and c: "c = g_current_thread (k_thread k)"
    and sw: "scheduler_switch_ready_from_interrupt frame timer k = (f', k')"
  shows "stayed k c k' \<or>
    (\<exists>t\<in>set ts. t \<noteq> c \<and> interrupt_ready k t \<and> scheduler_interrupt_frame_valid k c frame \<and>
       f' = interrupt_rsp (h_thread k t) \<and> switched k c frame t k')"
proof -
  have cur: "thread_current k = c" using sched_inv_current [OF inv] c by simp
  have cts: "c \<in> set ts" using inv run c by (simp add: sched_inv_def)
  define answer where "answer = (\<lambda>v k. if \<not> timer then set_rax frame v k else k)"
  have ans: "h_thread (answer v j) = h_thread j" "k_sched (answer v j) = k_sched j" "k_thread (answer v j) = k_thread j" for v j
    by (simp_all add: answer_def)
  have same: "stayed k c k" "stayed k c (answer 1 k)" by (simp_all add: stayed_def ans)
  show ?thesis
  proof (cases "scheduler_find_next_interrupt_thread k c")
    case None
    then show ?thesis
      using sw same by (auto simp: scheduler_switch_ready_from_interrupt_def cur Let_def answer_def split: if_splits)
  next
    case (Some r)
    then obtain t cf where r: "scheduler_find_next_interrupt_thread k c = Some (t, cf)" by (metis prod.exhaust)
    note m = find_next_member [OF inv cts r]
    define k0 where "k0 = save_context c frame (answer 1 k)"
    obtain b k1 where a: "thread_activate t k0 = (b, k1)" by fastforce
    have k0: "h_thread k0 = (h_thread k)(c := set_context frame True (h_thread k c))"
      "k_thread k0 = k_thread k" "k_sched k0 = k_sched k" by (simp_all add: k0_def ans)
    show ?thesis
    proof (cases b)
      case False
      then have "k1 = k0" using thread_activate_fails [of t k0] a by simp
      then have "stayed k c (answer 0 (drop_context c k1))"
        by (auto simp: stayed_def ans k0 set_context_def)
      then show ?thesis
        using sw same r a False
        by (auto simp: scheduler_switch_ready_from_interrupt_def cur Let_def k0_def answer_def split: if_splits)
    next
      case True
      define k2 where "k2 = drop_context t k1"
      define k3 where "k3 = upd_sched (\<lambda>s. if timer then s\<lparr>g_preemption_count := g_preemption_count s + 1\<rparr>
                               else s\<lparr>g_reschedule_count := g_reschedule_count s + 1\<rparr>) k2"
      have "switched k c frame t k3"
        using True a by (intro switch_commit [OF inv run c m(1,2) k0(1,2) _ _ k2_def])
          (simp_all add: k3_def k0 sched_core_def)
      moreover have "(f', k') = (frame, k) \<or> scheduler_interrupt_frame_valid k c frame \<and> (f', k') = (cf, k3)"
        using sw r a True
        by (auto simp: scheduler_switch_ready_from_interrupt_def cur Let_def k0_def k2_def k3_def answer_def
            split: if_splits)
      ultimately show ?thesis using m same by auto
    qed
  qed
qed

lemma switch_inv:
  assumes "sched_inv k ts" and "\<not> g_idle_active (k_sched k)"
    and "scheduler_switch_ready_from_interrupt frame timer k = (f', k')"
  shows "sched_inv k' ts"
  using switch_outcome [OF assms(1,2) refl assms(3)] stayed_inv [OF assms(1) refl] switched_inv [OF assms(1) refl assms(2)]
  by blast

section \<open>Leaving the queue\<close>

text \<open>After \<open>t\<close> has been activated in place of \<open>c\<close>, unlinking \<open>c\<close> succeeds and leaves the
  invariant for the shorter queue, whatever becomes of \<open>c\<close> itself.\<close>

lemma leave_queue:
  assumes inv: "sched_inv k ts" and run: "\<not> g_idle_active (k_sched k)" and c: "c = g_current_thread (k_thread k)"
    and t: "t \<in> set ts" "t \<noteq> c"
    and h: "\<And>u. u \<noteq> c \<Longrightarrow> u \<noteq> t \<Longrightarrow> h_thread k1 u = h_thread k u"
      "h_thread k1 t = set_state THREAD_STATE_RUNNING (h_thread k t)"
      "run_next (h_thread k1 c) = run_next (h_thread k c)" "on_run_queue (h_thread k1 c) = on_run_queue (h_thread k c)"
    and th: "k_thread k1 = (k_thread k)\<lparr>g_current_thread := t\<rparr>"
    and core: "sched_core (k_sched k1) = sched_core (k_sched k)"
  obtains k2 where "scheduler_unlink c k1 = (True, k2)"
    "h_thread k2 c = (h_thread k1 c)\<lparr>run_next := 0, on_run_queue := False\<rparr>" "links_only k1 k2"
    "\<And>k'. (\<And>u. u \<noteq> c \<Longrightarrow> u \<noteq> t \<Longrightarrow> h_thread k' u = h_thread k2 u) \<Longrightarrow>
       h_thread k' t = set_context 0 False (h_thread k2 t) \<Longrightarrow> k_thread k' = k_thread k2 \<Longrightarrow>
       sched_core (k_sched k') = sched_core (k_sched k2) \<Longrightarrow> sched_inv k' (remove1 c ts)"
proof -
  have q: "run_queue k ts" using inv by (simp add: sched_inv_def)
  have cts: "c \<in> set ts" using inv run c by (simp add: sched_inv_def)
  have links: "run_next (h_thread k1 u) = run_next (h_thread k u) \<and> on_run_queue (h_thread k1 u) = on_run_queue (h_thread k u)" for u
    using h by (cases "u = c"; cases "u = t") (auto simp: set_state_def)
  then have "run_queue k1 ts" by (intro run_queue_core [OF q core]) simp
  from scheduler_unlink_queue [OF this cts] obtain k2 where u: "scheduler_unlink c k1 = (True, k2)"
    "run_queue k2 (remove1 c ts)" "links_only k1 k2" "run_next (h_thread k2 c) = 0" "\<not> on_run_queue (h_thread k2 c)"
    "\<forall>u. u \<noteq> c \<longrightarrow> on_run_queue (h_thread k2 u) = on_run_queue (h_thread k1 u)" .
  note l = links_only_sel [OF u(3)]
  have rest: "set (remove1 c ts) = set ts - {c}" using q by (simp add: run_queue_def)
  have "sched_inv k' (remove1 c ts)"
    if k': "\<And>u. u \<noteq> c \<Longrightarrow> u \<noteq> t \<Longrightarrow> h_thread k' u = h_thread k2 u"
      "h_thread k' t = set_context 0 False (h_thread k2 t)" "k_thread k' = k_thread k2"
      "sched_core (k_sched k') = sched_core (k_sched k2)" for k'
  proof -
    have q': "run_queue k' (remove1 c ts)"
    proof (rule run_queue_core [OF u(2) k'(4)])
      show "run_next (h_thread k' v) = run_next (h_thread k2 v) \<and> on_run_queue (h_thread k' v) = on_run_queue (h_thread k2 v)"
        if "v \<in> set (remove1 c ts)" for v
        using that rest k'(1) [of v] k'(2) by (cases "v = t") (auto simp: set_context_def)
    qed
    have st: "th_state (h_thread k' t) = THREAD_STATE_RUNNING" "th_id (h_thread k' t) = th_id (h_thread k t)"
      by (subst k'(2), subst l(12), simp add: h(2) set_state_def set_context_def)+
    have keep: "interrupt_ready k' v = interrupt_ready k v \<and> th_id (h_thread k' v) = th_id (h_thread k v)"
      if v: "v \<noteq> c" "v \<noteq> t" for v
    proof -
      have "on_run_queue (h_thread k2 v) = on_run_queue (h_thread k v)" using u(6) v h(1) by simp
      then have e: "h_thread k' v = (h_thread k v)\<lparr>run_next := run_next (h_thread k2 v)\<rparr>"
        using l(12) [of v] h(1) [OF v] k'(1) [OF v] by (cases "h_thread k v") simp
      then show ?thesis using interrupt_ready_cong [OF e] by simp
    qed
    have "th_id (h_thread k' v) \<noteq> 0 \<and> (v \<noteq> t \<longrightarrow> interrupt_ready k' v)" if "v \<in> set (remove1 c ts)" for v
      using that inv rest st keep [of v] c t(1) by (cases "v = t") (auto simp: sched_inv_def)
    then show ?thesis
      using inv q' st k'(3) l(1,9,10) th rest t run sched_core_sel [OF k'(4)] sched_core_sel [OF core]
      by (simp add: sched_inv_def)
  qed
  moreover have "h_thread k2 c = (h_thread k1 c)\<lparr>run_next := 0, on_run_queue := False\<rparr>"
    using l(12) [of c] u(4,5) by simp
  ultimately show ?thesis using that u(1,3) by blast
qed

section \<open>Every operation preserves the invariant\<close>

text \<open>Threads outside the queue are free to change.\<close>

lemma sched_inv_outside:
  assumes inv: "sched_inv k ts" and core: "sched_core (k_sched k') = sched_core (k_sched k)"
    and th: "k_thread k' = k_thread k" and h: "\<And>t. t \<in> set ts \<Longrightarrow> h_thread k' t = h_thread k t"
  shows "sched_inv k' ts"
proof -
  have "run_queue k' ts" using inv h by (intro run_queue_core [OF _ core]) (auto simp: sched_inv_def)
  moreover have "interrupt_ready k' t = interrupt_ready k t" if "t \<in> set ts" for t
    using h [OF that] by (intro interrupt_ready_cong [where x = "run_next (h_thread k t)"]) simp
  ultimately show ?thesis using inv th h sched_core_sel [OF core] by (simp add: sched_inv_def)
qed

lemma sched_inv_cong:
  "sched_inv k ts \<Longrightarrow> h_thread k' = h_thread k \<Longrightarrow> k_thread k' = k_thread k \<Longrightarrow>
     sched_core (k_sched k') = sched_core (k_sched k) \<Longrightarrow> sched_inv k' ts"
  by (rule sched_inv_outside) auto

text \<open>A change of the links alone, for a queue whose members were all in the old one.\<close>

lemma sched_inv_links:
  assumes inv: "sched_inv k ts" and l: "links_only k k'" and q: "run_queue k' us"
    and old: "\<And>t. t \<in> set us \<Longrightarrow> t \<in> set ts" and cur: "\<not> g_idle_active (k_sched k) \<Longrightarrow> g_current_thread (k_thread k) \<in> set us"
  shows "sched_inv k' us"
proof -
  note s = links_only_sel [OF l]
  have keep: "th_id (h_thread k' t) = th_id (h_thread k t) \<and> th_state (h_thread k' t) = th_state (h_thread k t)" for t
    by (subst (1 2) s(12)) simp
  have "interrupt_ready k' t = interrupt_ready k t" if "t \<in> set us" for t
  proof -
    have "on_run_queue (h_thread k' t)" "on_run_queue (h_thread k t)"
      using run_queue_nodes [OF q that] run_queue_nodes [of k ts t] inv old [OF that] by (auto simp: sched_inv_def)
    then have e: "h_thread k' t = (h_thread k t)\<lparr>run_next := run_next (h_thread k' t)\<rparr>"
      using s(12) [of t] by (cases "h_thread k t") simp
    show ?thesis by (rule interrupt_ready_cong [OF e])
  qed
  then show ?thesis using inv q s(1,9,10) keep old cur by (auto simp: sched_inv_def)
qed

lemma unlink_inv:
  assumes inv: "sched_inv k ts" and t: "t \<noteq> g_current_thread (k_thread k)"
    and ok: "scheduler_unlink t k = (True, k')"
  shows "sched_inv k' (remove1 t ts)" and "t \<in> set ts" and "t \<notin> set (remove1 t ts)" and "k_thread k' = k_thread k"
proof -
  have q: "run_queue k ts" using inv by (simp add: sched_inv_def)
  show mem: "t \<in> set ts" using scheduler_unlink_absent [OF q, of t] ok by fastforce
  from scheduler_unlink_queue [OF q mem] ok have u: "run_queue k' (remove1 t ts)" "links_only k k'" by auto
  have s: "set (remove1 t ts) = set ts - {t}" using q by (simp add: run_queue_def)
  show "t \<notin> set (remove1 t ts)" using s by simp
  show "k_thread k' = k_thread k" by (rule links_only_sel(1) [OF u(2)])
  show "sched_inv k' (remove1 t ts)"
    using inv s t by (intro sched_inv_links [OF inv u(2,1)]) (auto simp: sched_inv_def)
qed

lemma scheduler_unlink_fails:
  assumes "sched_inv k ts" and "\<not> fst (scheduler_unlink t k)"
  shows "scheduler_unlink t k = (False, k)"
proof -
  have q: "run_queue k ts" using assms(1) by (simp add: sched_inv_def)
  then have "t \<notin> set ts" using assms(2) run_list.del_iff [OF q] by simp
  then show ?thesis by (rule scheduler_unlink_absent [OF q])
qed

lemma scheduler_remove_inv:
  assumes "sched_inv k ts" and "scheduler_remove t k = (ok, k')"
  shows "\<exists>us. sched_inv k' us"
  using assms unlink_inv(1) [OF assms(1), of t k'] scheduler_unlink_fails [OF assms(1), of t]
  by (cases ok) (auto simp: scheduler_remove_def sched_inv_current split: if_splits)

lemma scheduler_add_inv:
  assumes inv: "sched_inv k ts" and ok: "scheduler_add t k = (True, k')"
  shows "sched_inv k' (ts @ [t])"
proof -
  have q: "run_queue k ts" using inv by (simp add: sched_inv_def)
  have a: "addable k t" using scheduler_add_succeeds [OF q, of t] ok by simp
  have q': "run_queue k' (ts @ [t])" by (rule scheduler_add_queue [OF q ok])
  note l = links_only_sel [OF scheduler_add_links [OF ok]]
  have tts: "t \<notin> set ts" using q' by (simp add: run_queue_def)
  have keep: "th_id (h_thread k' u) = th_id (h_thread k u) \<and> th_state (h_thread k' u) = th_state (h_thread k u)" for u
    by (subst (1 2) l(12)) simp
  have "interrupt_ready k' u" if u: "u \<in> set ts" "u \<noteq> g_current_thread (k_thread k)" for u
  proof -
    have "on_run_queue (h_thread k' u)" "on_run_queue (h_thread k u)"
      using run_queue_nodes [OF q', of u] run_queue_nodes [OF q, of u] u by auto
    then have e: "h_thread k' u = (h_thread k u)\<lparr>run_next := run_next (h_thread k' u)\<rparr>"
      using l(12) [of u] by (cases "h_thread k u") simp
    show ?thesis using interrupt_ready_cong [OF e] inv u by (simp add: sched_inv_def)
  qed
  moreover have "interrupt_ready k' t"
  proof -
    have on: "on_run_queue (h_thread k' t)" using run_queue_nodes [OF q', of t] by simp
    have e: "h_thread k' t = (h_thread k t)\<lparr>run_next := run_next (h_thread k' t), on_run_queue := True\<rparr>"
      using l(12) [of t] on by simp
    have "scheduler_interrupt_frame_valid k' t f = scheduler_interrupt_frame_valid k t f" for f
      by (rule frame_valid_cong) (subst e, simp)+
    moreover have "interrupt_rsp (h_thread k' t) = interrupt_rsp (h_thread k t)"
      "interrupt_context_ready (h_thread k' t) = interrupt_context_ready (h_thread k t)" by (subst e, simp)+
    ultimately show ?thesis using a on keep by (simp add: interrupt_ready_def addable_def Let_def)
  qed
  moreover have "th_id (h_thread k t) \<noteq> 0" using a by (simp add: addable_def Let_def)
  ultimately show ?thesis using inv q' l(1,9,10) keep by (auto simp: sched_inv_def)
qed

lemma off_queue:
  assumes "sched_inv k ts" and "\<not> on_run_queue (h_thread k t)"
  shows "t \<notin> set ts"
  using assms run_queue_nodes [of k ts t] by (auto simp: sched_inv_def)

lemma upd_thread_outside:
  assumes "sched_inv k ts" and "t \<notin> set ts"
  shows "sched_inv (upd_thread t f k) ts"
  using assms by (intro sched_inv_outside [OF assms(1)]) (auto simp: upd_thread_def)

lemma scheduler_wake_inv:
  assumes inv: "sched_inv k ts" and w: "scheduler_wake t k = (ok, k')"
  shows "sched_inv k' (if ok then ts @ [t] else ts)"
proof -
  let ?k = "upd_thread t (\<lambda>x. x\<lparr>th_state := THREAD_STATE_READY\<rparr>) k"
  have "k' = k \<and> \<not> ok \<or> t \<notin> set ts \<and> (case scheduler_add t ?k of (b, k1) \<Rightarrow>
      ok = b \<and> k' = (if b then k1 else upd_thread t (\<lambda>x. x\<lparr>th_state := THREAD_STATE_BLOCKED\<rparr>) k1))"
    using w off_queue [OF inv, of t]
    by (auto simp: scheduler_wake_def Let_def split: if_splits prod.splits)
  then consider "k' = k" "\<not> ok" | k1 where "t \<notin> set ts" "scheduler_add t ?k = (ok, k1)"
      "k' = (if ok then k1 else upd_thread t (\<lambda>x. x\<lparr>th_state := THREAD_STATE_BLOCKED\<rparr>) k1)"
    by (cases "scheduler_add t ?k") auto
  then show ?thesis
  proof cases
    case 1
    then show ?thesis using inv by simp
  next
    case (2 k1)
    have i: "sched_inv ?k ts" by (rule upd_thread_outside [OF inv 2(1)])
    show ?thesis
    proof (cases ok)
      case True
      then show ?thesis using scheduler_add_inv [OF i] 2 by simp
    next
      case False
      then have "k1 = ?k" using scheduler_add_fails [of t ?k] 2(2) by simp
      then show ?thesis using False 2 upd_thread_outside [OF i 2(1)] by simp
    qed
  qed
qed

lemma scheduler_terminate_inv:
  assumes inv: "sched_inv k ts" and w: "scheduler_terminate_thread t k = (ok, k')"
  shows "\<exists>us. sched_inv k' us"
proof (cases ok)
  case False
  then have "k' = k" using w scheduler_unlink_fails [OF inv, of t]
    by (auto simp: scheduler_terminate_thread_def split: if_splits prod.splits)
  then show ?thesis using inv by blast
next
  case True
  let ?dead = "\<lambda>x. x\<lparr>th_state := THREAD_STATE_DEAD, interrupt_rsp := 0,
                interrupt_context_ready := False, run_next := 0, on_run_queue := False\<rparr>"
  have t: "t \<noteq> g_current_thread (k_thread k)"
    using w True by (auto simp: scheduler_terminate_thread_def scheduler_can_terminate_thread_def
        sched_inv_current [OF inv] Let_def split: if_splits)
  have "(\<exists>k1. scheduler_unlink t k = (True, k1) \<and> k' = upd_thread t ?dead k1) \<or>
      \<not> on_run_queue (h_thread k t) \<and> k' = upd_thread t ?dead k"
    using w True by (auto simp: scheduler_terminate_thread_def scheduler_can_terminate_thread_def Let_def
        split: if_splits prod.splits)
  then show ?thesis
  proof
    assume "\<exists>k1. scheduler_unlink t k = (True, k1) \<and> k' = upd_thread t ?dead k1"
    then obtain k1 where k1: "scheduler_unlink t k = (True, k1)" "k' = upd_thread t ?dead k1" by blast
    note u = unlink_inv [OF inv t k1(1)]
    show ?thesis unfolding k1(2) using upd_thread_outside [OF u(1,3)] by blast
  next
    assume "\<not> on_run_queue (h_thread k t) \<and> k' = upd_thread t ?dead k"
    then show ?thesis using upd_thread_outside [OF inv off_queue [OF inv]] by blast
  qed
qed

text \<open>Blocking the current thread: it either stays with its old role or leaves the queue.\<close>

definition blocked_from :: "Kernel \<Rightarrow> ptr list \<Rightarrow> ptr \<Rightarrow> ptr \<Rightarrow> Kernel \<Rightarrow> bool" where
  "blocked_from k ts c frame k' \<longleftrightarrow>
     sched_inv k' (remove1 c ts) \<and> th_state (h_thread k' c) = THREAD_STATE_BLOCKED \<and>
     interrupt_rsp (h_thread k' c) = frame \<and> interrupt_context_ready (h_thread k' c) \<and>
     \<not> on_run_queue (h_thread k' c) \<and> run_next (h_thread k' c) = 0 \<and>
     th_id (h_thread k' c) = th_id (h_thread k c) \<and> g_current_thread (k_thread k') \<noteq> c \<and>
     scheduler_interrupt_frame_valid k' c frame = scheduler_interrupt_frame_valid k c frame"

lemma block_switch:
  assumes inv: "sched_inv k ts" and run: "\<not> g_idle_active (k_sched k)" and c: "c = g_current_thread (k_thread k)"
    and t: "t \<in> set ts" "t \<noteq> c" and a: "thread_activate t (save_context c frame (set_rax frame 1 k)) = (True, k1)"
  obtains k2 where "scheduler_unlink c k1 = (True, k2)"
    "blocked_from k ts c frame (upd_sched (\<lambda>s. s\<lparr>g_reschedule_count := g_reschedule_count s + 1\<rparr>)
       (drop_context t (upd_thread c (\<lambda>x. x\<lparr>th_state := THREAD_STATE_BLOCKED\<rparr>) k2)))"
    "g_current_thread (k_thread k2) = t" "h_frame k2 = h_frame (set_rax frame 1 k)"
proof -
  let ?k0 = "save_context c frame (set_rax frame 1 k)"
  have tc: "t \<noteq> g_current_thread (k_thread ?k0)" using t c by simp
  note o = thread_activate_other [OF a tc]
  have h1: "h_thread k1 = (h_thread k)(c := set_state THREAD_STATE_READY (set_context frame True (h_thread k c)),
      t := set_state THREAD_STATE_RUNNING (h_thread k t))"
    using o(3) c t(2) by (simp add: fun_eq_iff)
  have th: "k_thread k1 = (k_thread k)\<lparr>g_current_thread := t\<rparr>" "sched_core (k_sched k1) = sched_core (k_sched k)"
    using o(1,2) by (simp_all add: activation_frame_def)
  obtain k2 where k2: "scheduler_unlink c k1 = (True, k2)"
    "h_thread k2 c = (h_thread k1 c)\<lparr>run_next := 0, on_run_queue := False\<rparr>" "links_only k1 k2"
    and inv': "\<And>k'. (\<And>u. u \<noteq> c \<Longrightarrow> u \<noteq> t \<Longrightarrow> h_thread k' u = h_thread k2 u) \<Longrightarrow>
       h_thread k' t = set_context 0 False (h_thread k2 t) \<Longrightarrow> k_thread k' = k_thread k2 \<Longrightarrow>
       sched_core (k_sched k') = sched_core (k_sched k2) \<Longrightarrow> sched_inv k' (remove1 c ts)"
    by (rule leave_queue [OF inv run c t _ _ _ _ th]) (use t in \<open>auto simp: h1 set_state_def set_context_def\<close>)
  have "sched_inv (upd_sched (\<lambda>s. s\<lparr>g_reschedule_count := g_reschedule_count s + 1\<rparr>)
       (drop_context t (upd_thread c (\<lambda>x. x\<lparr>th_state := THREAD_STATE_BLOCKED\<rparr>) k2))) (remove1 c ts)"
    by (rule inv') (use t in \<open>auto simp: upd_thread_def sched_core_def\<close>)
  moreover have "scheduler_interrupt_frame_valid (upd_sched (\<lambda>s. s\<lparr>g_reschedule_count := g_reschedule_count s + 1\<rparr>)
       (drop_context t (upd_thread c (\<lambda>x. x\<lparr>th_state := THREAD_STATE_BLOCKED\<rparr>) k2))) c frame =
      scheduler_interrupt_frame_valid k c frame"
    using t(2) by (intro frame_valid_cong) (simp_all add: upd_thread_def k2(2) h1 set_state_def set_context_def)
  moreover have "h_frame k1 = h_frame (set_rax frame 1 k)"
    using o(1) by (simp add: activation_frame_def save_context_def upd_thread_def)
  ultimately show ?thesis
    using that [OF k2(1)] k2(2) t(2) links_only_sel(1,7) [OF k2(3)] th(1)
    by (simp add: blocked_from_def upd_thread_def h1 set_state_def set_context_def)
qed

lemma block_outcome:
  assumes inv: "sched_inv k ts" and c: "c = g_current_thread (k_thread k)"
  obtains f k' where "scheduler_block_from_interrupt frame k = Done (f, k')"
    "f = frame \<and> sched_inv k' ts \<or>
     \<not> g_idle_active (k_sched k) \<and> blocked_from k ts c frame k' \<and> scheduler_interrupt_frame_valid k c frame"
proof -
  let ?k = "set_rax frame 0 k"
  have i0: "sched_inv ?k ts" by (rule sched_inv_cong [OF inv]) simp_all
  have cur: "thread_current ?k = c" "thread_current k = c"
    using sched_inv_current [OF inv] sched_inv_current [OF i0] c by simp_all
  have fv: "scheduler_interrupt_frame_valid ?k c frame = scheduler_interrupt_frame_valid k c frame"
    by (rule frame_valid_cong) simp_all
  have run: "\<not> g_idle_active (k_sched k)" if "current_runnable ?k"
    using that inv c by (auto simp: current_runnable_def cur sched_inv_def Let_def)
  have unfold: "scheduler_block_from_interrupt frame k =
     (if frame = 0 then Done (frame, k)
      else if \<not> scheduler_initialized (k_sched k) \<or> g_run_head (k_sched k) = 0 \<or> g_run_tail (k_sched k) = 0 \<or>
        g_run_count (k_sched k) < 2 then Done (frame, ?k)
      else if \<not> current_runnable ?k \<or> \<not> scheduler_interrupt_frame_valid k c frame then Done (frame, ?k)
      else case scheduler_find_next_interrupt_thread ?k c of
        None \<Rightarrow> Done (frame, ?k)
      | Some (t, cf) \<Rightarrow> (case thread_activate t (save_context c frame (set_rax frame 1 ?k)) of (ok, k1) \<Rightarrow>
          if \<not> ok then Done (frame, set_rax frame 0 (drop_context c k1))
          else case scheduler_unlink c k1 of (ok, k2) \<Rightarrow>
            if \<not> ok then Halt
            else Done (cf, upd_sched (\<lambda>s. s\<lparr>g_reschedule_count := g_reschedule_count s + 1\<rparr>)
               (drop_context t (upd_thread c (\<lambda>x. x\<lparr>th_state := THREAD_STATE_BLOCKED\<rparr>) k2)))))"
    unfolding scheduler_block_from_interrupt_def Let_def cur fv context_sel by (rule refl)
  consider (stay) "scheduler_block_from_interrupt frame k = Done (frame, k) \<or>
      scheduler_block_from_interrupt frame k = Done (frame, ?k)"
  | (go) t cf where "current_runnable ?k" "scheduler_interrupt_frame_valid k c frame"
      "scheduler_find_next_interrupt_thread ?k c = Some (t, cf)"
      "scheduler_block_from_interrupt frame k =
        (case thread_activate t (save_context c frame (set_rax frame 1 ?k)) of (ok, k1) \<Rightarrow>
          if \<not> ok then Done (frame, set_rax frame 0 (drop_context c k1))
          else case scheduler_unlink c k1 of (ok, k2) \<Rightarrow>
            if \<not> ok then Halt
            else Done (cf, upd_sched (\<lambda>s. s\<lparr>g_reschedule_count := g_reschedule_count s + 1\<rparr>)
               (drop_context t (upd_thread c (\<lambda>x. x\<lparr>th_state := THREAD_STATE_BLOCKED\<rparr>) k2))))"
  proof (cases "scheduler_find_next_interrupt_thread ?k c")
    case None
    then show thesis using stay by (simp add: unfold)
  next
    case (Some r)
    then obtain t cf where r: "scheduler_find_next_interrupt_thread ?k c = Some (t, cf)" by (cases r) simp
    show thesis
    proof (cases "frame = 0 \<or> \<not> scheduler_initialized (k_sched k) \<or> g_run_head (k_sched k) = 0 \<or>
        g_run_tail (k_sched k) = 0 \<or> g_run_count (k_sched k) < 2 \<or> \<not> current_runnable ?k \<or>
        \<not> scheduler_interrupt_frame_valid k c frame")
      case True
      show thesis by (rule stay) (use True in \<open>auto simp: unfold\<close>)
    next
      case False
      show thesis by (rule go [OF _ _ r]) (use False in \<open>simp_all add: unfold r\<close>)
    qed
  qed
  then show ?thesis
  proof cases
    case stay
    then show ?thesis using that inv i0 by blast
  next
    case (go t cf)
    have r: "\<not> g_idle_active (k_sched k)" using run go(1) .
    have cts: "c \<in> set ts" using inv r c by (simp add: sched_inv_def)
    note m = find_next_member [OF i0 cts go(3)]
    have r': "\<not> g_idle_active (k_sched ?k)" "c = g_current_thread (k_thread ?k)" using r c by simp_all
    obtain ok k1 where a: "thread_activate t (save_context c frame (set_rax frame 1 ?k)) = (ok, k1)" by fastforce
    show ?thesis
    proof (cases ok)
      case False
      then have k1: "k1 = save_context c frame (set_rax frame 1 ?k)" 
        using thread_activate_fails [of t "save_context c frame (set_rax frame 1 ?k)"] a by simp
      have "stayed k c (set_rax frame 0 (drop_context c k1))"
        unfolding k1 by (auto simp: stayed_def set_context_def)
      then show ?thesis using go(4) a False that stayed_inv [OF inv c] by simp
    next
      case True
      then have a': "thread_activate t (save_context c frame (set_rax frame 1 ?k)) = (True, k1)" using a by simp
      obtain k2 where k2: "scheduler_unlink c k1 = (True, k2)"
        "blocked_from ?k ts c frame (upd_sched (\<lambda>s. s\<lparr>g_reschedule_count := g_reschedule_count s + 1\<rparr>)
           (drop_context t (upd_thread c (\<lambda>x. x\<lparr>th_state := THREAD_STATE_BLOCKED\<rparr>) k2)))"
        using block_switch [OF i0 r' m(1,2) a'] by blast
      then show ?thesis using go(2,4) a True that r by (simp add: blocked_from_def fv)
    qed
  qed
qed

text \<open>Exit: the dying thread leaves the queue for the next ready thread or for the idle context.\<close>

lemma exit_to_next_inv:
  assumes inv: "sched_inv k ts" and run: "\<not> g_idle_active (k_sched k)" and c: "c = g_current_thread (k_thread k)"
    and e: "exit_to_next b c k = Done (f, k')"
  shows "sched_inv k' (remove1 c ts)" and "th_state (h_thread k' c) = THREAD_STATE_DEAD"
proof -
  have cts: "c \<in> set ts" using inv run c by (simp add: sched_inv_def)
  obtain t cf where r: "scheduler_find_next_interrupt_thread k c = Some (t, cf)"
    using e by (auto simp: exit_to_next_def split: option.splits)
  note m = find_next_member [OF inv cts r]
  obtain k1 where a: "thread_activate t k = (True, k1)"
    using e r by (auto simp: exit_to_next_def split: prod.splits if_splits)
  have tc: "t \<noteq> g_current_thread (k_thread k)" using m(2) c by simp
  note o = thread_activate_other [OF a tc]
  have th: "k_thread k1 = (k_thread k)\<lparr>g_current_thread := t\<rparr>" "sched_core (k_sched k1) = sched_core (k_sched k)"
    using o(1,2) by (simp_all add: activation_frame_def)
  obtain k2 where k2: "scheduler_unlink c k1 = (True, k2)"
    and inv': "\<And>k'. (\<And>u. u \<noteq> c \<Longrightarrow> u \<noteq> t \<Longrightarrow> h_thread k' u = h_thread k2 u) \<Longrightarrow>
       h_thread k' t = set_context 0 False (h_thread k2 t) \<Longrightarrow> k_thread k' = k_thread k2 \<Longrightarrow>
       sched_core (k_sched k') = sched_core (k_sched k2) \<Longrightarrow> sched_inv k' (remove1 c ts)"
    by (rule leave_queue [OF inv run c m(1,2) _ _ _ _ th]) (use m c o(3) in \<open>auto simp: set_state_def\<close>)
  have k': "k' = count_reschedules b (drop_context t (make_dead c k2))"
    using e r a k2 by (simp add: exit_to_next_def)
  have s: "h_thread k' = h_thread (drop_context t (make_dead c k2))" "k_thread k' = k_thread k2"
    "sched_core (k_sched k') = sched_core (k_sched k2)"
    by (simp_all add: k' count_reschedules_def make_dead_def sched_core_def upd_thread_def)
  show "sched_inv k' (remove1 c ts)"
    by (rule inv') (use m s in \<open>auto simp: make_dead_def upd_thread_def\<close>)
  show "th_state (h_thread k' c) = THREAD_STATE_DEAD"
    using m(2) s(1) by (simp add: make_dead_def upd_thread_def set_context_def)
qed

lemma enter_idle:
  assumes "thread_scheduler_enter_idle idle_top k = (True, k')"
  shows "activation_frame k k'" and "g_current_thread (k_thread k') = 0" and "h_thread k' = h_thread k"
  using assms by (auto simp: thread_scheduler_enter_idle_def Let_def gdt_set_rsp0_def activation_frame_def split: if_splits)

lemma exit_to_idle_inv:
  assumes inv: "sched_inv k ts" and run: "\<not> g_idle_active (k_sched k)" and c: "c = g_current_thread (k_thread k)"
    and n: "g_run_count (k_sched k) = 1" and e: "exit_to_idle l b c k = Done (f, k')"
  shows "sched_inv k' []" and "th_state (h_thread k' c) = THREAD_STATE_DEAD"
proof -
  have q: "run_queue k ts" and cts: "c \<in> set ts" using inv run c by (simp_all add: sched_inv_def)
  then have ts: "ts = [c]" using run_queue_single [OF q] n by (auto simp: length_Suc_conv)
  obtain idle k1 where b: "scheduler_idle_frame_build l (g_idle_stack_base (k_sched k)) (g_idle_stack_top (k_sched k)) k = (idle, k1)"
    by fastforce
  have k1: "h_thread k1 = h_thread k" "k_sched k1 = k_sched k" "k_thread k1 = k_thread k"
    using b by (auto simp: scheduler_idle_frame_build_def Let_def upd_defs split: if_splits)
  have q1: "run_queue k1 [c]" using run_queue_cong [OF q] k1 ts by simp
  define k2 where "k2 = snd (scheduler_unlink c k1)"
  have u: "scheduler_unlink c k1 = (True, k2)" and h2: "k_thread k2 = k_thread k" "g_run_head (k_sched k2) = 0"
    "g_run_tail (k_sched k2) = 0" "g_run_count (k_sched k2) = 0" "scheduler_initialized (k_sched k2) = scheduler_initialized (k_sched k)"
    using scheduler_unlink_single [OF q1] k1 by (simp_all add: k2_def upd_defs)
  obtain k3 where i: "thread_scheduler_enter_idle (g_idle_stack_top (k_sched k2)) (make_dead c k2) = (True, k3)"
    and k': "k' = count_reschedules b (upd_sched (\<lambda>s. s\<lparr>g_idle_active := True, g_idle_entry_count := g_idle_entry_count s + 1\<rparr>) k3)"
    using e b u by (auto simp: exit_to_idle_def split: if_splits prod.splits)
  note d = enter_idle [OF i]
  have s3: "k_sched k3 = k_sched k2" "k_thread k3 = (k_thread k)\<lparr>g_current_thread := 0\<rparr>" "h_thread k3 = h_thread (make_dead c k2)"
    using d h2(1) by (simp_all add: activation_frame_def make_dead_def upd_thread_def)
  have s': "h_thread k' = h_thread k3" "k_thread k' = k_thread k3"
    "sched_core (k_sched k') = sched_core ((k_sched k3)\<lparr>g_idle_active := True\<rparr>)"
    by (simp_all add: k' count_reschedules_def sched_core_def)
  show "sched_inv k' []"
    using inv s' s3 h2 by (simp add: sched_inv_def run_queue_def sched_core_def)
  show "th_state (h_thread k' c) = THREAD_STATE_DEAD"
    using s' s3 by (simp add: make_dead_def upd_thread_def set_context_def)
qed

lemma exit_inv:
  assumes inv: "sched_inv k ts" and e: "scheduler_exit_from_interrupt l frame b k = Done (f, k')"
  shows "\<exists>us. sched_inv k' us"
proof -
  have cur: "thread_current k = g_current_thread (k_thread k)" by (rule sched_inv_current [OF inv])
  have run: "\<not> g_idle_active (k_sched k)"
    using e inv by (auto simp: scheduler_exit_from_interrupt_def current_runnable_def cur sched_inv_def Let_def split: if_splits)
  have "g_run_count (k_sched k) = 1 \<and> exit_to_idle l b (g_current_thread (k_thread k)) k = Done (f, k') \<or>
      exit_to_next b (g_current_thread (k_thread k)) k = Done (f, k')"
    using e by (auto simp: scheduler_exit_from_interrupt_def cur Let_def split: if_splits)
  then show ?thesis
    using exit_to_next_inv(1) [OF inv run refl] exit_to_idle_inv(1) [OF inv run refl] by blast
qed

text \<open>Resuming from the idle context.\<close>

lemma resume_inv:
  assumes inv: "sched_inv k ts" and e: "scheduler_resume_from_idle frame k = Done (f, k')"
  shows "sched_inv k' ts"
proof (cases "k' = k")
  case True
  then show ?thesis using inv by simp
next
  case False
  then obtain t cf k1 where r: "g_idle_active (k_sched k)" "scheduler_find_idle_ready k = Some (t, cf)"
      "thread_scheduler_activate_from_idle t k = (True, k1)"
    and k': "k' = upd_sched (\<lambda>s. s\<lparr>g_idle_active := False, g_idle_resume_count := g_idle_resume_count s + 1,
                     g_reschedule_count := g_reschedule_count s + 1\<rparr>) (drop_context t k1)"
    using e by (auto simp: scheduler_resume_from_idle_def split: if_splits option.splits prod.splits)
  have q: "run_queue k ts" and c0: "g_current_thread (k_thread k) = 0" using inv r(1) by (simp_all add: sched_inv_def)
  have "ts \<noteq> []" using r run_queue_empty [OF q] by (auto simp: scheduler_find_idle_ready_def Let_def split: if_splits)
  then have t: "t \<in> set ts" using find_idle_ring [OF q _ r(1)] r(2) find_SomeD by fastforce
  note o = activate_from_idle [OF r(3)]
  have h: "h_thread k' = (h_thread k)(t := set_context 0 False (set_state THREAD_STATE_RUNNING (h_thread k t)))"
    and th: "k_thread k' = (k_thread k)\<lparr>g_current_thread := t\<rparr>"
    using o by (simp_all add: k' activation_frame_def)
  have s: "g_run_head (k_sched k') = g_run_head (k_sched k)" "g_run_tail (k_sched k') = g_run_tail (k_sched k)"
    "g_run_count (k_sched k') = g_run_count (k_sched k)" "scheduler_initialized (k_sched k') = scheduler_initialized (k_sched k)"
    "\<not> g_idle_active (k_sched k')"
    using o by (simp_all add: k' activation_frame_def)
  have links: "run_next (h_thread k' u) = run_next (h_thread k u) \<and> on_run_queue (h_thread k' u) = on_run_queue (h_thread k u)
     \<and> th_id (h_thread k' u) = th_id (h_thread k u)" for u by (simp add: h set_state_def set_context_def)
  have "run_queue k' ts" using q s run_seg_cong [of ts "h_thread k'" "h_thread k"] links by (simp add: run_queue_def)
  moreover have "interrupt_ready k' u = interrupt_ready k u" if "u \<noteq> t" for u
    using that by (intro interrupt_ready_cong [where x = "run_next (h_thread k u)"]) (simp add: h)
  moreover have "u \<noteq> 0" if "u \<in> set ts" for u using run_queue_nodes [OF q that] by simp
  ultimately show ?thesis
    using inv t c0 s links by (auto simp: sched_inv_def th) (simp add: h set_state_def set_context_def)
qed

section \<open>Reachable states\<close>

text \<open>The entry points of the scheduler, in any order; \<open>l\<close> is the address of the idle loop.\<close>

inductive sched_step :: "Kernel \<Rightarrow> Kernel \<Rightarrow> bool" where
  add: "scheduler_add t k = (ok, k') \<Longrightarrow> sched_step k k'"
| remove: "scheduler_remove t k = (ok, k') \<Longrightarrow> sched_step k k'"
| wake: "scheduler_wake t k = (ok, k') \<Longrightarrow> sched_step k k'"
| terminate: "scheduler_terminate_thread t k = (ok, k') \<Longrightarrow> sched_step k k'"
| wait: "scheduler_wait_current k = (call, k') \<Longrightarrow> sched_step k k'"
| reschedule: "scheduler_reschedule l frame k = Done (f, k') \<Longrightarrow> sched_step k k'"
| preempt: "scheduler_preempt frame k = Done (f, k') \<Longrightarrow> sched_step k k'"
| enable: "scheduler_preemption_enable k = (ok, k') \<Longrightarrow> sched_step k k'"
| disable: "scheduler_preemption_disable k = (ok, k') \<Longrightarrow> sched_step k k'"
| kill: "scheduler_terminate_current_from_interrupt l frame k = Done (f, k') \<Longrightarrow> sched_step k k'"

lemma switch_inv':
  assumes "sched_inv k ts" and "scheduler_switch_ready_from_interrupt frame timer k = (f', k')"
  shows "sched_inv k' ts"
proof (cases "g_idle_active (k_sched k)")
  case True
  then have "\<not> current_runnable k"
    using assms(1) by (auto simp: current_runnable_def thread_current_def sched_inv_def Let_def)
  then have "k' = k" using assms(2) by (auto simp: scheduler_switch_ready_from_interrupt_def Let_def split: if_splits)
  then show ?thesis using assms(1) by simp
next
  case False
  then show ?thesis using switch_inv [OF assms(1) _ assms(2)] by simp
qed

lemma reschedule_inv:
  assumes inv: "sched_inv k ts" and r: "scheduler_reschedule l frame k = Done (f, k')"
  shows "\<exists>us. sched_inv k' us"
proof -
  obtain g j where b: "scheduler_block_from_interrupt frame k = Done (g, j)"
    "g = frame \<and> sched_inv j ts \<or> \<not> g_idle_active (k_sched k) \<and>
       blocked_from k ts (g_current_thread (k_thread k)) frame j \<and>
       scheduler_interrupt_frame_valid k (g_current_thread (k_thread k)) frame"
    by (rule block_outcome [OF inv refl])
  have "k' = k \<or> scheduler_switch_ready_from_interrupt frame False k = (f, k') \<or>
      scheduler_block_from_interrupt frame k = Done (f, k') \<or>
      scheduler_exit_from_interrupt l frame True k = Done (f, k') \<or> k' = set_rax frame 0 k"
    using r by (auto simp: scheduler_reschedule_def Let_def split: if_splits)
  then show ?thesis
  proof (elim disjE)
    assume "scheduler_block_from_interrupt frame k = Done (f, k')"
    then have "k' = j" using b(1) by simp
    then show ?thesis using b(2) by (auto simp: blocked_from_def)
  next
    assume "k' = set_rax frame 0 k"
    then have "sched_inv k' ts" by (intro sched_inv_cong [OF inv]) simp_all
    then show ?thesis ..
  qed (use inv switch_inv' [OF inv] exit_inv [OF inv] in blast)+
qed

lemma preempt_inv:
  assumes inv: "sched_inv k ts" and r: "scheduler_preempt frame k = Done (f, k')"
  shows "sched_inv k' ts"
proof -
  have "k' = k \<or> scheduler_resume_from_idle frame k = Done (f, k') \<or>
      scheduler_switch_ready_from_interrupt frame True k = (f, k')"
    using r by (auto simp: scheduler_preempt_def split: if_splits)
  then show ?thesis
    by (elim disjE) (use inv resume_inv [OF inv] switch_inv' [OF inv] in blast)+
qed

lemma sched_step_inv:
  assumes "sched_step k k'" and inv: "sched_inv k ts"
  shows "\<exists>us. sched_inv k' us"
  using assms(1)
proof (cases rule: sched_step.cases)
  case (add t ok)
  then show ?thesis using inv scheduler_add_inv [OF inv, of t k'] scheduler_add_fails [of t k] by (cases ok) auto
next
  case (remove t ok)
  then show ?thesis using scheduler_remove_inv [OF inv] by blast
next
  case (wake t ok)
  then show ?thesis using scheduler_wake_inv [OF inv] by blast
next
  case (terminate t ok)
  then show ?thesis using scheduler_terminate_inv [OF inv] by blast
next
  case (wait call)
  then have "sched_inv k' ts"
    by (intro sched_inv_cong [OF inv]) (auto simp: scheduler_wait_current_def Let_def sched_core_def split: if_splits)
  then show ?thesis by blast
next
  case (reschedule l frame f)
  then show ?thesis using reschedule_inv [OF inv] by blast
next
  case (preempt frame f)
  then show ?thesis using preempt_inv [OF inv] by blast
next
  case (enable ok)
  then have "sched_inv k' ts"
    by (intro sched_inv_cong [OF inv]) (auto simp: scheduler_preemption_enable_def Let_def sched_core_def split: if_splits)
  then show ?thesis by blast
next
  case (disable ok)
  then have "sched_inv k' ts"
    by (intro sched_inv_cong [OF inv]) (auto simp: scheduler_preemption_disable_def sched_core_def split: if_splits)
  then show ?thesis by blast
next
  case (kill l frame f)
  then show ?thesis using exit_inv [OF inv] by (auto simp: scheduler_terminate_current_from_interrupt_def)
qed

lemma sched_steps_inv:
  assumes "sched_step\<^sup>*\<^sup>* k k'" and "sched_inv k ts"
  shows "\<exists>us. sched_inv k' us"
  using assms(1)
proof (induction rule: rtranclp_induct)
  case base
  then show ?case using assms(2) ..
next
  case (step k1 k2)
  then show ?case using sched_step_inv [OF step(2)] by blast
qed

section \<open>Round robin\<close>

text \<open>What activation of a thread depends on beyond the scheduler.\<close>

definition spaces_same :: "Kernel \<Rightarrow> Kernel \<Rightarrow> bool" where
  "spaces_same k k' \<longleftrightarrow>
     h_process k' = h_process k \<and> k_process k' = k_process k \<and> h_space k' = h_space k \<and>
     k_space k' = k_space k \<and> page_map_at (k_mm k') = page_map_at (k_mm k)"

lemma spaces_same_cr3:
  assumes "spaces_same k k'"
  shows "process_address_space k' p = process_address_space k p" "address_space_cr3 k' s = address_space_cr3 k s"
  using assms by (simp_all add: spaces_same_def process_address_space_def process_live_def
      process_storage_live_def address_space_cr3_def space_storage_live_def)

lemma activatable_cong:
  assumes "spaces_same k k'" and "g_thread_storage (k_thread k') = g_thread_storage (k_thread k)"
    and "th_process (h_thread k' t) = th_process (h_thread k t)"
    and "kernel_stack_top (h_thread k' t) = kernel_stack_top (h_thread k t)"
  shows "activatable k' t = activatable k t"
  using assms spaces_same_cr3 [OF assms(1)] by (simp add: activatable_def thread_storage_live_def Let_def)

lemma switch_succeeds:
  assumes inv: "sched_inv k ts" and run: "\<not> g_idle_active (k_sched k)" and c: "c = g_current_thread (k_thread k)"
    and r: "scheduler_find_next_interrupt_thread k c = Some (t, cf)" and act: "activatable k t"
    and fv: "scheduler_interrupt_frame_valid k c frame"
  obtains k' where "scheduler_switch_ready_from_interrupt frame True k = (cf, k')" "switched k c frame t k'"
    "spaces_same k k'" "g_preemption_enabled (k_sched k') = g_preemption_enabled (k_sched k)"
proof -
  have cur: "thread_current k = c" using sched_inv_current [OF inv] c by simp
  have cts: "c \<in> set ts" using inv run c by (simp add: sched_inv_def)
  note m = find_next_member [OF inv cts r]
  define k0 where "k0 = save_context c frame k"
  have k0: "h_thread k0 = (h_thread k)(c := set_context frame True (h_thread k c))"
    "k_thread k0 = k_thread k" "k_sched k0 = k_sched k" "spaces_same k k0"
    by (simp_all add: k0_def spaces_same_def) (simp_all add: save_context_def upd_thread_def)
  have c0: "c \<noteq> 0" using run_queue_nodes [of k ts c] inv cts by (simp add: sched_inv_def)
  have "activatable k0 t"
    using act activatable_cong [OF k0(4), of t] k0 m(2) by simp
  then have "fst (thread_activate t k0)"
    using inv m c c0 run k0 by (intro thread_activate_succeeds)
      (auto simp: sched_inv_def interrupt_ready_def set_context_def Let_def)
  then obtain k1 where a: "thread_activate t k0 = (True, k1)" by (metis prod.collapse)
  define k2 where "k2 = drop_context t k1"
  define k3 where "k3 = upd_sched (\<lambda>s. s\<lparr>g_preemption_count := g_preemption_count s + 1\<rparr>) k2"
  have sw: "switched k c frame t k3"
    by (rule switch_commit [OF inv run c m(1,2) k0(1,2) _ a k2_def]) (simp_all add: k3_def k0 sched_core_def)
  have af: "activation_frame k0 k1" using thread_activate_other(1) [OF a] m(2) c k0(2) by simp
  have "spaces_same k k3"
    using af k0(4) by (simp add: spaces_same_def activation_frame_def k3_def k2_def drop_context_def upd_thread_def)
  moreover have "g_preemption_enabled (k_sched k3) = g_preemption_enabled (k_sched k)"
    using af k0(3) by (simp add: activation_frame_def k3_def k2_def)
  moreover have "scheduler_switch_ready_from_interrupt frame True k = (cf, k3)"
  proof -
    have q: "run_queue k ts" using inv by (simp add: sched_inv_def)
    have "card {c, t} \<le> card (set ts)" using cts m(1) by (intro card_mono) auto
    then have "length ts \<ge> 2" using m(2) card_length [of ts] by simp
    moreover then have "ts \<noteq> []" by auto
    ultimately have "g_run_head (k_sched k) \<noteq> 0" "g_run_tail (k_sched k) \<noteq> 0" "\<not> g_run_count (k_sched k) < 2"
      using run_queue_ends [OF q] run_queue_few [OF q] by auto
    moreover have "frame \<noteq> 0" using fv by (auto simp: scheduler_interrupt_frame_valid_def Let_def split: if_splits)
    ultimately show ?thesis
      using inv sched_inv_runnable [OF inv run] fv r a
      by (simp add: scheduler_switch_ready_from_interrupt_def cur Let_def k0_def [symmetric] k2_def
          k3_def sched_inv_def)
  qed
  ultimately show ?thesis using that sw by blast
qed

text \<open>All other threads of the queue are ready, so the next one of the ring is chosen.\<close>

lemma find_next_index:
  assumes inv: "sched_inv k ts" and i: "i < length ts" "2 \<le> length ts" and c: "ts ! i = g_current_thread (k_thread k)"
  defines "t \<equiv> ts ! (Suc i mod length ts)"
  shows "scheduler_find_next_interrupt_thread k (ts ! i) = Some (t, interrupt_rsp (h_thread k t))"
proof -
  let ?xs = "take i ts" and ?ys = "drop (Suc i) ts"
  have ts: "ts = ?xs @ ts ! i # ?ys" using i by (simp add: id_take_nth_drop)
  have q: "run_queue k (?xs @ ts ! i # ?ys)" using inv ts by (simp add: sched_inv_def)
  have hd: "hd (?ys @ ?xs) = t \<and> ?ys @ ?xs \<noteq> []"
  proof (cases "Suc i < length ts")
    case True
    then show ?thesis by (simp add: t_def hd_drop_conv_nth)
  next
    case False
    then have e: "Suc i = length ts" using i by simp
    moreover have "ts \<noteq> []" using i(1) by auto
    ultimately show ?thesis using i(2) by (auto simp: t_def hd_conv_nth)
  qed
  have d: "distinct (?xs @ ts ! i # ?ys)" using q unfolding run_queue_def by (rule conjunct1)
  then have "ts ! i \<notin> set (?ys @ ?xs)" by auto
  moreover have "t \<in> set (?ys @ ?xs)" using hd hd_in_set [of "?ys @ ?xs"] by simp
  ultimately have "t \<noteq> ts ! i" by metis
  moreover have "Suc i mod length ts < length ts" using i(1) by (intro mod_less_divisor) auto
  then have "t \<in> set ts" unfolding t_def by (rule nth_mem)
  ultimately have "interrupt_ready k t" using inv c by (simp add: sched_inv_def)
  then have "find (interrupt_ready k) (?ys @ ?xs) = Some t"
    using hd by (cases "?ys @ ?xs") auto
  then show ?thesis using find_next_ring [OF q] by simp
qed

text \<open>One timer interrupt while a thread runs. The frame of the interrupt that comes \<open>m\<close> interrupts
  later and finds thread \<open>t\<close> running is \<open>fr m t\<close>.\<close>

definition rr_ready :: "Kernel \<Rightarrow> ptr list \<Rightarrow> (nat \<Rightarrow> ptr \<Rightarrow> ptr) \<Rightarrow> bool" where
  "rr_ready k ts fr \<longleftrightarrow>
     sched_inv k ts \<and> \<not> g_idle_active (k_sched k) \<and> g_preemption_enabled (k_sched k) \<and>
     (\<forall>t\<in>set ts. activatable k t \<and> (\<forall>m. scheduler_interrupt_frame_valid k t (fr m t)))"

lemma rr_ready_later: "rr_ready k ts (\<lambda>m. fr (Suc m))" if "rr_ready k ts fr"
  using that by (simp add: rr_ready_def)

lemma switched_rr_ready:
  assumes rr: "rr_ready k ts fr" and c: "c = g_current_thread (k_thread k)" and t: "t \<in> set ts" "t \<noteq> c"
    and sw: "switched k c (fr 0 c) t k'" and s: "spaces_same k k'" "g_preemption_enabled (k_sched k') = g_preemption_enabled (k_sched k)"
  shows "rr_ready k' ts fr"
proof -
  have inv: "sched_inv k ts" and run: "\<not> g_idle_active (k_sched k)" using rr by (auto simp: rr_ready_def)
  have cts: "c \<in> set ts" using inv run c by (simp add: sched_inv_def)
  have inv': "sched_inv k' ts"
    using switched_inv [OF inv c run t _ sw] rr cts by (simp add: rr_ready_def)
  have h: "h_thread k' = (h_thread k)(c := set_state THREAD_STATE_READY (set_context (fr 0 c) True (h_thread k c)),
                                t := set_state THREAD_STATE_RUNNING (set_context 0 False (h_thread k t)))"
    and th: "k_thread k' = (k_thread k)\<lparr>g_current_thread := t\<rparr>"
    and core: "sched_core (k_sched k') = sched_core (k_sched k)" using sw by (auto simp: switched_def)
  have "activatable k' u = activatable k u" for u
    by (rule activatable_cong [OF s(1)]) (simp_all add: h th set_state_def set_context_def)
  moreover have "scheduler_interrupt_frame_valid k' u f = scheduler_interrupt_frame_valid k u f" for u f
    by (rule frame_valid_cong) (simp_all add: h set_state_def set_context_def)
  ultimately show ?thesis using rr inv' s(2) sched_core_sel(5) [OF core] by (simp add: rr_ready_def)
qed

lemma preempt_next:
  assumes rr: "rr_ready k ts fr" and i: "i < length ts" and c: "ts ! i = thread_current k"
  obtains f k' where "scheduler_preempt (fr 0 (thread_current k)) k = Done (f, k')"
    "rr_ready k' ts fr" "thread_current k' = ts ! (Suc i mod length ts)"
    "f = (if 2 \<le> length ts then interrupt_rsp (h_thread k (ts ! (Suc i mod length ts))) else fr 0 (ts ! i))"
    "2 \<le> length ts \<longrightarrow> interrupt_rsp (h_thread k' (ts ! i)) = fr 0 (ts ! i)"
    "\<forall>u. u \<noteq> ts ! i \<and> u \<noteq> ts ! (Suc i mod length ts) \<longrightarrow> interrupt_rsp (h_thread k' u) = interrupt_rsp (h_thread k u)"
proof -
  have inv: "sched_inv k ts" and run: "\<not> g_idle_active (k_sched k)" and pe: "g_preemption_enabled (k_sched k)"
    using rr by (auto simp: rr_ready_def)
  have cur: "thread_current k = g_current_thread (k_thread k)" by (rule sched_inv_current [OF inv])
  have cts: "ts ! i \<in> set ts" using i by simp
  have fv: "scheduler_interrupt_frame_valid k (ts ! i) (fr 0 (ts ! i))" using rr cts by (simp add: rr_ready_def)
  then have f0: "fr 0 (ts ! i) \<noteq> 0" by (auto simp: scheduler_interrupt_frame_valid_def Let_def split: if_splits)
  show ?thesis
  proof (cases "2 \<le> length ts")
    case True
    let ?t = "ts ! (Suc i mod length ts)"
    have n: "scheduler_find_next_interrupt_thread k (ts ! i) = Some (?t, interrupt_rsp (h_thread k ?t))"
      using find_next_index [OF inv i True] c cur by simp
    have c': "ts ! i = g_current_thread (k_thread k)" using c cur by simp
    note m = find_next_member [OF inv cts n]
    have act: "activatable k ?t" using rr m(1) by (simp add: rr_ready_def)
    obtain k' where k': "scheduler_switch_ready_from_interrupt (fr 0 (ts ! i)) True k = (interrupt_rsp (h_thread k ?t), k')"
      "switched k (ts ! i) (fr 0 (ts ! i)) ?t k'" "spaces_same k k'"
      "g_preemption_enabled (k_sched k') = g_preemption_enabled (k_sched k)"
      by (rule switch_succeeds [OF inv run c' n act fv])
    have rr': "rr_ready k' ts fr" by (rule switched_rr_ready [OF rr c' m(1,2) k'(2,3,4)])
    have "thread_current k' = ?t"
      using k'(2) inv by (simp add: switched_def thread_current_def sched_inv_def)
    moreover have "interrupt_rsp (h_thread k' (ts ! i)) = fr 0 (ts ! i)"
      "\<forall>u. u \<noteq> ts ! i \<and> u \<noteq> ?t \<longrightarrow> interrupt_rsp (h_thread k' u) = interrupt_rsp (h_thread k u)"
      using k'(2) m(2) by (simp_all add: switched_def set_state_def set_context_def)
    moreover have "scheduler_preempt (fr 0 (thread_current k)) k = Done (interrupt_rsp (h_thread k ?t), k')"
      using k'(1) run pe f0 c by (simp add: scheduler_preempt_def)
    ultimately show ?thesis using that [of "interrupt_rsp (h_thread k ?t)" k'] rr' True by simp
  next
    case False
    then have l: "length ts = 1" using i by simp
    then have "g_run_count (k_sched k) < 2" using run_queue_few [of k ts] inv by (simp add: sched_inv_def)
    then have "scheduler_switch_ready_from_interrupt (fr 0 (ts ! i)) True k = (fr 0 (ts ! i), k)"
      by (simp add: scheduler_switch_ready_from_interrupt_def Let_def)
    then have p: "scheduler_preempt (fr 0 (ts ! i)) k = Done (fr 0 (ts ! i), k)"
      using run pe f0 by (simp add: scheduler_preempt_def)
    have "Suc i mod length ts = i" using i l by simp
    then have "thread_current k = ts ! (Suc i mod length ts)" using c by simp
    then show ?thesis by (rule that [OF p [unfolded c] rr]) (use False c in simp_all)
  qed
qed

text \<open>\<open>n\<close> timer interrupts in a row, with the frames the processor is told to resume.\<close>

primrec preempt_run :: "nat \<Rightarrow> (nat \<Rightarrow> ptr \<Rightarrow> ptr) \<Rightarrow> Kernel \<Rightarrow> (ptr list \<times> Kernel) outcome" where
  "preempt_run 0 fr k = Done ([], k)"
| "preempt_run (Suc n) fr k =
     outcome_bind (scheduler_preempt (fr 0 (thread_current k)) k) (\<lambda>(f, k').
       outcome_bind (preempt_run n (\<lambda>m. fr (Suc m)) k') (\<lambda>(fs, k''). Done (f # fs, k'')))"

text \<open>The frame resumed by interrupt \<open>j\<close>: the one saved before the run during the first round, and
  after it the one saved when the thread was last interrupted.\<close>

definition resumed_frame :: "Kernel \<Rightarrow> ptr list \<Rightarrow> (nat \<Rightarrow> ptr \<Rightarrow> ptr) \<Rightarrow> nat \<Rightarrow> nat \<Rightarrow> ptr" where
  "resumed_frame k ts fr i j =
     (let t = ts ! ((i + Suc j) mod length ts) in
      if Suc j < length ts then interrupt_rsp (h_thread k t) else fr (Suc j - length ts) t)"

lemma ring_index_inj:
  fixes i :: nat
  assumes "i < n" "a < n" "b < n" "(i + a) mod n = (i + b) mod n"
  shows "a = b"
proof -
  have "(i + x) mod n = (if i + x < n then i + x else i + x - n)" if "x < n" for x
    using assms(1) that by (simp add: le_mod_geq)
  then show ?thesis using assms by (auto split: if_splits)
qed

lemma resumed_frame_step:
  assumes d: "distinct ts" and i: "i < length ts"
    and c: "2 \<le> length ts \<longrightarrow> interrupt_rsp (h_thread k' (ts ! i)) = fr 0 (ts ! i)"
    and o: "\<forall>u. u \<noteq> ts ! i \<and> u \<noteq> ts ! (Suc i mod length ts) \<longrightarrow> interrupt_rsp (h_thread k' u) = interrupt_rsp (h_thread k u)"
  shows "resumed_frame k' ts (\<lambda>m. fr (Suc m)) (Suc i mod length ts) j = resumed_frame k ts fr i (Suc j)"
proof -
  let ?n = "length ts"
  have m: "(Suc i mod ?n + Suc j) mod ?n = (i + Suc (Suc j)) mod ?n" using mod_add_left_eq [of "Suc i" ?n "Suc j"] by simp
  have lt: "x mod ?n < ?n" for x using i by (intro mod_less_divisor) auto
  consider "Suc (Suc j) < ?n" | "Suc (Suc j) = ?n" | "?n < Suc (Suc j)" by linarith
  then show ?thesis
  proof cases
    case 1
    have "(i + Suc (Suc j)) mod ?n \<noteq> (i + 0) mod ?n" "(i + Suc (Suc j)) mod ?n \<noteq> (i + 1) mod ?n"
    proof -
      have "0 < ?n" "1 < ?n" "Suc (Suc j) \<noteq> 0" "Suc (Suc j) \<noteq> 1" using 1 by linarith+
      then show "(i + Suc (Suc j)) mod ?n \<noteq> (i + 0) mod ?n" "(i + Suc (Suc j)) mod ?n \<noteq> (i + 1) mod ?n"
        using ring_index_inj [OF i 1, of 0] ring_index_inj [OF i 1, of 1] by blast+
    qed
    then have "ts ! ((i + Suc (Suc j)) mod ?n) \<noteq> ts ! i" "ts ! ((i + Suc (Suc j)) mod ?n) \<noteq> ts ! (Suc i mod ?n)"
      using nth_eq_iff_index_eq [OF d lt i] nth_eq_iff_index_eq [OF d lt lt] i by simp_all
    then show ?thesis using 1 o by (simp add: resumed_frame_def Let_def m del: add_Suc_right)
  next
    case 2
    then have "(i + Suc (Suc j)) mod ?n = i" using i by simp
    then show ?thesis using 2 c by (simp add: resumed_frame_def Let_def m del: add_Suc_right)
  next
    case 3
    then show ?thesis by (simp add: resumed_frame_def Let_def m Suc_diff_le del: add_Suc_right)
  qed
qed

lemma preempt_run_index:
  assumes "rr_ready k ts fr" and "i < length ts" and "ts ! i = thread_current k"
  shows "\<exists>k'. preempt_run n fr k = Done (map (resumed_frame k ts fr i) [0..<n], k') \<and>
    thread_current k' = ts ! ((i + n) mod length ts) \<and> sched_inv k' ts"
  using assms
proof (induction n arbitrary: k i fr)
  case 0
  then show ?case by (simp add: rr_ready_def)
next
  case (Suc n)
  obtain f k1 where k1: "scheduler_preempt (fr 0 (thread_current k)) k = Done (f, k1)" "rr_ready k1 ts fr"
    "thread_current k1 = ts ! (Suc i mod length ts)"
    "f = (if 2 \<le> length ts then interrupt_rsp (h_thread k (ts ! (Suc i mod length ts))) else fr 0 (ts ! i))"
    and same: "2 \<le> length ts \<longrightarrow> interrupt_rsp (h_thread k1 (ts ! i)) = fr 0 (ts ! i)"
    "\<forall>u. u \<noteq> ts ! i \<and> u \<noteq> ts ! (Suc i mod length ts) \<longrightarrow> interrupt_rsp (h_thread k1 u) = interrupt_rsp (h_thread k u)"
    by (rule preempt_next [OF Suc.prems])
  have d: "distinct ts" using Suc.prems(1) by (simp add: rr_ready_def sched_inv_def run_queue_def)
  have lt: "Suc i mod length ts < length ts" using Suc.prems(2) by (intro mod_less_divisor) auto
  obtain k' where k': "preempt_run n (\<lambda>m. fr (Suc m)) k1 =
      Done (map (resumed_frame k1 ts (\<lambda>m. fr (Suc m)) (Suc i mod length ts)) [0..<n], k')"
    "thread_current k' = ts ! ((Suc i mod length ts + n) mod length ts)" "sched_inv k' ts"
    using Suc.IH [OF rr_ready_later [OF k1(2)] lt k1(3) [symmetric]] by blast
  have "f = resumed_frame k ts fr i 0"
    using k1(4) Suc.prems(2) by (cases "length ts = 1") (auto simp: resumed_frame_def Let_def)
  moreover have "resumed_frame k1 ts (\<lambda>m. fr (Suc m)) (Suc i mod length ts) j = resumed_frame k ts fr i (Suc j)" for j
    by (rule resumed_frame_step [where fr = fr, OF d Suc.prems(2) same])
  moreover have "map (resumed_frame k ts fr i) [0..<Suc n] =
      resumed_frame k ts fr i 0 # map (\<lambda>j. resumed_frame k ts fr i (Suc j)) [0..<n]"
    by (simp add: map_upt_Suc del: upt_Suc)
  ultimately show ?case using k1(1) k' by (simp add: mod_add_left_eq)
qed

text \<open>
  Whether a thread can block, and what blocking does: the next thread of the ring must be ready to
  take over.
\<close>

lemma save_rax_activatable:
  "activatable (save_context c frame (set_rax f v (set_rax f w k))) t = activatable k t" if "t \<noteq> c"
  by (rule activatable_cong) (use that in \<open>simp_all add: spaces_same_def save_context_def set_rax_def upd_defs\<close>)

lemma block_index:
  assumes inv: "sched_inv k ts" and run: "\<not> g_idle_active (k_sched k)" and i: "i < length ts" and c: "ts ! i = g_current_thread (k_thread k)"
  defines "t \<equiv> ts ! (Suc i mod length ts)"
  shows "2 \<le> length ts \<and> scheduler_interrupt_frame_valid k (ts ! i) frame \<and> activatable k t \<Longrightarrow>
      \<exists>k'. scheduler_block_from_interrupt frame k = Done (interrupt_rsp (h_thread k t), k') \<and> blocked_from k ts (ts ! i) frame k' \<and>
        g_current_thread (k_thread k') = t \<and> fr_rax (h_frame k' frame) = 1"
    and "\<not> (2 \<le> length ts \<and> scheduler_interrupt_frame_valid k (ts ! i) frame \<and> activatable k t) \<Longrightarrow>
      \<exists>k'. scheduler_block_from_interrupt frame k = Done (frame, k') \<and> sched_inv k' ts \<and>
        g_current_thread (k_thread k') = ts ! i \<and> (frame \<noteq> 0 \<longrightarrow> fr_rax (h_frame k' frame) = 0)"
proof -
  let ?k = "set_rax frame 0 k" and ?c = "ts ! i"
  have i0: "sched_inv ?k ts" by (rule sched_inv_cong [OF inv]) simp_all
  have cur: "thread_current ?k = ?c" using sched_inv_current [OF i0] c by simp
  have fv: "scheduler_interrupt_frame_valid ?k ?c frame = scheduler_interrupt_frame_valid k ?c frame" by (rule frame_valid_cong) simp_all
  have f0: "frame \<noteq> 0" if "scheduler_interrupt_frame_valid k ?c frame"
    using that by (auto simp: scheduler_interrupt_frame_valid_def Let_def split: if_splits)
  have q: "run_queue k ts" and ini: "scheduler_initialized (k_sched k)" using inv by (simp_all add: sched_inv_def)
  have ne: "ts \<noteq> []" using i by auto
  have ends: "g_run_head (k_sched k) \<noteq> 0" "g_run_tail (k_sched k) \<noteq> 0" using run_queue_ends [OF q ne] by simp_all
  have few: "g_run_count (k_sched k) < 2 \<longleftrightarrow> length ts < 2" by (rule run_queue_few [OF q])
  have rb: "current_runnable ?k" using sched_inv_runnable [OF i0] run by simp
  have rax: "fr_rax (h_frame (set_rax frame v j) frame) = v" for v j by (simp add: set_rax_def upd_frame_def)
  note sel = scheduler_block_from_interrupt_def Let_def cur fv context_sel
  have low: "\<exists>k'. scheduler_block_from_interrupt frame k = Done (frame, k') \<and> sched_inv k' ts \<and>
        g_current_thread (k_thread k') = ?c \<and> (frame \<noteq> 0 \<longrightarrow> fr_rax (h_frame k' frame) = 0)"
    if "\<not> (2 \<le> length ts \<and> scheduler_interrupt_frame_valid k ?c frame)"
    using that few inv i0 c [symmetric] rax by (auto simp: sel)
  have nx: "scheduler_find_next_interrupt_thread ?k ?c = Some (t, interrupt_rsp (h_thread k t))" and m: "t \<in> set ts" "t \<noteq> ?c" "interrupt_ready k t"
    if l: "2 \<le> length ts"
  proof -
    show n: "scheduler_find_next_interrupt_thread ?k ?c = Some (t, interrupt_rsp (h_thread k t))"
      using find_next_index [OF i0 i l] c by (simp add: t_def)
    have cts: "?c \<in> set ts" using i by simp
    show "t \<in> set ts" "t \<noteq> ?c" using find_next_member [OF i0 cts n] by simp_all
    then show "interrupt_ready k t" using inv c by (simp add: sched_inv_def)
  qed
  let ?saved = "save_context ?c frame (set_rax frame 1 ?k)"
  have go: "scheduler_block_from_interrupt frame k =
      (case thread_activate t ?saved of (ok, k1) \<Rightarrow>
          if \<not> ok then Done (frame, set_rax frame 0 (drop_context ?c k1))
          else case scheduler_unlink ?c k1 of (ok, k2) \<Rightarrow>
            if \<not> ok then Halt
            else Done (interrupt_rsp (h_thread k t), upd_sched (\<lambda>s. s\<lparr>g_reschedule_count := g_reschedule_count s + 1\<rparr>)
               (drop_context t (upd_thread ?c (\<lambda>x. x\<lparr>th_state := THREAD_STATE_BLOCKED\<rparr>) k2))))"
    if "2 \<le> length ts" "scheduler_interrupt_frame_valid k ?c frame"
    unfolding sel nx [OF that(1)] using that few f0 ini ends rb by simp
  have act: "fst (thread_activate t ?saved) \<longleftrightarrow> activatable k t" if l: "2 \<le> length ts"
  proof
    assume "fst (thread_activate t ?saved)"
    then obtain k1 where "thread_activate t ?saved = (True, k1)" by (metis prod.collapse)
    from thread_activate_other(4) [OF this] show "activatable k t" using m(2) [OF l] c save_rax_activatable [of t ?c] by simp
  next
    assume "activatable k t"
    then have "activatable ?saved t" using m(2) [OF l] save_rax_activatable [of t ?c] by simp
    moreover have "?c \<noteq> 0" using run_queue_nodes [OF q, of ?c] i by simp
    ultimately show "fst (thread_activate t ?saved)"
      using inv m [OF l] c run by (intro thread_activate_succeeds) (auto simp: sched_inv_def interrupt_ready_def set_context_def Let_def)
  qed
  show "\<exists>k'. scheduler_block_from_interrupt frame k = Done (interrupt_rsp (h_thread k t), k') \<and> blocked_from k ts ?c frame k' \<and>
        g_current_thread (k_thread k') = t \<and> fr_rax (h_frame k' frame) = 1"
    if a: "2 \<le> length ts \<and> scheduler_interrupt_frame_valid k ?c frame \<and> activatable k t"
  proof -
    have l: "2 \<le> length ts" using a ..
    obtain k1 where k1: "thread_activate t ?saved = (True, k1)" using act [OF l] a by (metis prod.collapse)
    have rc: "\<not> g_idle_active (k_sched ?k)" "?c = g_current_thread (k_thread ?k)" using run c by simp_all
    obtain k2 where k2: "scheduler_unlink ?c k1 = (True, k2)"
      "blocked_from ?k ts ?c frame (upd_sched (\<lambda>s. s\<lparr>g_reschedule_count := g_reschedule_count s + 1\<rparr>)
         (drop_context t (upd_thread ?c (\<lambda>x. x\<lparr>th_state := THREAD_STATE_BLOCKED\<rparr>) k2)))"
      "g_current_thread (k_thread k2) = t" "h_frame k2 = h_frame (set_rax frame 1 ?k)"
      by (rule block_switch [OF i0 rc m(1,2) [OF l] k1])
    define j where "j = upd_sched (\<lambda>s. s\<lparr>g_reschedule_count := g_reschedule_count s + 1\<rparr>)
         (drop_context t (upd_thread ?c (\<lambda>x. x\<lparr>th_state := THREAD_STATE_BLOCKED\<rparr>) k2))"
    have "h_frame j = h_frame k2" "k_thread j = k_thread k2" by (simp_all add: j_def drop_context_def upd_thread_def)
    moreover have "blocked_from k ts ?c frame j" using k2(2) [folded j_def] by (simp add: blocked_from_def fv)
    moreover have "scheduler_block_from_interrupt frame k = Done (interrupt_rsp (h_thread k t), j)"
      using go a k1 k2(1) by (simp add: j_def)
    ultimately show ?thesis using k2(3,4) rax by simp
  qed
  show "\<exists>k'. scheduler_block_from_interrupt frame k = Done (frame, k') \<and> sched_inv k' ts \<and>
        g_current_thread (k_thread k') = ?c \<and> (frame \<noteq> 0 \<longrightarrow> fr_rax (h_frame k' frame) = 0)"
    if a: "\<not> (2 \<le> length ts \<and> scheduler_interrupt_frame_valid k ?c frame \<and> activatable k t)"
  proof (cases "2 \<le> length ts \<and> scheduler_interrupt_frame_valid k ?c frame")
    case True
    then have l: "2 \<le> length ts" and "\<not> fst (thread_activate t ?saved)" using act a by auto
    then have "thread_activate t ?saved = (False, ?saved)" by (intro thread_activate_fails)
    moreover have "stayed k ?c (set_rax frame 0 (drop_context ?c ?saved))" by (auto simp: stayed_def set_context_def)
    ultimately show ?thesis using go True stayed_inv [OF inv c] c rax by simp
  qed (use low in blast)
qed

text \<open>A blocked thread can be woken again and rejoins the queue at its end.\<close>

lemma blocked_wake:
  assumes b: "blocked_from k ts c frame k'" and inv: "sched_inv k ts" and run: "\<not> g_idle_active (k_sched k)"
    and c: "c = g_current_thread (k_thread k)" and fv: "scheduler_interrupt_frame_valid k c frame"
  obtains k'' where "scheduler_wake c k' = (True, k'')" "sched_inv k'' (remove1 c ts @ [c])"
proof -
  have inv': "sched_inv k' (remove1 c ts)" using b by (simp add: blocked_from_def)
  have cts: "c \<in> set ts" using inv run c by (simp add: sched_inv_def)
  have id: "th_id (h_thread k' c) \<noteq> 0" "c \<noteq> 0" "frame \<noteq> 0"
    using b inv cts run_queue_nodes [of k ts c] fv
    by (auto simp: blocked_from_def sched_inv_def scheduler_interrupt_frame_valid_def Let_def split: if_splits)
  let ?k = "upd_thread c (\<lambda>x. x\<lparr>th_state := THREAD_STATE_READY\<rparr>) k'"
  have out: "c \<notin> set (remove1 c ts)" using inv by (simp add: sched_inv_def run_queue_def)
  have i: "sched_inv ?k (remove1 c ts)" by (rule upd_thread_outside [OF inv' out])
  then have q: "run_queue ?k (remove1 c ts)" by (simp add: sched_inv_def)
  have v: "scheduler_interrupt_frame_valid ?k c frame" "scheduler_interrupt_frame_valid k' c frame"
    using fv b frame_valid_cong [of ?k c k' frame] by (simp_all add: blocked_from_def upd_thread_def)
  have "remove1 c ts = [] \<Longrightarrow> g_idle_active (k_sched ?k)"
    using i by (auto simp: sched_inv_def split: if_splits)
  then have "fst (scheduler_add c ?k)"
    using scheduler_add_succeeds [OF q, of c] i b id v
    by (simp add: addable_def Let_def blocked_from_def sched_inv_def upd_thread_def)
  then obtain k'' where k'': "scheduler_add c ?k = (True, k'')" by (metis prod.collapse)
  have "c \<noteq> g_current_thread (k_thread k')" using b by (auto simp: blocked_from_def)
  then have "scheduler_wake c k' = (True, k'')"
    using k'' b id v inv' sched_inv_current [OF inv']
    by (simp add: scheduler_wake_def Let_def blocked_from_def sched_inv_def)
  then show ?thesis using that scheduler_add_inv [OF i k''] by blast
qed

end
