(* ===== verification/Scheduler_Properties.thy ===== *)
theory Scheduler_Properties
  imports Scheduler_Laws
begin

text \<open>
  The properties of the scheduler, applied to a queue of three kernel threads.
\<close>

section \<open>A queue of three threads\<close>

text \<open>The thread at 256 runs, the threads at 512 and 768 wait for their turn with frames saved on
  their stacks. All belong to the kernel process.\<close>

definition demo_thread :: "u64 \<Rightarrow> ThreadState \<Rightarrow> u64 \<Rightarrow> u64 \<Rightarrow> ptr \<Rightarrow> Thread" where
  "demo_thread n st base rsp succ =
     zero_thread\<lparr>th_id := n, th_process := 0x4000, th_state := st, interrupt_rsp := rsp,
       kernel_stack_base := base, kernel_stack_top := base + 0x4000, kernel_stack_size := 0x4000,
       interrupt_context_ready := (rsp \<noteq> 0), run_next := succ, on_run_queue := True\<rparr>"

definition demo_sched :: Kernel where
  "demo_sched = small_kernel\<lparr>
     h_thread := (\<lambda>_. zero_thread)(
       256 := demo_thread 1 THREAD_STATE_RUNNING 0x100000 0 512,
       512 := demo_thread 2 THREAD_STATE_READY 0x200000 0x203000 768,
       768 := demo_thread 3 THREAD_STATE_READY 0x300000 0x303000 256),
     h_process := (\<lambda>_. zero_process)(0x4000 := zero_process\<lparr>pr_id := 1, pr_address_space := 0x1000,
       pr_kernel := True, pr_initialized := True\<rparr>),
     k_mm := small_mm\<lparr>page_map_at := (\<lambda>_. zero_page_map\<lparr>root_frame := 5\<rparr>)\<rparr>,
     k_space := (k_space small_kernel)\<lparr>g_space_storage := [0x1000, 0]\<rparr>,
     k_process := (k_process small_kernel)\<lparr>g_process_storage := [0x4000, 0]\<rparr>,
     k_thread := (k_thread small_kernel)\<lparr>g_current_thread := 256, g_thread_storage := [256, 512, 768, 0]\<rparr>,
     k_sched := (k_sched small_kernel)\<lparr>g_run_head := 256, g_run_tail := 768, g_run_count := 3,
       g_preemption_enabled := True\<rparr>\<rparr>"

lemma demo_sched_sel:
  "h_thread demo_sched 256 = demo_thread 1 THREAD_STATE_RUNNING 0x100000 0 512"
  "h_thread demo_sched 512 = demo_thread 2 THREAD_STATE_READY 0x200000 0x203000 768"
  "h_thread demo_sched 768 = demo_thread 3 THREAD_STATE_READY 0x300000 0x303000 256"
  "g_current_thread (k_thread demo_sched) = 256" "thread_initialized (k_thread demo_sched)"
  "g_thread_storage (k_thread demo_sched) = [256, 512, 768, 0]"
  "g_run_head (k_sched demo_sched) = 256" "g_run_tail (k_sched demo_sched) = 768"
  "g_run_count (k_sched demo_sched) = 3" "scheduler_initialized (k_sched demo_sched)"
  "\<not> g_idle_active (k_sched demo_sched)" "g_preemption_enabled (k_sched demo_sched)"
  by (simp_all add: demo_sched_def small_kernel_def)

lemma demo_run_queue: "run_queue demo_sched [256, 512, 768]"
  by (simp add: run_queue_def demo_sched_sel) (simp add: demo_thread_def)

lemma demo_sched_inv: "sched_inv demo_sched [256, 512, 768]"
  using demo_run_queue
  by (simp add: sched_inv_def demo_sched_sel interrupt_ready_def scheduler_interrupt_frame_valid_def Let_def)
    (simp add: demo_thread_def)

lemma demo_spaces:
  "process_address_space demo_sched 0x4000 = 0x1000" "address_space_cr3 demo_sched 0x1000 = 0x5000"
  by (simp_all add: process_address_space_def process_live_def process_storage_live_def address_space_cr3_def
      space_storage_live_def demo_sched_def small_kernel_def object_storage_find_def zero_page_map_def frame_to_phys_def)

text \<open>Even and odd interrupts find the stacks at two different depths.\<close>

definition demo_frame :: "nat \<Rightarrow> ptr \<Rightarrow> ptr" where
  "demo_frame m t = t * 0x1000 + (if even m then 0x3000 else 0x3100)"

lemma demo_rr: "rr_ready demo_sched [256, 512, 768] demo_frame"
  using demo_sched_inv demo_spaces
  by (simp add: rr_ready_def demo_sched_sel activatable_def scheduler_interrupt_frame_valid_def Let_def
      thread_storage_live_def object_storage_find_def demo_thread_def has_def demo_frame_def)

section \<open>Properties\<close>

text \<open>C24. The run queue refines a list of threads. \<^verbatim>\<open>scheduler_add\<close> succeeds exactly for an
  initialised, ready thread off the queue with a valid saved frame (on an empty queue only while
  the idle context runs) and appends it; \<^verbatim>\<open>scheduler_unlink\<close> succeeds exactly for the
  members and removes the one asked for from any place of the ring, clearing its link. Neither
  touches anything but the queue links, and a refusal changes nothing.\<close>

theorem run_queue_refines:
  assumes "run_queue k ts"
  shows "(case scheduler_add t k of (ok, k') \<Rightarrow>
      (ok \<longleftrightarrow> scheduler_initialized (k_sched k) \<and> addable k t \<and> (ts = [] \<longrightarrow> g_idle_active (k_sched k))) \<and>
      (if ok then run_queue k' (ts @ [t]) \<and> links_only k k' else k' = k)) \<and>
    (case scheduler_unlink t k of (ok, k') \<Rightarrow>
      (ok \<longleftrightarrow> t \<in> set ts) \<and>
      (if ok then run_queue k' (remove1 t ts) \<and> links_only k k' \<and> run_next (h_thread k' t) = 0 \<and>
         \<not> on_run_queue (h_thread k' t) else k' = k))"
proof (intro conjI)
  show "case scheduler_add t k of (ok, k') \<Rightarrow>
      (ok \<longleftrightarrow> scheduler_initialized (k_sched k) \<and> addable k t \<and> (ts = [] \<longrightarrow> g_idle_active (k_sched k))) \<and>
      (if ok then run_queue k' (ts @ [t]) \<and> links_only k k' else k' = k)"
    using scheduler_add_succeeds [OF assms, of t] scheduler_add_fails [of t k]
      scheduler_add_queue [OF assms, of t] scheduler_add_links [of t k]
    by (cases "scheduler_add t k") auto
  show "case scheduler_unlink t k of (ok, k') \<Rightarrow>
      (ok \<longleftrightarrow> t \<in> set ts) \<and>
      (if ok then run_queue k' (remove1 t ts) \<and> links_only k k' \<and> run_next (h_thread k' t) = 0 \<and>
         \<not> on_run_queue (h_thread k' t) else k' = k)"
  proof (cases "t \<in> set ts")
    case True
    obtain k' where "scheduler_unlink t k = (True, k')" "run_queue k' (remove1 t ts)" "links_only k k'"
      "run_next (h_thread k' t) = 0" "\<not> on_run_queue (h_thread k' t)"
      by (rule scheduler_unlink_queue [OF assms True])
    then show ?thesis using True by simp
  next
    case False
    then show ?thesis using scheduler_unlink_absent [OF assms] by simp
  qed
qed

theorem run_queue_refines_witness:
  "(case scheduler_unlink 512 demo_sched of (ok, k') \<Rightarrow> ok \<and> run_queue k' [256, 768])"
  using run_queue_refines [OF demo_run_queue, of 512] by (auto split: prod.splits)

text \<open>C22. Whatever sequence of scheduler operations, timer interrupts and scheduling traps runs,
  the queue stays a ring of threads with an identity in which the running thread is exactly the
  current one and all others can be resumed from a valid frame on their own stack; no thread is
  current exactly while the idle context runs.\<close>

theorem scheduler_invariant:
  assumes "sched_inv k ts" and "sched_step\<^sup>*\<^sup>* k k'"
  shows "\<exists>us. run_queue k' us \<and> (g_idle_active (k_sched k') \<longleftrightarrow> thread_current k' = 0) \<and>
    (\<forall>t\<in>set us. th_id (h_thread k' t) \<noteq> 0 \<and>
       (th_state (h_thread k' t) = THREAD_STATE_RUNNING \<longleftrightarrow> t = thread_current k') \<and>
       (t \<noteq> thread_current k' \<longrightarrow> interrupt_ready k' t))"
proof -
  obtain us where inv: "sched_inv k' us" using sched_steps_inv [OF assms(2,1)] by blast
  have q: "run_queue k' us" and cur: "thread_current k' = g_current_thread (k_thread k')"
    using inv sched_inv_current [OF inv] by (simp_all add: sched_inv_def)
  have "g_idle_active (k_sched k') \<longleftrightarrow> thread_current k' = 0"
    using inv cur run_queue_nodes [OF q] by (auto simp: sched_inv_def split: if_splits)
  moreover have "th_state (h_thread k' t) = THREAD_STATE_RUNNING \<longleftrightarrow> t = thread_current k'" if "t \<in> set us" for t
    using inv cur that sched_inv_running [OF inv that] run_queue_nodes [OF q that]
    by (auto simp: sched_inv_def split: if_splits)
  ultimately show ?thesis using inv q cur by (intro exI [of _ us]) (simp add: sched_inv_def)
qed

theorem scheduler_invariant_witness:
  "\<exists>us. run_queue (snd (scheduler_remove 512 demo_sched)) us \<and>
     (\<forall>t\<in>set us. th_state (h_thread (snd (scheduler_remove 512 demo_sched)) t) = THREAD_STATE_RUNNING \<longleftrightarrow>
        t = thread_current (snd (scheduler_remove 512 demo_sched)))"
proof -
  have "sched_step\<^sup>*\<^sup>* demo_sched (snd (scheduler_remove 512 demo_sched))"
    by (rule r_into_rtranclp, rule sched_step.remove [of 512 _ "fst (scheduler_remove 512 demo_sched)"]) simp
  from scheduler_invariant [OF demo_sched_inv this] show ?thesis by blast
qed

text \<open>C25. Blocking the running thread \<open>c\<close>, the one at place \<open>i\<close> of the queue, is decided by three
  conditions: another thread is queued, the frame lies on the stack of \<open>c\<close>, and the next thread
  \<open>t\<close> of the ring can be activated. When they hold, \<^verbatim>\<open>scheduler_block_from_interrupt\<close> returns
  the frame saved for \<open>t\<close> and \<open>t\<close> is running and current; \<open>c\<close> has left the queue as a
  blocked thread with exactly its frame saved and 1 in the saved RAX; and a later
  \<^verbatim>\<open>scheduler_wake\<close> succeeds and puts \<open>c\<close> back at the end of the queue. When one of
  them fails, the same frame is returned, \<open>c\<close> stays current, the queue keeps its order, and RAX
  reads 0. The halt of the source is reached in neither case. The kernel is assumed to satisfy the
  scheduler invariant and not to be idle.\<close>

theorem block_then_wake:
  assumes "sched_inv k ts" and "\<not> g_idle_active (k_sched k)" and "i < length ts" and "ts ! i = thread_current k"
  shows "\<exists>f k'. scheduler_block_from_interrupt frame k = Done (f, k') \<and>
    (let c = thread_current k; t = ts ! (Suc i mod length ts) in
     if 2 \<le> length ts \<and> scheduler_interrupt_frame_valid k c frame \<and> activatable k t
     then f = interrupt_rsp (h_thread k t) \<and> thread_current k' = t \<and> th_state (h_thread k' t) = THREAD_STATE_RUNNING \<and>
       sched_inv k' (remove1 c ts) \<and> th_state (h_thread k' c) = THREAD_STATE_BLOCKED \<and>
       interrupt_rsp (h_thread k' c) = frame \<and> fr_rax (h_frame k' frame) = 1 \<and>
       (\<exists>k''. scheduler_wake c k' = (True, k'') \<and> sched_inv k'' (remove1 c ts @ [c]))
     else f = frame \<and> thread_current k' = c \<and> sched_inv k' ts \<and> (frame \<noteq> 0 \<longrightarrow> fr_rax (h_frame k' frame) = 0))"
proof -
  let ?c = "thread_current k" and ?t = "ts ! (Suc i mod length ts)"
  let ?go = "2 \<le> length ts \<and> scheduler_interrupt_frame_valid k ?c frame \<and> activatable k ?t"
  have c: "?c = g_current_thread (k_thread k)" by (rule sched_inv_current [OF assms(1)])
  note b = block_index [OF assms(1-3) trans [OF assms(4) c], unfolded assms(4)]
  show ?thesis
  proof (cases ?go)
    case True
    obtain k' where k': "scheduler_block_from_interrupt frame k = Done (interrupt_rsp (h_thread k ?t), k')"
      "blocked_from k ts ?c frame k'" "g_current_thread (k_thread k') = ?t" "fr_rax (h_frame k' frame) = 1"
      using b(1) [OF True] by blast
    have fv: "scheduler_interrupt_frame_valid k ?c frame" using True by blast
    obtain k'' where w: "scheduler_wake ?c k' = (True, k'')" "sched_inv k'' (remove1 ?c ts @ [?c])"
      by (rule blocked_wake [OF k'(2) assms(1,2) c fv])
    have inv: "sched_inv k' (remove1 ?c ts)" using k'(2) by (simp add: blocked_from_def)
    have cur: "thread_current k' = ?t" using sched_inv_current [OF inv] k'(3) by simp
    have "Suc i mod length ts < length ts" using assms(3) by (intro mod_less_divisor) auto
    then have "?t \<in> set ts" by (rule nth_mem)
    moreover have "?t \<noteq> ?c" using k'(2,3) by (auto simp: blocked_from_def)
    ultimately have "?t \<in> set (remove1 ?c ts)" by simp
    then have "th_state (h_thread k' ?t) = THREAD_STATE_RUNNING"
      using inv k'(3) run_queue_nodes [of k' "remove1 ?c ts" ?t] by (auto simp: sched_inv_def split: if_splits)
    then show ?thesis using k' True w inv cur by (auto simp: blocked_from_def Let_def)
  next
    case False
    obtain k' where k': "scheduler_block_from_interrupt frame k = Done (frame, k')" "sched_inv k' ts"
      "g_current_thread (k_thread k') = ?c" "frame \<noteq> 0 \<longrightarrow> fr_rax (h_frame k' frame) = 0"
      using b(2) [OF False] by blast
    have "thread_current k' = ?c" using sched_inv_current [OF k'(2)] k'(3) by simp
    then show ?thesis using k' False by (auto simp: Let_def)
  qed
qed

theorem block_then_wake_witness:
  "\<exists>k' k''. scheduler_block_from_interrupt 0x103000 demo_sched = Done (0x203000, k') \<and> thread_current k' = 512 \<and>
     th_state (h_thread k' 256) = THREAD_STATE_BLOCKED \<and> interrupt_rsp (h_thread k' 256) = 0x103000 \<and>
     sched_inv k' [512, 768] \<and> scheduler_wake 256 k' = (True, k'') \<and> sched_inv k'' [512, 768, 256]"
proof -
  have c: "thread_current demo_sched = 256" by (simp add: thread_current_def demo_sched_sel)
  have "scheduler_interrupt_frame_valid demo_sched 256 (demo_frame 0 256)" "activatable demo_sched 512"
    using demo_rr by (simp_all add: rr_ready_def)
  then show ?thesis
    using block_then_wake [OF demo_sched_inv, of 0 "0x103000"]
    by (auto simp: c demo_frame_def demo_sched_sel(1-3,11)) (auto simp: demo_thread_def)
qed

text \<open>C23. Timer preemption is round robin. The hypotheses are that the scheduler invariant holds,
  a thread runs (the idle context does not), preemption is enabled, every queued thread can be
  activated, and the frame \<open>fr m t\<close> of the \<open>m\<close>-th interrupt, should it find thread \<open>t\<close>
  running, lies on the stack of \<open>t\<close>. Then \<open>n\<close> timer interrupts never halt and leave the
  thread \<open>n\<close> places further along the ring running. Interrupt \<open>j\<close> returns the frame of the
  thread it resumes: in the first round the one saved before, later the one saved when that thread
  was last interrupted, a whole round earlier. So every queued thread runs again within one round,
  exactly where it was interrupted.\<close>

theorem preemption_round_robin:
  assumes "sched_inv k ts" and "\<not> g_idle_active (k_sched k)" and "g_preemption_enabled (k_sched k)"
    and "\<forall>t\<in>set ts. activatable k t \<and> (\<forall>m. scheduler_interrupt_frame_valid k t (fr m t))"
    and "i < length ts" and "ts ! i = thread_current k"
  shows "\<exists>fs k'. preempt_run n fr k = Done (fs, k') \<and> length fs = n \<and>
    (\<forall>j<n. let t = ts ! ((i + Suc j) mod length ts) in
       fs ! j = (if Suc j < length ts then interrupt_rsp (h_thread k t) else fr (Suc j - length ts) t)) \<and>
    thread_current k' = ts ! ((i + n) mod length ts) \<and> sched_inv k' ts"
proof -
  have "rr_ready k ts fr" using assms by (simp add: rr_ready_def)
  from preempt_run_index [OF this assms(5,6), of n] show ?thesis
    by (auto simp: resumed_frame_def)
qed

theorem preemption_round_robin_witness:
  "\<exists>k'. preempt_run 5 demo_frame demo_sched = Done ([0x203000, 0x303000, 0x103000, 0x203100, 0x303000], k') \<and>
     thread_current k' = 768"
proof -
  have c: "thread_current demo_sched = 256" by (simp add: thread_current_def demo_sched_sel)
  obtain fs k' where r: "preempt_run 5 demo_frame demo_sched = Done (fs, k')" "length fs = 5" "thread_current k' = 768"
    "\<forall>j<5. fs ! j = (if Suc j < 3 then interrupt_rsp (h_thread demo_sched ([256, 512, 768] ! (Suc j mod 3)))
       else demo_frame (Suc j - 3) ([256, 512, 768] ! (Suc j mod 3)))"
    using preemption_round_robin [of demo_sched "[256, 512, 768]" demo_frame 0 5] demo_rr c
    by (auto simp: rr_ready_def Let_def numeral_2_eq_2 cong: if_cong)
  have "fs = map (\<lambda>j. fs ! j) [0..<5]" using map_nth [of fs] r(2) by simp
  also have "\<dots> = [fs ! 0, fs ! 1, fs ! 2, fs ! 3, fs ! 4]" by (simp add: upt_rec numeral_eq_Suc)
  also have "\<dots> = [0x203000, 0x303000, 0x103000, 0x203100, 0x303000]"
    using r(4) [rule_format, of 0] r(4) [rule_format, of 1] r(4) [rule_format, of 2] r(4) [rule_format, of 3] r(4) [rule_format, of 4]
    by (simp add: demo_sched_sel demo_frame_def) (simp add: demo_thread_def)
  finally show ?thesis using r by auto
qed

end
