(* ===== verification/Thread_Wait_History.thy ===== *)
theory Thread_Wait_History
  imports Scheduler_Laws
begin

text \<open>
  Histories of wait reservations. The reservations of \<open>Thread_Wait\<close> are followed through every
  operation of \<^verbatim>\<open>kernel/thread.c\<close> and \<^verbatim>\<open>kernel/scheduler.c\<close> that changes the kernel's
  state: threads are created and destroyed, their storage is reused, they are prepared, switched,
  blocked, woken, preempted and terminated between two calls of the wait protocol.
\<close>

section \<open>What the other operations keep\<close>

text \<open>The part of a thread and of the thread module the reservations depend on.\<close>

definition wait_part :: "Thread \<Rightarrow> u64 \<times> ThreadWaitKind \<times> ptr \<times> u64 \<times> ThreadWaitResult" where
  "wait_part x = (th_id x, wait_kind x, wait_object x, wait_id x, wait_result x)"

definition wait_view :: "Kernel \<Rightarrow>
    bool \<times> ptr list \<times> u64 \<times> (ptr \<Rightarrow> u64 \<times> ThreadWaitKind \<times> ptr \<times> u64 \<times> ThreadWaitResult)" where
  "wait_view k = (thread_initialized (k_thread k), g_thread_storage (k_thread k), g_next_wait_id (k_thread k),
     \<lambda>u. wait_part (h_thread k u))"

definition unreserved :: "Thread \<Rightarrow> bool" where
  "unreserved x \<longleftrightarrow> (\<exists>i. wait_part x = (i, THREAD_WAIT_NONE, 0, 0, THREAD_WAIT_RESULT_NONE))"

text \<open>Every thread keeps its reservation and is not brought to life with it, or has none.\<close>

definition waits_kept :: "Kernel \<Rightarrow> Kernel \<Rightarrow> bool" where
  "waits_kept k k' \<longleftrightarrow>
     thread_initialized (k_thread k') = thread_initialized (k_thread k) \<and>
     g_next_wait_id (k_thread k') = g_next_wait_id (k_thread k) \<and>
     (\<forall>u. unreserved (h_thread k' u) \<or>
        wait_part (h_thread k' u) = wait_part (h_thread k u) \<and> (thread_storage_live k' u \<longrightarrow> thread_storage_live k u))"

lemma wait_view_kept: "waits_kept k k'" if "wait_view k' = wait_view k"
  using that by (auto simp: wait_view_def waits_kept_def live_defs fun_eq_iff)

lemma waits_kept_of: "wait_of k' u = wait_of k u \<or> wait_of k' u = None" if "waits_kept k k'"
proof -
  have i: "thread_initialized (k_thread k') = thread_initialized (k_thread k)"
    and u: "unreserved (h_thread k' u) \<or> wait_part (h_thread k' u) = wait_part (h_thread k u) \<and>
      (thread_storage_live k' u \<longrightarrow> thread_storage_live k u)"
    using that by (auto simp: waits_kept_def)
  from u show ?thesis
  proof
    assume "unreserved (h_thread k' u)"
    then show ?thesis by (auto simp: unreserved_def wait_part_def wait_of_def thread_wait_active_def)
  next
    assume "wait_part (h_thread k' u) = wait_part (h_thread k u) \<and> (thread_storage_live k' u \<longrightarrow> thread_storage_live k u)"
    then show ?thesis using i by (auto simp: wait_part_def wait_of_def thread_wait_active_def thread_valid_def)
  qed
qed

lemma wait_view_sel [simp]:
  "wait_view (k\<lparr>k_sched := s\<rparr>) = wait_view k" "wait_view (upd_frame fr g k) = wait_view k"
  "wait_view (upd_process p q k) = wait_view k" "wait_view (k\<lparr>k_mm := mm\<rparr>) = wait_view k"
  "wait_view (k\<lparr>k_stack := st\<rparr>) = wait_view k" "wait_view (set_rax frame v k) = wait_view k"
  "wait_view (load_cr3 c k) = wait_view k" "wait_view (gdt_set_rsp0 r k) = wait_view k"
  by (simp_all add: wait_view_def set_rax_def load_cr3_def gdt_set_rsp0_def upd_defs)

lemma wait_view_thread_module [simp]:
  "thread_initialized m = thread_initialized (k_thread k) \<Longrightarrow> g_thread_storage m = g_thread_storage (k_thread k) \<Longrightarrow>
   g_next_wait_id m = g_next_wait_id (k_thread k) \<Longrightarrow> wait_view (k\<lparr>k_thread := m\<rparr>) = wait_view k"
  by (simp add: wait_view_def)

lemma wait_view_upd_thread:
  "(\<And>x. wait_part (f x) = wait_part x) \<Longrightarrow> wait_view (upd_thread t f k) = wait_view k"
  by (simp add: wait_view_def upd_thread_def fun_eq_iff)

lemma on_mm_view: "on_mm f k = (a, k') \<Longrightarrow> wait_view k' = wait_view k"
  by (auto simp: on_mm_def split: prod.splits)

lemma on_pmm_view: "on_pmm f k = (a, k') \<Longrightarrow> wait_view k' = wait_view k"
  by (auto simp: on_pmm_def split: prod.splits)

lemma context_view [simp]: "wait_view (save_context t frame k) = wait_view k" "wait_view (drop_context t k) = wait_view k"
  "wait_view (make_dead t k) = wait_view k" "wait_view (count_reschedules b k) = wait_view k"
  by (simp_all add: save_context_def drop_context_def make_dead_def count_reschedules_def wait_view_upd_thread wait_part_def)

section \<open>Kernel stacks\<close>

lemma restore_page_view: "restore_page b f i k = (ok, k') \<Longrightarrow> wait_view k' = wait_view k"
  by (auto simp: restore_page_def Let_def split: option.splits dest!: on_mm_view)

lemma restore_loop_view: "loop_all (restore_page b f) is k = (ok, k') \<Longrightarrow> wait_view k' = wait_view k"
  by (induction "is" arbitrary: k) (auto split: prod.splits if_splits dest!: restore_page_view)

lemma restore_mapping_view: "restore_mapping p b k = (ok, k') \<Longrightarrow> wait_view k' = wait_view k"
  by (auto simp: restore_mapping_def Let_def split: if_splits prod.splits dest!: restore_loop_view)

lemma unmap_pages_view: "unmap_pages p b f is k = Done (ok, k') \<Longrightarrow> wait_view k' = wait_view k"
  by (induction "is" arbitrary: k) (auto split: prod.splits option.splits if_splits dest!: on_mm_view restore_mapping_view)

lemma unmap_mapping_view: "unmap_mapping p b k = Done (ok, k') \<Longrightarrow> wait_view k' = wait_view k"
  by (auto simp: unmap_mapping_def split: if_splits dest!: unmap_pages_view)

lemma unmap_mapped_view: "unmap_mapped b f is k = Done k' \<Longrightarrow> wait_view k' = wait_view k"
  by (induction "is" arbitrary: k) (auto split: prod.splits if_splits dest!: on_mm_view)

lemma map_pages_view: "map_pages b f ms is k = Done (ok, k') \<Longrightarrow> wait_view k' = wait_view k"
  by (induction "is" arbitrary: k ms)
    (auto split: prod.splits if_splits simp: outcome_bind_Done_iff dest!: on_mm_view unmap_mapped_view)

lemma map_slot_view: "map_slot s p k = Done (b, k') \<Longrightarrow> wait_view k' = wait_view k"
  by (auto simp: map_slot_def Let_def outcome_bind_Done_iff split: if_splits option.splits dest!: map_pages_view)

lemma kernel_stack_map_view: "kernel_stack_map s p k = Done (b, k') \<Longrightarrow> wait_view k' = wait_view k"
  by (auto simp: kernel_stack_map_def split: if_splits dest!: map_slot_view)

lemma kernel_stack_discard_view:
  "kernel_stack_discard_unpublished p b k = Done (ok, k') \<Longrightarrow> wait_view k' = wait_view k"
  by (auto simp: kernel_stack_discard_unpublished_def Let_def outcome_bind_Done_iff split: if_splits
      dest!: unmap_mapping_view on_pmm_view)

lemma kernel_stack_release_view: "kernel_stack_release p b k = Done (ok, k') \<Longrightarrow> wait_view k' = wait_view k"
  by (auto simp: kernel_stack_release_def Let_def outcome_bind_Done_iff split: if_splits prod.splits
      dest!: unmap_mapping_view on_pmm_view restore_mapping_view)

section \<open>The scheduler\<close>

lemmas upd_thread_views = wait_view_upd_thread wait_part_def

lemma thread_activate_view: "thread_activate t k = (ok, k') \<Longrightarrow> wait_view k' = wait_view k"
  by (auto simp: thread_activate_def Let_def upd_thread_views split: if_splits)

lemma enter_idle_view: "thread_scheduler_enter_idle s k = (ok, k') \<Longrightarrow> wait_view k' = wait_view k"
  by (auto simp: thread_scheduler_enter_idle_def Let_def upd_thread_views split: if_splits)

lemma activate_from_idle_view:
  "thread_scheduler_activate_from_idle t k = (ok, k') \<Longrightarrow> wait_view k' = wait_view k"
  by (auto simp: thread_scheduler_activate_from_idle_def Let_def upd_thread_views split: if_splits)

lemma scheduler_add_view: "scheduler_add t k = (ok, k') \<Longrightarrow> wait_view k' = wait_view k"
  by (auto simp: scheduler_add_def Let_def upd_thread_views split: if_splits)

lemma scheduler_unlink_view: "scheduler_unlink t k = (ok, k') \<Longrightarrow> wait_view k' = wait_view k"
  by (auto simp: scheduler_unlink_def Let_def upd_thread_views split: if_splits option.splits)

lemma switch_ready_view:
  "scheduler_switch_ready_from_interrupt frame timer k = (f, k') \<Longrightarrow> wait_view k' = wait_view k"
  by (auto simp: scheduler_switch_ready_from_interrupt_def Let_def split: if_splits option.splits prod.splits
      dest!: thread_activate_view)

lemma block_view: "scheduler_block_from_interrupt frame k = Done (f, k') \<Longrightarrow> wait_view k' = wait_view k"
  by (auto simp: scheduler_block_from_interrupt_def Let_def upd_thread_views split: if_splits option.splits prod.splits
      dest!: thread_activate_view scheduler_unlink_view)

lemma resume_view: "scheduler_resume_from_idle frame k = Done (f, k') \<Longrightarrow> wait_view k' = wait_view k"
  by (auto simp: scheduler_resume_from_idle_def Let_def split: if_splits option.splits prod.splits
      dest!: activate_from_idle_view)

lemma idle_frame_view: "scheduler_idle_frame_build l b s k = (f, k') \<Longrightarrow> wait_view k' = wait_view k"
  by (auto simp: scheduler_idle_frame_build_def Let_def split: if_splits)

lemma exit_view: "scheduler_exit_from_interrupt l frame c k = Done (f, k') \<Longrightarrow> wait_view k' = wait_view k"
  by (auto simp: scheduler_exit_from_interrupt_def exit_to_idle_def exit_to_next_def Let_def split: if_splits option.splits prod.splits
      dest!: thread_activate_view scheduler_unlink_view enter_idle_view idle_frame_view)

lemma sched_step_view: "sched_step k k' \<Longrightarrow> wait_view k' = wait_view k"
proof (induction rule: sched_step.induct)
  case (remove t k ok k')
  then show ?case by (auto simp: scheduler_remove_def split: if_splits dest!: scheduler_unlink_view)
next
  case (wake t k ok k')
  then show ?case
    by (auto simp: scheduler_wake_def Let_def upd_thread_views split: if_splits prod.splits dest!: scheduler_add_view)
next
  case (terminate t k ok k')
  then show ?case
    by (auto simp: scheduler_terminate_thread_def upd_thread_views split: if_splits prod.splits dest!: scheduler_unlink_view)
next
  case (reschedule l frame k f k')
  then show ?case
    by (auto simp: scheduler_reschedule_def Let_def split: if_splits dest!: switch_ready_view block_view exit_view)
next
  case (preempt frame k f k')
  then show ?case by (auto simp: scheduler_preempt_def split: if_splits dest!: switch_ready_view resume_view)
next
  case (kill l frame k f k')
  then show ?case by (auto simp: scheduler_terminate_current_from_interrupt_def dest!: exit_view)
qed (auto simp: scheduler_wait_current_def scheduler_preemption_enable_def scheduler_preemption_disable_def Let_def
    split: if_splits dest!: scheduler_add_view)

text \<open>Rules for the operations that may halt: a condition on the state they return.\<close>

definition delivers :: "(Kernel \<Rightarrow> bool) \<Rightarrow> ('a \<times> Kernel) outcome \<Rightarrow> bool" where
  "delivers P m \<longleftrightarrow> (\<forall>a k'. m = Done (a, k') \<longrightarrow> P k')"

lemma deliversD: "delivers P m \<Longrightarrow> m = Done (a, k') \<Longrightarrow> P k'"
  by (simp add: delivers_def)

lemma delivers_Done [simp]: "delivers P (Done (a, k)) \<longleftrightarrow> P k"
  and delivers_Halt [simp]: "delivers P Halt"
  by (simp_all add: delivers_def)

lemma delivers_if: "(c \<Longrightarrow> delivers P x) \<Longrightarrow> (\<not> c \<Longrightarrow> delivers P y) \<Longrightarrow> delivers P (if c then x else y)"
  by simp

lemma delivers_bind:
  "delivers Q m \<Longrightarrow> (\<And>a j. Q j \<Longrightarrow> delivers P (f (a, j))) \<Longrightarrow> delivers P (outcome_bind m f)"
  by (auto simp: delivers_def outcome_bind_Done_iff)

lemma delivers_pair: "(\<And>a j. p = (a, j) \<Longrightarrow> delivers P (f a j)) \<Longrightarrow> delivers P (case p of (a, j) \<Rightarrow> f a j)"
  by (cases p) simp

lemma delivers_option:
  "delivers P x \<Longrightarrow> (\<And>b. delivers P (f b)) \<Longrightarrow> delivers P (case v of None \<Rightarrow> x | Some b \<Rightarrow> f b)"
  by (cases v) simp_all

lemma free_view [simp]: "wait_view (snd (on_pmm f j)) = wait_view j"
  using on_pmm_view by (cases "on_pmm f j") auto

lemma zero_frames_view [simp]: "wait_view (zero_stack_frames p k) = wait_view k"
  by (simp add: zero_stack_frames_def Let_def)

lemma delivers_stacks:
  "delivers (\<lambda>j. wait_view j = wait_view k) (kernel_stack_map s p k)"
  "delivers (\<lambda>j. wait_view j = wait_view k) (kernel_stack_map_scheduler_idle p k)"
  "delivers (\<lambda>j. wait_view j = wait_view k) (kernel_stack_discard_unpublished p b k)"
  "delivers (\<lambda>j. wait_view j = wait_view k) (kernel_stack_release p b k)"
  by (auto simp: delivers_def kernel_stack_map_scheduler_idle_def
      dest: kernel_stack_map_view map_slot_view kernel_stack_discard_view kernel_stack_release_view)

lemma delivers_idle_stack: "delivers (\<lambda>j. wait_view j = wait_view k) (scheduler_idle_stack_init l k)"
proof -
  have d: "delivers (\<lambda>j. wait_view j = wait_view k) (outcome_bind (kernel_stack_discard_unpublished p b i) (\<lambda>(_, k). Done (False, k)))"
    if "wait_view i = wait_view k" for p b i
    using that by (intro delivers_bind [OF delivers_stacks(3)]) simp
  have frame: "delivers (\<lambda>j. wait_view j = wait_view k) (f a j)"
    if "scheduler_idle_frame_build l b top i = (a, j)" "wait_view i = wait_view k" "\<And>a j. wait_view j = wait_view k \<Longrightarrow>
      delivers (\<lambda>j. wait_view j = wait_view k) (f a j)" for b top i a j and f :: "ptr option \<Rightarrow> Kernel \<Rightarrow> (bool \<times> Kernel) outcome"
    using that idle_frame_view [OF that(1)] by simp
  show ?thesis
    unfolding scheduler_idle_stack_init_def Let_def
    apply (intro delivers_if delivers_pair)
    apply (simp_all add: on_pmm_view)
    apply (rule delivers_bind [OF delivers_stacks(2)])
    apply (simp add: on_pmm_view)
    apply (intro delivers_option)
    apply (auto simp: d on_pmm_view intro!: delivers_if delivers_pair elim!: frame)
    done
qed

lemma idle_stack_init_view: "scheduler_idle_stack_init l k = Done (ok, k') \<Longrightarrow> wait_view k' = wait_view k"
  by (rule deliversD [OF delivers_idle_stack])

lemma scheduler_init_view: "wait_view k' = wait_view k" if "scheduler_init l k = Done (ok, k')"
  using that by (auto simp: scheduler_init_def Let_def outcome_bind_Done_iff upd_thread_views split: if_split_asm
      dest!: idle_stack_init_view)

section \<open>Threads\<close>

lemma reclaim_view: "thread_reclaim_unpublished_stack k = Done (ok, k') \<Longrightarrow> wait_view k' = wait_view k"
  by (auto simp: thread_reclaim_unpublished_stack_def outcome_bind_Done_iff split: if_splits dest!: kernel_stack_discard_view)

lemma create_fault_view: "thread_create_fault t f p k = (b, k') \<Longrightarrow> wait_view k' = wait_view k"
  by (auto simp: thread_create_fault_def thread_test_clear_create_fault_def on_pmm_def Let_def split: if_splits prod.splits)

lemma build_context_view: "thread_build_interrupt_context t a b c d e k = (ok, k') \<Longrightarrow> wait_view k' = wait_view k"
  by (auto simp: thread_build_interrupt_context_def Let_def upd_thread_views split: if_splits)

lemma prepare_kernel_view: "thread_prepare_kernel tr t e a k = (ok, k') \<Longrightarrow> wait_view k' = wait_view k"
  by (auto simp: thread_prepare_kernel_def Let_def upd_thread_views split: if_splits prod.splits dest!: build_context_view)

lemma prepare_user_view: "thread_prepare_user t r s k = (ok, k') \<Longrightarrow> wait_view k' = wait_view k"
  by (auto simp: thread_prepare_user_def Let_def upd_thread_views split: if_splits dest!: build_context_view)

lemma attach_view: "process_thread_attach p t k = (ok, k') \<Longrightarrow> wait_view k' = wait_view k"
  by (auto simp: process_thread_attach_def Let_def upd_thread_views split: if_splits)

lemma detach_view: "process_thread_detach p t k = (ok, k') \<Longrightarrow> wait_view k' = wait_view k"
  by (auto simp: process_thread_detach_def Let_def upd_thread_views split: if_splits)

text \<open>While a thread is under construction its storage is not live and carries no reservation.\<close>

definition creating :: "Kernel \<Rightarrow> ptr \<Rightarrow> Kernel \<Rightarrow> bool" where
  "creating k t j \<longleftrightarrow>
     thread_initialized (k_thread j) = thread_initialized (k_thread k) \<and>
     g_thread_storage (k_thread j) = g_thread_storage (k_thread k) \<and>
     g_next_wait_id (k_thread j) = g_next_wait_id (k_thread k) \<and>
     unreserved (h_thread j t) \<and> (\<forall>u. u \<noteq> t \<longrightarrow> wait_part (h_thread j u) = wait_part (h_thread k u))"

lemma creating_view: "creating k t j' = creating k t j" if "wait_view j' = wait_view j"
  using that by (auto simp: creating_def wait_view_def unreserved_def fun_eq_iff)

lemma creating_kept: "creating k t j \<Longrightarrow> waits_kept k j"
  by (auto simp: creating_def waits_kept_def live_defs)

lemma creating_zero: "creating k t (upd_thread t (\<lambda>_. zero_thread) j)" if "creating k t j"
  using that by (simp add: creating_def unreserved_def wait_part_def upd_thread_def zero_thread_def)

lemma create_fail_creating: "delivers (creating k t) (thread_create_fail t j)" if "creating k t j"
proof -
  have "delivers (creating k t) (thread_reclaim_unpublished_stack j)"
    unfolding delivers_def using that creating_view reclaim_view by blast
  then show ?thesis unfolding thread_create_fail_def by (rule delivers_bind) (simp add: creating_zero)
qed

lemma creating_publish:
  assumes c: "creating k t j" and m: "g_thread_storage m = (g_thread_storage (k_thread j))[s := t]"
    "thread_initialized m = thread_initialized (k_thread j)" "g_next_wait_id m = g_next_wait_id (k_thread j)"
  shows "waits_kept k (j\<lparr>k_thread := m\<rparr>)"
proof -
  have "set (g_thread_storage m) \<subseteq> insert t (set (g_thread_storage (k_thread k)))"
    using c m(1) set_update_subset_insert [of "g_thread_storage (k_thread j)" s t] by (simp add: creating_def)
  then show ?thesis using c m(2,3) by (auto simp: waits_kept_def creating_def live_defs)
qed

lemma create_commit_kept: "delivers (waits_kept k) (thread_create_commit t p s ph v j)" if c: "creating k t j"
proof -
  have fail: "delivers (waits_kept k) (thread_create_fail t i)" if "creating k t i" for i
    using create_fail_creating [OF that] creating_kept by (auto simp: delivers_def)
  let ?j = "upd_thread_module (\<lambda>m. m\<lparr>g_unpublished_stack_virtual := v\<rparr>) j"
  have c1: "creating k t ?j" using c creating_view [of ?j j] by simp
  have c2: "creating k t (upd_thread t (\<lambda>x. x\<lparr>th_id := a, th_process := p, th_state := b, kernel_stack_physical := d,
      kernel_stack_base := e, kernel_stack_top := f, kernel_stack_size := g, owns_kernel_stack := h\<rparr>) ?j)" for a b d e f g h
    using c1 by (auto simp: creating_def unreserved_def wait_part_def upd_thread_def)
  have step: "creating k t i'" if "creating k t i" "wait_view i' = wait_view i" for i i'
    using that creating_view by blast
  show ?thesis
    unfolding thread_create_commit_def Let_def
    by (intro delivers_if delivers_pair)
      (auto intro!: fail creating_publish dest!: create_fault_view attach_view intro: step [OF step] step c1 c2)
qed

lemma thread_create_kept: "delivers (waits_kept k) (thread_create t p k)"
proof (cases "t = 0 \<or> thread_storage_live k t")
  case True
  then show ?thesis by (simp add: thread_create_def thread_create_locked_def wait_view_kept)
next
  case False
  let ?z = "upd_thread t (\<lambda>_. zero_thread) k"
  have z: "creating k t ?z" by (simp add: creating_def unreserved_def wait_part_def upd_thread_def zero_thread_def)
  have step: "creating k t i'" if "creating k t i" "wait_view i' = wait_view i" for i i'
    using that creating_view by blast
  have fail: "delivers (waits_kept k) (thread_create_fail t i)" if "creating k t i" for i
    using create_fail_creating [OF that] creating_kept by (auto simp: delivers_def)
  have mapped: "delivers (waits_kept k) (outcome_bind (kernel_stack_map s ph i) (\<lambda>(vb, j). case vb of
        None \<Rightarrow> thread_create_fail t j | Some vb \<Rightarrow> thread_create_commit t p slot ph vb j))"
    if "creating k t i" for i s ph slot
    by (rule delivers_bind [OF delivers_stacks(1)])
      (use step [OF that] in \<open>auto intro!: delivers_option fail create_commit_kept\<close>)
  show ?thesis
    unfolding thread_create_def thread_create_locked_def Let_def if_not_P [OF False]
    by (intro delivers_if delivers_pair)
      (auto intro!: fail mapped creating_kept dest!: create_fault_view on_pmm_view intro: step z)
qed

lemma thread_destroy_kept: "delivers (waits_kept k) (thread_destroy t k)"
proof -
  have drop: "waits_kept k (upd_thread t (\<lambda>x. x\<lparr>th_process := a, process_prev := a, process_next := a,
                   th_entry := a, th_argument := a, kernel_stack_physical := a, kernel_stack_base := a,
                   kernel_stack_top := a, kernel_stack_size := a, owns_kernel_stack := False,
                   run_next := a, on_run_queue := False, th_id := a, th_state := THREAD_STATE_DEAD,
                   interrupt_rsp := a, interrupt_context_ready := False, wait_kind := THREAD_WAIT_NONE,
                   wait_result := THREAD_WAIT_RESULT_NONE, wait_object := 0, wait_id := 0\<rparr>)
      (set_threads ((g_thread_storage (k_thread j))[s := 0]) j))" if "wait_view j = wait_view k" for a s j
  proof -
    have "set ((g_thread_storage (k_thread j))[s := 0]) \<subseteq> insert 0 (set (g_thread_storage (k_thread k)))"
      using that set_update_subset_insert by (simp add: wait_view_def)
    then show ?thesis
      using that by (auto simp: waits_kept_def live_defs set_threads_def upd_thread_def wait_view_def fun_eq_iff unreserved_def wait_part_def)
  qed
  have release: "delivers (\<lambda>j. wait_view j = wait_view k) (if b then kernel_stack_release x y k else Done (True, k))" for b x y
    using delivers_stacks(4) by simp
  show ?thesis
    unfolding thread_destroy_def thread_destroy_locked_def Let_def
    by (intro delivers_if delivers_bind [OF release])
      (auto simp: wait_view_kept intro!: delivers_if delivers_pair drop dest!: detach_view)
qed

section \<open>Histories\<close>

text \<open>The wait protocol, whether a call succeeds or is refused, and around it every other operation
  on threads and every step of the scheduler.\<close>

inductive wait_step :: "Kernel \<Rightarrow> Kernel \<Rightarrow> bool" where
  begins: "thread_wait_begin t kind object k = (ok, k') \<Longrightarrow> wait_step k k'"
| completes: "thread_wait_try_complete t kind object ident result k = (ok, k') \<Longrightarrow> wait_step k k'"
| cancels: "thread_wait_cancel t kind object k = (ok, k') \<Longrightarrow> wait_step k k'"
| ends: "thread_wait_end t kind object k = (ok, k') \<Longrightarrow> wait_step k k'"
| aborts: "thread_wait_abort t kind object k = (ok, k') \<Longrightarrow> wait_step k k'"
| creates: "thread_create t p k = Done (ok, k') \<Longrightarrow> wait_step k k'"
| destroys: "thread_destroy t k = Done (ok, k') \<Longrightarrow> wait_step k k'"
| system_init: "thread_system_init p base len stack_top k = (ok, k') \<Longrightarrow> wait_step k k'"
| prepares_kernel: "thread_prepare_kernel trampoline t entry argument k = (ok, k') \<Longrightarrow> wait_step k k'"
| prepares_user: "thread_prepare_user t rip rsp k = (ok, k') \<Longrightarrow> wait_step k k'"
| activates: "thread_activate t k = (ok, k') \<Longrightarrow> wait_step k k'"
| enters_idle: "thread_scheduler_enter_idle stack_top k = (ok, k') \<Longrightarrow> wait_step k k'"
| leaves_idle: "thread_scheduler_activate_from_idle t k = (ok, k') \<Longrightarrow> wait_step k k'"
| reclaims: "thread_reclaim_unpublished_stack k = Done (ok, k') \<Longrightarrow> wait_step k k'"
| arms_fault: "thread_test_fail_create_once t fault rollback k = (ok, k') \<Longrightarrow> wait_step k k'"
| clears_fault: "wait_step k (thread_test_clear_create_fault k)"
| scheduler_inits: "scheduler_init l k = Done (ok, k') \<Longrightarrow> wait_step k k'"
| schedules: "sched_step k k' \<Longrightarrow> wait_step k k'"

text \<open>An identity is spent when it was issued and no pending reservation carries it.\<close>

definition wait_spent :: "Kernel \<Rightarrow> u64 \<Rightarrow> bool" where
  "wait_spent k w \<longleftrightarrow>
     thread_initialized (k_thread k) \<and> wait_ids.id_issued k w \<and>
     (\<forall>t kind object. wait_of k t \<noteq> Some (kind, object, w, THREAD_WAIT_RESULT_PENDING))"

lemma kept_spent: "wait_spent k' w" if "waits_kept k k'" "wait_spent k w"
proof -
  have "wait_of k' u \<noteq> Some (kind, object, w, THREAD_WAIT_RESULT_PENDING)" for u kind object
    using waits_kept_of [OF that(1), of u] that(2) by (auto simp: wait_spent_def)
  then show ?thesis using that by (simp add: wait_spent_def wait_ids.id_issued_def waits_kept_def)
qed

lemma begin_spent: "wait_spent k' w" if b: "thread_wait_begin t kind object k = (ok, k')" and s: "wait_spent k w"
proof (cases ok)
  case True
  then have "thread_wait_begin t kind object k = (True, k')" using b by simp
  note eff = wait_begin_effect [OF this]
  have w: "w \<noteq> 0" "w < g_next_wait_id (k_thread k)"
    using s eff(3) by (auto simp: wait_spent_def wait_ids.id_issued_def)
  have "g_next_wait_id (k_thread k') = 0 \<or> w < g_next_wait_id (k_thread k')"
  proof (cases "g_next_wait_id (k_thread k') = 0")
    case False
    then have "unat (g_next_wait_id (k_thread k')) = unat (g_next_wait_id (k_thread k)) + 1"
      using eff(4) by (simp add: unat_add_1)
    then show ?thesis using w(2) by (simp add: word_nat)
  qed simp
  moreover have "thread_initialized (k_thread k')"
    using b True s by (auto simp: thread_wait_begin_def wait_spent_def Let_def split: if_splits)
  ultimately show ?thesis
    using s w by (auto simp: wait_spent_def wait_ids.id_issued_def eff(2))
next
  case False
  then show ?thesis using b s by (auto simp: thread_wait_begin_def Let_def split: if_splits)
qed

lemma complete_spent:
  "wait_spent k' w" if c: "thread_wait_try_complete t kind object ident result k = (ok, k')" and s: "wait_spent k w"
proof (cases ok)
  case True
  then have "thread_wait_try_complete t kind object ident result k = (True, k')" using c by simp
  note eff = wait_complete_effect [OF this]
  show ?thesis
    using s eff(3) by (auto simp: wait_spent_def wait_ids.id_issued_def eff(2,4) wait_terminal_def)
next
  case False
  then show ?thesis using c s by (auto simp: thread_wait_try_complete_def split: if_splits)
qed

lemma abort_spent: "wait_spent k' w" if c: "thread_wait_abort t kind object k = (ok, k')" and s: "wait_spent k w"
proof (cases ok)
  case True
  then have "thread_wait_abort t kind object k = (True, k')" using c by simp
  note eff = wait_abort_effect [OF this]
  show ?thesis using s by (auto simp: wait_spent_def wait_ids.id_issued_def eff(2,3))
next
  case False
  then have "k' = k"
    using c by (auto simp: thread_wait_abort_def Let_def wait_terminal_def split: if_splits)
  then show ?thesis using s by simp
qed

lemma wait_step_spent: "wait_step k k' \<Longrightarrow> wait_spent k w \<Longrightarrow> wait_spent k' w"
proof (induction rule: wait_step.induct)
  case (cancels t kind object k ok k')
  then show ?case by (auto simp: thread_wait_cancel_def split: if_splits intro: complete_spent)
next
  case (ends t kind object k ok k')
  then show ?case
    by (auto simp: thread_wait_end_def wait_spent_def wait_ids.id_issued_def wait_clear_effect split: if_splits)
next
  case (system_init p base len stack_top k ok k')
  then have "k' = k" by (auto simp: thread_system_init_def wait_spent_def Let_def)
  then show ?case using system_init by simp
next
  case (arms_fault t fault rollback k ok k')
  then have "wait_view k' = wait_view k" by (auto simp: thread_test_fail_create_once_def split: if_splits)
  then show ?case using arms_fault kept_spent wait_view_kept by blast
next
  case (clears_fault k)
  have "wait_view (thread_test_clear_create_fault k) = wait_view k" by (simp add: thread_test_clear_create_fault_def)
  then show ?case using clears_fault kept_spent wait_view_kept by blast
qed (blast intro: begin_spent complete_spent abort_spent kept_spent wait_view_kept deliversD [OF thread_create_kept]
    deliversD [OF thread_destroy_kept] prepare_kernel_view prepare_user_view thread_activate_view enter_idle_view
    activate_from_idle_view reclaim_view scheduler_init_view sched_step_view)+

section \<open>Property\<close>

text \<open>C27. A wait is completed at most once, and its identity is never issued again. After a
  completion under identity \<open>w\<close> succeeded, let any sequence of wait calls, thread creations,
  destructions, preparations and switches, and scheduler operations run. Then no completion under
  \<open>w\<close> succeeds, on whatever thread and object, and no reservation that begins is given \<open>w\<close>:
  not while the owner has not collected the result, and not after the thread, or a new thread in
  the same storage, waits again on the same object. The hypothesis is that the identities of the
  active reservations are different and below the counter when the completion happens.\<close>

theorem wait_completed_once:
  assumes inv: "wait_ids.id_inv k" and ok: "thread_wait_try_complete t kind object w result k = (True, k')"
    and steps: "wait_step\<^sup>*\<^sup>* k' k''"
  shows "\<not> fst (thread_wait_try_complete t' kind' object' w result' k'') \<and>
    (\<forall>k3. thread_wait_begin t' kind' object' k'' = (True, k3) \<longrightarrow> wait_id (h_thread k3 t') \<noteq> w)"
proof -
  note eff = wait_complete_effect [OF ok]
  have act: "thread_wait_active k t" "wait_id (h_thread k t) = w" using eff(1) by (auto simp: wait_of_Some)
  have issued: "wait_ids.id_issued k w"
    using wait_ids.id_invD(1,2) [OF inv act(1)] act(2) by (auto simp: wait_ids.id_issued_def)
  have "wait_of k' u \<noteq> Some (kd, ob, w, THREAD_WAIT_RESULT_PENDING)" for u kd ob
    using eff(2,3) wait_ids.id_invD(3) [OF inv act(1), of u] act(2)
    by (auto simp: wait_of_Some wait_terminal_def split: if_splits)
  moreover have "thread_initialized (k_thread k)" using act(1) by (simp add: thread_wait_active_def thread_valid_def)
  ultimately have "wait_spent k' w"
    using issued eff(4) by (simp add: wait_spent_def wait_ids.id_issued_def)
  with steps have s: "wait_spent k'' w"
    by (induction rule: rtranclp_induct) (auto intro: wait_step_spent)
  have "\<not> fst (thread_wait_try_complete t' kind' object' w result' k'')"
    using s wait_complete_effect(1) [of t' kind' object' w result' k''] by (auto simp: wait_spent_def prod_eq_iff)
  moreover have "wait_id (h_thread k3 t') \<noteq> w" if b: "thread_wait_begin t' kind' object' k'' = (True, k3)" for k3
  proof -
    have "wait_of k3 t' = Some (kind', object', g_next_wait_id (k_thread k''), THREAD_WAIT_RESULT_PENDING)"
      using wait_begin_effect(2) [OF b] by simp
    then show ?thesis
      using s wait_begin_effect(3) [OF b] by (auto simp: wait_of_Some wait_spent_def wait_ids.id_issued_def)
  qed
  ultimately show ?thesis by blast
qed

text \<open>The thread at 512 is completed, collects the result and waits on the same object again, now
  under identity 2. A late completion for identity 1 is refused.\<close>

theorem wait_completed_once_witness:
  "\<exists>k1 k2 k3. thread_wait_try_complete 512 THREAD_WAIT_IPC_RECEIVE 64 1 THREAD_WAIT_RESULT_TIMED_OUT demo_wait = (True, k1) \<and>
     thread_wait_end 512 THREAD_WAIT_IPC_RECEIVE 64 k1 = (True, k2) \<and>
     thread_wait_begin 512 THREAD_WAIT_IPC_RECEIVE 64 k2 = (True, k3) \<and> wait_id (h_thread k3 512) \<noteq> 1 \<and>
     \<not> fst (thread_wait_try_complete 512 THREAD_WAIT_IPC_RECEIVE 64 1 THREAD_WAIT_RESULT_COMPLETED k3)"
proof -
  obtain k1 where k1: "thread_wait_try_complete 512 THREAD_WAIT_IPC_RECEIVE 64 1 THREAD_WAIT_RESULT_TIMED_OUT demo_wait = (True, k1)"
    using demo_complete by blast
  have e1: "k1 = upd_thread 512 (\<lambda>x. x\<lparr>wait_result := THREAD_WAIT_RESULT_TIMED_OUT\<rparr>) demo_wait"
    using k1 by (auto simp: thread_wait_try_complete_def split: if_splits)
  have k2: "thread_wait_end 512 THREAD_WAIT_IPC_RECEIVE 64 k1 = (True, wait_clear 512 k1)"
    by (simp add: thread_wait_end_def thread_wait_matches_def thread_valid_def live_defs e1 wait_kind_valid_def wait_terminal_def)
      (simp add: demo_wait_def small_kernel_def)
  have "fst (thread_wait_begin 512 THREAD_WAIT_IPC_RECEIVE 64 (wait_clear 512 k1))"
    by (simp add: thread_wait_begin_def thread_wait_active_def thread_valid_def live_defs e1 wait_kind_valid_def wait_clear_def Let_def)
      (simp add: demo_wait_def small_kernel_def)
  then obtain k3 where k3: "thread_wait_begin 512 THREAD_WAIT_IPC_RECEIVE 64 (wait_clear 512 k1) = (True, k3)"
    by (metis prod.collapse)
  have s: "wait_step\<^sup>*\<^sup>* k1 (wait_clear 512 k1)" "wait_step\<^sup>*\<^sup>* k1 k3"
    using wait_step.ends [OF k2] wait_step.begins [OF k3] by auto
  note once = wait_completed_once [OF demo_wait_ok(2) k1]
  show ?thesis using k1 k2 k3 once [OF s(1)] once [OF s(2)] by blast
qed

end
