(* ===== verification/Page_Entries.thy ===== *)
theory Page_Entries
  imports VMM
begin

text \<open>
  Page table entries bit by bit: an entry built from a frame and flags gives both back, and the
  indices of an address determine it.
\<close>

section \<open>Bits of an entry\<close>

lemma has_exp: "has (e :: u64) (2 ^ n) \<longleftrightarrow> bit e n"
  by (simp add: has_def and_exp_eq_0_iff_not_bit)

lemma has_bits [simp]:
  "has (e :: u64) 1 \<longleftrightarrow> bit e 0" "has e 2 \<longleftrightarrow> bit e 1" "has e 4 \<longleftrightarrow> bit e 2" "has e 8 \<longleftrightarrow> bit e 3"
  "has e 16 \<longleftrightarrow> bit e 4" "has e 0x80 \<longleftrightarrow> bit e 7" "has e 0x100 \<longleftrightarrow> bit e 8" "has e 0x8000000000000000 \<longleftrightarrow> bit e 63"
  using has_exp [of e 0] has_exp [of e 1] has_exp [of e 2] has_exp [of e 3] has_exp [of e 4]
    has_exp [of e 7] has_exp [of e 8] has_exp [of e 63] by simp_all

lemma address_mask_bit: "bit PTE_ADDRESS_MASK n \<longleftrightarrow> 12 \<le> n \<and> n < 52"
proof -
  have "PTE_ADDRESS_MASK = push_bit 12 (mask 40)" by (simp add: push_bit_eq_mult mask_eq_exp_minus_1)
  then have "bit PTE_ADDRESS_MASK n \<longleftrightarrow> bit (push_bit 12 (mask 40) :: u64) n" by (simp only:)
  then show ?thesis by (simp only: bit_push_bit_iff bit_mask_iff possible_bit_def) auto
qed

lemma low_bits:
  "bit (1 :: u64) n \<longleftrightarrow> n = 0" "bit (2 :: u64) n \<longleftrightarrow> n = 1" "bit (4 :: u64) n \<longleftrightarrow> n = 2"
  "bit (8 :: u64) n \<longleftrightarrow> n = 3" "bit (16 :: u64) n \<longleftrightarrow> n = 4" "bit (0x8000000000000000 :: u64) n \<longleftrightarrow> n = 63"
proof -
  have e: "bit (2 ^ m :: u64) n \<longleftrightarrow> n = m" if "m < 64" for m
    using that by (auto simp: bit_exp_iff possible_bit_def)
  show "bit (1 :: u64) n \<longleftrightarrow> n = 0" "bit (2 :: u64) n \<longleftrightarrow> n = 1" "bit (4 :: u64) n \<longleftrightarrow> n = 2"
    "bit (8 :: u64) n \<longleftrightarrow> n = 3" "bit (16 :: u64) n \<longleftrightarrow> n = 4" "bit (0x8000000000000000 :: u64) n \<longleftrightarrow> n = 63"
    using e [of 0] e [of 1] e [of 2] e [of 3] e [of 4] e [of 63] by simp_all
qed

lemma valid_frame_bits:
  assumes "valid_mapping_frame f" and "bit (frame_to_phys f) n"
  shows "12 \<le> n \<and> n < 52"
proof -
  have "\<not> bit (frame_to_phys f AND NOT PTE_ADDRESS_MASK) n"
    using assms(1) by (simp only: valid_mapping_frame_def has_def) simp
  moreover have "n < 64" using assms(2) bit_imp_le_length by fastforce
  ultimately show ?thesis using assms(2) by (simp only: bit_and_iff bit_not_iff address_mask_bit) simp
qed

lemma valid_frame_unat: "valid_mapping_frame f \<Longrightarrow> unat f < 2 ^ 52"
proof -
  assume "valid_mapping_frame f"
  then have "frame_to_phys f \<noteq> 0" by (simp add: valid_mapping_frame_def)
  then have "\<not> f > U64_MAX div FRAME_SIZE" by (auto simp: frame_to_phys_def split: if_splits)
  then show ?thesis by (simp add: word_nat unat_div not_less)
qed

text \<open>An entry made of a frame and flags outside the address bits.\<close>

lemma entry_frame_mk:
  assumes f: "valid_mapping_frame f" and fl: "\<And>n. bit fl n \<Longrightarrow> n < 12 \<or> 52 \<le> n"
  shows "entry_frame (frame_to_phys f OR fl) = f"
proof -
  define M where "M = PTE_ADDRESS_MASK"
  have m: "bit M n \<longleftrightarrow> 12 \<le> n \<and> n < 52" for n unfolding M_def by (rule address_mask_bit)
  have "bit ((frame_to_phys f OR fl) AND M) n = bit (frame_to_phys f) n" for n
    using valid_frame_bits [OF f, of n] fl [of n] by (auto simp: bit_or_iff bit_and_iff m)
  then have "(frame_to_phys f OR fl) AND M = frame_to_phys f" by (intro bit_word_eqI)
  then show ?thesis
    using phys_to_frame_frame_to_phys [OF valid_frame_unat [OF f]] by (simp add: entry_frame_def M_def)
qed

lemma entry_frame_or:
  assumes "\<And>n. bit fl n \<Longrightarrow> n < 12 \<or> 52 \<le> n"
  shows "entry_frame (e OR fl) = entry_frame e"
proof -
  define M where "M = PTE_ADDRESS_MASK"
  have m: "bit M n \<longleftrightarrow> 12 \<le> n \<and> n < 52" for n unfolding M_def by (rule address_mask_bit)
  have "bit ((e OR fl) AND M) n = bit (e AND M) n" for n
    using assms [of n] by (auto simp: bit_or_iff bit_and_iff m)
  then have "(e OR fl) AND M = e AND M" by (intro bit_word_eqI)
  then show ?thesis by (simp add: entry_frame_def M_def)
qed

lemma entry_frame_set [simp]:
  "entry_frame (e OR PTE_WRITE) = entry_frame e" "entry_frame (e OR PTE_USER) = entry_frame e"
  by (rule entry_frame_or, simp only: low_bits, simp)+

text \<open>The flags of an intermediate entry, with or without the user bit.\<close>

lemma or_low_bits [simp]:
  "bit (e OR PTE_WRITE) n \<longleftrightarrow> bit e n \<or> n = 1" "bit (e OR PTE_USER) n \<longleftrightarrow> bit e n \<or> n = 2"
  by (simp_all only: bit_or_iff low_bits)

section \<open>Leaf entries\<close>

text \<open>The single-bit words are kept abstract so that their disjunctions stay symbolic.\<close>

lemma leaf_bits_generic:
  fixes P NX W U C T fl :: u64
  assumes "\<And>n. bit P n \<longleftrightarrow> n = 0" "\<And>n. bit NX n \<longleftrightarrow> n = 63" "\<And>n. bit W n \<longleftrightarrow> n = 1" "\<And>n. bit U n \<longleftrightarrow> n = 2"
    "\<And>n. bit C n \<longleftrightarrow> n = 4" "\<And>n. bit T n \<longleftrightarrow> n = 3"
  shows "bit (let e = P OR NX;
          e = (if w then e OR W else e);
          e = (if u then e OR U else e);
          e = (if c then e OR C else e);
          e = (if d then e OR (C OR T) else e)
      in if x then e AND NOT NX else e) n \<longleftrightarrow>
     n = 0 \<or> n = 63 \<and> \<not> x \<or> n = 1 \<and> w \<or> n = 2 \<and> u \<or> n = 4 \<and> (c \<or> d) \<or> n = 3 \<and> d"
  using assms by (auto simp: Let_def bit_or_iff bit_and_iff bit_not_iff)

lemma leaf_flags_bit:
  "bit (leaf_flags fl) n \<longleftrightarrow>
     n = 0 \<or> n = 63 \<and> \<not> bit fl 2 \<or> n = 1 \<and> bit fl 0 \<or> n = 2 \<and> bit fl 1 \<or>
     n = 4 \<and> (bit fl 3 \<or> bit fl 4) \<or> n = 3 \<and> bit fl 4"
  unfolding leaf_flags_def has_bits by (rule leaf_bits_generic) (rule low_bits)+

lemma leaf_flags_range: "bit (leaf_flags fl) n \<Longrightarrow> n < 12 \<or> 52 \<le> n"
  by (auto simp: leaf_flags_bit)

lemma entry_bits_generic:
  fixes e W U X D C :: u64
  assumes "\<And>n. bit W n \<longleftrightarrow> n = 0" "\<And>n. bit U n \<longleftrightarrow> n = 1" "\<And>n. bit X n \<longleftrightarrow> n = 2" "\<And>n. bit D n \<longleftrightarrow> n = 4"
    "\<And>n. bit C n \<longleftrightarrow> n = 3"
  shows "bit (let f = 0;
            f = (if w then f OR W else f);
            f = (if u then f OR U else f);
            f = (if x then f OR X else f)
        in if d then f OR D else if c then f OR C else f) n \<longleftrightarrow>
     n = 0 \<and> w \<or> n = 1 \<and> u \<or> n = 2 \<and> x \<or> n = 4 \<and> d \<or> n = 3 \<and> c \<and> \<not> d"
  using assms by (auto simp: Let_def bit_or_iff)

lemma cache_bits:
  fixes e C T :: u64
  assumes "\<And>n. bit C n \<longleftrightarrow> n = 4" "\<And>n. bit T n \<longleftrightarrow> n = 3"
  shows "e AND (C OR T) = C OR T \<longleftrightarrow> bit e 3 \<and> bit e 4"
proof
  assume h: "e AND (C OR T) = C OR T"
  have "bit (C OR T) 3" "bit (C OR T) 4" using assms by (simp_all add: bit_or_iff)
  then have "bit (e AND (C OR T)) 3" "bit (e AND (C OR T)) 4" unfolding h by simp_all
  then show "bit e 3 \<and> bit e 4" by (simp add: bit_and_iff)
next
  assume "bit e 3 \<and> bit e 4"
  then show "e AND (C OR T) = C OR T"
    using assms by (intro bit_word_eqI) (auto simp: bit_or_iff bit_and_iff)
qed

lemma entry_flags_bit:
  "bit (vmm_test_entry_flags e) n \<longleftrightarrow> bit e 0 \<and>
     (n = 0 \<and> bit e 1 \<or> n = 1 \<and> bit e 2 \<or> n = 2 \<and> \<not> bit e 63 \<or>
      n = 4 \<and> bit e 3 \<and> bit e 4 \<or> n = 3 \<and> bit e 4 \<and> \<not> (bit e 3 \<and> bit e 4))"
proof (cases "bit e 0")
  case True
  then show ?thesis
    unfolding vmm_test_entry_flags_def has_bits cache_bits [OF low_bits(5,4)]
    by (simp only: if_False not_True_eq_False) (simp only: entry_bits_generic [OF low_bits(1,2,3,5,4)], simp)
qed (simp add: vmm_test_entry_flags_def)

text \<open>The flags of a page are those of its leaf when the entries above it do not restrict it.\<close>

lemma effective_flags_leaf:
  assumes "bit pte 0" and "bit a 1" "bit b 1" "bit c 1" and "\<not> bit a 63" "\<not> bit b 63" "\<not> bit c 63"
    and "bit pte 2 \<Longrightarrow> bit a 2 \<and> bit b 2 \<and> bit c 2"
  shows "effective_flags a b c pte = vmm_test_entry_flags pte"
proof -
  have w: "has a PTE_WRITE \<and> has b PTE_WRITE \<and> has c PTE_WRITE \<and> has pte PTE_WRITE \<longleftrightarrow> has pte PTE_WRITE"
    and u: "has a PTE_USER \<and> has b PTE_USER \<and> has c PTE_USER \<and> has pte PTE_USER \<longleftrightarrow> has pte PTE_USER"
    and x: "has (a OR b OR c OR pte) PTE_NX \<longleftrightarrow> has pte PTE_NX" and p: "has pte PTE_PRESENT"
    using assms by (auto simp: bit_or_iff)
  show ?thesis unfolding effective_flags_def vmm_test_entry_flags_def w u x using p by (simp only: not_True_eq_False if_False)
qed

text \<open>The flags asked for come back from the leaf.\<close>

lemma leaf_roundtrip:
  assumes f: "valid_mapping_frame f"
    and fl: "\<not> has fl (NOT (VM_WRITE OR VM_USER OR VM_EXEC OR VM_UNCACHED OR VM_DEVICE))"
    and dev: "\<not> (has fl VM_DEVICE \<and> has fl VM_UNCACHED)"
  shows "entry_frame (frame_to_phys f OR leaf_flags fl) = f"
    and "vmm_test_entry_flags (frame_to_phys f OR leaf_flags fl) = fl"
    and "bit (frame_to_phys f OR leaf_flags fl) 0" and "bit (frame_to_phys f OR leaf_flags fl) 2 = bit fl 1"
proof -
  show "entry_frame (frame_to_phys f OR leaf_flags fl) = f"
    by (rule entry_frame_mk [OF f leaf_flags_range])
  have b: "bit (frame_to_phys f OR leaf_flags fl) n = bit (leaf_flags fl) n" if "n < 12 \<or> 52 \<le> n" for n
    using that valid_frame_bits [OF f, of n] by (auto simp: bit_or_iff)
  show "bit (frame_to_phys f OR leaf_flags fl) 0" "bit (frame_to_phys f OR leaf_flags fl) 2 = bit fl 1"
    by (simp_all add: b leaf_flags_bit)
  have low: "n < 5" if "bit fl n" for n
  proof (rule ccontr)
    assume "\<not> n < 5"
    have m: "VM_WRITE OR VM_USER OR VM_EXEC OR VM_UNCACHED OR VM_DEVICE = mask 5" by (simp add: mask_eq_exp_minus_1)
    have "fl AND NOT (mask 5) = 0" using fl unfolding has_def m by simp
    then have "\<not> bit (fl AND NOT (mask 5)) n" by simp
    moreover have "n < 64" using that bit_imp_le_length by fastforce
    ultimately show False using that \<open>\<not> n < 5\<close> by (simp add: bit_and_iff bit_not_iff bit_mask_iff)
  qed
  show "vmm_test_entry_flags (frame_to_phys f OR leaf_flags fl) = fl"
  proof (rule bit_word_eqI)
    fix n :: nat
    consider "n = 0" | "n = 1" | "n = 2" | "n = 3" | "n = 4" | "5 \<le> n" by linarith
    then show "bit (vmm_test_entry_flags (frame_to_phys f OR leaf_flags fl)) n = bit fl n"
      using low [of n] dev by cases (auto simp: entry_flags_bit b leaf_flags_bit)
  qed
qed

section \<open>Indices of an address\<close>

lemma index_bit: "bit (ucast (drop_bit k (v :: u64) AND 0x1FF) :: u32) n \<longleftrightarrow> n < 9 \<and> bit v (k + n)"
proof -
  have m: "(0x1FF :: u64) = mask 9" by (simp add: mask_eq_exp_minus_1)
  show ?thesis unfolding m by (auto simp: bit_ucast_iff bit_and_iff bit_mask_iff bit_drop_bit_eq)
qed

lemma index_small: "(ucast (drop_bit k (v :: u64) AND 0x1FF) :: u32) < 512"
proof -
  have m: "(0x1FF :: u64) = mask 9" by (simp add: mask_eq_exp_minus_1)
  have "unat (drop_bit k v AND mask 9) < 512" by (simp add: u64_and_mask_unat)
  then have "take_bit 32 (unat (drop_bit k v AND mask 9)) < 512"
    by (rule le_less_trans [OF take_bit_nat_less_eq_self])
  then have "unat (ucast (drop_bit k v AND mask 9) :: u32) < 512" by (simp add: unsigned_ucast_eq)
  then show ?thesis unfolding m by (simp add: word_less_nat_alt)
qed

lemma indices_small:
  "pml4_index v < 512" "pdpt_index v < 512" "pd_index v < 512" "pt_index v < 512"
  by (simp_all only: pml4_index_def pdpt_index_def pd_index_def pt_index_def index_small)

lemma canonical_bit:
  assumes "virtual_address_canonical v" and "48 \<le> n" "n < 64"
  shows "bit v n = bit v 47"
proof -
  have neg: "drop_bit 47 v AND 1 \<noteq> 0 \<longleftrightarrow> bit v 47"
    using has_bits(1) [of "drop_bit 47 v"] by (simp only: has_def bit_drop_bit_eq) simp
  have up: "bit v n \<longleftrightarrow> bit (drop_bit 48 v) (n - 48)" using assms(2) by (simp add: bit_drop_bit_eq)
  have m: "(0xFFFF :: u64) = mask 16" by (simp add: mask_eq_exp_minus_1)
  have u: "drop_bit 48 v = (if bit v 47 then mask 16 else 0)"
    using assms(1) neg unfolding virtual_address_canonical_def Let_def m by (auto split: if_splits)
  show ?thesis unfolding up u using assms(2,3) by (auto simp: bit_mask_iff)
qed

lemma indices_inject:
  assumes v: "page_aligned v" "virtual_address_canonical v" and w: "page_aligned w" "virtual_address_canonical w"
    and eq: "pml4_index v = pml4_index w" "pdpt_index v = pdpt_index w" "pd_index v = pd_index w" "pt_index v = pt_index w"
  shows "v = w"
proof (rule bit_word_eqI)
  fix n :: nat
  assume n: "n < LENGTH(64)"
  have idx: "bit v (k + i) = bit w (k + i)" if "i < 9" "k = 12 \<or> k = 21 \<or> k = 30 \<or> k = 39" for k i
  proof -
    have "(ucast (drop_bit k v AND 0x1FF) :: u32) = ucast (drop_bit k w AND 0x1FF)"
      using that(2) eq unfolding pml4_index_def pdpt_index_def pd_index_def pt_index_def by (elim disjE) simp_all
    then have "bit (ucast (drop_bit k v AND 0x1FF) :: u32) i = bit (ucast (drop_bit k w AND 0x1FF) :: u32) i"
      by (simp only:)
    then show ?thesis unfolding index_bit using that(1) by blast
  qed
  have mid: "bit v m = bit w m" if "12 \<le> m" "m < 48" for m
    using that idx [of "m - 12" 12] idx [of "m - 21" 21] idx [of "m - 30" 30] idx [of "m - 39" 39]
    by (cases "m < 21"; cases "m < 30"; cases "m < 39") simp_all
  have al: "\<not> bit x m" if "page_aligned x" "m < 12" for x m
  proof -
    have k: "(VM_PAGE_SIZE - 1 :: u64) = mask 12" by (simp add: mask_eq_exp_minus_1)
    have "x AND mask 12 = 0" using that(1) unfolding page_aligned_def k .
    then have "\<not> bit (x AND mask 12) m" by simp
    then show ?thesis using that(2) by (simp add: bit_and_iff bit_mask_iff)
  qed
  consider "n < 12" | "12 \<le> n" "n < 48" | "48 \<le> n" by linarith
  then show "bit v n = bit w n"
  proof cases
    case 1
    then show ?thesis using al v w by simp
  next
    case 2
    then show ?thesis by (rule mid)
  next
    case 3
    then show ?thesis using canonical_bit [OF v(2) 3] canonical_bit [OF w(2) 3] n mid [of 47] by simp
  qed
qed

end
