(* ===== verification/Page_Tables.thy ===== *)
theory Page_Tables
  imports Page_Entries "HOL-Library.Sublist"
begin

text \<open>
  The tree of page tables below the entries a page map owns. The tables are found by walking
  paths of indices; the invariant says that different paths lead to different frames, that no
  table frame is free, and that the entries above the leaves restrict nothing. The abstract
  content of a map is its leaf entry for each path.
\<close>

section \<open>Walks\<close>

fun walk :: "Mm \<Rightarrow> frame_t \<Rightarrow> u32 list \<Rightarrow> frame_t option" where
  "walk mm f [] = Some f"
| "walk mm f (i # is) = (case existing_table mm f i of None \<Rightarrow> None | Some g \<Rightarrow> walk mm g is)"

lemma walk_append: "walk mm f (is @ js) = (case walk mm f is of None \<Rightarrow> None | Some g \<Rightarrow> walk mm g js)"
  by (induction "is" arbitrary: f) (auto split: option.splits)

lemma walk_snoc: "walk mm f (is @ [i]) = (case walk mm f is of None \<Rightarrow> None | Some g \<Rightarrow> existing_table mm g i)"
  by (auto simp: walk_append split: option.splits)

lemma walk_prefix: "walk mm f (is @ js) = Some g \<Longrightarrow> \<exists>h. walk mm f is = Some h"
  by (auto simp: walk_append split: option.splits)

text \<open>Paths of at most three indices that start at an owned entry of the root.\<close>

definition opath :: "VmPageMap \<Rightarrow> u32 list \<Rightarrow> bool" where
  "opath m is \<longleftrightarrow> length is \<le> 3 \<and> (\<forall>i\<in>set is. i < 512) \<and> (is \<noteq> [] \<longrightarrow> map_owns_pml4_index m (hd is))"

lemma opath_Nil [simp]: "opath m []"
  by (simp add: opath_def)

lemma opath_prefix: "opath m (is @ js) \<Longrightarrow> opath m is"
  by (cases "is") (auto simp: opath_def)

definition otables :: "Mm \<Rightarrow> VmPageMap \<Rightarrow> frame_t set" where
  "otables mm m = {f. \<exists>is. opath m is \<and> walk mm (root_frame m) is = Some f}"

abbreviation mm_free :: "Mm \<Rightarrow> frame_t set" where
  "mm_free mm \<equiv> free_frames (mm_pmm mm)"

text \<open>Every entry on the path lets user mode through.\<close>

fun user_path :: "Mm \<Rightarrow> frame_t \<Rightarrow> u32 list \<Rightarrow> bool" where
  "user_path mm f [] = True"
| "user_path mm f (i # is) \<longleftrightarrow>
     bit (pmem mm f i) 2 \<and> (case existing_table mm f i of None \<Rightarrow> True | Some g \<Rightarrow> user_path mm g is)"

lemma user_path_snoc:
  "walk mm f is = Some g \<Longrightarrow> user_path mm f (is @ [i]) \<longleftrightarrow> user_path mm f is \<and> bit (pmem mm g i) 2"
  by (induction "is" arbitrary: f) (auto split: option.splits)

definition entry_ok :: "Mm \<Rightarrow> u64 \<Rightarrow> bool" where
  "entry_ok mm e \<longleftrightarrow>
     e = 0 \<or> bit e 0 \<and> bit e 1 \<and> \<not> bit e 63 \<and> \<not> bit e 7 \<and> entry_frame e \<noteq> FRAME_INVALID \<and>
     table_pointer mm (entry_frame e) \<noteq> 0"

definition map_ok :: "Mm \<Rightarrow> VmPageMap \<Rightarrow> bool" where
  "map_ok mm m \<longleftrightarrow>
     root_frame m \<noteq> FRAME_INVALID \<and> table_pointer mm (root_frame m) \<noteq> 0 \<and> pmm_inv (mm_pmm mm) \<and>
     (\<forall>is js f. opath m is \<and> opath m js \<and> walk mm (root_frame m) is = Some f \<and>
        walk mm (root_frame m) js = Some f \<longrightarrow> is = js) \<and>
     otables mm m \<inter> mm_free mm = {} \<and>
     (\<forall>is f i. opath m (is @ [i]) \<and> walk mm (root_frame m) is = Some f \<longrightarrow> entry_ok mm (pmem mm f i)) \<and>
     (\<forall>is f i. opath m is \<and> length is = 3 \<and> i < 512 \<and> walk mm (root_frame m) is = Some f \<and> pmem mm f i \<noteq> 0 \<longrightarrow>
        bit (pmem mm f i) 0 \<and> (bit (pmem mm f i) 2 \<longrightarrow> user_path mm (root_frame m) is))"

text \<open>The leaf entry of a path, 0 when a table is missing.\<close>

definition pte_at :: "Mm \<Rightarrow> VmPageMap \<Rightarrow> u32 list \<Rightarrow> u32 \<Rightarrow> u64" where
  "pte_at mm m is i = (case walk mm (root_frame m) is of None \<Rightarrow> 0 | Some pt \<Rightarrow> pmem mm pt i)"

lemma map_okD:
  assumes "map_ok mm m"
  shows "root_frame m \<noteq> FRAME_INVALID" "table_pointer mm (root_frame m) \<noteq> 0" "pmm_inv (mm_pmm mm)"
    "\<And>is js f. opath m is \<Longrightarrow> opath m js \<Longrightarrow> walk mm (root_frame m) is = Some f \<Longrightarrow>
        walk mm (root_frame m) js = Some f \<Longrightarrow> is = js"
    "\<And>is f. opath m is \<Longrightarrow> walk mm (root_frame m) is = Some f \<Longrightarrow> f \<notin> mm_free mm"
    "\<And>is f i. opath m (is @ [i]) \<Longrightarrow> walk mm (root_frame m) is = Some f \<Longrightarrow> entry_ok mm (pmem mm f i)"
    "\<And>is f i. opath m is \<Longrightarrow> length is = 3 \<Longrightarrow> i < 512 \<Longrightarrow> walk mm (root_frame m) is = Some f \<Longrightarrow> pmem mm f i \<noteq> 0 \<Longrightarrow>
        bit (pmem mm f i) 0 \<and> (bit (pmem mm f i) 2 \<longrightarrow> user_path mm (root_frame m) is)"
proof -
  show "root_frame m \<noteq> FRAME_INVALID" "table_pointer mm (root_frame m) \<noteq> 0" "pmm_inv (mm_pmm mm)"
    using assms by (simp_all add: map_ok_def)
  show "\<And>is js f. opath m is \<Longrightarrow> opath m js \<Longrightarrow> walk mm (root_frame m) is = Some f \<Longrightarrow>
        walk mm (root_frame m) js = Some f \<Longrightarrow> is = js"
    using assms unfolding map_ok_def by blast
  show "\<And>is f. opath m is \<Longrightarrow> walk mm (root_frame m) is = Some f \<Longrightarrow> f \<notin> mm_free mm"
    using assms unfolding map_ok_def otables_def by blast
  show "\<And>is f i. opath m (is @ [i]) \<Longrightarrow> walk mm (root_frame m) is = Some f \<Longrightarrow> entry_ok mm (pmem mm f i)"
    using assms unfolding map_ok_def by blast
  show "\<And>is f i. opath m is \<Longrightarrow> length is = 3 \<Longrightarrow> i < 512 \<Longrightarrow> walk mm (root_frame m) is = Some f \<Longrightarrow> pmem mm f i \<noteq> 0 \<Longrightarrow>
        bit (pmem mm f i) 0 \<and> (bit (pmem mm f i) 2 \<longrightarrow> user_path mm (root_frame m) is)"
    using assms unfolding map_ok_def by blast
qed

lemma existing_table_ok:
  "entry_ok mm (pmem mm f i) \<Longrightarrow> existing_table mm f i = (if pmem mm f i = 0 then None else Some (entry_frame (pmem mm f i)))"
  by (auto simp: existing_table_def entry_ok_def Let_def)

lemma existing_table_zero [simp]: "pmem mm f i = 0 \<Longrightarrow> existing_table mm f i = None"
  by (simp add: existing_table_def)

section \<open>Queries read the leaf\<close>

definition leaf_path :: "u64 \<Rightarrow> u32 list" where
  "leaf_path v = [pml4_index v, pdpt_index v, pd_index v]"

lemma opath_leaf: "map_owns_pml4_index m (pml4_index v) \<Longrightarrow> opath m (leaf_path v)"
  by (simp add: opath_def leaf_path_def indices_small)

lemma query_leaf:
  assumes ok: "map_ok mm (page_map_at mm p)" and p: "p \<noteq> 0" and v: "page_aligned v" "virtual_address_canonical v"
    and own: "map_owns_pml4_index (page_map_at mm p) (pml4_index v)"
  shows "vmm_query_page mm p v =
    (let e = pte_at mm (page_map_at mm p) (leaf_path v) (pt_index v) in
     if e = 0 then None else Some (entry_frame e, vmm_test_entry_flags e))"
proof -
  let ?m = "page_map_at mm p"
  let ?r = "root_frame ?m"
  have o: "opath ?m (leaf_path v)" by (rule opath_leaf [OF own])
  have o1: "opath ?m ([] @ [pml4_index v])" "opath ?m ([pml4_index v] @ [pdpt_index v])"
    "opath ?m ([pml4_index v, pdpt_index v] @ [pd_index v])"
    using o by (simp_all add: opath_def leaf_path_def)
  show ?thesis
  proof (cases "walk mm ?r (leaf_path v)")
    case None
    then show ?thesis
      using map_okD(1,2) [OF ok] p v
      by (auto simp: vmm_query_page_def pte_at_def leaf_path_def Let_def split: option.splits)
  next
    case (Some pt)
    then obtain pdpt pd where t: "existing_table mm ?r (pml4_index v) = Some pdpt"
      "existing_table mm pdpt (pdpt_index v) = Some pd" "existing_table mm pd (pd_index v) = Some pt"
      by (auto simp: leaf_path_def split: option.splits)
    have e: "entry_ok mm (pmem mm ?r (pml4_index v))" "entry_ok mm (pmem mm pdpt (pdpt_index v))"
      "entry_ok mm (pmem mm pd (pd_index v))"
      using map_okD(6) [OF ok o1(1)] map_okD(6) [OF ok o1(2)] map_okD(6) [OF ok o1(3)] t by auto
    have nz: "pmem mm ?r (pml4_index v) \<noteq> 0" "pmem mm pdpt (pdpt_index v) \<noteq> 0" "pmem mm pd (pd_index v) \<noteq> 0"
      using t by auto
    let ?e = "pmem mm pt (pt_index v)"
    have leaf: "?e \<noteq> 0 \<Longrightarrow> bit ?e 0 \<and> (bit ?e 2 \<longrightarrow> user_path mm ?r (leaf_path v))"
      using map_okD(7) [OF ok o _ indices_small(4) Some] by (simp add: leaf_path_def)
    have "effective_flags (pmem mm ?r (pml4_index v)) (pmem mm pdpt (pdpt_index v)) (pmem mm pd (pd_index v)) ?e =
        vmm_test_entry_flags ?e" if "?e \<noteq> 0"
      using leaf [OF that] e nz t
      by (intro effective_flags_leaf) (auto simp: entry_ok_def leaf_path_def)
    then have eff: "?e = 0 \<or> effective_flags (pmem mm ?r (pml4_index v)) (pmem mm pdpt (pdpt_index v)) (pmem mm pd (pd_index v)) ?e =
        vmm_test_entry_flags ?e" by blast
    have q: "vmm_query_page mm p v = (if \<not> bit ?e 0 then None else Some (entry_frame ?e,
        effective_flags (pmem mm ?r (pml4_index v)) (pmem mm pdpt (pdpt_index v)) (pmem mm pd (pd_index v)) ?e))"
      using map_okD(1,2) [OF ok] p v t by (simp add: vmm_query_page_def Let_def)
    have "pte_at mm ?m (leaf_path v) (pt_index v) = ?e" using Some by (simp add: pte_at_def)
    then show ?thesis unfolding q Let_def using eff leaf by (cases "?e = 0") simp_all
  qed
qed

section \<open>Changing one entry\<close>

text \<open>The part of the memory state that the page table operations never change.\<close>

definition same_config :: "Mm \<Rightarrow> Mm \<Rightarrow> bool" where
  "same_config mm mm' \<longleftrightarrow>
     page_map_at mm' = page_map_at mm \<and> mm_cpu mm' = mm_cpu mm \<and>
     vmm_use_phys_map mm' = vmm_use_phys_map mm \<and> g_nx_enabled mm' = g_nx_enabled mm"

lemma same_config_refl [simp]: "same_config mm mm"
  by (simp add: same_config_def)

lemma same_config_trans: "same_config mm mm' \<Longrightarrow> same_config mm' mm'' \<Longrightarrow> same_config mm mm''"
  by (simp add: same_config_def)

lemma same_config_table_pointer: "same_config mm mm' \<Longrightarrow> table_pointer mm' = table_pointer mm"
  by (rule ext) (simp add: same_config_def table_pointer_def Let_def)

lemma same_config_entry: "same_config mm mm' \<Longrightarrow> pmem mm' g j = pmem mm g j \<Longrightarrow> existing_table mm' g j = existing_table mm g j"
  by (simp add: existing_table_def same_config_table_pointer [of mm mm'] Let_def)

lemma same_config_entry_ok: "same_config mm mm' \<Longrightarrow> entry_ok mm' = entry_ok mm"
  by (rule ext) (simp add: entry_ok_def same_config_table_pointer [of mm mm'])

lemma walk_cong:
  assumes "\<And>js j g. Q (js @ [j]) \<Longrightarrow> walk mm r js = Some g \<Longrightarrow> existing_table mm' g j = existing_table mm g j"
    and "\<And>js j. Q (js @ [j]) \<Longrightarrow> Q js" and "Q js"
  shows "walk mm' r js = walk mm r js"
  using assms(3)
proof (induction js rule: rev_induct)
  case (snoc j js)
  have q: "Q js" by (rule assms(2) [OF snoc.prems])
  show ?case
    using snoc.IH [OF q] assms(1) [OF snoc.prems] by (auto simp: walk_snoc split: option.splits)
qed simp

lemma user_path_cong:
  assumes "\<And>js j g. Q (js @ [j]) \<Longrightarrow> walk mm r js = Some g \<Longrightarrow>
      existing_table mm' g j = existing_table mm g j \<and> (bit (pmem mm g j) 2 \<longrightarrow> bit (pmem mm' g j) 2)"
    and "\<And>js j. Q (js @ [j]) \<Longrightarrow> Q js" and "Q js" and "walk mm r js = Some h" and "user_path mm r js"
  shows "user_path mm' r js"
  using assms(3,4,5)
proof (induction js arbitrary: h rule: rev_induct)
  case (snoc j js)
  have q: "Q js" by (rule assms(2) [OF snoc.prems(1)])
  obtain g where g: "walk mm r js = Some g" using snoc.prems(2) by (auto simp: walk_snoc split: option.splits)
  have "walk mm' r js = walk mm r js"
    by (rule walk_cong [where Q = Q]) (blast dest: assms(1), erule assms(2), rule q)
  then have g': "walk mm' r js = Some g" using g by (simp only:)
  show ?case
    using snoc.IH [OF q g] snoc.prems(3) assms(1) [OF snoc.prems(1) g]
    by (simp add: user_path_snoc [OF g] user_path_snoc [OF g'])
qed simp

text \<open>Only the entry \<open>i\<close> of the table \<open>f\<close> changes, among the tables of the map.\<close>

definition one_entry :: "VmPageMap \<Rightarrow> frame_t \<Rightarrow> u32 \<Rightarrow> Mm \<Rightarrow> Mm \<Rightarrow> bool" where
  "one_entry m f i mm mm' \<longleftrightarrow> same_config mm mm' \<and>
     (\<forall>g j. g \<in> otables mm m \<and> \<not> (g = f \<and> j = i) \<longrightarrow> pmem mm' g j = pmem mm g j)"

lemma otablesI: "opath m is \<Longrightarrow> walk mm (root_frame m) is = Some f \<Longrightarrow> f \<in> otables mm m"
  by (auto simp: otables_def)

lemma off_path_entry:
  assumes ok: "map_ok mm m" and one: "one_entry m f i mm mm'" and "is": "opath m is" "walk mm (root_frame m) is = Some f"
    and js: "opath m (js @ [j])" "\<not> prefix (is @ [i]) (js @ [j])" "walk mm (root_frame m) js = Some g"
  shows "pmem mm' g j = pmem mm g j"
proof -
  have js': "opath m js" by (rule opath_prefix [OF js(1)])
  have "\<not> (g = f \<and> j = i)" using map_okD(4) [OF ok js' "is"(1) js(3)] "is"(2) js(2) by auto
  then show ?thesis using one otablesI [OF js' js(3)] by (simp add: one_entry_def)
qed

lemma off_path:
  assumes ok: "map_ok mm m" and one: "one_entry m f i mm mm'" and "is": "opath m is" "walk mm (root_frame m) is = Some f"
    and js: "opath m js" "\<not> prefix (is @ [i]) js"
  shows "walk mm' (root_frame m) js = walk mm (root_frame m) js"
proof (rule walk_cong [where Q = "\<lambda>js. opath m js \<and> \<not> prefix (is @ [i]) js"])
  fix js j g assume q: "opath m (js @ [j]) \<and> \<not> prefix (is @ [i]) (js @ [j])" and g: "walk mm (root_frame m) js = Some g"
  show "existing_table mm' g j = existing_table mm g j"
    using one off_path_entry [OF ok one "is" _ _ g] q by (simp add: one_entry_def same_config_entry [of mm mm'])
next
  fix js j assume "opath m (js @ [j]) \<and> \<not> prefix (is @ [i]) (js @ [j])"
  then show "opath m js \<and> \<not> prefix (is @ [i]) js" by (auto dest: opath_prefix)
qed (use js in simp)

lemma off_path_user:
  assumes ok: "map_ok mm m" and one: "one_entry m f i mm mm'" and "is": "opath m is" "walk mm (root_frame m) is = Some f"
    and js: "opath m js" "\<not> prefix (is @ [i]) js" "walk mm (root_frame m) js = Some h" "user_path mm (root_frame m) js"
  shows "user_path mm' (root_frame m) js"
proof (rule user_path_cong [where Q = "\<lambda>js. opath m js \<and> \<not> prefix (is @ [i]) js"])
  fix js j g assume q: "opath m (js @ [j]) \<and> \<not> prefix (is @ [i]) (js @ [j])" and g: "walk mm (root_frame m) js = Some g"
  show "existing_table mm' g j = existing_table mm g j \<and> (bit (pmem mm g j) 2 \<longrightarrow> bit (pmem mm' g j) 2)"
    using one off_path_entry [OF ok one "is" _ _ g] q by (simp add: one_entry_def same_config_entry [of mm mm'])
next
  fix js j assume "opath m (js @ [j]) \<and> \<not> prefix (is @ [i]) (js @ [j])"
  then show "opath m js \<and> \<not> prefix (is @ [i]) js" by (auto dest: opath_prefix)
qed (use js in simp_all)

lemma on_path:
  assumes "walk mm' r is = Some f"
  shows "walk mm' r ((is @ [i]) @ ks) = (case existing_table mm' f i of None \<Rightarrow> None | Some g \<Rightarrow> walk mm' g ks)"
  using assms by (simp add: walk_append walk_snoc)

section \<open>Edits\<close>

text \<open>
  The entries an operation on a map may touch: those of its tables, in the root only the
  owned ones, and those of frames that were free.
\<close>

definition foot :: "Mm \<Rightarrow> VmPageMap \<Rightarrow> frame_t \<Rightarrow> u32 \<Rightarrow> bool" where
  "foot mm m f i \<longleftrightarrow> f \<in> mm_free mm \<or> f \<in> otables mm m \<and> (f = root_frame m \<longrightarrow> map_owns_pml4_index m i)"

definition edits :: "VmPageMap \<Rightarrow> Mm \<Rightarrow> Mm \<Rightarrow> bool" where
  "edits m mm mm' \<longleftrightarrow> same_config mm mm' \<and> map_ok mm' m \<and>
     (\<forall>f i. \<not> foot mm m f i \<longrightarrow> pmem mm' f i = pmem mm f i) \<and>
     mm_free mm' \<subseteq> mm_free mm \<union> otables mm m \<and> otables mm' m \<subseteq> otables mm m \<union> mm_free mm"

definition same_ptes :: "VmPageMap \<Rightarrow> Mm \<Rightarrow> Mm \<Rightarrow> bool" where
  "same_ptes m mm mm' \<longleftrightarrow> (\<forall>is i. opath m is \<and> length is = 3 \<and> i < 512 \<longrightarrow> pte_at mm' m is i = pte_at mm m is i)"

lemma edits_refl: "map_ok mm m \<Longrightarrow> edits m mm mm"
  by (simp add: edits_def)

lemma same_ptes_refl [simp]: "same_ptes m mm mm"
  by (simp add: same_ptes_def)

lemma same_ptes_trans: "same_ptes m mm mm' \<Longrightarrow> same_ptes m mm' mm'' \<Longrightarrow> same_ptes m mm mm''"
  by (simp add: same_ptes_def)

lemma edits_trans:
  assumes ok: "map_ok mm m" and a: "edits m mm mm'" and b: "edits m mm' mm''"
  shows "edits m mm mm''"
proof -
  have ok': "map_ok mm' m" using a by (simp add: edits_def)
  have root: "root_frame m \<notin> mm_free mm'" using map_okD(5) [OF ok', of "[]"] by simp
  have ft: "foot mm' m f i \<Longrightarrow> foot mm m f i" for f i
    using a root by (auto simp: edits_def foot_def)
  show ?thesis
    unfolding edits_def
  proof (intro conjI allI impI)
    show "same_config mm mm''" using a b by (auto simp: edits_def intro: same_config_trans)
    fix f i assume n: "\<not> foot mm m f i"
    then have "\<not> foot mm' m f i" using ft by blast
    then show "pmem mm'' f i = pmem mm f i" using n a b by (simp add: edits_def)
  qed (use a b in \<open>auto simp: edits_def\<close>)
qed

end
