(* ===== verification/Page_Edits.thy ===== *)
theory Page_Edits
  imports Page_Tables
begin

text \<open>
  The elementary changes of the page tables of one map, and what the operations of
  \<^verbatim>\<open>kernel/vmm.c\<close> that create and release tables do to them: they edit only entries the map
  owns, keep its invariant, and change no leaf entry.
\<close>

section \<open>One changed entry\<close>

text \<open>
  A change of entry \<open>i\<close> of the table \<open>f\<close> at the path \<open>is\<close>. Frames that were free may change
  as well. Below the entry a walk finds a table it found before, or a fresh empty one.
\<close>

definition entry_change :: "VmPageMap \<Rightarrow> u32 list \<Rightarrow> frame_t \<Rightarrow> u32 \<Rightarrow> Mm \<Rightarrow> Mm \<Rightarrow> bool" where
  "entry_change m is f i mm mm' \<longleftrightarrow>
     map_ok mm m \<and> same_config mm mm' \<and> pmm_inv (mm_pmm mm') \<and>
     opath m is \<and> walk mm (root_frame m) is = Some f \<and> i < 512 \<and> (is = [] \<longrightarrow> map_owns_pml4_index m i) \<and>
     (\<forall>g j. \<not> (g = f \<and> j = i) \<and> g \<notin> mm_free mm \<longrightarrow> pmem mm' g j = pmem mm g j)"

lemma entry_change_one: "entry_change m is f i mm mm' \<Longrightarrow> one_entry m f i mm mm'"
  unfolding entry_change_def one_entry_def map_ok_def by blast

lemma entry_change_off:
  assumes c: "entry_change m is f i mm mm'" and js: "opath m js" "\<not> prefix (is @ [i]) js"
  shows "walk mm' (root_frame m) js = walk mm (root_frame m) js"
    and "walk mm (root_frame m) js = Some h \<Longrightarrow> user_path mm (root_frame m) js \<Longrightarrow> user_path mm' (root_frame m) js"
  using c off_path [OF _ entry_change_one [OF c] _ _ js] off_path_user [OF _ entry_change_one [OF c] _ _ js]
  by (simp_all add: entry_change_def)

lemma entry_change_self:
  assumes c: "entry_change m is f i mm mm'"
  shows "walk mm' (root_frame m) is = Some f"
    and "user_path mm (root_frame m) is \<Longrightarrow> user_path mm' (root_frame m) is"
proof -
  have "is": "opath m is" "\<not> prefix (is @ [i]) is" "walk mm (root_frame m) is = Some f"
    using c by (auto simp: entry_change_def)
  show "walk mm' (root_frame m) is = Some f" using entry_change_off(1) [OF c "is"(1,2)] "is"(3) by simp
  show "user_path mm (root_frame m) is \<Longrightarrow> user_path mm' (root_frame m) is"
    by (rule entry_change_off(2) [OF c "is"])
qed

text \<open>What is found at a path after the change: an old table, or a fresh one at the entry.\<close>

definition old_table :: "VmPageMap \<Rightarrow> Mm \<Rightarrow> Mm \<Rightarrow> u32 list \<Rightarrow> frame_t \<Rightarrow> bool" where
  "old_table m mm mm' js h \<longleftrightarrow> walk mm (root_frame m) js = Some h \<and>
     (user_path mm (root_frame m) js \<longrightarrow> user_path mm' (root_frame m) js)"

definition fresh_table :: "u32 list \<Rightarrow> Mm \<Rightarrow> Mm \<Rightarrow> u32 list \<Rightarrow> frame_t \<Rightarrow> bool" where
  "fresh_table P mm mm' js h \<longleftrightarrow> js = P \<and> h \<in> mm_free mm \<and> (\<forall>j. pmem mm' h j = 0)"

definition sound_change :: "VmPageMap \<Rightarrow> u32 list \<Rightarrow> frame_t \<Rightarrow> u32 \<Rightarrow> Mm \<Rightarrow> Mm \<Rightarrow> bool" where
  "sound_change m is f i mm mm' \<longleftrightarrow> entry_change m is f i mm mm' \<and>
     mm_free mm' \<subseteq> mm_free mm \<union> otables mm m \<and>
     (length is < 3 \<longrightarrow> entry_ok mm (pmem mm' f i)) \<and>
     (length is = 3 \<longrightarrow> pmem mm' f i = 0 \<or>
        bit (pmem mm' f i) 0 \<and> (bit (pmem mm' f i) 2 \<longrightarrow> user_path mm (root_frame m) is)) \<and>
     (\<forall>js h. opath m js \<and> prefix (is @ [i]) js \<and> walk mm' (root_frame m) js = Some h \<longrightarrow>
        old_table m mm mm' js h \<or> fresh_table (is @ [i]) mm mm' js h) \<and>
     (\<forall>js h. opath m js \<and> walk mm' (root_frame m) js = Some h \<longrightarrow> h \<notin> mm_free mm')"

lemma sound_change_tables:
  assumes c: "sound_change m is f i mm mm'" and js: "opath m js" "walk mm' (root_frame m) js = Some h"
  shows "old_table m mm mm' js h \<or> fresh_table (is @ [i]) mm mm' js h"
proof (cases "prefix (is @ [i]) js")
  case True
  then show ?thesis using c js unfolding sound_change_def by blast
next
  case False
  have e: "entry_change m is f i mm mm'" using c by (simp add: sound_change_def)
  have "walk mm (root_frame m) js = Some h" using entry_change_off(1) [OF e js(1) False] js(2) by simp
  then show ?thesis using entry_change_off(2) [OF e js(1) False] by (simp add: old_table_def)
qed

lemma sound_change_not_free:
  assumes c: "sound_change m is f i mm mm'" and "old_table m mm mm' js h" "opath m js" "fresh_table P mm mm' ks h"
  shows False
proof -
  have "map_ok mm m" using c by (simp add: sound_change_def entry_change_def)
  from map_okD(5) [OF this assms(3)] show False using assms(2,4) by (auto simp: old_table_def fresh_table_def)
qed

text \<open>At an old table, the entry is the changed one or it is as before.\<close>

lemma old_table_entry:
  assumes c: "entry_change m is f i mm mm'" and js: "opath m js" "old_table m mm mm' js h"
  shows "js = is \<and> h = f \<and> j = i \<or> pmem mm' h j = pmem mm h j \<and> \<not> (js = is \<and> j = i)"
proof -
  have ok: "map_ok mm m" and "is": "opath m is" "walk mm (root_frame m) is = Some f"
    using c by (simp_all add: entry_change_def)
  have h: "walk mm (root_frame m) js = Some h" using js(2) by (simp add: old_table_def)
  have "h \<notin> mm_free mm" by (rule map_okD(5) [OF ok js(1) h])
  moreover have "js = is \<longleftrightarrow> h = f" using map_okD(4) [OF ok js(1) "is"(1) h] h "is"(2) by auto
  ultimately show ?thesis using c unfolding entry_change_def by blast
qed

lemma sound_change_map_ok:
  assumes c: "sound_change m is f i mm mm'"
  shows "map_ok mm' m"
  unfolding map_ok_def
proof (intro conjI allI impI)
  have e: "entry_change m is f i mm mm'" using c by (simp add: sound_change_def)
  have ok: "map_ok mm m" and cfg: "same_config mm mm'" and "is": "opath m is" "walk mm (root_frame m) is = Some f"
    using e by (simp_all add: entry_change_def)
  show "root_frame m \<noteq> FRAME_INVALID" by (rule map_okD(1) [OF ok])
  show "table_pointer mm' (root_frame m) \<noteq> 0"
    using map_okD(2) [OF ok] by (simp add: same_config_table_pointer [OF cfg])
  show "pmm_inv (mm_pmm mm')" using e by (simp add: entry_change_def)
  show "otables mm' m \<inter> mm_free mm' = {}" using c by (auto simp: sound_change_def otables_def)
  fix js h
  {
    fix ks assume a: "opath m js \<and> opath m ks \<and> walk mm' (root_frame m) js = Some h \<and> walk mm' (root_frame m) ks = Some h"
    have "old_table m mm mm' js h \<or> fresh_table (is @ [i]) mm mm' js h"
      "old_table m mm mm' ks h \<or> fresh_table (is @ [i]) mm mm' ks h"
      using sound_change_tables [OF c] a by blast+
    then show "js = ks"
      using sound_change_not_free [OF c] map_okD(4) [OF ok] a
      unfolding fresh_table_def old_table_def by metis
  }
  {
    fix j assume a: "opath m (js @ [j]) \<and> walk mm' (root_frame m) js = Some h"
    have js: "opath m js" using a opath_prefix by blast
    have len: "length js < 3" using a by (simp add: opath_def)
    have "entry_ok mm (pmem mm' h j)" using sound_change_tables [OF c js conjunct2 [OF a]]
    proof
      assume o: "old_table m mm mm' js h"
      show ?thesis
        using old_table_entry [OF e js o, of j] c len map_okD(6) [OF ok conjunct1 [OF a]] o
        by (auto simp: sound_change_def old_table_def)
    qed (simp add: fresh_table_def entry_ok_def)
    then show "entry_ok mm' (pmem mm' h j)" by (simp add: same_config_entry_ok [OF cfg])
  }
  {
    fix j assume a: "opath m js \<and> length js = 3 \<and> j < 512 \<and> walk mm' (root_frame m) js = Some h \<and> pmem mm' h j \<noteq> 0"
    then have js: "opath m js" "length js = 3" "j < 512" "walk mm' (root_frame m) js = Some h" "pmem mm' h j \<noteq> 0" by simp_all
    then have o: "old_table m mm mm' js h"
      using sound_change_tables [OF c js(1,4)] by (auto simp: fresh_table_def)
    then have h: "walk mm (root_frame m) js = Some h"
      and u: "user_path mm (root_frame m) js \<Longrightarrow> user_path mm' (root_frame m) js" by (simp_all add: old_table_def)
    have "bit (pmem mm' h j) 0 \<and> (bit (pmem mm' h j) 2 \<longrightarrow> user_path mm (root_frame m) js)"
      using old_table_entry [OF e js(1) o, of j]
    proof
      assume "js = is \<and> h = f \<and> j = i"
      then show ?thesis using c js by (simp add: sound_change_def)
    next
      assume p: "pmem mm' h j = pmem mm h j \<and> \<not> (js = is \<and> j = i)"
      then show ?thesis using map_okD(7) [OF ok js(1-3) h] js(5) by simp
    qed
    then show "bit (pmem mm' h j) 0" and "bit (pmem mm' h j) 2 \<Longrightarrow> user_path mm' (root_frame m) js"
      using u by blast+
  }
qed

lemma sound_change_edits:
  assumes c: "sound_change m is f i mm mm'"
  shows "edits m mm mm'"
  unfolding edits_def
proof (intro conjI allI impI)
  have e: "entry_change m is f i mm mm'" using c by (simp add: sound_change_def)
  have "is": "opath m is" "walk mm (root_frame m) is = Some f" and ok: "map_ok mm m"
    using e by (simp_all add: entry_change_def)
  show "same_config mm mm'" using e by (simp add: entry_change_def)
  show "map_ok mm' m" by (rule sound_change_map_ok [OF c])
  show "mm_free mm' \<subseteq> mm_free mm \<union> otables mm m" using c by (simp add: sound_change_def)
  show "otables mm' m \<subseteq> otables mm m \<union> mm_free mm"
  proof
    fix h assume "h \<in> otables mm' m"
    then obtain js where js: "opath m js" "walk mm' (root_frame m) js = Some h" by (auto simp: otables_def)
    from sound_change_tables [OF c this] js(1) show "h \<in> otables mm m \<union> mm_free mm"
      by (auto simp: old_table_def fresh_table_def otables_def)
  qed
  fix g j assume n: "\<not> foot mm m g j"
  have "f = root_frame m \<Longrightarrow> is = []" using map_okD(4) [OF ok "is"(1) opath_Nil "is"(2)] by simp
  then have "foot mm m f i" using otablesI [OF "is"] e by (auto simp: foot_def entry_change_def)
  then have "\<not> (g = f \<and> j = i)" "g \<notin> mm_free mm" using n by (auto simp: foot_def)
  then show "pmem mm' g j = pmem mm g j" using e by (simp add: entry_change_def)
qed

text \<open>Leaf entries away from a changed entry.\<close>

lemma entry_change_pte:
  assumes e: "entry_change m is f i mm mm'" and js: "opath m js" "length js = 3" "\<not> prefix (is @ [i]) js"
    and n: "\<not> (js = is \<and> j = i)"
  shows "pte_at mm' m js j = pte_at mm m js j"
proof (cases "walk mm (root_frame m) js")
  case None
  then show ?thesis using entry_change_off(1) [OF e js(1,3)] by (simp add: pte_at_def)
next
  case (Some h)
  then have "old_table m mm mm' js h" using entry_change_off(2) [OF e js(1,3)] by (simp add: old_table_def)
  from old_table_entry [OF e js(1) this, of j] n Some show ?thesis
    using entry_change_off(1) [OF e js(1,3)] by (auto simp: pte_at_def)
qed

section \<open>The four changes\<close>

lemma opath_snocD:
  assumes "opath m (is @ [i])"
  shows "opath m is" "i < 512" "is = [] \<Longrightarrow> map_owns_pml4_index m i" "length is < 3"
  using assms by (auto simp: opath_def hd_append split: if_splits)

lemma write_entry_simps [simp]:
  "pmem (write_entry f i v mm) g j = (if g = f \<and> j = i then v else pmem mm g j)"
  "mm_pmm (write_entry f i v mm) = mm_pmm mm" "same_config mm (write_entry f i v mm)"
  "g_faults (write_entry f i v mm) = g_faults mm" "page_map_at (write_entry f i v mm) = page_map_at mm"
  by (simp_all add: write_entry_def same_config_def)

lemma entry_change_write:
  assumes "map_ok mm m" "opath m is" "i < 512" "is = [] \<Longrightarrow> map_owns_pml4_index m i" "walk mm (root_frame m) is = Some f"
  shows "entry_change m is f i mm (write_entry f i v mm)"
  using assms by (auto simp: entry_change_def map_okD(3))

text \<open>Rights are added to an entry that links a table.\<close>

lemma relax_entry:
  assumes ok: "map_ok mm m" and P: "opath m (is @ [i])" and f: "walk mm (root_frame m) is = Some f"
    and e: "pmem mm f i \<noteq> 0" and v: "entry_ok mm v" "v \<noteq> 0" "entry_frame v = entry_frame (pmem mm f i)"
    "bit (pmem mm f i) 2 \<Longrightarrow> bit v 2"
  defines "mm' \<equiv> write_entry f i v mm"
  shows "edits m mm mm'" and "same_ptes m mm mm'"
    and "\<And>js. opath m js \<Longrightarrow> walk mm' (root_frame m) js = walk mm (root_frame m) js"
    and "\<And>js h. opath m js \<Longrightarrow> walk mm (root_frame m) js = Some h \<Longrightarrow> user_path mm (root_frame m) js \<Longrightarrow>
        user_path mm' (root_frame m) js"
proof -
  note s = opath_snocD [OF P]
  have c: "entry_change m is f i mm mm'" unfolding mm'_def by (rule entry_change_write [OF ok s(1-3) f])
  have ft: "existing_table mm f i = Some (entry_frame (pmem mm f i))"
    using existing_table_ok [OF map_okD(6) [OF ok P f]] e by simp
  have "existing_table mm' f i = Some (entry_frame v)"
    using existing_table_ok [of mm' f i] v(1,2) same_config_entry_ok [of mm mm'] by (simp add: mm'_def)
  then have same: "existing_table mm' g j = existing_table mm g j" for g j
    using ft v(3) same_config_entry [of mm mm' g j] by (cases "g = f \<and> j = i") (auto simp: mm'_def)
  show w: "walk mm' (root_frame m) js = walk mm (root_frame m) js" for js
    by (rule walk_cong [where Q = "\<lambda>_. True"]) (simp_all add: same)
  show u: "user_path mm' (root_frame m) js"
    if "walk mm (root_frame m) js = Some h" "user_path mm (root_frame m) js" for js h
    by (rule user_path_cong [where Q = "\<lambda>_. True", OF _ _ _ that])
      (use same v(4) in \<open>auto simp: mm'_def\<close>)
  have "sound_change m is f i mm mm'"
    unfolding sound_change_def old_table_def
    using c s(4) v w u map_okD(5) [OF ok] by (auto simp: mm'_def)
  then show "edits m mm mm'" by (rule sound_change_edits)
  have "pmem mm' h j = pmem mm h j" if "opath m js" "length js = 3" "walk mm (root_frame m) js = Some h" for js h j
    using map_okD(4) [OF ok that(1) s(1) that(3)] f s(4) that(2) by (auto simp: mm'_def)
  then show "same_ptes m mm mm'"
    by (auto simp: same_ptes_def pte_at_def w split: option.splits)
qed

text \<open>A fresh empty table is linked at an empty entry.\<close>

lemma link_table:
  assumes ok: "map_ok mm m" and P: "opath m (is @ [i])" and f: "walk mm (root_frame m) is = Some f"
    and e: "pmem mm f i = 0" and g: "g \<in> mm_free mm" and v: "entry_ok mm v" "v \<noteq> 0" "entry_frame v = g"
    and mm': "same_config mm mm'" "pmm_inv (mm_pmm mm')" "mm_free mm' = mm_free mm - {g}"
    "pmem mm' = (\<lambda>h j. if h = f \<and> j = i then v else if h = g then 0 else pmem mm h j)"
  shows "edits m mm mm'" and "same_ptes m mm mm'" and "walk mm' (root_frame m) (is @ [i]) = Some g"
    and "\<And>js. opath m js \<Longrightarrow> \<not> prefix (is @ [i]) js \<Longrightarrow> walk mm' (root_frame m) js = walk mm (root_frame m) js"
    and "user_path mm (root_frame m) is \<Longrightarrow> user_path mm' (root_frame m) is"
proof -
  note s = opath_snocD [OF P]
  have c: "entry_change m is f i mm mm'" using ok s f mm' g by (auto simp: entry_change_def)
  have fg: "f \<noteq> g" using map_okD(5) [OF ok s(1) f] g by auto
  have "existing_table mm' f i = Some g"
    using existing_table_ok [of mm' f i] v same_config_entry_ok [OF mm'(1)] by (simp add: mm'(4))
  note on = on_path [OF entry_change_self(1) [OF c], of i, unfolded this, simplified]
  have z: "existing_table mm' g j = None" for j using fg by (intro existing_table_zero) (simp add: mm'(4))
  have below: "walk mm' (root_frame m) (is @ i # ks) = (if ks = [] then Some g else None)" for ks
    using on [of ks] z by (cases ks) simp_all
  have z0: "existing_table mm f i = None" using e by simp
  have below0: "walk mm (root_frame m) (is @ i # ks) = None" for ks
    using z0 f by (simp add: walk_append)
  show "walk mm' (root_frame m) (is @ [i]) = Some g" using below [of "[]"] by simp
  show off: "walk mm' (root_frame m) js = walk mm (root_frame m) js" if "opath m js" "\<not> prefix (is @ [i]) js" for js
    by (rule entry_change_off(1) [OF c that])
  show "user_path mm (root_frame m) is \<Longrightarrow> user_path mm' (root_frame m) is" by (rule entry_change_self(2) [OF c])
  have nf: "h \<notin> mm_free mm'" if "opath m js" "walk mm' (root_frame m) js = Some h" for js h
  proof (cases "prefix (is @ [i]) js")
    case True
    then show ?thesis using that below by (auto simp: prefix_def mm'(3) split: if_splits)
  next
    case False
    then show ?thesis using map_okD(5) [OF ok that(1)] off [OF that(1) False] that(2) by (simp add: mm'(3))
  qed
  have "sound_change m is f i mm mm'"
    unfolding sound_change_def
  proof (intro conjI allI impI)
    fix js h assume "opath m js \<and> prefix (is @ [i]) js \<and> walk mm' (root_frame m) js = Some h"
    then have "fresh_table (is @ [i]) mm mm' js h"
      using g fg by (auto simp: fresh_table_def prefix_def below mm'(4) split: if_splits)
    then show "old_table m mm mm' js h \<or> fresh_table (is @ [i]) mm mm' js h" ..
  qed (use c s(4) v nf in \<open>auto simp: mm'(3,4)\<close>)
  then show "edits m mm mm'" by (rule sound_change_edits)
  show "same_ptes m mm mm'" unfolding same_ptes_def
  proof (intro allI impI)
    fix js and j :: u32 assume js: "opath m js \<and> length js = 3 \<and> j < 512"
    show "pte_at mm' m js j = pte_at mm m js j"
    proof (cases "prefix (is @ [i]) js")
      case True
      then show ?thesis using fg by (auto simp: prefix_def pte_at_def below below0 mm'(4))
    next
      case False
      have "js \<noteq> is" using js s(4) by auto
      then show ?thesis using entry_change_pte [OF c _ _ False] js by simp
    qed
  qed
qed

text \<open>The entry of an empty table is cleared and its frame given back.\<close>

lemma unlink_table:
  assumes ok: "map_ok mm m" and P: "opath m (is @ [i])" and f: "walk mm (root_frame m) is = Some f"
    and e: "existing_table mm f i = Some g" and z: "\<And>j. j < 512 \<Longrightarrow> pmem mm g j = 0"
    and mm': "same_config mm mm'" "pmm_inv (mm_pmm mm')" "mm_free mm' = insert g (mm_free mm)"
    "pmem mm' = (\<lambda>h j. if h = f \<and> j = i then 0 else pmem mm h j)"
  shows "edits m mm mm'" and "same_ptes m mm mm'"
    and "\<And>js. opath m js \<Longrightarrow> \<not> prefix (is @ [i]) js \<Longrightarrow> walk mm' (root_frame m) js = walk mm (root_frame m) js"
    and "otables mm' m = otables mm m - {g}"
proof -
  note s = opath_snocD [OF P]
  have c: "entry_change m is f i mm mm'" using ok s f mm' by (auto simp: entry_change_def)
  have g: "walk mm (root_frame m) (is @ [i]) = Some g" using f e by (simp add: walk_snoc)
  have "existing_table mm' f i = None" by (rule existing_table_zero) (simp add: mm'(4))
  note on = on_path [OF entry_change_self(1) [OF c], of i, unfolded this, simplified]
  show off: "walk mm' (root_frame m) js = walk mm (root_frame m) js" if "opath m js" "\<not> prefix (is @ [i]) js" for js
    by (rule entry_change_off(1) [OF c that])
  have below: "ks = [] \<and> h = g" if "opath m ((is @ [i]) @ ks)" "walk mm (root_frame m) ((is @ [i]) @ ks) = Some h" for ks h
  proof (cases ks)
    case (Cons k ks')
    then have "k < 512" using that(1) by (simp add: opath_def)
    then show ?thesis using z [of k] f e that(2) by (simp add: Cons walk_append)
  qed (use that g in simp)
  have ng: "h \<noteq> g" if "opath m js" "walk mm (root_frame m) js = Some h" "\<not> prefix (is @ [i]) js" for js h
    using map_okD(4) [OF ok that(1) P that(2)] g that(3) by auto
  have nf: "h \<notin> mm_free mm'" if "opath m js" "walk mm' (root_frame m) js = Some h" for js h
  proof (cases "prefix (is @ [i]) js")
    case True
    then show ?thesis using that on by (auto simp: prefix_def)
  next
    case False
    then have h: "walk mm (root_frame m) js = Some h" using off [OF that(1)] that(2) by simp
    then show ?thesis using map_okD(5) [OF ok that(1) h] ng [OF that(1) h False] by (simp add: mm'(3))
  qed
  have "sound_change m is f i mm mm'"
    unfolding sound_change_def
  proof (intro conjI allI impI)
    fix js h assume "opath m js \<and> prefix (is @ [i]) js \<and> walk mm' (root_frame m) js = Some h"
    then show "old_table m mm mm' js h \<or> fresh_table (is @ [i]) mm mm' js h"
      using on by (auto simp: prefix_def)
  qed (use c s(4) nf otablesI [OF P g] in \<open>auto simp: mm'(3,4) entry_ok_def\<close>)
  then show "edits m mm mm'" by (rule sound_change_edits)
  show "same_ptes m mm mm'" unfolding same_ptes_def
  proof (intro allI impI)
    fix js and j :: u32 assume js: "opath m js \<and> length js = 3 \<and> j < 512"
    show "pte_at mm' m js j = pte_at mm m js j"
    proof (cases "prefix (is @ [i]) js")
      case True
      then obtain ks where ks: "js = (is @ [i]) @ ks" by (auto simp: prefix_def)
      have "pte_at mm m js j = 0"
        using below [of ks] js g z [of j] by (auto simp: ks pte_at_def split: option.splits)
      moreover have "walk mm' (root_frame m) js = None" using on [of ks] by (simp add: ks)
      ultimately show ?thesis by (simp add: pte_at_def)
    next
      case False
      have "js \<noteq> is" using js s(4) by auto
      then show ?thesis using entry_change_pte [OF c _ _ False] js by simp
    qed
  qed
  have sub: "h \<in> otables mm m - {g}" if "opath m js" "walk mm' (root_frame m) js = Some h" for js h
  proof (cases "prefix (is @ [i]) js")
    case True
    then show ?thesis using that on by (auto simp: prefix_def)
  next
    case False
    then have "walk mm (root_frame m) js = Some h" using off [OF that(1)] that(2) by simp
    then show ?thesis using ng [OF that(1) _ False] otablesI [OF that(1)] by blast
  qed
  have sup: "h \<in> otables mm' m" if "opath m js" "walk mm (root_frame m) js = Some h" "h \<noteq> g" for js h
  proof (cases "prefix (is @ [i]) js")
    case True
    then show ?thesis using that below by (auto simp: prefix_def)
  next
    case False
    then show ?thesis using otablesI [OF that(1), of mm' h] off [OF that(1) False] that(2) by simp
  qed
  show "otables mm' m = otables mm m - {g}" using sub sup by (auto simp: otables_def)
qed

text \<open>A leaf entry is written.\<close>

lemma write_leaf:
  assumes ok: "map_ok mm m" and "is": "opath m is" "length is = 3" "i < 512" and f: "walk mm (root_frame m) is = Some f"
    and v: "v = 0 \<or> bit v 0 \<and> (bit v 2 \<longrightarrow> user_path mm (root_frame m) is)"
  defines "mm' \<equiv> write_entry f i v mm"
  shows "edits m mm mm'"
    and "\<And>js j. opath m js \<Longrightarrow> length js = 3 \<Longrightarrow> pte_at mm' m js j = (if js = is \<and> j = i then v else pte_at mm m js j)"
    and "\<And>js. opath m js \<Longrightarrow> walk mm' (root_frame m) js = walk mm (root_frame m) js"
proof -
  have c: "entry_change m is f i mm mm'" unfolding mm'_def by (rule entry_change_write [OF ok "is"(1,3) _ f]) (use "is" in simp)
  have np: "\<not> prefix (is @ [i]) js" if "opath m js" for js
    using that "is"(2) by (auto simp: opath_def prefix_def)
  show off: "walk mm' (root_frame m) js = walk mm (root_frame m) js" if "opath m js" for js
    by (rule entry_change_off(1) [OF c that np [OF that]])
  have "sound_change m is f i mm mm'"
    unfolding sound_change_def using c "is"(2) v np off map_okD(5) [OF ok] by (auto simp: mm'_def)
  then show "edits m mm mm'" by (rule sound_change_edits)
  show "pte_at mm' m js j = (if js = is \<and> j = i then v else pte_at mm m js j)" if "opath m js" "length js = 3" for js j
    using entry_change_pte [OF c that np [OF that(1)], of j] entry_change_self(1) [OF c]
    by (auto simp: pte_at_def) (simp add: mm'_def)
qed

text \<open>Nothing changes but the allocator, which offers no new frame.\<close>

lemma same_entries:
  assumes ok: "map_ok mm m" and mm': "same_config mm mm'" "pmem mm' = pmem mm" "pmm_inv (mm_pmm mm')" "mm_free mm' \<subseteq> mm_free mm"
  shows "edits m mm mm'" and "same_ptes m mm mm'" and "walk mm' r js = walk mm r js" and "user_path mm' r js = user_path mm r js"
proof -
  have same: "existing_table mm' = existing_table mm"
    by (intro ext same_config_entry [OF mm'(1)]) (simp add: mm'(2))
  show w: "walk mm' r js = walk mm r js" for r js by (induction js arbitrary: r) (simp_all add: same split: option.split)
  show u: "user_path mm' r js = user_path mm r js" for r js
    by (induction js arbitrary: r) (auto simp: same mm'(2) split: option.split)
  have t: "otables mm' m = otables mm m" by (simp add: otables_def w)
  have "map_ok mm' m"
    using ok mm'(3,4)
    unfolding map_ok_def t w u mm'(2) same_config_entry_ok [OF mm'(1)] same_config_table_pointer [OF mm'(1)] by blast
  then show "edits m mm mm'" using mm' t by (auto simp: edits_def)
  show "same_ptes m mm mm'" by (simp only: same_ptes_def pte_at_def w mm'(2)) simp
qed

end
