(* ===== verification/VMM_Laws.thy ===== *)
theory VMM_Laws
  imports Page_Edits
begin

text \<open>
  The operations of \<^verbatim>\<open>kernel/vmm.c\<close> on the page tables of one map: creating tables, rolling
  back, mapping, unmapping and changing the write permission of a page.
\<close>

section \<open>Frames for tables\<close>

lemma test_fault_frame:
  assumes "test_fault p k mm = (b, mm')"
  shows "same_config mm mm'" "pmem mm' = pmem mm" "mm_pmm mm' = mm_pmm mm"
  using assms by (auto simp: test_fault_def same_config_def Let_def split: if_splits)

lemma mm_frame_alloc_law:
  assumes "mm_frame_alloc mm = (f, mm')" and inv: "pmm_inv (mm_pmm mm)"
  shows "same_config mm mm'" "pmem mm' = pmem mm" "pmm_inv (mm_pmm mm')"
    "f = FRAME_INVALID \<Longrightarrow> mm_free mm' = mm_free mm"
    "f \<noteq> FRAME_INVALID \<Longrightarrow> f \<in> mm_free mm \<and> mm_free mm' = mm_free mm - {f}"
proof -
  obtain s where s: "frame_alloc (mm_pmm mm) = (f, s)" and mm': "mm' = mm\<lparr>mm_pmm := s\<rparr>"
    using assms(1) by (auto simp: mm_frame_alloc_def split: prod.splits)
  show "same_config mm mm'" "pmem mm' = pmem mm" by (simp_all add: mm' same_config_def)
  show "pmm_inv (mm_pmm mm')" using pmm.alloc_inv [OF inv s] by (simp add: mm')
  show "f = FRAME_INVALID \<Longrightarrow> mm_free mm' = mm_free mm"
    using pmm.alloc_fail [OF inv, of s] s by (simp add: mm')
  show "f \<noteq> FRAME_INVALID \<Longrightarrow> f \<in> mm_free mm \<and> mm_free mm' = mm_free mm - {f}"
    using pmm.alloc_take [OF inv s] by (simp add: mm')
qed

lemma free_table_law:
  assumes "free_table p f mm = (b, mm')" and inv: "pmm_inv (mm_pmm mm)"
  shows "same_config mm mm'" "pmem mm' = pmem mm" "pmm_inv (mm_pmm mm')"
    "mm_free mm' = (if b then insert f (mm_free mm) else mm_free mm)"
proof -
  obtain flt mm1 where t: "test_fault p VMM_TEST_FREE mm = (flt, mm1)" by (cases "test_fault p VMM_TEST_FREE mm")
  note t1 = test_fault_frame [OF t]
  have inv1: "pmm_inv (mm_pmm mm1)" using inv t1(3) by simp
  have "same_config mm mm' \<and> pmem mm' = pmem mm \<and> pmm_inv (mm_pmm mm') \<and>
      mm_free mm' = (if b then insert f (mm_free mm) else mm_free mm)"
  proof (cases flt)
    case True
    then show ?thesis using assms t t1 by (simp add: free_table_def)
  next
    case False
    then obtain s where s: "frame_free (mm_pmm mm1) f = (b, s)" and mm': "mm' = mm1\<lparr>mm_pmm := s\<rparr>"
      using assms(1) t by (auto simp: free_table_def mm_frame_free_def split: prod.splits)
    have "same_config mm mm'" using t1(1) by (simp add: mm' same_config_def)
    then show ?thesis
      using pmm.free_inv [OF inv1 s] pmm.free_give [OF inv1, of f s] pmm.free_fail [OF inv1, of f s] s t1(2,3)
      by (cases b) (auto simp: mm')
  qed
  then show "same_config mm mm'" "pmem mm' = pmem mm" "pmm_inv (mm_pmm mm')"
    "mm_free mm' = (if b then insert f (mm_free mm) else mm_free mm)" by simp_all
qed

text \<open>A table is allocated empty, from a frame that was free, or nothing but the allocator changes.\<close>

definition table_allocated :: "Mm \<Rightarrow> frame_t option \<Rightarrow> Mm \<Rightarrow> bool" where
  "table_allocated mm r mm' \<longleftrightarrow> same_config mm mm' \<and> pmm_inv (mm_pmm mm') \<and>
     (case r of
        None \<Rightarrow> pmem mm' = pmem mm \<and> mm_free mm' \<subseteq> mm_free mm
      | Some g \<Rightarrow> g \<in> mm_free mm \<and> mm_free mm' = mm_free mm - {g} \<and> pmem mm' = (pmem mm)(g := (\<lambda>_. 0)) \<and>
          valid_mapping_frame g \<and> table_pointer mm g \<noteq> 0)"

lemma allocate_table_law:
  assumes a: "allocate_table p mm = (r, mm')" and inv: "pmm_inv (mm_pmm mm)"
  shows "table_allocated mm r mm'"
proof (cases "p = 0 \<or> g_unlinked_table mm \<noteq> FRAME_INVALID")
  case True
  then have "allocate_table p mm = (None, mm)" by (auto simp: allocate_table_def)
  then show ?thesis using a inv by (auto simp: table_allocated_def)
next
  case False
  obtain flt mm1 where t: "test_fault p VMM_TEST_ALLOC mm = (flt, mm1)" by (cases "test_fault p VMM_TEST_ALLOC mm")
  note t1 = test_fault_frame [OF t]
  have inv1: "pmm_inv (mm_pmm mm1)" using inv t1(3) by simp
  obtain f mm2 where al: "mm_frame_alloc mm1 = (f, mm2)" by (cases "mm_frame_alloc mm1")
  note a2 = mm_frame_alloc_law [OF al inv1]
  have c2: "same_config mm mm2" by (rule same_config_trans [OF t1(1) a2(1)])
  show ?thesis
  proof (cases "flt \<or> f = FRAME_INVALID")
    case True
    then have "r = None" "mm' = (if flt then mm1 else mm2)" using a False t al
      by (cases flt, auto simp: allocate_table_def)+
    then show ?thesis using True t1 a2 c2 inv1 by (auto simp: table_allocated_def)
  next
    case ok: False
    then have f: "f \<in> mm_free mm" "mm_free mm2 = mm_free mm - {f}" using a2(5) t1(3) by simp_all
    obtain den mm3 where d: "(if valid_mapping_frame f then test_fault p VMM_TEST_ACCESS mm2 else (True, mm2)) = (den, mm3)"
      by (cases "if valid_mapping_frame f then test_fault p VMM_TEST_ACCESS mm2 else (True, mm2)")
    have d3: "same_config mm2 mm3" "pmem mm3 = pmem mm2" "mm_pmm mm3 = mm_pmm mm2" "\<not> den \<Longrightarrow> valid_mapping_frame f"
      using d test_fault_frame [of p VMM_TEST_ACCESS mm2 den mm3] by (auto split: if_splits)
    have c3: "same_config mm mm3" by (rule same_config_trans [OF c2 d3(1)])
    show ?thesis
    proof (cases "den \<or> table_pointer mm3 f = 0")
      case True
      obtain b mm4 where fr: "free_table p f mm3 = (b, mm4)" by (cases "free_table p f mm3")
      have inv3: "pmm_inv (mm_pmm mm3)" using a2(3) d3(3) by simp
      note f4 = free_table_law [OF fr inv3]
      have r: "r = None" "mm' = (if b then mm4 else mm4\<lparr>g_unlinked_table := f\<rparr>)"
        using a False ok t al d True fr by (cases den, auto simp: allocate_table_def Let_def)+
      have "same_config mm mm'" using same_config_trans [OF c3 f4(1)] by (simp add: r same_config_def)
      then show ?thesis using f4 f d3 a2 t1 by (auto simp: table_allocated_def r)
    next
      case ok3: False
      then have r: "r = Some f" "mm' = mm3\<lparr>pmem := (pmem mm3)(f := (\<lambda>_. 0))\<rparr>"
        using a False ok t al d by (auto simp: allocate_table_def Let_def)
      have "same_config mm mm'" using c3 by (simp add: r same_config_def)
      then show ?thesis
        using ok3 f d3 a2 t1 by (simp add: table_allocated_def r same_config_table_pointer [OF c3])
    qed
  qed
qed

section \<open>Creating and releasing one table\<close>

text \<open>
  What one step of an operation at the path \<open>is @ [i]\<close> may do: it edits only what the map owns,
  changes no leaf, and moves no table outside the subtree of that path.
\<close>

definition table_step :: "VmPageMap \<Rightarrow> u32 list \<Rightarrow> Mm \<Rightarrow> Mm \<Rightarrow> bool" where
  "table_step m P mm mm' \<longleftrightarrow> edits m mm mm' \<and> same_ptes m mm mm' \<and>
     (\<forall>js. opath m js \<and> \<not> prefix P js \<longrightarrow> walk mm' (root_frame m) js = walk mm (root_frame m) js)"

lemma table_step_refl: "map_ok mm m \<Longrightarrow> table_step m P mm mm"
  by (simp add: table_step_def edits_refl)

lemma table_step_entries:
  assumes "map_ok mm m" "same_config mm mm'" "pmem mm' = pmem mm" "pmm_inv (mm_pmm mm')" "mm_free mm' \<subseteq> mm_free mm"
  shows "table_step m P mm mm'"
  using same_entries [OF assms] by (simp add: table_step_def)

lemma intermediate_flags:
  fixes user :: bool
  assumes "valid_mapping_frame g" and "table_pointer mm g \<noteq> 0"
  defines "fl \<equiv> (if user then PTE_PRESENT OR PTE_WRITE OR PTE_USER else PTE_PRESENT OR PTE_WRITE)"
  shows "entry_ok mm (frame_to_phys g OR fl)" "frame_to_phys g OR fl \<noteq> 0" "entry_frame (frame_to_phys g OR fl) = g"
    "user \<Longrightarrow> bit (frame_to_phys g OR fl) 2"
proof -
  have b: "bit fl n \<longleftrightarrow> n = 0 \<or> n = 1 \<or> user \<and> n = 2" for n
    unfolding fl_def by (cases user) (simp_all only: if_True if_False bit_or_iff low_bits, auto)
  have e: "bit (frame_to_phys g OR fl) n \<longleftrightarrow> bit (frame_to_phys g) n \<or> n = 0 \<or> n = 1 \<or> user \<and> n = 2" for n
    by (simp only: bit_or_iff b)
  show ef: "entry_frame (frame_to_phys g OR fl) = g" by (rule entry_frame_mk [OF assms(1)]) (auto simp: b)
  show nz: "frame_to_phys g OR fl \<noteq> 0" using e [of 0] by auto
  show "user \<Longrightarrow> bit (frame_to_phys g OR fl) 2" using e [of 2] by simp
  show "entry_ok mm (frame_to_phys g OR fl)"
    using assms(1,2) valid_frame_bits [OF assms(1), of 63] valid_frame_bits [OF assms(1), of 7]
    by (simp add: entry_ok_def ef e) (auto simp: valid_mapping_frame_def)
qed

lemma relaxed_entry:
  fixes user :: bool
  assumes "entry_ok mm e" and "e \<noteq> 0"
  defines "v \<equiv> (if user then e OR PTE_WRITE OR PTE_USER else e OR PTE_WRITE)"
  shows "entry_ok mm v" "v \<noteq> 0" "entry_frame v = entry_frame e" "bit e 2 \<Longrightarrow> bit v 2" "user \<Longrightarrow> bit v 2"
proof -
  have v': "v = (if user then (e OR PTE_WRITE) OR PTE_USER else e OR PTE_WRITE)" by (simp only: v_def or.assoc)
  have b: "bit v n \<longleftrightarrow> bit e n \<or> n = 1 \<or> user \<and> n = 2" for n
    unfolding v' by (cases user) (simp_all only: if_True if_False or_low_bits, auto)
  have "bit e 0" using assms(1,2) by (simp add: entry_ok_def)
  then show nz: "v \<noteq> 0" using b [of 0] by auto
  show ef: "entry_frame v = entry_frame e" unfolding v' by (simp only: entry_frame_set split: if_split) simp
  show "bit e 2 \<Longrightarrow> bit v 2" "user \<Longrightarrow> bit v 2" by (simp_all only: b) simp_all
  show "entry_ok mm v" using assms(1,2) nz by (simp add: entry_ok_def ef b)
qed

lemma create_or_get_table_law:
  assumes ok: "map_ok mm m" and P: "opath m (is @ [i])" and f: "walk mm (root_frame m) is = Some f"
    and c: "create_or_get_table p f i user mm = (r, mm')"
  shows "table_step m (is @ [i]) mm mm'"
    and "user_path mm (root_frame m) is \<Longrightarrow> user_path mm' (root_frame m) is"
    and "r = Some (cr, g) \<Longrightarrow> walk mm' (root_frame m) (is @ [i]) = Some g \<and> (user \<longrightarrow> bit (pmem mm' f i) 2)"
    and "pmem mm f i \<noteq> 0 \<Longrightarrow> \<exists>g. r = Some (FRAME_INVALID, g)"
    and "pmem mm f i \<noteq> 0 \<Longrightarrow> opath m js \<Longrightarrow> walk mm' (root_frame m) js = walk mm (root_frame m) js"
proof -
  let ?e = "pmem mm f i"
  note s = opath_snocD [OF P]
  have e: "entry_ok mm ?e" by (rule map_okD(6) [OF ok P f])
  have "table_step m (is @ [i]) mm mm' \<and> (user_path mm (root_frame m) is \<longrightarrow> user_path mm' (root_frame m) is) \<and>
    (r = Some (cr, g) \<longrightarrow> walk mm' (root_frame m) (is @ [i]) = Some g \<and> (user \<longrightarrow> bit (pmem mm' f i) 2)) \<and>
    (?e \<noteq> 0 \<longrightarrow> (\<exists>g. r = Some (FRAME_INVALID, g)) \<and> (opath m js \<longrightarrow> walk mm' (root_frame m) js = walk mm (root_frame m) js))"
  proof (cases "?e = 0")
    case False
    define v where "v = (if user then ?e OR PTE_WRITE OR PTE_USER else ?e OR PTE_WRITE)"
    note v = relaxed_entry [OF e False, of user, folded v_def]
    note rx = relax_entry [OF ok P f False v(1-4), simplified]
    have ee: "bit ?e 0" "\<not> bit ?e 7" "entry_frame ?e \<noteq> FRAME_INVALID" "table_pointer mm (entry_frame ?e) \<noteq> 0"
      using e False by (simp_all add: entry_ok_def)
    have w2: "write_entry f i y (write_entry f i x mm) = write_entry f i y mm" for x y
      by (simp add: write_entry_def)
    have tp: "table_pointer (write_entry f i x mm) = table_pointer mm" for x
      by (rule same_config_table_pointer) simp
    have r: "r = Some (FRAME_INVALID, entry_frame ?e)" "mm' = write_entry f i v mm"
      using c ee v(3) by (auto simp: create_or_get_table_def Let_def w2 tp v_def or.assoc split: if_splits)
    have "walk mm (root_frame m) (is @ [i]) = Some (entry_frame ?e)"
      using f existing_table_ok [OF e] False by (simp add: walk_snoc)
    moreover have "table_step m (is @ [i]) mm mm'" unfolding table_step_def r(2) using rx(1-3) by blast
    ultimately show ?thesis using rx(3) [OF P] rx(3) [of js] rx(4) [OF s(1) f] v(5) r by simp
  next
    case True
    obtain r1 mm1 where al: "allocate_table p mm = (r1, mm1)" by (cases "allocate_table p mm")
    note a = allocate_table_law [OF al map_okD(3) [OF ok]]
    show ?thesis
    proof (cases r1)
      case None
      then have r: "r = None" "mm' = mm1" using c True al by (auto simp: create_or_get_table_def Let_def)
      then show ?thesis
        using a None True table_step_entries [OF ok] same_entries(4) [OF ok]
        by (simp add: table_allocated_def)
    next
      case (Some h)
      define v where "v = frame_to_phys h OR (if user then PTE_PRESENT OR PTE_WRITE OR PTE_USER else PTE_PRESENT OR PTE_WRITE)"
      have h: "h \<in> mm_free mm" "mm_free mm1 = mm_free mm - {h}" "pmem mm1 = (pmem mm)(h := (\<lambda>_. 0))"
        "valid_mapping_frame h" "table_pointer mm h \<noteq> 0" "same_config mm mm1" "pmm_inv (mm_pmm mm1)"
        using a Some by (simp_all add: table_allocated_def)
      note v = intermediate_flags [OF h(4,5), of user, folded v_def]
      have r: "r = Some (h, h)" "mm' = write_entry f i v mm1"
        using c True al Some by (auto simp: create_or_get_table_def Let_def v_def or.assoc split: if_splits)
      have "same_config mm mm'" using same_config_trans [OF h(6)] by (simp add: r)
      note lk = link_table [OF ok P f True h(1) v(1-3) this]
      have "pmm_inv (mm_pmm mm')" "mm_free mm' = mm_free mm - {h}"
        "pmem mm' = (\<lambda>g j. if g = f \<and> j = i then v else if g = h then 0 else pmem mm g j)"
        using h(2,3,7) by (simp_all add: r fun_eq_iff)
      note lk = lk [OF this]
      have "table_step m (is @ [i]) mm mm'" unfolding table_step_def using lk(1,2,4) by blast
      then show ?thesis using lk(3,5) True v(4) r by simp blast
    qed
  qed
  then show "table_step m (is @ [i]) mm mm'"
    and "user_path mm (root_frame m) is \<Longrightarrow> user_path mm' (root_frame m) is"
    and "r = Some (cr, g) \<Longrightarrow> walk mm' (root_frame m) (is @ [i]) = Some g \<and> (user \<longrightarrow> bit (pmem mm' f i) 2)"
    and "pmem mm f i \<noteq> 0 \<Longrightarrow> \<exists>g. r = Some (FRAME_INVALID, g)"
    and "pmem mm f i \<noteq> 0 \<Longrightarrow> opath m js \<Longrightarrow> walk mm' (root_frame m) js = walk mm (root_frame m) js" by simp_all
qed

lemma index_range_all: "list_all Q (index_range 0 PAGE_TABLE_ENTRIES) \<longleftrightarrow> (\<forall>j < 512. Q j)"
proof
  assume a: "list_all Q (index_range 0 PAGE_TABLE_ENTRIES)"
  show "\<forall>j < 512. Q j"
  proof (intro allI impI)
    fix j :: u32 assume "j < 512"
    then have "unat j < 512" by (simp add: word_less_nat_alt)
    then have "of_nat (unat j) \<in> set (index_range 0 PAGE_TABLE_ENTRIES)" by (force simp: index_range_def)
    then have "j \<in> set (index_range 0 PAGE_TABLE_ENTRIES)" by simp
    then show "Q j" using a by (simp add: list_all_iff)
  qed
next
  assume "\<forall>j < 512. Q j"
  moreover have "(of_nat n :: u32) < 512" if "n < 512" for n
    using that by (simp add: word_less_nat_alt take_bit_nat_eq_self unat_of_nat)
  ultimately show "list_all Q (index_range 0 PAGE_TABLE_ENTRIES)" by (auto simp: list_all_iff index_range_def)
qed

lemma release_empty_child_law:
  assumes ok: "map_ok mm m" and P: "opath m (is @ [i])" and f: "walk mm (root_frame m) is = Some f"
    and c: "release_empty_child p f i mm = (b, mm')"
  shows "table_step m (is @ [i]) mm mm'"
    and "mm_free mm' \<union> otables mm' m = mm_free mm \<union> otables mm m"
    and "pmem mm' = (if b then (\<lambda>h j. if h = f \<and> j = i then 0 else pmem mm h j) else pmem mm)"
proof -
  let ?e = "pmem mm f i"
  have e: "entry_ok mm ?e" by (rule map_okD(6) [OF ok P f])
  have "table_step m (is @ [i]) mm mm' \<and> mm_free mm' \<union> otables mm' m = mm_free mm \<union> otables mm m \<and>
    pmem mm' = (if b then (\<lambda>h j. if h = f \<and> j = i then 0 else pmem mm h j) else pmem mm)"
  proof (cases "\<not> bit ?e 0 \<or> bit ?e 7 \<or> \<not> table_empty mm (entry_frame ?e)")
    case True
    then have "mm' = mm" "\<not> b" using c by (auto simp: release_empty_child_def Let_def split: if_splits)
    then show ?thesis by (simp add: table_step_refl [OF ok])
  next
    case False
    define mm1 where "mm1 = write_entry f i 0 mm"
    obtain mm2 where fr: "free_table p (entry_frame ?e) mm1 = (b, mm2)" and mm': "mm' = (if b then mm2 else write_entry f i ?e mm2)"
      using c False by (auto simp: release_empty_child_def Let_def mm1_def split: prod.splits if_splits)
    have inv1: "pmm_inv (mm_pmm mm1)" using map_okD(3) [OF ok] by (simp add: mm1_def)
    note f2 = free_table_law [OF fr inv1]
    have c1: "same_config mm mm1" by (simp add: mm1_def)
    have c2: "same_config mm mm2" by (rule same_config_trans [OF c1 f2(1)])
    have p2: "pmem mm2 = (\<lambda>h j. if h = f \<and> j = i then 0 else pmem mm h j)"
      by (simp add: f2(2) mm1_def fun_eq_iff)
    show ?thesis
    proof (cases b)
      case True
      have ex: "existing_table mm f i = Some (entry_frame ?e)"
        using existing_table_ok [OF e] False by auto
      have z: "\<And>j. j < 512 \<Longrightarrow> pmem mm (entry_frame ?e) j = 0"
        using False by (simp add: table_empty_def index_range_all)
      have fr2: "mm_free mm2 = insert (entry_frame ?e) (mm_free mm)" using f2(4) True by (simp add: mm1_def)
      note ul = unlink_table [OF ok P f ex z c2 f2(3) fr2 p2]
      have "table_step m (is @ [i]) mm mm2" unfolding table_step_def using ul(1-3) by blast
      moreover have "entry_frame ?e \<in> otables mm m" using otablesI [OF P] f ex by (simp add: walk_snoc)
      ultimately show ?thesis using ul(4) fr2 p2 True mm' by auto
    next
      case False
      have "same_config mm mm'" using same_config_trans [OF c2] False mm' by simp
      moreover have "pmem mm' = pmem mm" using False mm' p2 by (simp add: fun_eq_iff)
      moreover have "pmm_inv (mm_pmm mm')" "mm_free mm' = mm_free mm" using f2(3,4) False mm' by (simp_all add: mm1_def)
      moreover from calculation have "otables mm' m = otables mm m" using same_entries(3) [OF ok] by (simp add: otables_def)
      ultimately show ?thesis using table_step_entries [OF ok] False by simp
    qed
  qed
  then show "table_step m (is @ [i]) mm mm'" "mm_free mm' \<union> otables mm' m = mm_free mm \<union> otables mm m"
    "pmem mm' = (if b then (\<lambda>h j. if h = f \<and> j = i then 0 else pmem mm h j) else pmem mm)" by blast+
qed

section \<open>Rolling back\<close>

text \<open>
  The tables one call created, in the order of the rollback: they hang below prefixes of
  one path \<open>q\<close> of length less than \<open>k\<close>, the longest first.
\<close>

definition on_branch :: "Mm \<Rightarrow> VmPageMap \<Rightarrow> u32 list \<Rightarrow> nat \<Rightarrow> (frame_t \<times> u32 \<times> frame_t) list \<Rightarrow> bool" where
  "on_branch mm m q k cs \<longleftrightarrow>
     (\<exists>ns. sorted_wrt (>) ns \<and> (\<forall>n\<in>set ns. n < k) \<and>
       list_all2 (\<lambda>n (parent, index, frame). n < length q \<and> index = q ! n \<and> walk mm (root_frame m) (take n q) = Some parent)
         ns cs)"

lemma table_stepD:
  assumes "table_step m P mm mm'"
  shows "map_ok mm' m" "edits m mm mm'" "same_ptes m mm mm'"
    "opath m js \<Longrightarrow> \<not> prefix P js \<Longrightarrow> walk mm' (root_frame m) js = walk mm (root_frame m) js"
  using assms by (simp_all add: table_step_def edits_def)

lemma rollback_loop:
  assumes "map_ok mm m" and "opath m q" and "on_branch mm m q k cs"
    and "loop_all (\<lambda>(parent, index, frame) mm.
               if entry_frame (pmem mm parent index) \<noteq> frame then (False, mm)
               else release_empty_child p parent index mm) cs mm = (b, mm')"
  shows "edits m mm mm' \<and> same_ptes m mm mm'"
  using assms(1,3,4)
proof (induction cs arbitrary: mm)
  case Nil
  then show ?case by (simp add: edits_refl)
next
  case (Cons c cs)
  obtain parent index frame where c: "c = (parent, index, frame)" by (cases c)
  from Cons.prems(2) obtain n ns where ns: "sorted_wrt (>) (n # ns)" "n < length q" "index = q ! n"
    "walk mm (root_frame m) (take n q) = Some parent"
    "list_all2 (\<lambda>n (parent, index, frame). n < length q \<and> index = q ! n \<and> walk mm (root_frame m) (take n q) = Some parent) ns cs"
    and nk: "\<forall>n\<in>set ns. n < k"
    by (auto simp: on_branch_def c list_all2_Cons2)
  show ?case
  proof (cases "entry_frame (pmem mm parent index) = frame")
    case False
    then show ?thesis using Cons.prems by (simp add: c edits_refl)
  next
    case True
    obtain b1 mm1 where r: "release_empty_child p parent index mm = (b1, mm1)" by (cases "release_empty_child p parent index mm")
    have P: "take n q @ [index] = take (Suc n) q" using ns(2,3) by (simp add: take_Suc_conv_app_nth)
    have "opath m (take (Suc n) q @ drop (Suc n) q)" using assms(2) by simp
    then have "opath m (take n q @ [index])" unfolding P by (rule opath_prefix)
    note s = table_stepD [OF release_empty_child_law(1) [OF Cons.prems(1) this ns(4) r]]
    have "walk mm1 (root_frame m) (take k q) = walk mm (root_frame m) (take k q)" if "k \<in> set ns" for k
    proof (rule s(4))
      have "opath m (take k q @ drop k q)" using assms(2) by simp
      then show "opath m (take k q)" by (rule opath_prefix)
      have "k < n" using ns(1) that by auto
      then show "\<not> prefix (take n q @ [index]) (take k q)" using ns(2) by (auto dest!: prefix_length_le)
    qed
    then have "on_branch mm1 m q k cs"
      using ns(1,5) nk unfolding on_branch_def by (intro exI [of _ ns]) (auto simp: list_all2_conv_all_nth)
    then have "edits m mm1 mm' \<and> same_ptes m mm1 mm'" if b1
      using Cons.IH [OF s(1)] Cons.prems(3) r True that by (simp add: c)
    then show ?thesis
      using s(2,3) Cons.prems(3) r True edits_trans [OF Cons.prems(1) s(2)] same_ptes_trans [OF s(3)]
      by (cases b1) (auto simp: c)
  qed
qed

lemma rollback_law:
  assumes "map_ok mm m" and "opath m q" and "on_branch mm m q k (rev cs)"
  shows "edits m mm (rollback_created_tables p cs mm)" "same_ptes m mm (rollback_created_tables p cs mm)"
proof -
  obtain b mm' where l: "loop_all (\<lambda>(parent, index, frame) mm.
               if entry_frame (pmem mm parent index) \<noteq> frame then (False, mm)
               else release_empty_child p parent index mm) (rev cs) mm = (b, mm')" by fastforce
  from rollback_loop [OF assms l] show "edits m mm (rollback_created_tables p cs mm)"
    "same_ptes m mm (rollback_created_tables p cs mm)"
    using edits_refl [OF assms(1)] l by (auto simp: rollback_created_tables_def)
qed

lemma branch_note:
  assumes "on_branch mm m q k (rev cs)" and "k < length q" and "walk mm (root_frame m) (take k q) = Some parent"
  shows "on_branch mm m q (Suc k) (rev (note_created parent (q ! k) created cs))"
proof -
  obtain ns where ns: "sorted_wrt (>) ns" "\<forall>n\<in>set ns. n < k"
    "list_all2 (\<lambda>n (parent, index, frame). n < length q \<and> index = q ! n \<and> walk mm (root_frame m) (take n q) = Some parent)
      ns (rev cs)"
    using assms(1) by (auto simp: on_branch_def)
  show ?thesis unfolding on_branch_def
    by (rule exI [of _ "if created = FRAME_INVALID then ns else k # ns"])
      (use ns assms(2,3) in \<open>auto simp: note_created_def\<close>)
qed

lemma branch_step:
  assumes s: "table_step m (take (Suc k) q) mm mm'" and q: "opath m q" "k < length q"
    and b: "on_branch mm m q j cs" "j \<le> Suc k"
  shows "on_branch mm' m q j cs"
proof -
  have "walk mm' (root_frame m) (take n q) = walk mm (root_frame m) (take n q)" if "n < j" for n
  proof (rule table_stepD(4) [OF s])
    have "opath m (take n q @ drop n q)" using q by simp
    then show "opath m (take n q)" by (rule opath_prefix)
    show "\<not> prefix (take (Suc k) q) (take n q)" using that b(2) q(2) by (auto dest!: prefix_length_le)
  qed
  then show ?thesis
    using b(1) unfolding on_branch_def by (elim exE, intro exI) (auto simp: list_all2_conv_all_nth)
qed

section \<open>Mapping\<close>

text \<open>The three descents of a mapping, along a path \<open>q\<close> of which \<open>k\<close> tables are reached.\<close>

definition descended :: "Mm \<Rightarrow> VmPageMap \<Rightarrow> u32 list \<Rightarrow> bool \<Rightarrow> nat \<Rightarrow> frame_t \<Rightarrow> (frame_t \<times> u32 \<times> frame_t) list \<Rightarrow> Mm \<Rightarrow> bool" where
  "descended mm m q user k f cs mm' \<longleftrightarrow>
     edits m mm mm' \<and> same_ptes m mm mm' \<and> walk mm' (root_frame m) (take k q) = Some f \<and>
     (user \<longrightarrow> user_path mm' (root_frame m) (take k q)) \<and> on_branch mm' m q k (rev cs) \<and>
     (walk mm (root_frame m) q \<noteq> None \<longrightarrow> walk mm' (root_frame m) q = walk mm (root_frame m) q)"

lemma descend:
  assumes ok: "map_ok mm m" and q: "opath m q" "k < length q" and d: "descended mm m q user k f cs mm1"
    and c: "create_or_get_table p f (q ! k) user mm1 = (r, mm2)"
  shows "edits m mm (rollback_created_tables p cs mm2)" "same_ptes m mm (rollback_created_tables p cs mm2)"
    "edits m mm mm2" "same_ptes m mm mm2"
    and "r = Some (created, g) \<Longrightarrow> descended mm m q user (Suc k) g (note_created f (q ! k) created cs) mm2"
    and "walk mm (root_frame m) q \<noteq> None \<Longrightarrow> r \<noteq> None"
proof -
  have P: "take k q @ [q ! k] = take (Suc k) q" using q(2) by (simp add: take_Suc_conv_app_nth)
  have "opath m (take (Suc k) q @ drop (Suc k) q)" using q(1) by simp
  then have oP: "opath m (take k q @ [q ! k])" unfolding P by (rule opath_prefix)
  have d1: "edits m mm mm1" "same_ptes m mm mm1" "walk mm1 (root_frame m) (take k q) = Some f"
    "on_branch mm1 m q k (rev cs)" "user \<Longrightarrow> user_path mm1 (root_frame m) (take k q)"
    using d by (simp_all add: descended_def)
  have ok1: "map_ok mm1 m" using d1(1) by (simp add: edits_def)
  note cl = create_or_get_table_law [OF ok1 oP d1(3) c]
  note s = table_stepD [OF cl(1)]
  show e2: "edits m mm mm2" by (rule edits_trans [OF ok d1(1) s(2)])
  show p2: "same_ptes m mm mm2" by (rule same_ptes_trans [OF d1(2) s(3)])
  have b2: "on_branch mm2 m q k (rev cs)" by (rule branch_step [OF cl(1) [unfolded P] q d1(4)]) simp
  note rb = rollback_law [OF s(1) q(1) b2]
  show "edits m mm (rollback_created_tables p cs mm2)" by (rule edits_trans [OF ok e2 rb(1)])
  show "same_ptes m mm (rollback_created_tables p cs mm2)" by (rule same_ptes_trans [OF p2 rb(2)])
  have w2: "walk mm2 (root_frame m) (take k q) = Some f"
    using s(4) [of "take k q"] opath_prefix [OF oP] d1(3) by simp
  have nz: "pmem mm1 f (q ! k) \<noteq> 0" if "walk mm (root_frame m) q \<noteq> None"
  proof -
    have "walk mm1 (root_frame m) (take (Suc k) q @ drop (Suc k) q) \<noteq> None" using d that by (simp add: descended_def)
    then have "walk mm1 (root_frame m) (take k q @ [q ! k]) \<noteq> None" unfolding P
      using walk_prefix [of mm1 "root_frame m" "take (Suc k) q" "drop (Suc k) q"] by blast
    then show ?thesis using d1(3) by (auto simp: walk_snoc)
  qed
  show "walk mm (root_frame m) q \<noteq> None \<Longrightarrow> r \<noteq> None" using cl(4) nz by auto
  have wq: "walk mm (root_frame m) q \<noteq> None \<longrightarrow> walk mm2 (root_frame m) q = walk mm (root_frame m) q"
    using cl(5) [OF nz q(1)] d by (simp add: descended_def)
  assume r: "r = Some (created, g)"
  have "user \<longrightarrow> user_path mm2 (root_frame m) (take k q @ [q ! k])"
    using cl(2) cl(3) [OF r] d1(5) by (simp add: user_path_snoc [OF w2])
  then show "descended mm m q user (Suc k) g (note_created f (q ! k) created cs) mm2"
    using e2 p2 cl(3) [OF r] branch_note [OF b2 q(2) w2] wq by (simp add: descended_def P)
qed

text \<open>
  A mapping writes one leaf entry, and only where it was empty; when it fails, no leaf entry
  changes. It cannot fail once the tables exist and the leaf is empty.
\<close>

definition leaf_written :: "VmPageMap \<Rightarrow> u64 \<Rightarrow> u64 \<Rightarrow> Mm \<Rightarrow> Mm \<Rightarrow> bool" where
  "leaf_written m v e mm mm' \<longleftrightarrow> (\<forall>is i. opath m is \<and> length is = 3 \<and> i < 512 \<longrightarrow>
     pte_at mm' m is i = (if is = leaf_path v \<and> i = pt_index v then e else pte_at mm m is i))"

lemma leaf_mapped:
  assumes ok: "map_ok mm m" and own: "map_owns_pml4_index m (pml4_index v)"
    and fr: "valid_mapping_frame frame" and fl: "\<not> has flags (NOT (VM_WRITE OR VM_USER OR VM_EXEC OR VM_UNCACHED OR VM_DEVICE))"
        "\<not> (has flags VM_DEVICE \<and> has flags VM_UNCACHED)"
    and d: "descended mm m (leaf_path v) (has flags VM_USER) 3 pt cs mm1"
    and r: "(if pmem mm1 pt (pt_index v) \<noteq> 0 then (False, rollback_created_tables p cs mm1)
      else (True, write_entry pt (pt_index v) (frame_to_phys frame OR leaf_flags flags) mm1)) = (b, mm')"
  shows "edits m mm mm' \<and> (\<not> b \<longrightarrow> same_ptes m mm mm') \<and>
    (b \<longrightarrow> pte_at mm m (leaf_path v) (pt_index v) = 0 \<and> leaf_written m v (frame_to_phys frame OR leaf_flags flags) mm mm') \<and>
    (pte_at mm m (leaf_path v) (pt_index v) = 0 \<longrightarrow> b)"
proof -
  let ?q = "leaf_path v" and ?e = "frame_to_phys frame OR leaf_flags flags"
  have q: "opath m ?q" "length ?q = 3" "take 3 ?q = ?q" using opath_leaf [OF own] by (simp_all add: leaf_path_def)
  have d1: "edits m mm mm1" "same_ptes m mm mm1" "walk mm1 (root_frame m) ?q = Some pt"
    "has flags VM_USER \<longrightarrow> user_path mm1 (root_frame m) ?q" "on_branch mm1 m ?q 3 (rev cs)"
    using d q by (simp_all add: descended_def)
  have ok1: "map_ok mm1 m" using d1(1) by (simp add: edits_def)
  have "pte_at mm1 m ?q (pt_index v) = pte_at mm m ?q (pt_index v)"
    using d1(2) q indices_small(4) [of v] by (simp add: same_ptes_def)
  then have pte: "pte_at mm m ?q (pt_index v) = pmem mm1 pt (pt_index v)" using d1(3) by (simp add: pte_at_def)
  show ?thesis
  proof (cases "pmem mm1 pt (pt_index v) = 0")
    case False
    note rb = rollback_law [OF ok1 q(1) d1(5), of p]
    have "b = False" "mm' = rollback_created_tables p cs mm1" using r False by simp_all
    then show ?thesis
      using edits_trans [OF ok d1(1) rb(1)] same_ptes_trans [OF d1(2) rb(2)] False pte by simp
  next
    case True
    have "?e = 0 \<or> bit ?e 0 \<and> (bit ?e 2 \<longrightarrow> user_path mm1 (root_frame m) ?q)"
      using leaf_roundtrip(3,4) [OF fr fl] d1(4) by simp
    note w = write_leaf [OF ok1 q(1,2) indices_small(4) d1(3) this]
    have b: "b = True" "mm' = write_entry pt (pt_index v) ?e mm1" using r True by simp_all
    have "leaf_written m v ?e mm mm'"
      using w(2) d1(2) by (simp add: leaf_written_def same_ptes_def b)
    then show ?thesis using edits_trans [OF ok d1(1) w(1)] b pte True by simp
  qed
qed

text \<open>The three descents of \<^verbatim>\<open>map_page_locked\<close> as one loop over the indices.\<close>

fun descend_path :: "ptr \<Rightarrow> bool \<Rightarrow> u32 list \<Rightarrow> frame_t \<Rightarrow> (frame_t \<times> u32 \<times> frame_t) list \<Rightarrow> Mm \<Rightarrow>
    (frame_t \<times> (frame_t \<times> u32 \<times> frame_t) list) option \<times> Mm" where
  "descend_path p user [] f cs mm = (Some (f, cs), mm)"
| "descend_path p user (i # is) f cs mm =
     (case create_or_get_table p f i user mm of
        (None, mm) \<Rightarrow> (None, rollback_created_tables p cs mm)
      | (Some (created, g), mm) \<Rightarrow> descend_path p user is g (note_created f i created cs) mm)"

lemma map_page_locked_path:
  "map_page_locked p v frame flags mm =
     (if \<not> map_page_allowed mm p v frame flags then (False, mm)
      else case descend_path p (has flags VM_USER) (leaf_path v) (root_frame (page_map_at mm p)) [] mm of
        (None, mm) \<Rightarrow> (False, mm)
      | (Some (pt, cs), mm) \<Rightarrow>
          if pmem mm pt (pt_index v) \<noteq> 0 then (False, rollback_created_tables p cs mm)
          else (True, write_entry pt (pt_index v) (frame_to_phys frame OR leaf_flags flags) mm))"
proof -
  let ?u = "has flags VM_USER" and ?r = "root_frame (page_map_at mm p)"
  have rb: "rollback_created_tables p [] mm = mm" for mm by (simp add: rollback_created_tables_def)
  obtain r1 mm1 where c1: "create_or_get_table p ?r (pml4_index v) ?u mm = (r1, mm1)" by fastforce
  note defs = map_page_locked_def leaf_path_def Let_def
  show ?thesis
  proof (cases r1)
    case None
    then show ?thesis using c1 by (simp add: defs rb)
  next
    case r1: (Some x1)
    obtain r2 mm2 where c2: "create_or_get_table p (snd x1) (pdpt_index v) ?u mm1 = (r2, mm2)" by fastforce
    show ?thesis
    proof (cases r2)
      case None
      then show ?thesis using c1 c2 r1 by (simp add: defs split_beta)
    next
      case r2: (Some x2)
      obtain r3 mm3 where "create_or_get_table p (snd x2) (pd_index v) ?u mm2 = (r3, mm3)" by fastforce
      then show ?thesis using c1 c2 r1 r2 by (cases r3) (simp_all add: defs split_beta)
    qed
  qed
qed

lemma descend_path_law:
  assumes ok: "map_ok mm m" and q: "opath m q"
    and "descended mm m q user k f cs mm1" and "k \<le> length q" and "descend_path p user (drop k q) f cs mm1 = (r, mm2)"
  shows "case r of None \<Rightarrow> edits m mm mm2 \<and> same_ptes m mm mm2 \<and> walk mm (root_frame m) q = None
    | Some (g, cs') \<Rightarrow> descended mm m q user (length q) g cs' mm2"
  using assms(3-5)
proof (induction "drop k q" arbitrary: k f cs mm1)
  case Nil
  then have "k = length q" by simp
  then show ?case using Nil by auto
next
  case (Cons i js)
  have k: "k < length q" using Cons.hyps(2) by (metis drop_eq_Nil list.distinct(1) not_le)
  have "i # js = q ! k # drop (Suc k) q" by (simp only: Cons.hyps(2) Cons_nth_drop_Suc [OF k])
  then have i: "i = q ! k" "js = drop (Suc k) q" by simp_all
  obtain r1 mm1' where c: "create_or_get_table p f (q ! k) user mm1 = (r1, mm1')" by fastforce
  note d = descend [OF ok q k Cons.prems(1) c]
  note step = Cons.prems(3) [unfolded Cons.hyps(2) [symmetric] descend_path.simps i(1) c prod.case]
  show ?case
  proof (cases r1)
    case None
    then have "walk mm (root_frame m) q = None" using d(6) by blast
    then show ?thesis using d(1,2) None step by auto
  next
    case (Some x)
    then obtain cr g where r1: "r1 = Some (cr, g)" by (cases x) simp
    show ?thesis
      by (rule Cons.hyps(1) [OF i(2) d(5) [OF r1]]) (use k step in \<open>simp_all add: r1 i(2)\<close>)
  qed
qed

lemma map_page_locked_law:
  fixes v :: u64
  assumes ok: "map_ok mm (page_map_at mm p)" and c: "map_page_locked p v frame flags mm = (b, mm')"
  defines "m \<equiv> page_map_at mm p" and "e \<equiv> frame_to_phys frame OR leaf_flags flags"
  shows "edits m mm mm' \<and> (\<not> b \<longrightarrow> same_ptes m mm mm') \<and>
    (b \<longrightarrow> map_page_allowed mm p v frame flags \<and> pte_at mm m (leaf_path v) (pt_index v) = 0 \<and> leaf_written m v e mm mm') \<and>
    (map_page_allowed mm p v frame flags \<and> walk mm (root_frame m) (leaf_path v) \<noteq> None \<and>
      pte_at mm m (leaf_path v) (pt_index v) = 0 \<longrightarrow> b)"
proof (cases "map_page_allowed mm p v frame flags")
  case False
  then show ?thesis using c ok by (simp add: map_page_locked_def edits_refl m_def)
next
  case al: True
  then have own: "map_owns_pml4_index m (pml4_index v)" and fr: "valid_mapping_frame frame"
    and fl: "\<not> has flags (NOT (VM_WRITE OR VM_USER OR VM_EXEC OR VM_UNCACHED OR VM_DEVICE))"
      "\<not> (has flags VM_DEVICE \<and> has flags VM_UNCACHED)"
    unfolding map_page_allowed_def m_def Let_def by blast+
  have ok: "map_ok mm m" using ok by (simp add: m_def)
  have d0: "descended mm m (leaf_path v) (has flags VM_USER) 0 (root_frame m) [] mm"
    using edits_refl [OF ok] by (simp add: descended_def on_branch_def)
  obtain r mm1 where d: "descend_path p (has flags VM_USER) (drop 0 (leaf_path v)) (root_frame m) [] mm = (r, mm1)" by fastforce
  note dl = descend_path_law [OF ok opath_leaf [OF own] d0 _ d]
  have step: "(case r of None \<Rightarrow> (False, mm1) | Some (pt, cs) \<Rightarrow>
      if pmem mm1 pt (pt_index v) \<noteq> 0 then (False, rollback_created_tables p cs mm1)
      else (True, write_entry pt (pt_index v) (frame_to_phys frame OR leaf_flags flags) mm1)) = (b, mm')"
    using c al d by (simp add: map_page_locked_path m_def split del: if_split)
  show ?thesis
  proof (cases r)
    case None
    then show ?thesis using dl step by auto
  next
    case (Some x)
    then obtain pt cs where r: "r = Some (pt, cs)" by (cases x) simp
    have "descended mm m (leaf_path v) (has flags VM_USER) 3 pt cs mm1" using dl r by (simp add: leaf_path_def numeral_3_eq_3)
    from leaf_mapped [OF ok own fr fl this, of p b mm'] step show ?thesis using al r by (simp add: e_def)
  qed
qed

section \<open>Unmapping and changing permissions\<close>

lemma flush_active_map_id [simp]: "flush_active_map p mm = mm"
  by (simp add: flush_active_map_def)

lemma table_empty_config: "same_config mm mm' \<Longrightarrow> pmem mm' f = pmem mm f \<Longrightarrow> table_empty mm' f = table_empty mm f"
  by (simp add: table_empty_def same_config_table_pointer [of mm mm'])

lemma prune_path_law:
  assumes ok: "map_ok mm m" and own: "opath m [i4, i3, i2]"
    and w: "walk mm (root_frame m) [i4] = Some pdpt" "walk mm (root_frame m) [i4, i3] = Some pd"
  shows "edits m mm (prune_path p (root_frame m) i4 pdpt i3 pd i2 pt mm) \<and>
    same_ptes m mm (prune_path p (root_frame m) i4 pdpt i3 pd i2 pt mm)"
proof -
  have o: "opath m ([i4, i3] @ [i2])" "opath m ([i4] @ [i3])" "opath m ([] @ [i4])" using own by (simp_all add: opath_def)
  obtain b1 mm1 where r1: "release_empty_child p pd i2 mm = (b1, mm1)" by fastforce
  note s1 = table_stepD [OF release_empty_child_law(1) [OF ok o(1) w(2) r1]]
  have w1: "walk mm1 (root_frame m) [i4] = Some pdpt" using s1(4) [of "[i4]"] o(3) w(1) by simp
  obtain b2 mm2 where r2: "release_empty_child p pdpt i3 mm1 = (b2, mm2)" by fastforce
  note s2 = table_stepD [OF release_empty_child_law(1) [OF s1(1) o(2) w1 r2]]
  obtain b3 mm3 where r3: "release_empty_child p (root_frame m) i4 mm2 = (b3, mm3)" by fastforce
  note s3 = table_stepD [OF release_empty_child_law(1) [OF s2(1) o(3) _ r3, simplified]]
  have e2: "edits m mm mm2" "same_ptes m mm mm2"
    using edits_trans [OF ok s1(2) s2(2)] same_ptes_trans [OF s1(3) s2(3)] .
  have e3: "edits m mm mm3" "same_ptes m mm mm3"
    using edits_trans [OF ok e2(1) s3(2)] same_ptes_trans [OF e2(2) s3(3)] .
  show ?thesis
    using edits_refl [OF ok] s1(2,3) e2 e3 by (auto simp: prune_path_def r1 r2 r3)
qed

lemma unmap_page_locked_law:
  fixes v :: u64
  assumes ok: "map_ok mm (page_map_at mm p)" and c: "unmap_page_locked p v mm = (r, mm')"
  defines "m \<equiv> page_map_at mm p"
  defines "e \<equiv> pte_at mm m (leaf_path v) (pt_index v)"
  shows "edits m mm mm' \<and> (case r of None \<Rightarrow> mm' = mm
    | Some f \<Rightarrow> e \<noteq> 0 \<and> f = entry_frame e \<and> \<not> destroy_pending m \<and> map_owns_pml4_index m (pml4_index v) \<and>
        page_aligned v \<and> virtual_address_canonical v \<and> leaf_written m v 0 mm mm')"
proof -
  have ok: "map_ok mm m" using ok by (simp add: m_def)
  show ?thesis
  proof (cases r)
    case None
    then have "mm' = mm"
      using c by (auto simp: unmap_page_locked_def Let_def split: if_splits option.splits)
    then show ?thesis using None edits_refl [OF ok] by simp
  next
    case (Some f)
    then obtain pdpt pd pt where g: "\<not> destroy_pending m" "page_aligned v" "virtual_address_canonical v"
      "map_owns_pml4_index m (pml4_index v)"
      and w: "existing_table mm (root_frame m) (pml4_index v) = Some pdpt" "existing_table mm pdpt (pdpt_index v) = Some pd"
        "existing_table mm pd (pd_index v) = Some pt"
      and z: "bit (pmem mm pt (pt_index v)) 0" "f = entry_frame (pmem mm pt (pt_index v))"
        "mm' = prune_path p (root_frame m) (pml4_index v) pdpt (pdpt_index v) pd (pd_index v) pt (write_entry pt (pt_index v) 0 mm)"
      using c by (auto simp: unmap_page_locked_def Let_def m_def split: if_splits option.splits)
    have q: "opath m (leaf_path v)" "length (leaf_path v) = 3" using opath_leaf [OF g(4)] by (simp_all add: leaf_path_def)
    have wq: "walk mm (root_frame m) (leaf_path v) = Some pt" using w by (simp add: leaf_path_def)
    note l = write_leaf [OF ok q indices_small(4) wq, of 0, simplified]
    have ok1: "map_ok (write_entry pt (pt_index v) 0 mm) m" using l(1) by (simp add: edits_def)
    have o: "opath m [pml4_index v]" "opath m [pml4_index v, pdpt_index v]"
      using opath_prefix [of m "[pml4_index v]"] opath_prefix [of m "[pml4_index v, pdpt_index v]"] q(1)
      by (simp_all add: leaf_path_def)
    note pr = prune_path_law [OF ok1 q(1) [unfolded leaf_path_def], of pdpt pd p pt]
    have "edits m (write_entry pt (pt_index v) 0 mm) mm'" "same_ptes m (write_entry pt (pt_index v) 0 mm) mm'"
      using pr l(3) [OF o(1)] l(3) [OF o(2)] w z(3) by simp_all
    moreover from this have "leaf_written m v 0 mm mm'"
      using l(2) by (simp add: leaf_written_def same_ptes_def)
    moreover have "e = pmem mm pt (pt_index v)" by (simp add: e_def pte_at_def wq)
    ultimately show ?thesis
      using edits_trans [OF ok l(1)] g z(1,2) Some by auto
  qed
qed

end
