(* ===== verification/VMM_Views.thy ===== *)
theory VMM_Views
  imports VMM_Laws
begin

text \<open>
  The abstract contract of the page mapper: a map is a partial function from page addresses to
  frames with flags, and the operations update it at one address. The locale states the
  contract; the interpretation shows that \<^verbatim>\<open>kernel/vmm.c\<close> meets it.
\<close>

section \<open>The view of a map\<close>

definition map_covers :: "VmPageMap \<Rightarrow> u64 \<Rightarrow> bool" where
  "map_covers m v \<longleftrightarrow> page_aligned v \<and> virtual_address_canonical v \<and> map_owns_pml4_index m (pml4_index v)"

text \<open>The translations of a map in the range it owns. Addresses outside of it, which a map may reach
  through the slots it shares with another map, are left out of the view.\<close>

definition page_view :: "Mm \<Rightarrow> ptr \<Rightarrow> u64 \<Rightarrow> (frame_t \<times> vm_flags_t) option" where
  "page_view mm p v = (if map_covers (page_map_at mm p) v then vmm_query_page mm p v else None)"

definition page_map_ok :: "ptr \<Rightarrow> Mm \<Rightarrow> bool" where
  "page_map_ok p mm \<longleftrightarrow> p \<noteq> 0 \<and> map_ok mm (page_map_at mm p)"

definition decode_leaf :: "u64 \<Rightarrow> (frame_t \<times> vm_flags_t) option" where
  "decode_leaf e = (if e = 0 then None else Some (entry_frame e, vmm_test_entry_flags e))"

lemma page_view_leaf:
  assumes "page_map_ok p mm"
  shows "page_view mm p v = (if map_covers (page_map_at mm p) v
    then decode_leaf (pte_at mm (page_map_at mm p) (leaf_path v) (pt_index v)) else None)"
  using query_leaf [of mm p v] assms by (simp add: page_map_ok_def page_view_def map_covers_def decode_leaf_def Let_def)

lemma leaf_unique:
  assumes "map_covers m v" "map_covers m u" "leaf_path u = leaf_path v" "pt_index u = pt_index v"
  shows "u = v"
  using assms indices_inject [of u v] by (simp add: map_covers_def leaf_path_def)

lemma covers_path:
  assumes "map_covers m v"
  shows "opath m (leaf_path v)" "length (leaf_path v) = 3" "pt_index v < 512"
  using assms opath_leaf [of m v] indices_small(4) [of v] by (simp_all add: map_covers_def leaf_path_def)

lemma view_same:
  assumes "page_map_ok p mm" and "page_map_ok p mm'" and "page_map_at mm' = page_map_at mm"
    and "same_ptes (page_map_at mm p) mm mm'"
  shows "page_view mm' p = page_view mm p"
proof
  fix v
  show "page_view mm' p v = page_view mm p v"
    using assms(3,4) covers_path [of "page_map_at mm p" v]
    by (simp add: page_view_leaf [OF assms(1)] page_view_leaf [OF assms(2)] same_ptes_def)
qed

lemma view_written:
  assumes "page_map_ok p mm" and "page_map_ok p mm'" and "page_map_at mm' = page_map_at mm"
    and "leaf_written (page_map_at mm p) v e mm mm'" and "map_covers (page_map_at mm p) v"
  shows "page_view mm' p = (page_view mm p)(v := decode_leaf e)"
proof
  fix u
  show "page_view mm' p u = ((page_view mm p)(v := decode_leaf e)) u"
    using assms(3-5) covers_path [of "page_map_at mm p" u] leaf_unique [of "page_map_at mm p" v u]
    by (auto simp: page_view_leaf [OF assms(1)] page_view_leaf [OF assms(2)] leaf_written_def)
qed

lemma editsD:
  assumes "page_map_ok p mm" and "edits (page_map_at mm p) mm mm'"
  shows "page_map_at mm' = page_map_at mm" "page_map_ok p mm'"
  using assms by (simp_all add: edits_def same_config_def page_map_ok_def)

section \<open>The contract\<close>

locale page_mapper =
  fixes pmap :: "ptr \<Rightarrow> u64 \<Rightarrow> frame_t \<Rightarrow> vm_flags_t \<Rightarrow> 's \<Rightarrow> bool \<times> 's"
    and punmap :: "ptr \<Rightarrow> u64 \<Rightarrow> 's \<Rightarrow> frame_t option \<times> 's"
    and view :: "'s \<Rightarrow> ptr \<Rightarrow> u64 \<Rightarrow> (frame_t \<times> vm_flags_t) option"
    and inv :: "ptr \<Rightarrow> 's \<Rightarrow> bool"
  assumes map_inv: "inv p s \<Longrightarrow> pmap p v f fl s = (b, s') \<Longrightarrow> inv p s'"
    and map_view: "inv p s \<Longrightarrow> pmap p v f fl s = (b, s') \<Longrightarrow>
      view s' p = (if b then (view s p)(v \<mapsto> (f, fl)) else view s p)"
    and map_fresh: "inv p s \<Longrightarrow> pmap p v f fl s = (True, s') \<Longrightarrow> view s p v = None"
    and unmap_inv: "inv p s \<Longrightarrow> punmap p v s = (r, s') \<Longrightarrow> inv p s'"
    and unmap_some: "inv p s \<Longrightarrow> punmap p v s = (Some f, s') \<Longrightarrow>
      (\<exists>fl. view s p v = Some (f, fl)) \<and> view s' p = (view s p)(v := None)"
    and unmap_none: "inv p s \<Longrightarrow> punmap p v s = (None, s') \<Longrightarrow> s' = s"
begin

lemma no_remap: "inv p s \<Longrightarrow> view s p v \<noteq> None \<Longrightarrow> \<not> fst (pmap p v f fl s)"
  using map_fresh [of p s v f fl] by (cases "pmap p v f fl s") auto

lemma map_unmap:
  assumes "inv p s" and "pmap p v f fl s = (True, s1)" and "punmap p v s1 = (Some g, s2)"
  shows "g = f \<and> view s2 p = view s p"
  using unmap_some [OF map_inv [OF assms(1,2)] assms(3)] map_view [OF assms(1,2)] map_fresh [OF assms(1,2)]
  by (auto simp: fun_eq_iff)

lemma map_keeps: "inv p s \<Longrightarrow> pmap p v f fl s = (b, s') \<Longrightarrow> view s p u = Some x \<Longrightarrow> view s' p u = Some x"
  using map_view [of p s v f fl b s'] map_fresh [of p s v f fl s'] by (cases b) auto

end

lemma map_page_contract:
  assumes ok: "page_map_ok p mm" and c: "vmm_map_page p v f fl mm = (b, mm')"
  shows "edits (page_map_at mm p) mm mm'"
    and "page_view mm' p = (if b then (page_view mm p)(v \<mapsto> (f, fl)) else page_view mm p)"
    and "b \<Longrightarrow> page_view mm p v = None \<and> map_page_allowed mm p v f fl"
proof -
  let ?m = "page_map_at mm p"
  have ok': "map_ok mm ?m" using ok by (simp add: page_map_ok_def)
  obtain b1 mm1 where l: "map_page_locked p v f fl mm = (b1, mm1)" by fastforce
  note law = map_page_locked_law [OF ok' l]
  have cases: "b \<and> b1 \<and> mm' = mm1 \<or> \<not> b \<and> \<not> b1 \<and> mm' = mm1 \<or> \<not> b \<and> mm' = mm"
    using c l by (auto simp: vmm_map_page_def Let_def split: if_splits)
  show e: "edits ?m mm mm'" using cases law edits_refl [OF ok'] by blast
  note ed = editsD [OF ok e]
  have b: "\<not> b \<Longrightarrow> same_ptes ?m mm mm'" using cases law same_ptes_refl by blast
  have t: "b \<Longrightarrow> map_page_allowed mm p v f fl \<and> pte_at mm ?m (leaf_path v) (pt_index v) = 0 \<and>
      leaf_written ?m v (frame_to_phys f OR leaf_flags fl) mm mm'" using cases law by blast
  have cov: "b \<Longrightarrow> map_covers ?m v" using t unfolding map_page_allowed_def map_covers_def Let_def by blast
  have dec: "decode_leaf (frame_to_phys f OR leaf_flags fl) = Some (f, fl)" if b
  proof -
    have "valid_mapping_frame f" "\<not> has fl (NOT (VM_WRITE OR VM_USER OR VM_EXEC OR VM_UNCACHED OR VM_DEVICE))"
      "\<not> (has fl VM_DEVICE \<and> has fl VM_UNCACHED)"
      using t [OF that] unfolding map_page_allowed_def Let_def by blast+
    from leaf_roundtrip(1-3) [OF this] show ?thesis by (auto simp: decode_leaf_def)
  qed
  show "page_view mm' p = (if b then (page_view mm p)(v \<mapsto> (f, fl)) else page_view mm p)"
  proof (cases b)
    case True
    then show ?thesis using view_written [OF ok ed(2,1) conjunct2 [OF conjunct2 [OF t [OF True]]] cov] dec by simp
  next
    case False
    then show ?thesis using view_same [OF ok ed(2,1) b] by simp
  qed
  show "b \<Longrightarrow> page_view mm p v = None \<and> map_page_allowed mm p v f fl"
    using t cov by (simp add: page_view_leaf [OF ok] decode_leaf_def)
qed

lemma unmap_page_contract:
  assumes ok: "page_map_ok p mm" and c: "vmm_unmap_page p v mm = (r, mm')"
  shows "edits (page_map_at mm p) mm mm'" and "r = None \<Longrightarrow> mm' = mm"
    and "r = Some f \<Longrightarrow> (\<exists>fl. page_view mm p v = Some (f, fl)) \<and> page_view mm' p = (page_view mm p)(v := None)"
proof -
  let ?m = "page_map_at mm p"
  have ok': "map_ok mm ?m" using ok by (simp add: page_map_ok_def)
  obtain r1 mm1 where l: "unmap_page_locked p v mm = (r1, mm1)" by fastforce
  note law = unmap_page_locked_law [OF ok' l]
  have cases: "r = r1 \<and> mm' = mm1 \<or> r = None \<and> mm' = mm"
    using c l by (auto simp: vmm_unmap_page_def split: if_splits)
  show e: "edits ?m mm mm'" using cases law edits_refl [OF ok'] by blast
  note ed = editsD [OF ok e]
  show "r = None \<Longrightarrow> mm' = mm" using cases law by auto
  assume r: "r = Some f"
  then have t: "pte_at mm ?m (leaf_path v) (pt_index v) \<noteq> 0" "f = entry_frame (pte_at mm ?m (leaf_path v) (pt_index v))"
    "map_covers ?m v" "leaf_written ?m v 0 mm mm'"
    using cases law by (auto simp: map_covers_def)
  show "(\<exists>fl. page_view mm p v = Some (f, fl)) \<and> page_view mm' p = (page_view mm p)(v := None)"
    using view_written [OF ok ed(2,1) t(4,3)] t(1-3) by (simp add: page_view_leaf [OF ok] decode_leaf_def)
qed

interpretation vmm: page_mapper vmm_map_page vmm_unmap_page page_view page_map_ok
proof unfold_locales
  fix p s v f fl b s' r assume ok: "page_map_ok p s"
  {
    assume c: "vmm_map_page p v f fl s = (b, s')"
    show "page_map_ok p s'" by (rule editsD(2) [OF ok map_page_contract(1) [OF ok c]])
    show "page_view s' p = (if b then (page_view s p)(v \<mapsto> (f, fl)) else page_view s p)"
      by (rule map_page_contract(2) [OF ok c])
  }
  show "vmm_map_page p v f fl s = (True, s') \<Longrightarrow> page_view s p v = None"
    using map_page_contract(3) [OF ok] by blast
  show "vmm_unmap_page p v s = (r, s') \<Longrightarrow> page_map_ok p s'"
    using editsD(2) [OF ok unmap_page_contract(1) [OF ok]] by blast
  show "vmm_unmap_page p v s = (Some f, s') \<Longrightarrow>
      (\<exists>fl. page_view s p v = Some (f, fl)) \<and> page_view s' p = (page_view s p)(v := None)"
    using unmap_page_contract(3) [OF ok] by blast
  show "vmm_unmap_page p v s = (None, s') \<Longrightarrow> s' = s" using unmap_page_contract(2) [OF ok] by blast
qed

end
