(* ===== verification/VMM_Isolation.thy ===== *)
theory VMM_Isolation
  imports VMM_Views
begin

text \<open>
  Several page maps over one memory. Maps with disjoint tables do not see each other's
  operations. The operations covered are mapping, unmapping, changing the write permission and
  collecting empty tables.
\<close>

section \<open>Operations on another map\<close>

text \<open>
  A map is untouched by a change that leaves the entries of its tables, in the root the owned
  ones, and gives none of its table frames to the allocator.
\<close>

definition own_entry :: "Mm \<Rightarrow> VmPageMap \<Rightarrow> frame_t \<Rightarrow> u32 \<Rightarrow> bool" where
  "own_entry mm m f i \<longleftrightarrow> f \<in> otables mm m \<and> (f = root_frame m \<longrightarrow> map_owns_pml4_index m i)"

lemma own_entry_path:
  assumes ok: "map_ok mm m" and "opath m js" "walk mm (root_frame m) js = Some g" "js = [] \<longrightarrow> map_owns_pml4_index m j"
  shows "own_entry mm m g j"
  using otablesI [OF assms(2,3)] map_okD(4) [OF ok assms(2) opath_Nil assms(3)] assms(4) by (auto simp: own_entry_def)

definition map_kept :: "VmPageMap \<Rightarrow> Mm \<Rightarrow> Mm \<Rightarrow> bool" where
  "map_kept m mm mm' \<longleftrightarrow> map_ok mm' m \<and> same_ptes m mm mm' \<and> otables mm' m = otables mm m"

lemma map_keptD:
  assumes "map_kept m mm mm'"
  shows "map_ok mm' m" "same_ptes m mm mm'" "otables mm' m = otables mm m"
  using assms by (simp_all add: map_kept_def)

lemma tables_kept:
  assumes ok: "map_ok mm m" and ph: "vmm_use_phys_map mm' = vmm_use_phys_map mm" and inv: "pmm_inv (mm_pmm mm')"
    and pm: "\<And>g j. own_entry mm m g j \<Longrightarrow> pmem mm' g j = pmem mm g j" and fr: "mm_free mm' \<inter> otables mm m = {}"
  shows "map_kept m mm mm'"
proof -
  let ?r = "root_frame m"
  have tp: "table_pointer mm' = table_pointer mm" using ph by (simp add: table_pointer_def fun_eq_iff Let_def)
  have eo: "entry_ok mm' = entry_ok mm" by (simp add: entry_ok_def fun_eq_iff tp)
  have pe: "pmem mm' g j = pmem mm g j" if "opath m (js @ [j])" "walk mm ?r js = Some g" for js j g
    by (rule pm [OF own_entry_path [OF ok opath_prefix [OF that(1)] that(2)]]) (use that(1) in \<open>auto simp: opath_def\<close>)
  have ent: "existing_table mm' g j = existing_table mm g j" if "opath m (js @ [j])" "walk mm ?r js = Some g" for js j g
    using pe [OF that] by (simp add: existing_table_def tp Let_def)
  have w: "walk mm' ?r js = walk mm ?r js" if "opath m js" for js
    by (rule walk_cong [where Q = "opath m"]) (use ent that opath_prefix in blast)+
  have u: "user_path mm' ?r js" if "opath m js" "walk mm ?r js = Some h" "user_path mm ?r js" for js h
    by (rule user_path_cong [where Q = "opath m", OF _ opath_prefix that]) (use ent pe in auto)
  have t: "otables mm' m = otables mm m" using w by (auto simp: otables_def)
  have leaf: "pmem mm' f i = pmem mm f i" if "opath m js" "length js = 3" "walk mm ?r js = Some f" for js f i
    by (rule pm [OF own_entry_path [OF ok that(1,3)]]) (use that(2) in auto)
  have "map_ok mm' m" unfolding map_ok_def eo t
  proof (intro conjI allI impI)
    show "table_pointer mm' ?r \<noteq> 0" using map_okD(2) [OF ok] by (simp add: tp)
    show "otables mm m \<inter> mm_free mm' = {}" using fr by blast
    fix js ks f assume "opath m js \<and> opath m ks \<and> walk mm' ?r js = Some f \<and> walk mm' ?r ks = Some f"
    then show "js = ks" using w map_okD(4) [OF ok] by metis
  next
    fix js f i assume a: "opath m (js @ [i]) \<and> walk mm' ?r js = Some f"
    then have f: "walk mm ?r js = Some f" using w opath_prefix by metis
    show "entry_ok mm (pmem mm' f i)" using map_okD(6) [OF ok conjunct1 [OF a] f] pe [OF conjunct1 [OF a] f] by simp
  next
    fix js f i assume a: "opath m js \<and> length js = 3 \<and> i < 512 \<and> walk mm' ?r js = Some f \<and> pmem mm' f i \<noteq> 0"
    then have f: "walk mm ?r js = Some f" and p: "pmem mm' f i = pmem mm f i" using w leaf by auto
    have b: "bit (pmem mm f i) 0 \<and> (bit (pmem mm f i) 2 \<longrightarrow> user_path mm ?r js)"
      by (rule map_okD(7) [OF ok _ _ _ f]) (use a p in simp_all)
    then show "bit (pmem mm' f i) 0" using p by simp
    show "user_path mm' ?r js" if "bit (pmem mm' f i) 2" using b p that u f a by simp
  qed (use map_okD(1) [OF ok] inv in simp_all)
  moreover have "same_ptes m mm mm'" unfolding same_ptes_def pte_at_def
    using w leaf by (auto split: option.splits)
  ultimately show ?thesis using t by (simp add: map_kept_def)
qed

lemma edits_other:
  assumes ok1: "map_ok mm m1" and ok2: "map_ok mm m2" and disj: "otables mm m1 \<inter> otables mm m2 = {}"
    and e: "edits m1 mm mm'"
  shows "map_kept m2 mm mm'" and "otables mm' m1 \<inter> otables mm' m2 = {}"
proof -
  have free: "g \<notin> mm_free mm" if "g \<in> otables mm m2" for g
    using that map_okD(5) [OF ok2] by (auto simp: otables_def)
  show k: "map_kept m2 mm mm'"
  proof (rule tables_kept [OF ok2])
    show "vmm_use_phys_map mm' = vmm_use_phys_map mm" "pmm_inv (mm_pmm mm')"
      using e by (simp_all add: edits_def same_config_def map_ok_def)
    show "mm_free mm' \<inter> otables mm m2 = {}" using e disj free by (auto simp: edits_def)
    fix g j assume "own_entry mm m2 g j"
    then have "\<not> foot mm m1 g j" using free disj by (auto simp: foot_def own_entry_def)
    then show "pmem mm' g j = pmem mm g j" using e by (simp add: edits_def)
  qed
  show "otables mm' m1 \<inter> otables mm' m2 = {}" using e disj free map_keptD(3) [OF k] by (auto simp: edits_def)
qed

section \<open>Changing the write permission\<close>

lemma writable_walk_walk: "writable_walk mm f is = Some g \<Longrightarrow> walk mm f is = Some g"
  by (induction "is" arbitrary: f) (auto split: if_splits option.splits)

lemma write_bit_leaf:
  assumes "bit e 0"
  shows "entry_frame (e OR PTE_WRITE) = entry_frame e" "entry_frame (e AND NOT PTE_WRITE) = entry_frame e"
    "vmm_test_entry_flags (e OR PTE_WRITE) = vmm_test_entry_flags e OR VM_WRITE"
    "vmm_test_entry_flags (e AND NOT PTE_WRITE) = vmm_test_entry_flags e AND NOT VM_WRITE"
    "bit (e OR PTE_WRITE) 0" "bit (e AND NOT PTE_WRITE) 0"
    "bit (e OR PTE_WRITE) 2 = bit e 2" "bit (e AND NOT PTE_WRITE) 2 = bit e 2"
proof -
  have b: "bit (e AND NOT PTE_WRITE) n \<longleftrightarrow> bit e n \<and> n \<noteq> 1" if "n < 64" for n
    using that by (simp only: bit_and_iff bit_not_iff possible_bit_def low_bits) simp
  show "entry_frame (e OR PTE_WRITE) = entry_frame e" by simp
  define W :: u64 where "W = NOT PTE_WRITE"
  have w: "bit W n \<longleftrightarrow> n < 64 \<and> n \<noteq> 1" for n
    unfolding W_def by (simp only: bit_not_iff possible_bit_def low_bits) auto
  have "bit ((e AND W) AND PTE_ADDRESS_MASK) n = bit (e AND PTE_ADDRESS_MASK) n" if "n < 64" for n
    using that by (simp only: bit_and_iff w address_mask_bit) auto
  then have "(e AND W) AND PTE_ADDRESS_MASK = e AND PTE_ADDRESS_MASK" by (intro bit_word_eqI) simp
  then show "entry_frame (e AND NOT PTE_WRITE) = entry_frame e" unfolding entry_frame_def W_def by (simp only:)
  show "vmm_test_entry_flags (e OR PTE_WRITE) = vmm_test_entry_flags e OR VM_WRITE"
    by (rule bit_word_eqI) (simp only: entry_flags_bit or_low_bits bit_or_iff low_bits, use assms in auto)
  show "vmm_test_entry_flags (e AND NOT PTE_WRITE) = vmm_test_entry_flags e AND NOT VM_WRITE"
  proof (rule bit_word_eqI)
    fix n :: nat assume n: "n < LENGTH(64)"
    have v: "bit (vmm_test_entry_flags e AND NOT VM_WRITE) n \<longleftrightarrow> bit (vmm_test_entry_flags e) n \<and> n \<noteq> 0"
      using n by (simp only: bit_and_iff bit_not_iff possible_bit_def low_bits) simp
    show "bit (vmm_test_entry_flags (e AND NOT PTE_WRITE)) n = bit (vmm_test_entry_flags e AND NOT VM_WRITE) n"
      unfolding v entry_flags_bit using b [of 0] b [of 1] b [of 2] b [of 3] b [of 4] b [of 63] by auto
  qed
  show "bit (e OR PTE_WRITE) 0" "bit (e OR PTE_WRITE) 2 = bit e 2" using assms by simp_all
  show "bit (e AND NOT PTE_WRITE) 0" "bit (e AND NOT PTE_WRITE) 2 = bit e 2" using b [of 0] b [of 2] assms by simp_all
qed

lemma guarded_update:
  assumes "(if G then (False, s) else case Q of None \<Rightarrow> (False, s) | Some (a, x) \<Rightarrow>
      if H a x then (False, s) else case W of None \<Rightarrow> (False, s) | Some t \<Rightarrow>
      if I t then (False, s) else (True, R t)) = (b, s')"
  shows "\<not> b \<and> s' = s \<or> b \<and> \<not> G \<and> (\<exists>a x t. Q = Some (a, x) \<and> \<not> H a x \<and> W = Some t \<and> \<not> I t \<and> s' = R t)"
  using assms by (auto split: if_split_asm option.split_asm prod.split_asm)

lemma set_writable_contract:
  assumes ok: "page_map_ok p mm" and c: "vmm_set_writable p v f fl w mm = (b, mm')"
  shows "edits (page_map_at mm p) mm mm'" and "\<not> b \<Longrightarrow> mm' = mm"
    and "b \<Longrightarrow> page_view mm p v = Some (f, fl) \<and> \<not> has fl VM_EXEC \<and>
      page_view mm' p = (page_view mm p)(v \<mapsto> (f, if w then fl OR VM_WRITE else fl AND NOT VM_WRITE))"
proof -
  let ?m = "page_map_at mm p"
  have ok': "map_ok mm ?m" using ok by (simp add: page_map_ok_def)
  note c' = c [unfolded vmm_set_writable_def Let_def flush_active_map_id, folded leaf_path_def]
  note gu = guarded_update [OF c']
  show n: "\<not> b \<Longrightarrow> mm' = mm" using gu by blast
  have T: "edits ?m mm mm' \<and> page_view mm p v = Some (f, fl) \<and> \<not> has fl VM_EXEC \<and>
      page_view mm' p = (page_view mm p)(v \<mapsto> (f, if w then fl OR VM_WRITE else fl AND NOT VM_WRITE))" if b: b
  proof -
    have cov: "map_covers ?m v" using gu b unfolding map_covers_def by blast
    obtain a x t where r: "vmm_query_page mm p v = Some (a, x)" "a = f \<and> x = fl \<and> \<not> has x VM_EXEC"
      and t: "writable_walk mm (root_frame ?m) (leaf_path v) = Some t"
      and mm': "mm' = write_entry t (pt_index v) (if w then pmem mm t (pt_index v) OR PTE_WRITE else pmem mm t (pt_index v) AND NOT PTE_WRITE) mm"
      using gu b by blast
    have q: "vmm_query_page mm p v = Some (f, fl)" and x: "\<not> has fl VM_EXEC" using r by auto
    note wt = writable_walk_walk [OF t]
    note cp = covers_path [OF cov]
    let ?e = "pmem mm t (pt_index v)"
    have "page_view mm p v = Some (f, fl)" using q cov by (simp add: page_view_def)
    then have e: "?e \<noteq> 0" "f = entry_frame ?e" "fl = vmm_test_entry_flags ?e"
      using cov wt by (auto simp: page_view_leaf [OF ok] decode_leaf_def pte_at_def split: if_splits)
    have e0: "bit ?e 0" "bit ?e 2 \<longrightarrow> user_path mm (root_frame ?m) (leaf_path v)"
      using map_okD(7) [OF ok' cp wt e(1)] by simp_all
    note wb = write_bit_leaf [OF e0(1)]
    define v' where "v' = (if w then ?e OR PTE_WRITE else ?e AND NOT PTE_WRITE)"
    have v': "bit v' 0" "bit v' 2 = bit ?e 2" "entry_frame v' = f"
      "vmm_test_entry_flags v' = (if w then fl OR VM_WRITE else fl AND NOT VM_WRITE)"
      unfolding v'_def e(2,3) by (cases w; simp only: if_True if_False wb)+
    note wl = write_leaf [OF ok' cp wt, of v']
    have ed: "edits ?m mm mm'" using wl(1) v' e0(2) by (simp add: mm' v'_def)
    have "leaf_written ?m v v' mm mm'" using wl(2) v' e0(2) by (simp add: mm' v'_def leaf_written_def)
    from view_written [OF ok editsD(2,1) [OF ok ed] this cov]
    have "page_view mm' p = (page_view mm p)(v \<mapsto> (f, if w then fl OR VM_WRITE else fl AND NOT VM_WRITE))"
      using v' by (auto simp: decode_leaf_def)
    then show ?thesis using ed x q cov by (simp add: page_view_def)
  qed
  show "edits ?m mm mm'" using T n edits_refl [OF ok'] by (cases b) auto
  show "b \<Longrightarrow> page_view mm p v = Some (f, fl) \<and> \<not> has fl VM_EXEC \<and>
      page_view mm' p = (page_view mm p)(v \<mapsto> (f, if w then fl OR VM_WRITE else fl AND NOT VM_WRITE))"
    using T by blast
qed

end
