(* ===== verification/VMM_Lifecycle.thy ===== *)
theory VMM_Lifecycle
  imports VMM_Isolation
begin

text \<open>
  The life of a page map: it is created with an empty root, its empty tables can be collected
  without changing a translation, and destroying it gives every one of its table frames back.
\<close>

section \<open>Collecting empty tables\<close>

lemma loop_all_invariant:
  assumes "\<And>x s b s'. x \<in> set xs \<Longrightarrow> I s \<Longrightarrow> f x s = (b, s') \<Longrightarrow> I s'" and "I s" and "loop_all f xs s = (b, s')"
  shows "I s'"
  using assms
proof (induction xs arbitrary: s)
  case (Cons x xs)
  obtain b1 s1 where f: "f x s = (b1, s1)" by fastforce
  have s1: "I s1" using Cons.prems(1) [OF _ Cons.prems(2) f] by simp
  show ?case
  proof (cases b1)
    case True
    show ?thesis by (rule Cons.IH [OF Cons.prems(1) s1]) (use Cons.prems(3) f True in auto)
  qed (use Cons.prems(3) f s1 in auto)
qed simp

text \<open>A change below the table at the path \<open>is\<close> that loses no frame and touches no other table.\<close>

definition below :: "VmPageMap \<Rightarrow> u32 list \<Rightarrow> Mm \<Rightarrow> Mm \<Rightarrow> bool" where
  "below m is mm mm' \<longleftrightarrow> edits m mm mm' \<and> same_ptes m mm mm' \<and>
     (\<forall>js. opath m js \<and> \<not> strict_prefix is js \<longrightarrow> walk mm' (root_frame m) js = walk mm (root_frame m) js) \<and>
     mm_free mm' \<union> otables mm' m = mm_free mm \<union> otables mm m"

lemma below_refl: "map_ok mm m \<Longrightarrow> below m is mm mm"
  by (simp add: below_def edits_refl)

lemma below_trans: "map_ok mm m \<Longrightarrow> below m is mm mm' \<Longrightarrow> below m is mm' mm'' \<Longrightarrow> below m is mm mm''"
  unfolding below_def using edits_trans same_ptes_trans by (metis (no_types, lifting))

lemma below_extend: "below m (is @ js) mm mm' \<Longrightarrow> below m is mm mm'"
  unfolding below_def by (meson prefix_order.dual_order.strict_trans2 prefixI prefix_order.le_less_trans)

lemma below_ok: "below m is mm mm' \<Longrightarrow> map_ok mm' m"
  by (simp add: below_def edits_def)

lemma below_walk: "below m is mm mm' \<Longrightarrow> opath m is \<Longrightarrow> walk mm' (root_frame m) is = walk mm (root_frame m) is"
  by (simp add: below_def)

lemma release_below:
  assumes "map_ok mm m" "opath m (is @ [i])" "walk mm (root_frame m) is = Some f" "release_empty_child p f i mm = (b, mm')"
  shows "below m is mm mm'"
proof -
  note r = release_empty_child_law [OF assms]
  have "\<not> prefix (is @ [i]) js" if "\<not> strict_prefix is js" for js
    using that by (metis append_prefixD prefix_order.less_le not_Cons_self2 prefix_order.antisym_conv prefixI self_append_conv)
  then show ?thesis using r(1,2) unfolding below_def table_step_def by blast
qed

abbreviation collect_step :: "nat \<Rightarrow> ptr \<Rightarrow> frame_t \<Rightarrow> u32 \<Rightarrow> Mm \<Rightarrow> bool \<times> Mm" where
  "collect_step level p f \<equiv> (\<lambda>i mm.
          let entry = pmem mm f i in
          if entry = 0 then (True, mm)
          else if \<not> has entry PTE_PRESENT \<or> has entry PTE_HUGE then (False, mm)
          else
            let child = entry_frame entry in
            if child = f then (False, mm)
            else
              case collect_children level p child 0 PAGE_TABLE_ENTRIES mm of (ok, mm) \<Rightarrow>
              if \<not> ok then (False, mm)
              else if table_empty mm child then release_empty_child p f i mm
              else (True, mm))"

lemma in_index_range: "i \<in> set (index_range 0 PAGE_TABLE_ENTRIES) \<longleftrightarrow> i < 512"
  using index_range_all [of "\<lambda>j. j \<noteq> i"] index_range_all [of "\<lambda>j. j < 512"] by (auto simp: list_all_iff)

lemma collect_step_below:
  assumes ok: "map_ok s m" and P: "opath m (is @ [i])" and w: "walk s (root_frame m) is = Some f"
    and ch: "\<And>ok2 s2. walk s (root_frame m) (is @ [i]) = Some (entry_frame (pmem s f i)) \<Longrightarrow>
      collect_children (Suc level) p (entry_frame (pmem s f i)) 0 PAGE_TABLE_ENTRIES s = (ok2, s2) \<Longrightarrow> below m (is @ [i]) s s2"
    and st: "collect_step (Suc level) p f i s = (b1, s')"
  shows "below m is s s'"
proof (cases "pmem s f i = 0 \<or> \<not> has (pmem s f i) PTE_PRESENT \<or> has (pmem s f i) PTE_HUGE \<or> entry_frame (pmem s f i) = f")
  case True
  then have "s' = s" using st unfolding Let_def by (auto split: if_split_asm)
  then show ?thesis by (simp add: below_refl [OF ok])
next
  case False
  let ?c = "entry_frame (pmem s f i)"
  obtain ok2 s2 where cc: "collect_children (Suc level) p ?c 0 PAGE_TABLE_ENTRIES s = (ok2, s2)" by fastforce
  have "walk s (root_frame m) (is @ [i]) = Some ?c"
    using w existing_table_ok [OF map_okD(6) [OF ok P w]] False by (simp add: walk_snoc)
  note b2 = ch [OF this cc]
  have b2': "below m is s s2" by (rule below_extend [OF b2])
  have w2: "walk s2 (root_frame m) is = Some f" using below_walk [OF b2' opath_prefix [OF P]] w by simp
  have st: "(b1, s') = (if \<not> ok2 then (False, s2) else if table_empty s2 ?c then release_empty_child p f i s2 else (True, s2))"
    using st False cc unfolding Let_def by (simp only: if_False prod.case simp_thms split: if_split_asm) simp
  show ?thesis
  proof (cases "ok2 \<and> table_empty s2 ?c")
    case True
    then have "release_empty_child p f i s2 = (b1, s')" using st by simp
    from below_trans [OF ok b2' release_below [OF below_ok [OF b2] P w2 this]] show ?thesis .
  next
    case False
    then show ?thesis using b2' st by (auto split: if_split_asm)
  qed
qed

lemma collect_below:
  assumes "map_ok mm m" and "opath m is" and "length is + level = 3" and "walk mm (root_frame m) is = Some f"
    and "\<And>i. i \<in> set (index_range a b) \<Longrightarrow> i < 512 \<and> (is = [] \<longrightarrow> map_owns_pml4_index m i)"
    and "collect_children (Suc level) p f a b mm = (ok, mm')"
  shows "below m is mm mm'"
  using assms
proof (induction level arbitrary: "is" f a b mm ok mm')
  case 0
  then show ?case by (auto simp: below_refl split: if_splits)
next
  case (Suc level)
  note IH = Suc.IH and prems = Suc.prems
  show ?case
  proof (cases "table_pointer mm f = 0")
    case True
    then show ?thesis using prems(1,6) by (simp add: below_refl)
  next
    case False
    then have l: "loop_all (collect_step (Suc level) p f) (index_range a b) mm = (ok, mm')"
      using prems(6) by (simp del: collect_children.simps add: collect_children.simps(2) [of "Suc level"])
    show ?thesis
    proof (rule loop_all_invariant [where I = "below m is mm", OF _ below_refl [OF prems(1)] l])
      fix i s b1 s' assume i: "i \<in> set (index_range a b)" and s: "below m is mm s" and st: "collect_step (Suc level) p f i s = (b1, s')"
      have P: "opath m (is @ [i])" using prems(2,3) prems(5) [OF i] by (cases "is") (auto simp: opath_def)
      have ok: "map_ok s m" and w: "walk s (root_frame m) is = Some f"
        using below_ok [OF s] below_walk [OF s prems(2)] prems(4) by simp_all
      have "below m is s s'"
      proof (rule collect_step_below [OF ok P w _ st])
        fix ok2 s2 assume c: "walk s (root_frame m) (is @ [i]) = Some (entry_frame (pmem s f i))"
          "collect_children (Suc level) p (entry_frame (pmem s f i)) 0 PAGE_TABLE_ENTRIES s = (ok2, s2)"
        show "below m (is @ [i]) s s2"
          by (rule IH [OF ok P _ c(1) _ c(2)]) (use prems(3) in \<open>auto simp: in_index_range\<close>)
      qed
      then show "below m is mm s'" by (rule below_trans [OF prems(1) s])
    qed
  qed
qed

lemma loop_all_all:
  assumes "\<And>x s s'. x \<in> set xs \<Longrightarrow> I s \<Longrightarrow> f x s = (True, s') \<Longrightarrow> I s' \<and> Q x s' \<and> (\<forall>y. Q y s \<longrightarrow> Q y s')"
    and "I s" and "loop_all f xs s = (True, s')"
  shows "(\<forall>x\<in>set xs. Q x s') \<and> (\<forall>y. Q y s \<longrightarrow> Q y s')"
  using assms
proof (induction xs arbitrary: s)
  case (Cons x xs)
  obtain s1 where f: "f x s = (True, s1)" and r: "loop_all f xs s1 = (True, s')"
    using Cons.prems(3) by (auto split: prod.splits if_split_asm)
  have s1: "I s1 \<and> Q x s1 \<and> (\<forall>y. Q y s \<longrightarrow> Q y s1)" using Cons.prems(1) [OF _ Cons.prems(2) f] by simp
  have "(\<forall>x\<in>set xs. Q x s') \<and> (\<forall>y. Q y s1 \<longrightarrow> Q y s')"
    by (rule Cons.IH [OF Cons.prems(1) _ r]) (use s1 in auto)
  then show ?case using s1 by auto
qed simp

text \<open>No page is mapped below the table at a path.\<close>

definition no_leaves :: "VmPageMap \<Rightarrow> u32 list \<Rightarrow> Mm \<Rightarrow> bool" where
  "no_leaves m is mm \<longleftrightarrow> (\<forall>js j. opath m js \<and> length js = 3 \<and> j < 512 \<and> prefix is js \<longrightarrow> pte_at mm m js j = 0)"

lemma below_no_leaves: "below m is mm mm' \<Longrightarrow> no_leaves m ks mm \<Longrightarrow> no_leaves m ks mm'"
  by (simp add: below_def no_leaves_def same_ptes_def)

text \<open>The inner step of a collection at the entry \<open>i\<close>, when the child is emptied by it.\<close>

lemma collect_step_emptied:
  assumes ok: "map_ok s m" and P: "opath m (is @ [i])" and w: "walk s (root_frame m) is = Some f" and nz: "pmem s f i \<noteq> 0"
    and cc: "collect_children (Suc level) p (entry_frame (pmem s f i)) 0 PAGE_TABLE_ENTRIES s = (True, s2)"
    and b2: "below m (is @ [i]) s s2" and e2: "\<forall>k < 512. pmem s2 (entry_frame (pmem s f i)) k = 0"
    and st: "collect_step (Suc level) p f i s = (True, s')"
  shows "walk s' (root_frame m) (is @ [i]) = None \<and>
    (\<forall>j. walk s (root_frame m) (is @ [j]) = None \<longrightarrow> opath m (is @ [j]) \<longrightarrow> walk s' (root_frame m) (is @ [j]) = None)"
proof -
  let ?c = "entry_frame (pmem s f i)"
  have eo: "entry_ok s (pmem s f i)" by (rule map_okD(6) [OF ok P w])
  have o: "opath m is" using opath_prefix [OF P] .
  have w2: "walk s2 (root_frame m) is = Some f" using below_walk [OF below_extend [OF b2] o] w by simp
  have "table_pointer s2 ?c = table_pointer s ?c"
    using b2 same_config_table_pointer [of s s2] by (simp add: below_def edits_def)
  then have te: "table_empty s2 ?c" using eo nz e2 by (simp add: table_empty_def index_range_all entry_ok_def)
  have rl: "release_empty_child p f i s2 = (True, s')"
    using st cc te nz eo unfolding Let_def entry_ok_def by (auto split: if_split_asm)
  note rl = release_empty_child_law [OF below_ok [OF b2] P w2 rl]
  have f': "walk s' (root_frame m) is = Some f" using table_stepD(4) [OF rl(1) o] w2 by simp
  have "walk s' (root_frame m) (is @ [i]) = None" using f' rl(3) by (simp add: walk_snoc)
  moreover have "walk s' (root_frame m) (is @ [j]) = None"
    if n: "walk s (root_frame m) (is @ [j]) = None" and oj: "opath m (is @ [j])" for j
  proof (cases "j = i")
    case False
    have "\<not> strict_prefix (is @ [i]) (is @ [j])" "\<not> prefix (is @ [i]) (is @ [j])" using False by (auto simp: strict_prefix_def)
    then show ?thesis using table_stepD(4) [OF rl(1) oj] b2 oj n by (simp add: below_def)
  qed (use calculation in simp)
  ultimately show ?thesis by blast
qed

lemma collect_empties:
  assumes "map_ok mm m" and "opath m is" and "length is + level = 3" and "walk mm (root_frame m) is = Some f"
    and "\<And>i. i \<in> set (index_range a b) \<Longrightarrow> i < 512 \<and> (is = [] \<longrightarrow> map_owns_pml4_index m i)"
    and "collect_children (Suc level) p f a b mm = (True, mm')" and "no_leaves m is mm"
  shows "\<forall>i\<in>set (index_range a b). pmem mm' f i = 0"
  using assms
proof (induction level arbitrary: "is" f a b mm mm')
  case 0
  have "mm' = mm" using 0(6) by (simp split: if_split_asm)
  moreover have "pmem mm f i = pte_at mm m is i" for i using 0(4) by (simp add: pte_at_def)
  ultimately show ?case using 0(2,3,5,7) by (simp add: no_leaves_def)
next
  case (Suc level)
  note IH = Suc.IH and prems = Suc.prems
  let ?Q = "\<lambda>i s. opath m (is @ [i]) \<longrightarrow> walk s (root_frame m) (is @ [i]) = None"
  have P: "opath m (is @ [i])" if "i \<in> set (index_range a b)" for i
    using prems(2,3) prems(5) [OF that] by (cases "is") (auto simp: opath_def)
  have l: "loop_all (collect_step (Suc level) p f) (index_range a b) mm = (True, mm')"
    using prems(6) by (simp del: collect_children.simps add: collect_children.simps(2) [of "Suc level"] split: if_split_asm)
  have "(\<forall>i\<in>set (index_range a b). ?Q i mm') \<and> (\<forall>i. ?Q i mm \<longrightarrow> ?Q i mm')"
  proof (rule loop_all_all [where I = "below m is mm", OF _ below_refl [OF prems(1)] l])
    fix i s s' assume i: "i \<in> set (index_range a b)" and s: "below m is mm s" and st: "collect_step (Suc level) p f i s = (True, s')"
    have ok: "map_ok s m" and w: "walk s (root_frame m) is = Some f"
      using below_ok [OF s] below_walk [OF s prems(2)] prems(4) by simp_all
    have ex: "existing_table s f i = (if pmem s f i = 0 then None else Some (entry_frame (pmem s f i)))"
      by (rule existing_table_ok [OF map_okD(6) [OF ok P [OF i] w]])
    have "below m is s s'"
    proof (rule collect_step_below [OF ok P [OF i] w _ st])
      fix ok2 s2 assume c: "walk s (root_frame m) (is @ [i]) = Some (entry_frame (pmem s f i))"
        "collect_children (Suc level) p (entry_frame (pmem s f i)) 0 PAGE_TABLE_ENTRIES s = (ok2, s2)"
      show "below m (is @ [i]) s s2"
        by (rule collect_below [OF ok P [OF i] _ c(1) _ c(2)]) (use prems(3) in \<open>auto simp: in_index_range\<close>)
    qed
    then have b: "below m is mm s'" by (rule below_trans [OF prems(1) s])
    show "below m is mm s' \<and> ?Q i s' \<and> (\<forall>j. ?Q j s \<longrightarrow> ?Q j s')"
    proof (cases "pmem s f i = 0")
      case True
      then have "s' = s" using st by simp
      then show ?thesis using s w True by (simp add: walk_snoc)
    next
      case False
      let ?c = "entry_frame (pmem s f i)"
      have wc: "walk s (root_frame m) (is @ [i]) = Some ?c" using w ex False by (simp add: walk_snoc)
      obtain s2 where cc: "collect_children (Suc level) p ?c 0 PAGE_TABLE_ENTRIES s = (True, s2)"
        using st False unfolding Let_def by (auto split: if_split_asm prod.split_asm)
      have b2: "below m (is @ [i]) s s2"
        by (rule collect_below [OF ok P [OF i] _ wc _ cc]) (use prems(3) in \<open>auto simp: in_index_range\<close>)
      have "no_leaves m (is @ [i]) s" using below_no_leaves [OF s prems(7)] by (auto simp: no_leaves_def dest: append_prefixD)
      then have "\<forall>k\<in>set (index_range 0 PAGE_TABLE_ENTRIES). pmem s2 ?c k = 0"
        by (intro IH [OF ok P [OF i] _ wc _ cc]) (use prems(3) in \<open>auto simp: in_index_range\<close>)
      then have e2: "\<forall>k < 512. pmem s2 ?c k = 0" by (simp add: in_index_range)
      show ?thesis using collect_step_emptied [OF ok P [OF i] w False cc b2 e2 st] b by blast
    qed
  qed
  then have n: "walk mm' (root_frame m) (is @ [i]) = None" if "i \<in> set (index_range a b)" for i using P that by blast
  have b: "below m is mm mm'" by (rule collect_below [OF prems(1-6)])
  have w: "walk mm' (root_frame m) is = Some f" using below_walk [OF b prems(2)] prems(4) by simp
  show ?case
  proof
    fix i assume i: "i \<in> set (index_range a b)"
    show "pmem mm' f i = 0"
      using existing_table_ok [OF map_okD(6) [OF below_ok [OF b] P [OF i] w]] n [OF i] w
      by (simp add: walk_snoc split: if_split_asm)
  qed
qed

section \<open>Destruction\<close>

lemma tree_no_leaves:
  assumes "tree_has_no_leaves (Suc level) mm f a b" and "length is = level" and "walk mm f is = Some pt"
    and "hd (is @ [i]) \<in> set (index_range a b)" and "\<forall>j\<in>set (tl (is @ [i])). j < 512"
  shows "pmem mm pt i = 0"
  using assms
proof (induction level arbitrary: f a b "is")
  case 0
  then show ?case by (auto simp: list_all_iff Let_def)
next
  case (Suc level)
  then obtain j js where js: "is = j # js" by (cases "is") auto
  obtain g where g: "existing_table mm f j = Some g" and w: "walk mm g js = Some pt"
    using Suc.prems(3) by (auto simp: js split: option.splits)
  have gf: "g = entry_frame (pmem mm f j)" "pmem mm f j \<noteq> 0"
    using g by (auto simp: existing_table_def Let_def split: if_split_asm)
  have "tree_has_no_leaves (Suc level) mm g 0 PAGE_TABLE_ENTRIES"
    using Suc.prems(1,4) gf unfolding tree_has_no_leaves.simps(2) [of "Suc level"] Let_def list_all_iff
    by (simp del: tree_has_no_leaves.simps add: js) blast
  then show ?case
    by (rule Suc.IH [OF _ _ w]) (use Suc.prems(2,5) in \<open>(cases js; auto simp: js in_index_range)+\<close>)
qed

lemma owned_range:
  assumes "owned_pml4_end m \<le> VM_PML4_ENTRY_COUNT"
  shows "i \<in> set (index_range (ucast (owned_pml4_first m)) (ucast (owned_pml4_end m))) \<longleftrightarrow> map_owns_pml4_index m i"
    and "map_owns_pml4_index m i \<Longrightarrow> i < 512"
proof -
  have u: "unat (ucast (x :: u16) :: u32) = unat x" for x by (simp add: unsigned_ucast_eq take_bit_nat_eq_self_iff) (rule less_trans [OF unsigned_less], simp)
  have e: "unat (owned_pml4_end m) \<le> 512" using assms by (simp add: word_le_nat_alt)
  show "map_owns_pml4_index m i \<Longrightarrow> i < 512"
    using e by (simp add: map_owns_pml4_index_def word_less_nat_alt word_le_nat_alt u)
  have "i \<in> set (index_range (ucast (owned_pml4_first m)) (ucast (owned_pml4_end m))) \<longleftrightarrow>
      unat i \<in> {unat (owned_pml4_first m)..<unat (owned_pml4_end m)}"
  proof
    assume "i \<in> set (index_range (ucast (owned_pml4_first m)) (ucast (owned_pml4_end m)))"
    then obtain n where n: "i = of_nat n" "unat (owned_pml4_first m) \<le> n" "n < unat (owned_pml4_end m)"
      by (auto simp: index_range_def u)
    then have "unat i = n" using e by (simp add: unat_of_nat take_bit_nat_eq_self_iff)
    then show "unat i \<in> {unat (owned_pml4_first m)..<unat (owned_pml4_end m)}" using n by simp
  next
    assume "unat i \<in> {unat (owned_pml4_first m)..<unat (owned_pml4_end m)}"
    then have "of_nat (unat i) \<in> set (index_range (ucast (owned_pml4_first m)) (ucast (owned_pml4_end m)))"
      unfolding index_range_def set_map u by (intro imageI) simp
    then show "i \<in> set (index_range (ucast (owned_pml4_first m)) (ucast (owned_pml4_end m)))" by simp
  qed
  then show "i \<in> set (index_range (ucast (owned_pml4_first m)) (ucast (owned_pml4_end m))) \<longleftrightarrow> map_owns_pml4_index m i"
    by (simp add: map_owns_pml4_index_def word_less_nat_alt word_le_nat_alt u)
qed

lemma emptied_tables:
  assumes ok: "map_ok mm m" and z: "\<And>i. map_owns_pml4_index m i \<Longrightarrow> pmem mm (root_frame m) i = 0"
  shows "otables mm m = {root_frame m}"
proof -
  have "js = []" if "opath m js" "walk mm (root_frame m) js = Some h" for js h
    using that z by (cases js) (auto simp: opath_def split: option.splits)
  then show ?thesis by (auto simp: otables_def intro: exI [of _ "[]"]) (metis opath_Nil walk.simps(1) option.inject)
qed

lemma update_map_frame [simp]:
  "pmem (update_map p g mm) = pmem mm" "mm_pmm (update_map p g mm) = mm_pmm mm"
  "vmm_use_phys_map (update_map p g mm) = vmm_use_phys_map mm"
  "page_map_at (update_map p g mm) = (page_map_at mm)(p := g (page_map_at mm p))"
  by (simp_all add: update_map_def)

lemma four_levels: "(4 :: nat) = Suc 3"
  by simp

lemma collect_law:
  assumes ok: "map_ok mm m" and e: "owned_pml4_end m \<le> VM_PML4_ENTRY_COUNT"
    and c: "collect_children 4 p (root_frame m) (ucast (owned_pml4_first m)) (ucast (owned_pml4_end m)) mm = (b, mm')"
  shows "below m [] mm mm'" and "b \<Longrightarrow> no_leaves m [] mm \<Longrightarrow> otables mm' m = {root_frame m}"
proof -
  have c': "collect_children (Suc 3) p (root_frame m) (ucast (owned_pml4_first m)) (ucast (owned_pml4_end m)) mm = (b, mm')"
    using c by (simp only: four_levels)
  show bl: "below m [] mm mm'" by (rule collect_below [OF ok _ _ _ _ c']) (auto simp: owned_range [OF e])
  show "otables mm' m = {root_frame m}" if b "no_leaves m [] mm"
  proof (rule emptied_tables [OF below_ok [OF bl]])
    fix i assume "map_owns_pml4_index m i"
    moreover have "\<forall>i\<in>set (index_range (ucast (owned_pml4_first m)) (ucast (owned_pml4_end m))). pmem mm' (root_frame m) i = 0"
      by (rule collect_empties [OF ok _ _ _ _ c' [unfolded that(1) [THEN eqTrueI]] that(2)]) (auto simp: owned_range [OF e])
    ultimately show "pmem mm' (root_frame m) i = 0" by (simp add: owned_range(1) [OF e])
  qed
qed

text \<open>
  What a destruction does: on success no page was mapped and exactly the map's table frames
  became free; on failure the map keeps its translations.
\<close>

definition tables_of :: "Mm \<Rightarrow> ptr \<Rightarrow> frame_t set" where
  "tables_of mm p = otables mm (page_map_at mm p)"

lemma no_leaves_view:
  assumes ok: "page_map_ok p mm" and e: "owned_pml4_end (page_map_at mm p) \<le> VM_PML4_ENTRY_COUNT"
    and t: "tree_has_no_leaves 4 mm (root_frame (page_map_at mm p)) (ucast (owned_pml4_first (page_map_at mm p)))
      (ucast (owned_pml4_end (page_map_at mm p)))"
  shows "no_leaves (page_map_at mm p) [] mm" "page_view mm p = Map.empty"
proof -
  let ?m = "page_map_at mm p"
  have t': "tree_has_no_leaves (Suc 3) mm (root_frame ?m) (ucast (owned_pml4_first ?m)) (ucast (owned_pml4_end ?m))"
    using t by (simp only: four_levels)
  have z: "pte_at mm ?m js j = 0" if "opath ?m js" "length js = 3" "j < 512" for js j
  proof (cases "walk mm (root_frame ?m) js")
    case (Some pt)
    have "pmem mm pt j = 0"
    proof (rule tree_no_leaves [OF t' that(2) Some])
      show "hd (js @ [j]) \<in> set (index_range (ucast (owned_pml4_first ?m)) (ucast (owned_pml4_end ?m)))"
        using that owned_range(1) [OF e] by (cases js) (auto simp: opath_def)
      show "\<forall>k\<in>set (tl (js @ [j])). k < 512" using that by (cases js) (auto simp: opath_def)
    qed
    then show ?thesis using Some by (simp add: pte_at_def)
  qed (simp add: pte_at_def)
  then show "no_leaves ?m [] mm" by (simp add: no_leaves_def)
  show "page_view mm p = Map.empty"
    using z covers_path [of ?m] by (auto simp: page_view_leaf [OF ok] decode_leaf_def fun_eq_iff)
qed

definition marked :: "ptr \<Rightarrow> bool \<Rightarrow> Mm \<Rightarrow> Mm" where
  "marked p d mm = update_map p (\<lambda>m. m\<lparr>destroy_pending := d\<rparr>) mm"

lemma tables_kept_same:
  assumes "map_ok mm m" and "pmem mm' = pmem mm" "vmm_use_phys_map mm' = vmm_use_phys_map mm" "pmm_inv (mm_pmm mm')"
    "mm_free mm' \<inter> otables mm m = {}"
  shows "map_kept m mm mm'"
  by (rule tables_kept [OF assms(1,3,4) _ assms(5)]) (simp add: assms(2))

lemma marked_kept: "map_ok mm m \<Longrightarrow> map_kept m mm (marked p d mm)"
  by (rule tables_kept_same) (auto simp: marked_def map_ok_def)

lemma destroy_cases:
  assumes ok: "page_map_ok p mm" and c: "vmm_page_map_destroy p mm = (b, mm')"
  defines "m \<equiv> page_map_at mm p"
  obtains (same) "\<not> b" "mm' = mm"
    | (partly) mm1 where "\<not> b" "below m [] (marked p True mm) mm1" "same_config mm1 mm'" "pmem mm' = pmem mm1"
        "pmm_inv (mm_pmm mm')" "mm_free mm' = mm_free mm1"
    | (gone) mm1 mm2 where "b" "page_view mm p = Map.empty" "below m [] (marked p True mm) mm1" "otables mm1 m = {root_frame m}"
        "same_config mm1 mm2" "pmem mm2 = pmem mm1" "pmm_inv (mm_pmm mm2)" "mm_free mm2 = insert (root_frame m) (mm_free mm1)"
        "mm' = update_map p (\<lambda>m. m\<lparr>root_frame := FRAME_INVALID, owned_pml4_first := 0, owned_pml4_end := 0, destroy_pending := False\<rparr>) mm2"
proof (cases "\<not> map_reclaimable mm p \<or>
    \<not> tree_has_no_leaves 4 mm (root_frame m) (ucast (owned_pml4_first m)) (ucast (owned_pml4_end m))")
  case True
  then have "(b, mm') = (False, mm)" using c by (cases "map_reclaimable mm p") (simp_all add: vmm_page_map_destroy_def Let_def m_def)
  then show thesis using same by simp
next
  case False
  then have e: "owned_pml4_end m \<le> VM_PML4_ENTRY_COUNT" by (auto simp: map_reclaimable_def Let_def m_def)
  have okm: "map_ok (marked p True mm) m" using ok map_keptD(1) [OF marked_kept] by (simp add: page_map_ok_def m_def)
  note nl = no_leaves_view [OF ok e [unfolded m_def] False [unfolded m_def, simplified, THEN conjunct2]]
  have nl': "no_leaves m [] (marked p True mm)"
    using nl(1) ok map_keptD(2) [OF marked_kept] by (simp add: no_leaves_def m_def page_map_ok_def same_ptes_def)
  obtain b1 mm1 where c1: "collect_children 4 p (root_frame m) (ucast (owned_pml4_first m)) (ucast (owned_pml4_end m)) (marked p True mm) = (b1, mm1)"
    by fastforce
  note cl = collect_law [OF okm e c1]
  obtain b2 mm2 where c2: "free_table p (root_frame m) mm1 = (b2, mm2)" by fastforce
  have ok1: "pmm_inv (mm_pmm mm1)" by (rule map_okD(3) [OF below_ok [OF cl(1)]])
  note fl = free_table_law [OF c2 ok1]
  have r: "(b, mm') = (if \<not> b1 then (False, mm1) else if \<not> b2 then (False, mm2)
      else (True, update_map p (\<lambda>m. m\<lparr>root_frame := FRAME_INVALID, owned_pml4_first := 0, owned_pml4_end := 0, destroy_pending := False\<rparr>) mm2))"
    using c False c1 c2 by (cases b1; cases b2) (auto simp: vmm_page_map_destroy_def Let_def m_def marked_def)
  consider "\<not> b1" | "b1" "\<not> b2" | "b1" "b2" by blast
  then show thesis
  proof cases
    case 1
    then show thesis using partly [of mm1] cl(1) ok1 r by simp
  next
    case 2
    then show thesis using partly [of mm1] cl(1) fl r by simp
  next
    case 3
    then show thesis using gone [of mm1 mm2] nl(2) cl(1) cl(2) [OF _ nl'] fl r by simp
  qed
qed

section \<open>Several maps\<close>

definition maps_ok :: "ptr set \<Rightarrow> Mm \<Rightarrow> bool" where
  "maps_ok S mm \<longleftrightarrow> pmm_inv (mm_pmm mm) \<and> (\<forall>p\<in>S. page_map_ok p mm) \<and>
     (\<forall>p\<in>S. \<forall>q\<in>S. p \<noteq> q \<longrightarrow> tables_of mm p \<inter> tables_of mm q = {})"

lemma maps_okD:
  assumes "maps_ok S mm" and "q \<in> S"
  shows "page_map_ok q mm" "map_ok mm (page_map_at mm q)"
  using assms by (simp_all add: maps_ok_def page_map_ok_def)

lemma maps_disjoint: "maps_ok S mm \<Longrightarrow> p \<in> S \<Longrightarrow> q \<in> S \<Longrightarrow> p \<noteq> q \<Longrightarrow> tables_of mm p \<inter> tables_of mm q = {}"
  by (simp add: maps_ok_def)

text \<open>
  The fields of a map that its translations depend on are its root and its owned range.
\<close>

definition same_shape :: "VmPageMap \<Rightarrow> VmPageMap \<Rightarrow> bool" where
  "same_shape m m' \<longleftrightarrow> root_frame m' = root_frame m \<and> owned_pml4_first m' = owned_pml4_first m \<and>
     owned_pml4_end m' = owned_pml4_end m"

lemma same_shape_opath: "same_shape m m' \<Longrightarrow> opath m' = opath m"
  by (simp add: same_shape_def opath_def map_owns_pml4_index_def fun_eq_iff)

lemma same_shape_map:
  assumes "same_shape m m'"
  shows "map_ok mm m' = map_ok mm m" "otables mm m' = otables mm m" "pte_at mm m' = pte_at mm m"
    "map_covers m' v = map_covers m v"
proof -
  have r: "root_frame m' = root_frame m" using assms by (simp add: same_shape_def)
  show t: "otables mm m' = otables mm m" by (simp add: otables_def same_shape_opath [OF assms] r)
  show "map_ok mm m' = map_ok mm m" by (simp only: map_ok_def t same_shape_opath [OF assms] r)
  show "pte_at mm m' = pte_at mm m" by (simp add: pte_at_def fun_eq_iff r)
  show "map_covers m' v = map_covers m v" using assms by (simp add: map_covers_def same_shape_def map_owns_pml4_index_def)
qed

lemma view_shape:
  assumes ok: "page_map_ok q mm" and ok': "page_map_ok q mm'" and "same_ptes (page_map_at mm q) mm mm'"
    and s: "same_shape (page_map_at mm q) (page_map_at mm' q)"
  shows "page_view mm' q = page_view mm q"
proof
  fix v
  show "page_view mm' q v = page_view mm q v"
    using assms(3) covers_path [of "page_map_at mm q" v]
    by (simp add: page_view_leaf [OF ok] page_view_leaf [OF ok'] same_shape_map [OF s] same_ptes_def)
qed

text \<open>A map that is kept, up to fields that do not matter, has the same translations.\<close>

lemma kept_view:
  assumes ok: "page_map_ok q mm" and k: "map_kept (page_map_at mm q) mm mm'" and s: "same_shape (page_map_at mm q) (page_map_at mm' q)"
  shows "page_map_ok q mm'" "page_view mm' q = page_view mm q" "tables_of mm' q = tables_of mm q"
proof -
  note sh = same_shape_map [OF s]
  show ok': "page_map_ok q mm'" using ok map_keptD(1) [OF k] by (simp add: page_map_ok_def sh)
  show "tables_of mm' q = tables_of mm q" using map_keptD(3) [OF k] by (simp add: tables_of_def sh)
  show "page_view mm' q = page_view mm q" by (rule view_shape [OF ok ok' map_keptD(2) [OF k] s])
qed

end
