(* ===== verification/VMM_System.thy ===== *)
theory VMM_System
  imports VMM_Lifecycle
begin

text \<open>
  The page maps of the system as a state machine: the live maps and the memory, with a step
  for each public operation of \<^verbatim>\<open>kernel/vmm.c\<close> on them. The invariant is that every live map is
  well formed and that no two share a table they own.
\<close>

section \<open>Steps\<close>

inductive vm_step :: "ptr \<Rightarrow> ptr set \<times> Mm \<Rightarrow> ptr set \<times> Mm \<Rightarrow> bool" where
  map_page: "p \<in> S \<Longrightarrow> vmm_map_page p v f fl mm = (b, mm') \<Longrightarrow> vm_step p (S, mm) (S, mm')"
| unmap_page: "p \<in> S \<Longrightarrow> vmm_unmap_page p v mm = (r, mm') \<Longrightarrow> vm_step p (S, mm) (S, mm')"
| set_writable: "p \<in> S \<Longrightarrow> vmm_set_writable p v f fl w mm = (b, mm') \<Longrightarrow> vm_step p (S, mm) (S, mm')"
| collect: "p \<in> S \<Longrightarrow> vmm_page_map_collect p mm = (b, mm') \<Longrightarrow> vm_step p (S, mm) (S, mm')"
| share: "p \<in> S \<Longrightarrow> q \<in> S \<Longrightarrow> vmm_page_map_share_pml4_entry p q i mm = (b, mm') \<Longrightarrow> vm_step p (S, mm) (S, mm')"
| create: "p \<notin> S \<Longrightarrow> vmm_page_map_create_owned_range p first end mm = (b, mm') \<Longrightarrow>
    vm_step p (S, mm) (if b then insert p S else S, mm')"
| destroy: "p \<in> S \<Longrightarrow> vmm_page_map_destroy p mm = (b, mm') \<Longrightarrow>
    vm_step p (S, mm) (if b then S - {p} else S, mm')"

text \<open>The maps other than the one a step works on are kept.\<close>

definition others_kept :: "ptr set \<Rightarrow> Mm \<Rightarrow> Mm \<Rightarrow> bool" where
  "others_kept S mm mm' \<longleftrightarrow>
     (\<forall>q\<in>S. map_kept (page_map_at mm q) mm mm' \<and> same_shape (page_map_at mm q) (page_map_at mm' q))"

definition vm_safe :: "ptr \<Rightarrow> ptr set \<Rightarrow> Mm \<Rightarrow> ptr set \<Rightarrow> Mm \<Rightarrow> bool" where
  "vm_safe p S mm S' mm' \<longleftrightarrow> maps_ok S' mm' \<and> S - {p} = S' - {p} \<and> (\<forall>q\<in>S - {p}. page_view mm' q = page_view mm q)"

lemma vm_safeI:
  assumes ok: "maps_ok S mm" and inv: "pmm_inv (mm_pmm mm')" and o: "others_kept (S - {p}) mm mm'" and s: "S - {p} = S' - {p}"
    and new: "p \<in> S' \<Longrightarrow> page_map_ok p mm' \<and> (\<forall>q\<in>S - {p}. tables_of mm' p \<inter> tables_of mm q = {})"
  shows "vm_safe p S mm S' mm'"
proof -
  have k: "page_map_ok q mm'" "page_view mm' q = page_view mm q" "tables_of mm' q = tables_of mm q" if "q \<in> S - {p}" for q
    using kept_view [OF maps_okD(1) [OF ok]] o that by (auto simp: others_kept_def)
  have "maps_ok S' mm'" unfolding maps_ok_def
  proof (intro conjI ballI impI)
    show "pmm_inv (mm_pmm mm')" by (rule inv)
    fix q assume q: "q \<in> S'"
    show "page_map_ok q mm'" using k(1) new q s by (cases "q = p") auto
    fix r assume r: "r \<in> S'" "q \<noteq> r"
    consider "q = p" | "r = p" | "q \<in> S - {p}" "r \<in> S - {p}" using q r s by blast
    then show "tables_of mm' q \<inter> tables_of mm' r = {}"
    proof cases
      case 1
      then show ?thesis using new k(3) [of r] q r s by auto
    next
      case 2
      then show ?thesis using new k(3) [of q] q r s by auto
    next
      case 3
      then show ?thesis using k(3) [OF 3(1)] k(3) [OF 3(2)] maps_disjoint [OF ok, of q r] r by auto
    qed
  qed
  then show ?thesis using s k(2) by (simp add: vm_safe_def)
qed

lemma same_shape_refl [simp]: "same_shape m m"
  by (simp add: same_shape_def)

lemma edits_safe:
  assumes ok: "maps_ok S mm" and p: "p \<in> S" and e: "edits (page_map_at mm p) mm mm'"
  shows "vm_safe p S mm S mm'"
proof (rule vm_safeI [OF ok])
  note pk = maps_okD [OF ok p]
  show "pmm_inv (mm_pmm mm')" using e by (simp add: edits_def map_ok_def)
  have pm: "page_map_at mm' = page_map_at mm" by (rule editsD(1) [OF pk(1) e])
  have d: "map_kept (page_map_at mm q) mm mm' \<and> tables_of mm' p \<inter> tables_of mm q = {}" if "q \<in> S - {p}" for q
  proof -
    have q: "q \<in> S" "p \<noteq> q" using that by auto
    have disj: "otables mm (page_map_at mm p) \<inter> otables mm (page_map_at mm q) = {}"
      using maps_disjoint [OF ok p q] by (simp add: tables_of_def)
    note eo = edits_other [OF pk(2) maps_okD(2) [OF ok q(1)] disj e]
    show ?thesis using eo map_keptD(3) [OF eo(1)] by (simp add: tables_of_def pm)
  qed
  show "others_kept (S - {p}) mm mm'" using d by (simp add: others_kept_def pm)
  show "page_map_ok p mm' \<and> (\<forall>q\<in>S - {p}. tables_of mm' p \<inter> tables_of mm q = {})"
    using editsD(2) [OF pk(1) e] d by blast
qed simp

lemma collect_edits:
  assumes ok: "page_map_ok p mm" and c: "vmm_page_map_collect p mm = (b, mm')"
  shows "edits (page_map_at mm p) mm mm'" "page_view mm' p = page_view mm p"
    "mm_free mm' \<union> tables_of mm' p = mm_free mm \<union> tables_of mm p"
proof -
  let ?m = "page_map_at mm p"
  have okm: "map_ok mm ?m" using ok by (simp add: page_map_ok_def)
  have b: "below ?m [] mm mm'"
  proof (cases "map_reclaimable mm p")
    case True
    then have e: "owned_pml4_end ?m \<le> VM_PML4_ENTRY_COUNT" by (simp add: map_reclaimable_def Let_def)
    show ?thesis using collect_law(1) [OF okm e] c True by (simp add: vmm_page_map_collect_def Let_def)
  next
    case False
    then show ?thesis using c below_refl [OF okm] by (simp add: vmm_page_map_collect_def Let_def)
  qed
  then show e: "edits ?m mm mm'" by (simp add: below_def)
  note ed = editsD [OF ok e]
  show "page_view mm' p = page_view mm p" by (rule view_same [OF ok ed(2,1)]) (use b in \<open>simp add: below_def\<close>)
  show "mm_free mm' \<union> tables_of mm' p = mm_free mm \<union> tables_of mm p"
    using b by (simp add: below_def tables_of_def ed(1))
qed

section \<open>Creation\<close>

lemma fresh_map_ok:
  assumes "root_frame m \<noteq> FRAME_INVALID" "table_pointer mm (root_frame m) \<noteq> 0" "pmm_inv (mm_pmm mm)"
    and z: "pmem mm (root_frame m) = (\<lambda>_. 0)" and "root_frame m \<notin> mm_free mm"
  shows "map_ok mm m" "otables mm m = {root_frame m}" "pte_at mm m is i = 0"
proof -
  have w: "walk mm (root_frame m) js = (if js = [] then Some (root_frame m) else None)" for js
    by (cases js) (simp_all add: z)
  show t: "otables mm m = {root_frame m}" by (auto simp: otables_def w)
  show "pte_at mm m is i = 0" by (simp add: pte_at_def w z)
  show "map_ok mm m" using assms(1-3,5) unfolding map_ok_def t by (simp add: w z entry_ok_def)
qed

lemma create_effect:
  assumes p: "p \<noteq> 0" and c: "create_owned_locked p first end mm = (b, mm')" and inv: "pmm_inv (mm_pmm mm)"
    and r: "first < end" "end \<le> VM_PML4_ENTRY_COUNT"
  shows "pmm_inv (mm_pmm mm')" "vmm_use_phys_map mm' = vmm_use_phys_map mm" "mm_free mm' \<subseteq> mm_free mm"
    "\<And>q. q \<noteq> p \<Longrightarrow> page_map_at mm' q = page_map_at mm q" "\<And>g. g \<notin> mm_free mm \<Longrightarrow> pmem mm' g = pmem mm g"
    "b \<Longrightarrow> page_map_ok p mm' \<and> tables_of mm' p \<subseteq> mm_free mm \<and> page_view mm' p = Map.empty"
proof -
  define mm0 where "mm0 = update_map p (\<lambda>m. m\<lparr>root_frame := FRAME_INVALID, owned_pml4_first := 0,
                   owned_pml4_end := 0, destroy_pending := False, shared_source := False\<rparr>) mm"
  obtain x mm1 where a: "allocate_table p mm0 = (x, mm1)" by fastforce
  have al: "table_allocated mm0 x mm1" by (rule allocate_table_law [OF a]) (simp add: mm0_def inv)
  define mm2 where "mm2 = (\<lambda>root. update_map p (\<lambda>m. m\<lparr>root_frame := root, owned_pml4_first := first, owned_pml4_end := end\<rparr>) mm1)"
  have res: "(b, mm') = (case x of None \<Rightarrow> (False, mm1) | Some root \<Rightarrow> (True, mm2 root))"
  proof -
    have "\<not> (end \<le> first \<or> VM_PML4_ENTRY_COUNT < end)" using r by auto
    then show ?thesis using c p a by (cases x) (simp_all add: create_owned_locked_def mm0_def mm2_def)
  qed
  have t: "same_config mm0 mm1" "pmm_inv (mm_pmm mm1)" "mm_free mm1 \<subseteq> mm_free mm0"
    and pm: "\<And>g. g \<notin> mm_free mm0 \<Longrightarrow> pmem mm1 g = pmem mm0 g"
    using al by (auto simp: table_allocated_def split: option.splits)
  have f: "pmm_inv (mm_pmm mm') \<and> vmm_use_phys_map mm' = vmm_use_phys_map mm \<and> mm_free mm' \<subseteq> mm_free mm \<and>
    (\<forall>q. q \<noteq> p \<longrightarrow> page_map_at mm' q = page_map_at mm q) \<and> (\<forall>g. g \<notin> mm_free mm \<longrightarrow> pmem mm' g = pmem mm g)"
    using res t pm by (cases x) (auto simp: mm0_def mm2_def same_config_def)
  then show "pmm_inv (mm_pmm mm')" "vmm_use_phys_map mm' = vmm_use_phys_map mm" "mm_free mm' \<subseteq> mm_free mm"
    "\<And>q. q \<noteq> p \<Longrightarrow> page_map_at mm' q = page_map_at mm q" "\<And>g. g \<notin> mm_free mm \<Longrightarrow> pmem mm' g = pmem mm g" by blast+
  assume b
  then obtain root where x: "x = Some root" and mm': "mm' = mm2 root" using res by (cases x) auto
  have rt: "root \<in> mm_free mm" "root \<notin> mm_free mm'" "pmem mm' root = (\<lambda>_. 0)" "root \<noteq> FRAME_INVALID" "table_pointer mm' root \<noteq> 0"
    "root_frame (page_map_at mm' p) = root"
    using al f by (auto simp: x mm' mm0_def mm2_def table_allocated_def valid_mapping_frame_def table_pointer_def Let_def)
  note fm = fresh_map_ok [of "page_map_at mm' p" mm', unfolded rt(6), OF rt(4,5) conjunct1 [OF f] rt(3,2)]
  have ok: "page_map_ok p mm'" using p fm(1) by (simp add: page_map_ok_def)
  then show "page_map_ok p mm' \<and> tables_of mm' p \<subseteq> mm_free mm \<and> page_view mm' p = Map.empty"
    using fm(2,3) rt(1) by (simp add: tables_of_def fun_eq_iff page_view_leaf [OF ok] decode_leaf_def)
qed

lemma create_fields:
  assumes "vmm_page_map_create_owned_range p first end mm = (b, mm')"
  shows "(q \<noteq> p \<longrightarrow> page_map_at mm' q = page_map_at mm q) \<and>
    (if b then owned_pml4_first (page_map_at mm' p) = first \<and> owned_pml4_end (page_map_at mm' p) = end
     else root_frame (page_map_at mm p) = FRAME_INVALID \<longrightarrow> root_frame (page_map_at mm' p) = FRAME_INVALID)"
proof -
  have al: "page_map_at mm1 = page_map_at mm0" if "allocate_table p mm0 = (r, mm1)" for mm0 mm1 r
    using that by (auto simp: allocate_table_def test_fault_def mm_frame_alloc_def free_table_def mm_frame_free_def Let_def
      split: if_split_asm prod.split_asm)
  show ?thesis
    using assms
    by (auto simp: vmm_page_map_create_owned_range_def create_owned_locked_def Let_def
      split: if_split_asm prod.split_asm option.split_asm dest!: al)
qed

lemma create_safe:
  assumes ok: "maps_ok S mm" and p: "p \<notin> S" and c: "vmm_page_map_create_owned_range p first end mm = (b, mm')"
  shows "vm_safe p S mm (if b then insert p S else S) mm'" and "b \<Longrightarrow> page_view mm' p = Map.empty"
proof -
  have inv: "pmm_inv (mm_pmm mm)" using ok by (simp add: maps_ok_def)
  have Sp: "S - {p} = S" using p by simp
  have "vm_safe p S mm (if b then insert p S else S) mm' \<and> (b \<longrightarrow> page_view mm' p = Map.empty)"
  proof (cases "profile_supported mm \<and> p \<noteq> 0 \<and> first < end \<and> end \<le> VM_PML4_ENTRY_COUNT")
    case False
    then have "(b, mm') = (False, mm)"
      using c by (auto simp: vmm_page_map_create_owned_range_def create_owned_locked_def not_le not_less split: if_split_asm)
    then show ?thesis using ok by (simp add: vm_safe_def)
  next
    case True
    then have c': "create_owned_locked p first end mm = (b, mm')" using c by (simp add: vmm_page_map_create_owned_range_def)
    note ef = create_effect [OF _ c' inv, simplified True, simplified]
    have nf: "tables_of mm q \<inter> mm_free mm = {}" if "q \<in> S" for q
      using maps_okD(2) [OF ok that] by (auto simp: map_ok_def tables_of_def)
    have "map_kept (page_map_at mm q) mm mm'" if "q \<in> S" for q
    proof (rule tables_kept [OF maps_okD(2) [OF ok that] ef(2,1)])
      show "mm_free mm' \<inter> otables mm (page_map_at mm q) = {}" using ef(3) nf [OF that] by (auto simp: tables_of_def)
      fix g j assume "own_entry mm (page_map_at mm q) g j"
      then have "g \<notin> mm_free mm" using nf [OF that] by (auto simp: own_entry_def tables_of_def)
      then show "pmem mm' g j = pmem mm g j" using ef(5) by simp
    qed
    moreover have "page_map_at mm' q = page_map_at mm q" if "q \<in> S" for q using ef(4) [of q] p that by auto
    ultimately have "others_kept (S - {p}) mm mm'" using p by (auto simp: others_kept_def)
    then have "vm_safe p S mm (if b then insert p S else S) mm'"
    proof (rule vm_safeI [OF ok ef(1)])
      assume "p \<in> (if b then insert p S else S)"
      then have b using p by (simp split: if_split_asm)
      then show "page_map_ok p mm' \<and> (\<forall>q\<in>S - {p}. tables_of mm' p \<inter> tables_of mm q = {})"
        using ef(6) nf Sp by blast
    qed (use p in auto)
    then show ?thesis using ef(6) by blast
  qed
  then show "vm_safe p S mm (if b then insert p S else S) mm'" and "b \<Longrightarrow> page_view mm' p = Map.empty" by blast+
qed

section \<open>Sharing and destruction\<close>

lemma share_safe:
  assumes ok: "maps_ok S mm" and p: "p \<in> S" and q: "q \<in> S" and c: "vmm_page_map_share_pml4_entry p q i mm = (b, mm')"
  shows "vm_safe p S mm S mm'" and "page_view mm' p = page_view mm p"
proof -
  let ?d = "page_map_at mm p" and ?s = "page_map_at mm q"
  have inv: "pmm_inv (mm_pmm mm)" using ok by (simp add: maps_ok_def)
  obtain e where e: "mm' = mm \<or> \<not> map_owns_pml4_index ?d (ucast i) \<and>
      (mm' = write_entry (root_frame ?d) (ucast i) e mm \<or>
       mm' = update_map q (\<lambda>m. m\<lparr>shared_source := True\<rparr>) (write_entry (root_frame ?d) (ucast i) e mm))"
    using c by (auto simp: vmm_page_map_share_pml4_entry_def share_locked_def Let_def split: if_split_asm)
  have f: "mm_pmm mm' = mm_pmm mm" "vmm_use_phys_map mm' = vmm_use_phys_map mm"
    "\<And>r. same_shape (page_map_at mm r) (page_map_at mm' r)"
    using e by (auto simp: same_shape_def write_entry_def)
  have pm: "pmem mm' g j = pmem mm g j" if "\<not> (g = root_frame ?d \<and> j = ucast i \<and> \<not> map_owns_pml4_index ?d (ucast i))" for g j
    using e that by auto
  have root: "root_frame ?d \<in> tables_of mm p" unfolding tables_of_def by (rule otablesI [OF opath_Nil]) simp
  have k: "map_kept (page_map_at mm r) mm mm'" if "r \<in> S" for r
  proof (rule tables_kept [OF maps_okD(2) [OF ok that] f(2)])
    show "pmm_inv (mm_pmm mm')" using inv f(1) by simp
    show "mm_free mm' \<inter> otables mm (page_map_at mm r) = {}"
      using maps_okD(2) [OF ok that] f(1) by (auto simp: map_ok_def)
    fix g j assume g: "own_entry mm (page_map_at mm r) g j"
    have "g \<noteq> root_frame ?d" if "r \<noteq> p"
      using maps_disjoint [OF ok p \<open>r \<in> S\<close>] root g that by (auto simp: own_entry_def tables_of_def)
    then have "\<not> (g = root_frame ?d \<and> j = ucast i \<and> \<not> map_owns_pml4_index ?d (ucast i))"
      using g by (cases "r = p") (auto simp: own_entry_def)
    then show "pmem mm' g j = pmem mm g j" by (rule pm)
  qed
  show "page_view mm' p = page_view mm p" by (rule kept_view(2) [OF maps_okD(1) [OF ok p] k [OF p] f(3)])
  show "vm_safe p S mm S mm'"
  proof (rule vm_safeI [OF ok])
    show "pmm_inv (mm_pmm mm')" using inv f(1) by simp
    show "others_kept (S - {p}) mm mm'" using k f(3) by (simp add: others_kept_def)
    show "page_map_ok p mm' \<and> (\<forall>q\<in>S - {p}. tables_of mm' p \<inter> tables_of mm q = {})"
      using kept_view(1,3) [OF maps_okD(1) [OF ok p] k [OF p] f(3)] maps_disjoint [OF ok p] by auto
  qed simp
qed

text \<open>The map after a collection and possibly the release of its root, seen from another map.\<close>

lemma kept_after_below:
  assumes ok: "maps_ok S mm" and p: "p \<in> S" and q: "q \<in> S" "q \<noteq> p"
    and b: "below (page_map_at mm p) [] (marked p True mm) mm1"
    and mm2: "pmem mm2 = pmem mm1" "vmm_use_phys_map mm2 = vmm_use_phys_map mm" "pmm_inv (mm_pmm mm2)"
      "mm_free mm2 \<subseteq> mm_free mm1 \<union> otables mm1 (page_map_at mm p)"
  shows "map_kept (page_map_at mm q) mm mm2" "otables mm1 (page_map_at mm p) \<inter> tables_of mm q = {}"
proof -
  let ?m = "page_map_at mm p" and ?n = "page_map_at mm q" and ?mm0 = "marked p True mm"
  note pk = marked_kept [OF maps_okD(2) [OF ok p], of p True]
  note qk = marked_kept [OF maps_okD(2) [OF ok q(1)], of p True]
  have disj: "otables ?mm0 ?m \<inter> otables ?mm0 ?n = {}"
    using maps_disjoint [OF ok p q(1)] q(2) map_keptD(3) [OF pk] map_keptD(3) [OF qk] by (auto simp: tables_of_def)
  have e: "edits ?m ?mm0 mm1" using b by (simp add: below_def)
  note eo = edits_other [OF map_keptD(1) [OF pk] map_keptD(1) [OF qk] disj e]
  have t: "otables mm1 ?n = otables mm ?n" using map_keptD(3) [OF eo(1)] map_keptD(3) [OF qk] by simp
  then show "otables mm1 ?m \<inter> tables_of mm q = {}" using eo(2) by (simp add: tables_of_def)
  have nf: "mm_free mm1 \<inter> otables mm1 ?n = {}" using map_keptD(1) [OF eo(1)] by (auto simp: map_ok_def)
  have "map_kept ?n mm1 mm2"
    by (rule tables_kept_same [OF map_keptD(1) [OF eo(1)] mm2(1) _ mm2(3)])
      (use e mm2(2,4) nf eo(2) in \<open>auto simp: edits_def same_config_def marked_def\<close>)
  then show "map_kept ?n mm mm2"
    using qk eo(1) by (auto simp: map_kept_def intro: same_ptes_trans)
qed

lemma destroy_safe:
  assumes ok: "maps_ok S mm" and p: "p \<in> S" and c: "vmm_page_map_destroy p mm = (b, mm')"
  shows "vm_safe p S mm (if b then S - {p} else S) mm'"
    and "b \<Longrightarrow> page_view mm p = Map.empty \<and> mm_free mm' = mm_free mm \<union> tables_of mm p"
    and "\<not> b \<Longrightarrow> page_view mm' p = page_view mm p"
proof -
  let ?m = "page_map_at mm p"
  note pk = marked_kept [OF maps_okD(2) [OF ok p], of p True]
  have "vm_safe p S mm (if b then S - {p} else S) mm' \<and>
    (b \<longrightarrow> page_view mm p = Map.empty \<and> mm_free mm' = mm_free mm \<union> tables_of mm p) \<and> (\<not> b \<longrightarrow> page_view mm' p = page_view mm p)"
    using maps_okD(1) [OF ok p] c
  proof (cases rule: destroy_cases)
    case same
    then show ?thesis using ok by (simp add: vm_safe_def)
  next
    case (partly mm1)
    have at: "page_map_at mm' = page_map_at (marked p True mm)" "vmm_use_phys_map mm' = vmm_use_phys_map mm"
      using partly(2,3) by (simp_all add: below_def edits_def same_config_def marked_def)
    then have sh: "same_shape (page_map_at mm r) (page_map_at mm' r)" for r by (simp add: same_shape_def marked_def)
    note kb = kept_after_below [OF ok p _ _ partly(2,4) at(2) partly(5)]
    have k: "map_kept ?m mm1 mm'"
      by (rule tables_kept_same [OF below_ok [OF partly(2)] partly(4) _ partly(5)])
        (use partly(3,6) below_ok [OF partly(2)] in \<open>auto simp: same_config_def map_ok_def\<close>)
    have okp: "page_map_ok p mm'" using maps_okD(1) [OF ok p] map_keptD(1) [OF k] by (simp add: page_map_ok_def same_shape_map [OF sh])
    have "same_ptes ?m mm mm'"
      using same_ptes_trans [OF map_keptD(2) [OF pk]] same_ptes_trans [OF _ map_keptD(2) [OF k]] partly(2) by (simp add: below_def)
    from view_shape [OF maps_okD(1) [OF ok p] okp this sh] have v: "page_view mm' p = page_view mm p" .
    have "vm_safe p S mm S mm'"
      by (rule vm_safeI [OF ok partly(5)])
        (use kb partly(6) sh okp map_keptD(3) [OF k] in \<open>auto simp: others_kept_def tables_of_def same_shape_map [OF sh]\<close>)
    then show ?thesis using partly(1) v by simp
  next
    case (gone mm1 mm2)
    have at: "page_map_at mm2 = page_map_at (marked p True mm)" "vmm_use_phys_map mm' = vmm_use_phys_map mm"
      "pmem mm' = pmem mm1" "mm_pmm mm' = mm_pmm mm2"
      using gone(3,5,6,9) by (simp_all add: below_def edits_def same_config_def marked_def)
    have sh: "same_shape (page_map_at mm r) (page_map_at mm' r)" if "r \<noteq> p" for r
      using that at(1) by (simp add: same_shape_def marked_def gone(9))
    note kb = kept_after_below [OF ok p _ _ gone(3) at(3,2), unfolded at(4), OF _ _ gone(7)]
    have "vm_safe p S mm (S - {p}) mm'"
      by (rule vm_safeI [OF ok]) (use kb gone(4,7,8) sh at(4) in \<open>auto simp: others_kept_def\<close>)
    moreover have "mm_free mm' = mm_free mm \<union> tables_of mm p"
      using gone(3,4,8) at(4) map_keptD(3) [OF pk] by (auto simp: below_def tables_of_def marked_def)
    ultimately show ?thesis using gone(1,2) by simp
  qed
  then show "vm_safe p S mm (if b then S - {p} else S) mm'"
    and "b \<Longrightarrow> page_view mm p = Map.empty \<and> mm_free mm' = mm_free mm \<union> tables_of mm p"
    and "\<not> b \<Longrightarrow> page_view mm' p = page_view mm p" by blast+
qed

section \<open>Runs\<close>

lemma vm_step_safe:
  assumes "vm_step p (S, mm) (S', mm')" and ok: "maps_ok S mm"
  shows "vm_safe p S mm S' mm'"
  using assms(1)
proof cases
  case (map_page v f fl b)
  have "vm_safe p S mm S mm'"
    by (rule edits_safe [OF ok map_page(2) map_page_contract(1) [OF maps_okD(1) [OF ok map_page(2)] map_page(3)]])
  then show ?thesis using map_page(1) by simp
next
  case (unmap_page v r)
  have "vm_safe p S mm S mm'"
    by (rule edits_safe [OF ok unmap_page(2) unmap_page_contract(1) [OF maps_okD(1) [OF ok unmap_page(2)] unmap_page(3)]])
  then show ?thesis using unmap_page(1) by simp
next
  case (set_writable v f fl w b)
  have "vm_safe p S mm S mm'"
    by (rule edits_safe [OF ok set_writable(2) set_writable_contract(1) [OF maps_okD(1) [OF ok set_writable(2)] set_writable(3)]])
  then show ?thesis using set_writable(1) by simp
next
  case (collect b)
  have "vm_safe p S mm S mm'"
    by (rule edits_safe [OF ok collect(2) collect_edits(1) [OF maps_okD(1) [OF ok collect(2)] collect(3)]])
  then show ?thesis using collect(1) by simp
next
  case (share q i b)
  then show ?thesis using share_safe(1) [OF ok share(2-4)] by simp
next
  case (create first "end" b)
  then show ?thesis using create_safe(1) [OF ok create(2,3)] by simp
next
  case (destroy b)
  then show ?thesis using destroy_safe(1) [OF ok destroy(2,3)] by simp
qed

text \<open>A run of steps on the maps of the set \<open>A\<close>.\<close>

inductive vm_run :: "ptr set \<Rightarrow> ptr set \<times> Mm \<Rightarrow> ptr set \<times> Mm \<Rightarrow> bool" for A where
  vm_done: "vm_run A s s"
| vm_more: "vm_run A s s' \<Longrightarrow> p \<in> A \<Longrightarrow> vm_step p s' s'' \<Longrightarrow> vm_run A s s''"

lemma vm_run_safe:
  assumes "vm_run A s s'" and "maps_ok (fst s) (snd s)"
  shows "maps_ok (fst s') (snd s') \<and> (\<forall>q\<in>fst s - A. q \<in> fst s' \<and> page_view (snd s') q = page_view (snd s) q)"
  using assms
proof induction
  case (vm_more s s' p s'')
  then have ih: "maps_ok (fst s') (snd s')" "\<forall>q\<in>fst s - A. q \<in> fst s' \<and> page_view (snd s') q = page_view (snd s) q" by auto
  have v: "vm_safe p (fst s') (snd s') (fst s'') (snd s'')"
    by (rule vm_step_safe [OF _ ih(1)]) (use vm_more.hyps(3) in simp)
  have "q \<in> fst s'' \<and> page_view (snd s'') q = page_view (snd s) q" if "q \<in> fst s - A" for q
  proof -
    have "q \<in> fst s' - {p}" using that ih(2) vm_more.hyps(2) by auto
    moreover from this have "q \<in> fst s'' - {p}" using v unfolding vm_safe_def by blast
    ultimately show ?thesis using v that ih(2) by (simp add: vm_safe_def)
  qed
  then show ?case using v by (simp add: vm_safe_def)
qed simp

end
