(* ===== verification/VMM_Properties.thy ===== *)
theory VMM_Properties
  imports VMM_System
begin

text \<open>
  What \<^verbatim>\<open>kernel/vmm.c\<close> promises: mapping, unmapping and protecting a page update the map's
  partial function at one address, ranges are mapped page by page, tables are neither lost nor
  shared, and maps are isolated from each other.
\<close>

section \<open>Ranges\<close>

lemma step_guards:
  "(if a1 then (False, s) else if a2 then (False, s) else case Q of Some (g, gl) \<Rightarrow> (C g gl, s) | None \<Rightarrow> X) = (b, s') \<Longrightarrow>
    \<not> b \<and> s' = s \<or> (\<not> a1 \<and> (\<exists>g gl. Q = Some (g, gl) \<and> (b \<longrightarrow> C g gl)) \<and> s' = s) \<or> X = (b, s')"
  by (auto split: if_split_asm option.split_asm)

lemma map_range_step_law:
  assumes ok: "page_map_ok p mm" and c: "map_range_step p va pa fl i mm = (b, mm')"
  shows "page_map_ok p mm'" "page_map_at mm' = page_map_at mm" "page_view mm p u = Some x \<Longrightarrow> page_view mm' p u = Some x"
    "b \<Longrightarrow> \<exists>fl'. page_view mm' p (va + i * VM_PAGE_SIZE) = Some (phys_to_frame (pa + i * VM_PAGE_SIZE), fl') \<and> fl' AND fl = fl"
proof -
  let ?v = "va + i * VM_PAGE_SIZE" and ?f = "phys_to_frame (pa + i * VM_PAGE_SIZE)"
  note c' = step_guards [OF c [unfolded map_range_step_def Let_def]]
  have "page_map_ok p mm' \<and> page_map_at mm' = page_map_at mm \<and> (page_view mm p u = Some x \<longrightarrow> page_view mm' p u = Some x) \<and>
    (b \<longrightarrow> (\<exists>fl'. page_view mm' p ?v = Some (?f, fl') \<and> fl' AND fl = fl))"
    using c'
  proof (elim disjE)
    assume "\<not> b \<and> mm' = mm"
    then show ?thesis using ok by simp
  next
    assume a: "\<not> \<not> map_owns_pml4_index (page_map_at mm p) (pml4_index ?v) \<and>
      (\<exists>g gl. vmm_query_page mm p ?v = Some (g, gl) \<and> (b \<longrightarrow> g = ?f \<and> gl AND fl = fl)) \<and> mm' = mm"
    then obtain g gl where q: "vmm_query_page mm p ?v = Some (g, gl)" "b \<longrightarrow> g = ?f \<and> gl AND fl = fl" by blast
    then have "page_aligned ?v \<and> virtual_address_canonical ?v"
      by (simp add: vmm_query_page_def Let_def split: if_split_asm)
    then have "page_view mm p ?v = Some (g, gl)" using q(1) a by (simp add: page_view_def map_covers_def)
    then show ?thesis using q(2) ok a by auto
  next
    assume new: "vmm_map_page p ?v ?f fl mm = (b, mm')"
    note e = map_page_contract(1) [OF ok new]
    have "b \<longrightarrow> page_view mm' p ?v = Some (?f, fl)" using vmm.map_view [OF ok new] by simp
    then show ?thesis using editsD [OF ok e] vmm.map_keeps [OF ok new] by auto
  qed
  then show "page_map_ok p mm'" "page_map_at mm' = page_map_at mm" "page_view mm p u = Some x \<Longrightarrow> page_view mm' p u = Some x"
    "b \<Longrightarrow> \<exists>fl'. page_view mm' p ?v = Some (?f, fl') \<and> fl' AND fl = fl" by blast+
qed

lemma map_range_loop:
  assumes "page_map_ok p mm" and "loop_all (map_range_step p va pa fl) is mm = (b, mm')"
  shows "page_map_ok p mm' \<and> (\<forall>u x. page_view mm p u = Some x \<longrightarrow> page_view mm' p u = Some x) \<and>
    (b \<longrightarrow> (\<forall>i\<in>set is. \<exists>fl'. page_view mm' p (va + i * VM_PAGE_SIZE) = Some (phys_to_frame (pa + i * VM_PAGE_SIZE), fl') \<and>
      fl' AND fl = fl))"
  using assms
proof (induction "is" arbitrary: mm)
  case (Cons i "is")
  obtain b1 mm1 where s: "map_range_step p va pa fl i mm = (b1, mm1)" by fastforce
  note st = map_range_step_law [OF Cons.prems(1) s]
  show ?case
  proof (cases b1)
    case True
    then have "loop_all (map_range_step p va pa fl) is mm1 = (b, mm')" using Cons.prems(2) s by simp
    note ih = Cons.IH [OF st(1) this]
    then show ?thesis using st(3,4) True by (auto simp: ball_simps)
  next
    case False
    then show ?thesis using Cons.prems(2) s st(1,3) by auto
  qed
qed simp

lemma range_guards:
  "(if a1 then (False, s) else if z then (True, s) else if a2 then (False, s) else if a3 then (False, s)
    else if a4 then (False, s) else if a5 then (False, s) else if a6 then (False, s) else if a7 then (False, s)
    else if a8 then (False, s) else X) = (b, s') \<Longrightarrow> (b \<longrightarrow> z) \<and> s' = s \<or> X = (b, s')"
  by (auto split: if_split_asm)

lemma map_page_succeeds:
  assumes ok: "page_map_ok p mm" and c: "vmm_map_page p v f fl mm = (b, mm')"
    and a: "map_page_allowed mm p v f fl" "profile_supported mm" "page_view mm p v = None"
      "walk mm (root_frame (page_map_at mm p)) (leaf_path v) \<noteq> None"
  shows "b"
proof -
  obtain b1 mm1 where l: "map_page_locked p v f fl mm = (b1, mm1)" by fastforce
  have "map_covers (page_map_at mm p) v" using a(1) unfolding map_page_allowed_def map_covers_def Let_def by blast
  then have "pte_at mm (page_map_at mm p) (leaf_path v) (pt_index v) = 0"
    using a(3) by (simp add: page_view_leaf [OF ok] decode_leaf_def split: if_split_asm)
  then have b1 using map_page_locked_law [OF ok [unfolded page_map_ok_def, THEN conjunct2] l] a(1,4) by blast
  then show ?thesis using c l a(2) by (simp add: vmm_map_page_def)
qed

section \<open>Properties\<close>

text \<open>C5. \<^verbatim>\<open>vmm_map_page\<close> implements the update of a partial map: on success the page was unmapped
  before and is now mapped to exactly the frame and the rights asked for, on failure (no
  memory, a bad request, a page already mapped) every translation of the map is as before, even
  where tables were created and rolled back; the invariant of the map is kept. Once its tables
  exist, mapping an unmapped page with an admissible request succeeds.
\<close>

theorem map_page_refines:
  assumes "page_map_ok p mm" and "vmm_map_page p v f fl mm = (b, mm')"
  shows "page_map_ok p mm' \<and>
    page_view mm' p = (if b then (page_view mm p)(v \<mapsto> (f, fl)) else page_view mm p) \<and>
    (b \<longrightarrow> page_view mm p v = None) \<and>
    (map_page_allowed mm p v f fl \<and> profile_supported mm \<and> page_view mm p v = None \<and>
       walk mm (root_frame (page_map_at mm p)) (leaf_path v) \<noteq> None \<longrightarrow> b)"
proof -
  have "b \<longrightarrow> page_view mm p v = None" using vmm.map_fresh [OF assms(1), of v f fl mm'] assms(2) by (cases b) auto
  then show ?thesis using vmm.map_inv [OF assms] vmm.map_view [OF assms] map_page_succeeds [OF assms] by blast
qed

text \<open>C6. \<^verbatim>\<open>vmm_unmap_page\<close> removes exactly one translation: when it returns a frame, that frame was
  mapped at the address, the address is unmapped afterwards and no other address changes,
  although empty tables may have been freed on the way; otherwise nothing changes.
\<close>

theorem unmap_page_refines:
  assumes "page_map_ok p mm" and "vmm_unmap_page p v mm = (r, mm')"
  shows "page_map_ok p mm' \<and>
    (case r of
       None \<Rightarrow> mm' = mm
     | Some f \<Rightarrow> (\<exists>fl. page_view mm p v = Some (f, fl)) \<and> page_view mm' p = (page_view mm p)(v := None))"
  using vmm.unmap_inv [OF assms] vmm.unmap_some [OF assms(1)] vmm.unmap_none [OF assms(1)] assms(2)
  by (auto split: option.split)

text \<open>C9. \<^verbatim>\<open>vmm_set_writable\<close> changes only the write right of one page, only if the page has the
  frame and the rights the caller expects, and never on an executable page; a refusal changes
  nothing.
\<close>

theorem set_writable_refines:
  assumes "page_map_ok p mm" and "vmm_set_writable p v f fl w mm = (b, mm')"
  shows "page_map_ok p mm' \<and>
    (if b then page_view mm p v = Some (f, fl) \<and> \<not> has fl VM_EXEC \<and>
       page_view mm' p = (page_view mm p)(v \<mapsto> (f, if w then fl OR VM_WRITE else fl AND NOT VM_WRITE))
     else mm' = mm)"
  using set_writable_contract [OF assms] editsD(2) [OF assms(1)] by auto

text \<open>C8. \<^verbatim>\<open>vmm_map_range\<close> never unmaps or remaps a page, whatever its result; when it returns
  true, every page of the range is mapped to the matching physical frame with at least the
  rights asked for.
\<close>

theorem map_range_maps:
  assumes "page_map_ok p mm" and "vmm_map_range p va pa bytes fl mm = (b, mm')"
  shows "page_map_ok p mm' \<and>
    (\<forall>u x. page_view mm p u = Some x \<longrightarrow> page_view mm' p u = Some x) \<and>
    (b \<longrightarrow> (\<forall>i < (bytes + VM_PAGE_SIZE - 1) div VM_PAGE_SIZE.
       \<exists>fl'. page_view mm' p (va + i * VM_PAGE_SIZE) = Some (phys_to_frame (pa + i * VM_PAGE_SIZE), fl') \<and> fl' AND fl = fl))"
proof -
  from range_guards [OF assms(2) [unfolded vmm_map_range_def Let_def]] show ?thesis
  proof
    assume "(b \<longrightarrow> bytes = 0) \<and> mm' = mm"
    then show ?thesis using assms(1) by auto
  next
    assume "loop_all (map_range_step p va pa fl) (upto_u64 ((bytes + VM_PAGE_SIZE - 1) div VM_PAGE_SIZE)) mm = (b, mm')"
    from map_range_loop [OF assms(1) this] show ?thesis by simp
  qed
qed

text \<open>C7. Collecting and destroying lose no frame: a collection changes no translation and keeps
  the union of the free frames and the map's tables; a destruction succeeds only for a map with
  no page, and then exactly its table frames, root included, have become free.
\<close>

theorem destroy_reclaims:
  assumes "maps_ok S mm" and "p \<in> S"
  shows "(case vmm_page_map_collect p mm of (b, mm') \<Rightarrow>
      page_view mm' p = page_view mm p \<and> mm_free mm' \<union> tables_of mm' p = mm_free mm \<union> tables_of mm p) \<and>
    (case vmm_page_map_destroy p mm of (b, mm') \<Rightarrow>
      if b then page_view mm p = Map.empty \<and> mm_free mm' = mm_free mm \<union> tables_of mm p
      else page_view mm' p = page_view mm p)"
  using collect_edits(2,3) [OF maps_okD(1) [OF assms]] destroy_safe(2,3) [OF assms] by (auto split: prod.split)

text \<open>C3. Isolation of the owned range. Whatever sequence of map, unmap, protect, collect, share,
  create and destroy operations runs on other page maps, a live map keeps every translation in the
  range of PML4 slots it owns; and every live map stays well formed, with tables it owns that are
  disjoint from the tables the other maps own and from the free frames. Nothing is said of the
  slots outside the owned range: a slot shared from another map follows the changes of that map, as
  it is meant to.
\<close>

theorem vm_isolation:
  assumes "maps_ok S mm" and "vm_run A (S, mm) (S', mm')"
  shows "maps_ok S' mm' \<and> (\<forall>q\<in>S - A. q \<in> S' \<and> page_view mm' q = page_view mm q)"
  using vm_run_safe [OF assms(2)] assms(1) by simp

section \<open>A concrete memory\<close>

text \<open>
  Two maps. The one at \<open>0x1000\<close> has the root frame 16 and tables in the frames 17 to 19; the
  user page at \<open>0x8000001000\<close> is mapped to the frame 33, writable. The one at \<open>0x2000\<close> is empty; there is no other.
\<close>

definition demo_mm :: Mm where
  "demo_mm =
     \<lparr>mm_pmm = demo_pmm,
      pmem = (\<lambda>f i. if f = 16 \<and> i = 1 then 0x11007 else if f = 17 \<and> i = 0 then 0x12007
        else if f = 18 \<and> i = 0 then 0x13007 else if f = 19 \<and> i = 1 then 0x8000000000021007 else 0),
      page_map_at = (\<lambda>p. \<lparr>root_frame = (if p = 0x1000 then 16 else if p = 0x2000 then 20 else FRAME_INVALID),
        owned_pml4_first = (if p = 0x1000 then 1 else 0), owned_pml4_end = (if p = 0x1000 then 256 else 512),
        destroy_pending = False, shared_source = False\<rparr>),
      mm_cpu = \<lparr>cr0 = 0, cr3 = 0, cr4 = 0, msr = (\<lambda>_. 0), cpuid = (\<lambda>_ _. (0, 0, 0, 0))\<rparr>,
      vmm_use_phys_map = False, g_nx_enabled = True, g_unlinked_table = FRAME_INVALID,
      g_faults = (\<lambda>_. \<lparr>fault_map = 0, fault_skip = 0, fault_armed = False\<rparr>)\<rparr>"

abbreviation demo_map :: VmPageMap where
  "demo_map \<equiv> \<lparr>root_frame = 16, owned_pml4_first = 1, owned_pml4_end = 256, destroy_pending = False, shared_source = False\<rparr>"

abbreviation demo_empty_map :: VmPageMap where
  "demo_empty_map \<equiv> demo_map\<lparr>root_frame := 20, owned_pml4_first := 0, owned_pml4_end := 512\<rparr>"

lemma demo_maps [simp]:
  "page_map_at demo_mm 0x1000 = demo_map" "page_map_at demo_mm 0x2000 = demo_empty_map"
  "mm_pmm demo_mm = demo_pmm"
  by (simp_all add: demo_mm_def)

lemma demo_entries:
  "pmem demo_mm f i = (if f = 16 \<and> i = 1 then 0x11007 else if f = 17 \<and> i = 0 then 0x12007
        else if f = 18 \<and> i = 0 then 0x13007 else if f = 19 \<and> i = 1 then 0x8000000000021007 else 0)"
  by (simp add: demo_mm_def)

lemma demo_pointer [simp]: "f \<in> {16, 17, 18, 19, 20} \<Longrightarrow> table_pointer demo_mm f \<noteq> 0"
  by (auto simp: table_pointer_def demo_mm_def frame_to_phys_def)

lemma demo_frames [simp]:
  "entry_frame 0x11007 = 17" "entry_frame 0x12007 = 18" "entry_frame 0x13007 = 19" "entry_frame 0x8000000000021007 = 33"
  by (simp_all add: entry_frame_def phys_to_frame_def)

lemma demo_existing:
  "f \<in> {16, 17, 18} \<Longrightarrow> existing_table demo_mm f i = (if i = (if f = 16 then 1 else 0) then Some (f + 1) else None)"
  "existing_table demo_mm 20 i = None"
  by (auto simp: existing_table_def demo_entries Let_def)

lemma demo_walk:
  "length js \<le> 3 \<Longrightarrow> walk demo_mm 16 js =
     (if js = [] then Some 16 else if js = [1] then Some 17 else if js = [1, 0] then Some 18
      else if js = [1, 0, 0] then Some 19 else None)"
  by (cases js; cases "tl js"; cases "tl (tl js)"; auto simp: demo_existing)

lemma demo_walk_empty: "walk demo_mm 20 js = (if js = [] then Some 20 else None)"
  by (cases js) (simp_all add: demo_existing)

lemma demo_tables: "otables demo_mm demo_map = {16, 17, 18, 19}"
proof -
  have o: "opath demo_map js" if "js \<in> {[], [1], [1, 0], [1, 0, 0]}" for js
    using that by (auto simp: opath_def map_owns_pml4_index_def)
  have "f \<in> otables demo_mm demo_map" if "js \<in> {[], [1], [1, 0], [1, 0, 0]}" "walk demo_mm 16 js = Some f" for js f
    using otablesI [OF o [OF that(1)]] that(2) by simp
  from this [of "[]" 16] this [of "[1]" 17] this [of "[1, 0]" 18] this [of "[1, 0, 0]" 19]
  have "{16, 17, 18, 19} \<subseteq> otables demo_mm demo_map"
    by (simp add: demo_existing)
  moreover have "otables demo_mm demo_map \<subseteq> {16, 17, 18, 19}"
    by (auto simp: otables_def opath_def demo_walk split: if_split_asm)
  ultimately show ?thesis by blast
qed

lemma demo_map_ok: "map_ok demo_mm demo_map"
  unfolding map_ok_def demo_tables
proof (intro conjI allI impI)
  show "pmm_inv (mm_pmm demo_mm)" using demo_inv by simp
  show "{16, 17, 18, 19} \<inter> mm_free demo_mm = {}" using demo_free by simp
  fix js ks f assume "opath demo_map js \<and> opath demo_map ks \<and> walk demo_mm (root_frame demo_map) js = Some f \<and>
    walk demo_mm (root_frame demo_map) ks = Some f"
  then show "js = ks" by (auto simp: opath_def demo_walk split: if_split_asm)
next
  fix js f i assume a: "opath demo_map (js @ [i]) \<and> walk demo_mm (root_frame demo_map) js = Some f"
  then have "f \<in> {16, 17, 18}" by (auto simp: opath_def demo_walk split: if_split_asm)
  then show "entry_ok demo_mm (pmem demo_mm f i)" by (auto simp: entry_ok_def demo_entries)
next
  fix js f i assume a: "opath demo_map js \<and> length js = 3 \<and> i < 512 \<and> walk demo_mm (root_frame demo_map) js = Some f \<and>
    pmem demo_mm f i \<noteq> 0"
  then have "pmem demo_mm f i = 0x8000000000021007 \<and> js = [1, 0, 0]" by (auto simp: opath_def demo_walk demo_entries split: if_split_asm)
  then show "bit (pmem demo_mm f i) 0" "bit (pmem demo_mm f i) 2 \<Longrightarrow> user_path demo_mm (root_frame demo_map) js"
    by (simp_all add: demo_existing demo_entries)
qed simp_all

lemma demo_empty_ok: "map_ok demo_mm demo_empty_map" "otables demo_mm demo_empty_map = {20}"
proof -
  have z: "pmem demo_mm 20 = (\<lambda>_. 0)" by (simp add: demo_entries fun_eq_iff)
  note f = fresh_map_ok [of demo_empty_map demo_mm]
  show "map_ok demo_mm demo_empty_map" "otables demo_mm demo_empty_map = {20}"
    using f(1,2) z demo_inv demo_free by simp_all
qed

lemma demo_page_map_ok: "page_map_ok 0x1000 demo_mm" "maps_ok {0x1000, 0x2000} demo_mm"
proof -
  show "page_map_ok 0x1000 demo_mm" using demo_map_ok by (simp add: page_map_ok_def)
  then show "maps_ok {0x1000, 0x2000} demo_mm"
    using demo_empty_ok demo_inv by (auto simp: maps_ok_def page_map_ok_def tables_of_def demo_tables)
qed

lemma demo_pte: "pte_at demo_mm demo_map [1, 0, 0] i = pmem demo_mm 19 i"
  by (simp add: pte_at_def demo_existing)

lemma demo_view: "page_view demo_mm 0x1000 0x8000001000 = Some (33, VM_WRITE OR VM_USER)" "page_view demo_mm 0x1000 0x8000003000 = None"
proof -
  have i: "leaf_path 0x8000001000 = [1, 0, 0]" "leaf_path 0x8000003000 = [1, 0, 0]" "pt_index 0x8000001000 = 1" "pt_index 0x8000003000 = 3"
    "map_covers demo_map 0x8000001000"
    by (simp_all add: leaf_path_def pml4_index_def pdpt_index_def pd_index_def pt_index_def map_covers_def
      page_aligned_def virtual_address_canonical_def map_owns_pml4_index_def)
  have "vmm_test_entry_flags 0x8000000000021007 = VM_WRITE OR VM_USER" by (simp add: vmm_test_entry_flags_def Let_def)
  then show "page_view demo_mm 0x1000 0x8000001000 = Some (33, VM_WRITE OR VM_USER)" "page_view demo_mm 0x1000 0x8000003000 = None"
    unfolding page_view_leaf [OF demo_page_map_ok(1)] demo_maps(1) i demo_pte by (simp_all add: i demo_entries decode_leaf_def)
qed

lemma demo_view_all: "page_view demo_mm 0x1000 v = (if v = 0x8000001000 then Some (33, VM_WRITE OR VM_USER) else None)"
proof (cases "v = 0x8000001000")
  case False
  show ?thesis
  proof (cases "map_covers demo_map v \<and> pte_at demo_mm demo_map (leaf_path v) (pt_index v) \<noteq> 0")
    case True
    have "length (leaf_path v) = 3" by (simp add: leaf_path_def)
    with True have "leaf_path v = [1, 0, 0] \<and> pt_index v = 1"
      by (auto simp: pte_at_def demo_walk demo_entries split: if_split_asm)
    moreover have "map_covers demo_map 0x8000001000" "leaf_path 0x8000001000 = [1, 0, 0]" "pt_index 0x8000001000 = 1"
      by (simp_all add: leaf_path_def pml4_index_def pdpt_index_def pd_index_def pt_index_def map_covers_def
        page_aligned_def virtual_address_canonical_def map_owns_pml4_index_def)
    ultimately show ?thesis using leaf_unique [of demo_map v "0x8000001000"] True False by simp
  qed (use False in \<open>simp add: page_view_leaf [OF demo_page_map_ok(1)] decode_leaf_def\<close>)
qed (simp add: demo_view)

text \<open>Mapping the page at \<open>0x8000003000\<close> needs no new table.\<close>

theorem map_page_refines_witness:
  "\<exists>mm'. vmm_map_page 0x1000 0x8000003000 32 VM_WRITE demo_mm = (True, mm') \<and> page_map_ok 0x1000 mm' \<and>
    page_view mm' 0x1000 0x8000003000 = Some (32, VM_WRITE) \<and> page_view mm' 0x1000 0x8000001000 = Some (33, VM_WRITE OR VM_USER)"
proof -
  obtain b mm' where m: "vmm_map_page 0x1000 0x8000003000 32 VM_WRITE demo_mm = (b, mm')" by fastforce
  have a: "map_page_allowed demo_mm 0x1000 0x8000003000 32 VM_WRITE"
    by (simp add: map_page_allowed_def has_def page_aligned_def virtual_address_canonical_def map_owns_pml4_index_def
      pml4_index_def valid_mapping_frame_def frame_to_phys_def Let_def) (simp add: demo_mm_def)
  have p: "profile_supported demo_mm" by (simp add: profile_supported_def has_def demo_mm_def)
  have w: "walk demo_mm (root_frame (page_map_at demo_mm 0x1000)) (leaf_path 0x8000003000) \<noteq> None"
    by (simp add: leaf_path_def pml4_index_def pdpt_index_def pd_index_def demo_existing)
  from map_page_refines [OF demo_page_map_ok(1) m] have b using a p w demo_view(2) by blast
  then show ?thesis using m map_page_refines [OF demo_page_map_ok(1) m] demo_view by auto
qed

theorem unmap_page_refines_witness:
  "\<exists>mm'. vmm_unmap_page 0x1000 0x8000001000 demo_mm = (Some 33, mm') \<and> page_map_ok 0x1000 mm' \<and> page_view mm' 0x1000 0x8000001000 = None"
proof -
  obtain r mm' where u: "vmm_unmap_page 0x1000 0x8000001000 demo_mm = (r, mm')" by fastforce
  have "fst (vmm_unmap_page 0x1000 0x8000001000 demo_mm) = Some 33"
    by (simp add: vmm_unmap_page_def unmap_page_locked_def profile_supported_def has_def page_aligned_def
      virtual_address_canonical_def map_owns_pml4_index_def pml4_index_def pdpt_index_def pd_index_def pt_index_def
      demo_existing demo_entries Let_def) (simp add: demo_mm_def)
  then show ?thesis using u unmap_page_refines [OF demo_page_map_ok(1) u] by auto
qed

theorem set_writable_refines_witness:
  "\<exists>mm'. vmm_set_writable 0x1000 0x8000001000 33 (VM_WRITE OR VM_USER) False demo_mm = (True, mm') \<and> page_view mm' 0x1000 0x8000001000 = Some (33, VM_USER)"
proof -
  obtain b mm' where u: "vmm_set_writable 0x1000 0x8000001000 33 (VM_WRITE OR VM_USER) False demo_mm = (b, mm')" by fastforce
  have q: "vmm_query_page demo_mm 0x1000 0x8000001000 = Some (33, VM_WRITE OR VM_USER)"
    using demo_view(1) by (simp add: page_view_def split: if_split_asm)
  have "fst (vmm_set_writable 0x1000 0x8000001000 33 (VM_WRITE OR VM_USER) False demo_mm)"
    by (simp add: vmm_set_writable_def q profile_supported_def has_def page_aligned_def
      virtual_address_canonical_def map_owns_pml4_index_def pml4_index_def pdpt_index_def pd_index_def pt_index_def
      demo_existing demo_entries Let_def) (simp add: demo_mm_def)
  then show ?thesis using u set_writable_refines [OF demo_page_map_ok(1) u] by auto
qed

theorem map_range_maps_witness:
  "\<exists>b mm'. vmm_map_range 0x1000 0x8000001000 0x21000 0x1000 VM_WRITE demo_mm = (b, mm') \<and> b \<and> page_map_ok 0x1000 mm' \<and>
    (\<exists>fl. page_view mm' 0x1000 0x8000001000 = Some (33, fl) \<and> fl AND VM_WRITE = VM_WRITE)"
proof -
  obtain b mm' where u: "vmm_map_range 0x1000 0x8000001000 0x21000 0x1000 VM_WRITE demo_mm = (b, mm')" by fastforce
  have q: "vmm_query_page demo_mm 0x1000 0x8000001000 = Some (33, VM_WRITE OR VM_USER)"
    using demo_view(1) by (simp add: page_view_def split: if_split_asm)
  have "fst (vmm_map_range 0x1000 0x8000001000 0x21000 0x1000 VM_WRITE demo_mm)"
    by (simp add: vmm_map_range_def map_range_step_def upto_u64_def q map_owns_pml4_index_def pml4_index_def phys_to_frame_def Let_def)
  then have "b" using u by simp
  then show ?thesis using u map_range_maps [OF demo_page_map_ok(1) u] by (auto simp: phys_to_frame_def)
qed

theorem destroy_reclaims_witness:
  "case vmm_page_map_destroy 0x1000 demo_mm of (b, mm') \<Rightarrow> \<not> b \<and> page_view mm' 0x1000 0x8000001000 = Some (33, VM_WRITE OR VM_USER)"
proof -
  obtain b mm' where d: "vmm_page_map_destroy 0x1000 demo_mm = (b, mm')" by fastforce
  have "if b then page_view demo_mm 0x1000 = Map.empty else page_view mm' 0x1000 = page_view demo_mm 0x1000"
    using destroy_reclaims [OF demo_page_map_ok(2) insertI1] d by (auto split: if_split_asm)
  then show ?thesis using demo_view(1) d by (auto split: if_split_asm)
qed

theorem vm_isolation_witness:
  "\<exists>mm'. vm_run {0x1000} ({0x1000, 0x2000}, demo_mm) ({0x1000, 0x2000}, mm') \<and> pmem mm' 19 1 = 0x8000000000021005 \<and>
    page_view mm' 0x2000 = page_view demo_mm 0x2000"
proof -
  obtain b mm' where u: "vmm_set_writable 0x1000 0x8000001000 33 (VM_WRITE OR VM_USER) False demo_mm = (b, mm')" by fastforce
  have r: "vm_run {0x1000} ({0x1000, 0x2000}, demo_mm) ({0x1000, 0x2000}, mm')"
    by (rule vm_more [OF vm_done]) (auto intro: vm_step.set_writable [OF _ u])
  have q: "vmm_query_page demo_mm 0x1000 0x8000001000 = Some (33, VM_WRITE OR VM_USER)"
    using demo_view(1) by (simp add: page_view_def split: if_split_asm)
  have "pmem (snd (vmm_set_writable 0x1000 0x8000001000 33 (VM_WRITE OR VM_USER) False demo_mm)) 19 1 = 0x8000000000021005"
    by (simp add: vmm_set_writable_def q profile_supported_def has_def page_aligned_def
      virtual_address_canonical_def map_owns_pml4_index_def pml4_index_def pdpt_index_def pd_index_def pt_index_def
      demo_existing demo_entries Let_def) (simp add: demo_mm_def)
  then show ?thesis using vm_isolation [OF demo_page_map_ok(2) r] r u by auto
qed

end
