(* ===== verification/Address_Space_Laws.thy ===== *)
theory Address_Space_Laws
  imports Address_Space VMM_Properties
begin

text \<open>
  Address spaces over page maps: the page maps of the live spaces and the map a creation has not
  published yet are well formed and disjoint, a user space owns the user range only, and no page
  of a user space is both writable and executable.
\<close>

section \<open>Memory steps on the kernel state\<close>

lemma on_mmE:
  assumes "on_mm f k = (b, k')"
  obtains mm' where "f (k_mm k) = (b, mm')" "k' = k\<lparr>k_mm := mm'\<rparr>"
  using assms by (auto simp: on_mm_def split: prod.splits)

lemma loop_on_mm: "loop_all (\<lambda>i. on_mm (f i)) is k = on_mm (loop_all f is) k"
proof (induction "is" arbitrary: k)
  case (Cons i "is")
  obtain b mm where f: "f i (k_mm k) = (b, mm)" by fastforce
  then show ?case using Cons.IH [of "k\<lparr>k_mm := mm\<rparr>"] by (cases b) (simp_all add: on_mm_def split: prod.splits)
qed (simp add: on_mm_def)

text \<open>A map that is not among the live ones may be overwritten.\<close>

lemma update_map_safe:
  assumes ok: "maps_ok S mm" and x: "x \<notin> S"
  shows "maps_ok S (update_map x g mm)" "q \<in> S \<Longrightarrow> page_view (update_map x g mm) q = page_view mm q"
proof -
  have "map_kept (page_map_at mm q) mm (update_map x g mm) \<and> same_shape (page_map_at mm q) (page_map_at (update_map x g mm) q)"
    if q: "q \<in> S" for q
  proof
    show "map_kept (page_map_at mm q) mm (update_map x g mm)"
      by (rule tables_kept_same [OF maps_okD(2) [OF ok q]]) (use ok maps_okD(2) [OF ok q] in \<open>auto simp: maps_ok_def map_ok_def\<close>)
    show "same_shape (page_map_at mm q) (page_map_at (update_map x g mm) q)" using q x by auto
  qed
  then have o: "others_kept (S - {x}) mm (update_map x g mm)" by (simp add: others_kept_def)
  have "pmm_inv (mm_pmm (update_map x g mm))" using ok by (simp add: maps_ok_def)
  then have "vm_safe x S mm S (update_map x g mm)" by (rule vm_safeI [OF ok _ o]) (use x in auto)
  then show "maps_ok S (update_map x g mm)" "q \<in> S \<Longrightarrow> page_view (update_map x g mm) q = page_view mm q"
    using x by (auto simp: vm_safe_def)
qed

text \<open>A map moves to another address.\<close>

lemma move_map_safe:
  fixes g :: "VmPageMap \<Rightarrow> VmPageMap"
  assumes ok: "maps_ok (insert s S) mm" and s: "s \<notin> S" and x: "x \<notin> insert s S" "x \<noteq> 0"
  defines "mm' \<equiv> update_map s g (update_map x (\<lambda>_. page_map_at mm s) mm)"
  shows "maps_ok (insert x S) mm'" "q \<in> S \<Longrightarrow> page_view mm' q = page_view mm q" "page_view mm' x = page_view mm s"
proof -
  have at: "page_map_at mm' q = (if q = s then g (page_map_at mm s) else if q = x then page_map_at mm s else page_map_at mm q)" for q
    using x by (simp add: mm'_def)
  have fr: "pmem mm' = pmem mm" "mm_pmm mm' = mm_pmm mm" "vmm_use_phys_map mm' = vmm_use_phys_map mm" by (simp_all add: mm'_def)
  define src where "src = (\<lambda>q. if q = x then s else q)"
  have src: "src q \<in> insert s S" "page_map_at mm' q = page_map_at mm (src q)" if "q \<in> insert x S" for q
    using that x s by (auto simp: src_def at)
  have k: "map_kept (page_map_at mm r) mm mm'" if "r \<in> insert s S" for r
    by (rule tables_kept_same [OF maps_okD(2) [OF ok that]]) (use ok maps_okD(2) [OF ok that] in \<open>auto simp: fr maps_ok_def map_ok_def\<close>)
  have o: "page_map_ok q mm'" if "q \<in> insert x S" for q
    using map_keptD(1) [OF k [OF src(1) [OF that]]] src(2) [OF that] that x maps_okD(1) [OF ok] s
    by (auto simp: page_map_ok_def)
  have t: "tables_of mm' q = tables_of mm (src q)" if "q \<in> insert x S" for q
    using map_keptD(3) [OF k [OF src(1) [OF that]]] src(2) [OF that] by (simp add: tables_of_def)
  have v: "page_view mm' q = page_view mm (src q)" if q: "q \<in> insert x S" for q
  proof
    fix v
    show "page_view mm' q v = page_view mm (src q) v"
      using map_keptD(2) [OF k [OF src(1) [OF q]]] covers_path [of "page_map_at mm (src q)" v]
      by (simp add: page_view_leaf [OF o [OF q]] page_view_leaf [OF maps_okD(1) [OF ok src(1) [OF q]]] src(2) [OF q] same_ptes_def)
  qed
  have "tables_of mm' q \<inter> tables_of mm' r = {}" if "q \<in> insert x S" "r \<in> insert x S" "q \<noteq> r" for q r
    unfolding t [OF that(1)] t [OF that(2)]
    by (rule maps_disjoint [OF ok src(1) [OF that(1)] src(1) [OF that(2)]]) (use that s x in \<open>auto simp: src_def\<close>)
  then show "maps_ok (insert x S) mm'" using o ok fr(2) by (auto simp: maps_ok_def)
  show "q \<in> S \<Longrightarrow> page_view mm' q = page_view mm q" using v [of q] x by (auto simp: src_def)
  show "page_view mm' x = page_view mm s" using v [of x] by (simp add: src_def)
qed

text \<open>Sharing a list of entries of one source.\<close>

lemma share_shape: "vmm_page_map_share_pml4_entry p q i mm = (b, mm') \<Longrightarrow> same_shape (page_map_at mm r) (page_map_at mm' r)"
  by (auto simp: vmm_page_map_share_pml4_entry_def share_locked_def Let_def same_shape_def write_entry_def split: if_split_asm)

lemma share_loop:
  assumes "maps_ok S mm" "p \<in> S" "q \<in> S" "loop_all (vmm_page_map_share_pml4_entry p q) is mm = (b, mm')"
  shows "maps_ok S mm' \<and> (\<forall>r\<in>S. page_view mm' r = page_view mm r) \<and> (\<forall>r. same_shape (page_map_at mm r) (page_map_at mm' r))"
    (is "?I mm'")
proof (rule loop_all_invariant [where I = ?I, OF _ _ assms(4)])
  fix i s b1 s' assume s: "?I s" and c: "vmm_page_map_share_pml4_entry p q i s = (b1, s')"
  note sh = share_safe [OF conjunct1 [OF s] assms(2,3) c]
  show "?I s'"
  proof (intro conjI ballI allI)
    show "maps_ok S s'" using sh(1) by (simp add: vm_safe_def)
    show "page_view s' r = page_view mm r" if "r \<in> S" for r
      using that sh s by (cases "r = p") (auto simp: vm_safe_def)
    show "same_shape (page_map_at mm r) (page_map_at s' r)" for r
      using s share_shape [OF c, of r] by (simp add: same_shape_def)
  qed
qed (simp add: assms(1))

section \<open>The invariant\<close>

definition wx_view :: "(u64 \<Rightarrow> (frame_t \<times> vm_flags_t) option) \<Rightarrow> bool" where
  "wx_view view \<longleftrightarrow> (\<forall>v f fl. view v = Some (f, fl) \<longrightarrow> has fl VM_USER \<and> \<not> (has fl VM_WRITE \<and> has fl VM_EXEC))"

definition live_maps :: "Kernel \<Rightarrow> ptr set" where
  "live_maps k = space_page_map_addr ` {p. space_storage_live k p}"

definition all_maps :: "Kernel \<Rightarrow> ptr set" where
  "all_maps k = live_maps k \<union> (if unpublished_root k = FRAME_INVALID then {} else {g_unpublished_map (k_space k)})"

definition space_ok :: "Kernel \<Rightarrow> ptr \<Rightarrow> bool" where
  "space_ok k p \<longleftrightarrow> sp_kernel (h_space k p) \<or>
     wx_view (page_view (k_mm k) (space_page_map_addr p)) \<and>
     owned_pml4_first (space_page_map k p) = 1 \<and> owned_pml4_end (space_page_map k p) = 256"

definition spaces_ok :: "Kernel \<Rightarrow> bool" where
  "spaces_ok k \<longleftrightarrow> reg_ok (g_space_storage (k_space k)) \<and> g_unpublished_map (k_space k) \<noteq> 0 \<and>
     g_unpublished_map (k_space k) \<notin> live_maps k \<and> maps_ok (all_maps k) (k_mm k) \<and>
     (\<forall>p. space_storage_live k p \<longrightarrow> space_ok k p) \<and>
     (g_kernel_ready (k_space k) \<longrightarrow> space_storage_live k (g_kernel_space (k_space k)))"

lemma spaces_okD:
  assumes "spaces_ok k"
  shows "reg_ok (g_space_storage (k_space k))" "g_unpublished_map (k_space k) \<noteq> 0"
    "g_unpublished_map (k_space k) \<notin> live_maps k" "maps_ok (all_maps k) (k_mm k)"
    "space_storage_live k p \<Longrightarrow> space_ok k p"
    "g_kernel_ready (k_space k) \<Longrightarrow> space_storage_live k (g_kernel_space (k_space k))"
  using assms by (auto simp: spaces_ok_def)

lemma live_map_in: "space_storage_live k p \<Longrightarrow> space_page_map_addr p \<in> all_maps k"
  by (simp add: all_maps_def live_maps_def)

lemma live_not_unpublished:
  assumes ok: "spaces_ok k" and p: "space_storage_live k p"
  shows "space_page_map_addr p \<noteq> g_unpublished_map (k_space k)"
proof
  assume "space_page_map_addr p = g_unpublished_map (k_space k)"
  moreover have "space_page_map_addr p \<in> live_maps k" using p by (simp add: live_maps_def)
  ultimately show False using spaces_okD(3) [OF ok] by simp
qed

lemma map_addr_inject [simp]: "space_page_map_addr p = space_page_map_addr q \<longleftrightarrow> p = q"
  by (simp add: space_page_map_addr_def)

text \<open>The maps of a state in which only the memory changed, with every map at its place.\<close>

lemma k_mm_maps:
  assumes "page_map_at mm' = page_map_at (k_mm k)"
  shows "space_storage_live (k\<lparr>k_mm := mm'\<rparr>) = space_storage_live k" "live_maps (k\<lparr>k_mm := mm'\<rparr>) = live_maps k"
    "unpublished_root (k\<lparr>k_mm := mm'\<rparr>) = unpublished_root k" "all_maps (k\<lparr>k_mm := mm'\<rparr>) = all_maps k"
proof -
  show l: "space_storage_live (k\<lparr>k_mm := mm'\<rparr>) = space_storage_live k" by (simp add: space_storage_live_def fun_eq_iff)
  show lm: "live_maps (k\<lparr>k_mm := mm'\<rparr>) = live_maps k" by (simp add: live_maps_def l)
  show u: "unpublished_root (k\<lparr>k_mm := mm'\<rparr>) = unpublished_root k" by (simp add: unpublished_root_def assms)
  show "all_maps (k\<lparr>k_mm := mm'\<rparr>) = all_maps k" by (simp add: all_maps_def lm u)
qed

lemma spaces_ok_mm:
  assumes ok: "spaces_ok k" and p: "space_storage_live k p" and e: "edits (space_page_map k p) (k_mm k) mm'"
    and wx: "\<not> sp_kernel (h_space k p) \<Longrightarrow> wx_view (page_view (k_mm k) (space_page_map_addr p)) \<Longrightarrow>
      wx_view (page_view mm' (space_page_map_addr p))"
  shows "spaces_ok (k\<lparr>k_mm := mm'\<rparr>)"
    and "q \<in> all_maps k \<Longrightarrow> q \<noteq> space_page_map_addr p \<Longrightarrow> page_view mm' q = page_view (k_mm k) q"
proof -
  note D = spaces_okD [OF ok]
  have pm: "page_map_at mm' = page_map_at (k_mm k)" by (rule editsD(1) [OF maps_okD(1) [OF D(4) live_map_in [OF p]] e])
  note km = k_mm_maps [OF pm]
  have s: "vm_safe (space_page_map_addr p) (all_maps k) (k_mm k) (all_maps k) mm'"
    by (rule edits_safe [OF D(4) live_map_in [OF p] e])
  show v: "page_view mm' q = page_view (k_mm k) q" if "q \<in> all_maps k" "q \<noteq> space_page_map_addr p" for q
    using s that by (simp add: vm_safe_def)
  have "space_ok (k\<lparr>k_mm := mm'\<rparr>) r" if r: "space_storage_live k r" for r
  proof (cases "r = p")
    case True
    then show ?thesis using D(5) [OF p] wx by (auto simp: space_ok_def pm)
  next
    case False
    then show ?thesis using D(5) [OF r] v [OF live_map_in [OF r]] by (simp add: space_ok_def pm)
  qed
  then show "spaces_ok (k\<lparr>k_mm := mm'\<rparr>)" using D(1-3,6) s by (simp add: spaces_ok_def km vm_safe_def)
qed

section \<open>Mapping, unmapping, protecting\<close>

lemma user_flags: "has (fl OR VM_USER) VM_USER" "has (fl OR VM_USER) VM_WRITE = has fl VM_WRITE" "has (fl OR VM_USER) VM_EXEC = has fl VM_EXEC"
  by (simp_all only: has_bits or_low_bits) simp_all

lemma protect_flags:
  assumes "has fl VM_USER" "\<not> has fl VM_EXEC"
  shows "has (if w then fl OR VM_WRITE else fl AND NOT VM_WRITE) VM_USER" "\<not> has (if w then fl OR VM_WRITE else fl AND NOT VM_WRITE) VM_EXEC"
proof -
  have b: "bit (fl OR VM_WRITE) n \<longleftrightarrow> bit fl n \<or> n = 0" for n by (simp only: bit_or_iff low_bits)
  have c: "bit (fl AND NOT VM_WRITE) n \<longleftrightarrow> bit fl n \<and> n \<noteq> 0" if "n < 64" for n
    using that by (simp only: bit_and_iff bit_not_iff possible_bit_def low_bits) simp
  show "has (if w then fl OR VM_WRITE else fl AND NOT VM_WRITE) VM_USER" "\<not> has (if w then fl OR VM_WRITE else fl AND NOT VM_WRITE) VM_EXEC"
    using assms b [of 1] b [of 2] c [of 1] c [of 2] by (auto simp only: has_bits split: if_split)
qed

lemma wx_update:
  assumes "wx_view view" "has fl VM_USER" "\<not> (has fl VM_WRITE \<and> has fl VM_EXEC)"
  shows "wx_view (view(v \<mapsto> (f, fl)))" "wx_view (view(v := None))"
  using assms by (auto simp: wx_view_def)

lemma map_page_ok:
  assumes ok: "spaces_ok k" and c: "address_space_map_page p v f fl k = (b, k')"
  shows "spaces_ok k'" and "space_storage_live k' = space_storage_live k" "h_space k' = h_space k"
    and "space_storage_live k q \<Longrightarrow> q \<noteq> p \<Longrightarrow>
      page_view (k_mm k') (space_page_map_addr q) = page_view (k_mm k) (space_page_map_addr q)"
    and "if b then space_storage_live k p \<and> (\<not> sp_kernel (h_space k p) \<longrightarrow> user_virtual_address v \<and> \<not> (has fl VM_WRITE \<and> has fl VM_EXEC)) \<and>
        page_view (k_mm k) (space_page_map_addr p) v = None \<and>
        page_view (k_mm k') (space_page_map_addr p) = (page_view (k_mm k) (space_page_map_addr p))
          (v \<mapsto> (f, if sp_kernel (h_space k p) then fl else fl OR VM_USER))
      else page_view (k_mm k') (space_page_map_addr p) = page_view (k_mm k) (space_page_map_addr p)"
proof -
  let ?a = "space_page_map_addr p" and ?fl = "if sp_kernel (h_space k p) then fl else fl OR VM_USER"
  have "k' = k \<and> \<not> b \<or> space_storage_live k p \<and> (\<not> sp_kernel (h_space k p) \<longrightarrow> user_virtual_address v \<and> \<not> (has fl VM_WRITE \<and> has fl VM_EXEC)) \<and>
      on_mm (vmm_map_page ?a v f ?fl) k = (b, k')"
    using c by (auto simp: address_space_map_page_def split: if_split_asm)
  then have "spaces_ok k' \<and> space_storage_live k' = space_storage_live k \<and> h_space k' = h_space k \<and>
    (space_storage_live k q \<and> q \<noteq> p \<longrightarrow> page_view (k_mm k') (space_page_map_addr q) = page_view (k_mm k) (space_page_map_addr q)) \<and>
    (if b then space_storage_live k p \<and> (\<not> sp_kernel (h_space k p) \<longrightarrow> user_virtual_address v \<and> \<not> (has fl VM_WRITE \<and> has fl VM_EXEC)) \<and>
        page_view (k_mm k) ?a v = None \<and> page_view (k_mm k') ?a = (page_view (k_mm k) ?a)(v \<mapsto> (f, ?fl))
      else page_view (k_mm k') ?a = page_view (k_mm k) ?a)"
  proof
    assume "k' = k \<and> \<not> b"
    then show ?thesis using ok by simp
  next
    assume a: "space_storage_live k p \<and> (\<not> sp_kernel (h_space k p) \<longrightarrow> user_virtual_address v \<and> \<not> (has fl VM_WRITE \<and> has fl VM_EXEC)) \<and>
      on_mm (vmm_map_page ?a v f ?fl) k = (b, k')"
    then have l: "space_storage_live k p" and g: "\<not> sp_kernel (h_space k p) \<longrightarrow> user_virtual_address v \<and> \<not> (has fl VM_WRITE \<and> has fl VM_EXEC)"
      and o: "on_mm (vmm_map_page ?a v f ?fl) k = (b, k')" by blast+
    from o obtain mm' where m: "vmm_map_page ?a v f ?fl (k_mm k) = (b, mm')" and k': "k' = k\<lparr>k_mm := mm'\<rparr>" by (rule on_mmE)
    note pk = maps_okD(1) [OF spaces_okD(4) [OF ok] live_map_in [OF l]]
    note mc = map_page_contract [OF pk m]
    have "wx_view (page_view mm' ?a)" if "\<not> sp_kernel (h_space k p)" "wx_view (page_view (k_mm k) ?a)"
      using mc(2) that g wx_update(1) [OF that(2), of "fl OR VM_USER" v f] by (simp add: user_flags split: if_split_asm)
    note so = spaces_ok_mm [OF ok l mc(1) this]
    show ?thesis
      using so(1) so(2) [of "space_page_map_addr q"] live_map_in [of k q] mc(2,3) l g k_mm_maps(1) [OF editsD(1) [OF pk mc(1)]]
      by (simp add: k')
  qed
  then show "spaces_ok k'" and "space_storage_live k' = space_storage_live k" "h_space k' = h_space k"
    and "space_storage_live k q \<Longrightarrow> q \<noteq> p \<Longrightarrow>
      page_view (k_mm k') (space_page_map_addr q) = page_view (k_mm k) (space_page_map_addr q)"
    and "if b then space_storage_live k p \<and> (\<not> sp_kernel (h_space k p) \<longrightarrow> user_virtual_address v \<and> \<not> (has fl VM_WRITE \<and> has fl VM_EXEC)) \<and>
        page_view (k_mm k) ?a v = None \<and> page_view (k_mm k') ?a = (page_view (k_mm k) ?a)(v \<mapsto> (f, ?fl))
      else page_view (k_mm k') ?a = page_view (k_mm k) ?a" by blast+
qed

lemma unmap_page_ok:
  assumes ok: "spaces_ok k" and c: "address_space_unmap_page p v k = (r, k')"
  shows "spaces_ok k'"
proof (cases "k' = k")
  case False
  then have l: "space_storage_live k p" and o: "on_mm (vmm_unmap_page (space_page_map_addr p) v) k = (r, k')"
    using c by (auto simp: address_space_unmap_page_def split: if_split_asm)
  from o obtain mm' where m: "vmm_unmap_page (space_page_map_addr p) v (k_mm k) = (r, mm')" and k': "k' = k\<lparr>k_mm := mm'\<rparr>" by (rule on_mmE)
  note pk = maps_okD(1) [OF spaces_okD(4) [OF ok] live_map_in [OF l]]
  note uc = unmap_page_contract [OF pk m]
  have "wx_view (page_view mm' (space_page_map_addr p))" if "wx_view (page_view (k_mm k) (space_page_map_addr p))"
    using uc(2,3) that by (cases r) (auto simp: wx_view_def)
  from spaces_ok_mm(1) [OF ok l uc(1) this] show ?thesis by (simp add: k')
qed (simp add: ok)

text \<open>The write right of a page of a live space is changed with \<^verbatim>\<open>vmm_set_writable\<close>.\<close>

lemma protect_page_ok:
  assumes ok: "spaces_ok k" and l: "space_storage_live k p"
    and c: "on_mm (vmm_set_writable (space_page_map_addr p) v f fl w) k = (b, k')"
  shows "spaces_ok k'"
proof -
  from c obtain mm' where m: "vmm_set_writable (space_page_map_addr p) v f fl w (k_mm k) = (b, mm')" and k': "k' = k\<lparr>k_mm := mm'\<rparr>" by (rule on_mmE)
  note pk = maps_okD(1) [OF spaces_okD(4) [OF ok] live_map_in [OF l]]
  note sc = set_writable_contract [OF pk m]
  have "wx_view (page_view mm' (space_page_map_addr p))" if wx: "wx_view (page_view (k_mm k) (space_page_map_addr p))"
  proof (cases b)
    case True
    then have h: "has fl VM_USER" "\<not> has fl VM_EXEC" using sc(3) wx unfolding wx_view_def by blast+
    show ?thesis using sc(3) [OF True] wx_update(1) [OF wx] protect_flags [OF h, of w] by simp
  next
    case False
    then show ?thesis using sc(2) wx by simp
  qed
  from spaces_ok_mm(1) [OF ok l sc(1) this] show ?thesis by (simp add: k')
qed

section \<open>Unpublished changes\<close>

text \<open>The variables and objects of the module that a creation leaves alone until it publishes.\<close>

definition same_space :: "Kernel \<Rightarrow> Kernel \<Rightarrow> bool" where
  "same_space k k' \<longleftrightarrow> h_space k' = h_space k \<and> g_unpublished_map (k_space k') = g_unpublished_map (k_space k) \<and>
     g_kernel_space (k_space k') = g_kernel_space (k_space k) \<and> g_kernel_ready (k_space k') = g_kernel_ready (k_space k) \<and>
     g_space_storage (k_space k') = g_space_storage (k_space k) \<and> g_next_space_id (k_space k') = g_next_space_id (k_space k)"

lemma same_space_trans: "same_space k k' \<Longrightarrow> same_space k' k'' \<Longrightarrow> same_space k k''"
  by (simp add: same_space_def)

lemma space_live_iff: "space_storage_live k p \<longleftrightarrow> p \<noteq> 0 \<and> p \<in> set (g_space_storage (k_space k))"
  by (simp add: space_storage_live_def)

lemma same_space_live: "same_space k k' \<Longrightarrow> space_storage_live k' = space_storage_live k" "same_space k k' \<Longrightarrow> live_maps k' = live_maps k"
  by (simp_all add: same_space_def space_live_iff live_maps_def fun_eq_iff)

text \<open>The unpublished map as a finished creation leaves it.\<close>

definition fresh_space :: "Kernel \<Rightarrow> bool" where
  "fresh_space k \<longleftrightarrow> unpublished_root k \<noteq> FRAME_INVALID \<and> page_view (k_mm k) (g_unpublished_map (k_space k)) = Map.empty \<and>
     owned_pml4_first (page_map_at (k_mm k) (g_unpublished_map (k_space k))) = 1 \<and>
     owned_pml4_end (page_map_at (k_mm k) (g_unpublished_map (k_space k))) = 256"

text \<open>A memory change under which every live space keeps its view and its shape.\<close>

lemma spaces_ok_same:
  assumes ok: "spaces_ok k" and s: "same_space k k'" and m: "maps_ok (all_maps k') (k_mm k')"
    and v: "\<And>p. space_storage_live k p \<Longrightarrow> page_view (k_mm k') (space_page_map_addr p) = page_view (k_mm k) (space_page_map_addr p) \<and>
      same_shape (space_page_map k p) (space_page_map k' p)"
  shows "spaces_ok k'"
proof -
  note D = spaces_okD [OF ok]
  have "space_ok k' p" if "space_storage_live k p" for p
    using D(5) [OF that] v [OF that] s by (auto simp: space_ok_def same_space_def same_shape_def)
  then show ?thesis using D(1-3,6) m s same_space_live [OF s] by (simp add: spaces_ok_def same_space_def)
qed

section \<open>Destruction\<close>

lemma destroy_root:
  assumes ok: "page_map_ok p mm" and c: "vmm_page_map_destroy p mm = (b, mm')"
  shows "q \<noteq> p \<Longrightarrow> page_map_at mm' q = page_map_at mm q"
    and "if b then root_frame (page_map_at mm' p) = FRAME_INVALID else same_shape (page_map_at mm p) (page_map_at mm' p)"
proof -
  have "(q \<noteq> p \<longrightarrow> page_map_at mm' q = page_map_at mm q) \<and>
    (if b then root_frame (page_map_at mm' p) = FRAME_INVALID else same_shape (page_map_at mm p) (page_map_at mm' p))"
    using ok c
  proof (cases rule: destroy_cases)
    case (partly mm1)
    then show ?thesis by (simp add: below_def edits_def same_config_def marked_def same_shape_def)
  next
    case (gone mm1 mm2)
    then have "page_map_at mm2 = page_map_at (marked p True mm)" by (simp add: below_def edits_def same_config_def)
    then show ?thesis using gone(1,9) by (simp add: marked_def)
  qed simp
  then show "q \<noteq> p \<Longrightarrow> page_map_at mm' q = page_map_at mm q"
    and "if b then root_frame (page_map_at mm' p) = FRAME_INVALID else same_shape (page_map_at mm p) (page_map_at mm' p)" by blast+
qed

lemma destroy_ok:
  assumes ok: "spaces_ok k" and c: "address_space_destroy p k = (b, k')"
  shows "spaces_ok k'"
proof (cases "k' = k")
  case False
  let ?a = "space_page_map_addr p" and ?slots = "g_space_storage (k_space k)"
  note D = spaces_okD [OF ok]
  have l: "space_storage_live k p" and nk: "p \<noteq> g_kernel_space (k_space k)"
    using c False by (auto simp: address_space_destroy_def Let_def space_live_iff split: if_split_asm)
  obtain b1 k1 where o: "on_mm (vmm_page_map_destroy ?a) k = (b1, k1)" by fastforce
  then obtain mm1 where m: "vmm_page_map_destroy ?a (k_mm k) = (b1, mm1)" and k1: "k1 = k\<lparr>k_mm := mm1\<rparr>" by (rule on_mmE)
  have k': "k' = (if b1 then upd_space p (\<lambda>s. s\<lparr>sp_id := 0\<rparr>) (set_spaces (?slots[object_storage_find ?slots p := 0]) k1) else k1)"
    using c False o l by (auto simp: address_space_destroy_def Let_def split: if_split_asm)
  note in_ = live_map_in [OF l]
  note dr = destroy_root [OF maps_okD(1) [OF D(4) in_] m]
  note ds = destroy_safe(1) [OF D(4) in_ m] destroy_safe(3) [OF D(4) in_ m]
  have ua: "g_unpublished_map (k_space k) \<noteq> ?a" using live_not_unpublished [OF ok l] by simp
  have up: "unpublished_root k1 = unpublished_root k" "g_unpublished_map (k_space k) \<noteq> ?a"
    using dr(1) [OF ua] ua by (simp_all add: unpublished_root_def k1)
  have v: "page_view mm1 (space_page_map_addr q) = page_view (k_mm k) (space_page_map_addr q)" if "space_storage_live k q" "q \<noteq> p \<or> \<not> b1" for q
    using ds that live_map_in [OF that(1)] by (cases "q = p") (auto simp: vm_safe_def)
  have sh: "same_shape (space_page_map k q) (page_map_at mm1 (space_page_map_addr q))" if "q \<noteq> p \<or> \<not> b1" for q
    using dr(1) [of "space_page_map_addr q"] dr(2) that by (cases "q = p") auto
  have so: "space_ok k q \<Longrightarrow> space_ok k1 q" if "space_storage_live k q" "q \<noteq> p \<or> \<not> b1" for q
    using v [OF that] sh [OF that(2)] by (auto simp: space_ok_def k1 same_shape_def)
  show ?thesis
  proof (cases b1)
    case False
    have s: "same_space k k1" by (simp add: k1 same_space_def)
    have "all_maps k1 = all_maps k" using same_space_live(2) [OF s] up(1) by (simp add: all_maps_def k1)
    then have "maps_ok (all_maps k1) (k_mm k1)" using ds(1) False by (simp add: vm_safe_def k1)
    from spaces_ok_same [OF ok s this] show ?thesis using v sh False k' by (simp add: k1)
  next
    case True
    have p: "p \<noteq> 0" "p \<in> set ?slots" using l by (simp_all add: space_live_iff)
    note un = spaces.unregister [OF D(1) p]
    have sl: "space_storage_live k' q \<longleftrightarrow> q \<noteq> p \<and> space_storage_live k q" for q
      using un(2) [of q] True by (auto simp: k' space_live_iff k1 set_spaces_def upd_space_def)
    have up': "unpublished_root k' = unpublished_root k" using up(1) True by (simp add: k' unpublished_root_def set_spaces_def upd_space_def)
    have f: "k_mm k' = mm1" "g_unpublished_map (k_space k') = g_unpublished_map (k_space k)" "g_kernel_ready (k_space k') = g_kernel_ready (k_space k)"
      "g_kernel_space (k_space k') = g_kernel_space (k_space k)" "g_space_storage (k_space k') = ?slots[object_storage_find ?slots p := 0]"
      using True by (simp_all add: k' k1 set_spaces_def upd_space_def)
    have "{q. space_storage_live k' q} = {q. space_storage_live k q} - {p}" using sl by blast
    then have lm: "live_maps k' = live_maps k - {?a}" by (simp add: live_maps_def image_set_diff inj_def)
    have "all_maps k' = all_maps k - {?a}" unfolding all_maps_def lm f(2) up' using ua by (simp add: insert_Diff_if)
    then have m': "maps_ok (all_maps k') (k_mm k')" using ds(1) True by (simp add: vm_safe_def f(1))
    have "sp_kernel (h_space k' q) = sp_kernel (h_space k q)" for q using True by (simp add: k' k1 set_spaces_def upd_space_def)
    then have "space_ok k' q = space_ok k1 q" for q by (simp add: space_ok_def f(1) k1)
    then have "space_ok k' q" if "space_storage_live k' q" for q using so [of q] D(5) [of q] that sl [of q] by simp
    moreover have "reg_ok (?slots[object_storage_find ?slots p := 0])" using un(1) by (simp add: set_spaces_def)
    moreover have "g_unpublished_map (k_space k) \<notin> live_maps k'" using D(3) lm by simp
    ultimately show ?thesis using m' D(2,6) sl nk by (simp add: spaces_ok_def f)
  qed
qed (simp add: ok)

section \<open>Creation\<close>

lemma fault_free_range_frame:
  "pmm_inv (snd (pmm_test_fail_free_range_once s f n)) = pmm_inv s" "free_frames (snd (pmm_test_fail_free_range_once s f n)) = free_frames s"
proof -
  define s' where "s' = snd (pmm_test_fail_free_range_once s f n)"
  have s': "s' = s \<or> s' = s\<lparr>g_free_fault_first := f, g_free_fault_count := n, g_free_fault_armed := True\<rparr>"
    by (simp add: s'_def pmm_test_fail_free_range_once_def)
  have m: "frame_managed s' = frame_managed s" "frame_is_bitmap s' = frame_is_bitmap s"
    using s' by (auto simp: frame_managed_def frame_is_bitmap_def fun_eq_iff)
  show fr: "free_frames s' = free_frames s" using s' by (auto simp: free_frames_def bitmap_used_def)
  show "pmm_inv s' = pmm_inv s" using s' by (auto simp: pmm_inv_def m fr managed_frames_def)
qed

text \<open>Memory that differs only in the diagnostic faults of the allocator.\<close>

lemma same_tables_view:
  assumes ok: "maps_ok S mm" and "pmem mm' = pmem mm" "vmm_use_phys_map mm' = vmm_use_phys_map mm" "page_map_at mm' = page_map_at mm"
    "pmm_inv (mm_pmm mm')" "mm_free mm' = mm_free mm"
  shows "maps_ok S mm'" "q \<in> S \<Longrightarrow> page_view mm' q = page_view mm q"
proof -
  have k: "map_kept (page_map_at mm q) mm mm'" if "q \<in> S" for q
    by (rule tables_kept_same [OF maps_okD(2) [OF ok that] assms(2,3,5)]) (use maps_okD(2) [OF ok that] assms(6) in \<open>auto simp: map_ok_def\<close>)
  have v: "page_map_ok q mm'" "page_view mm' q = page_view mm q" "tables_of mm' q = tables_of mm q" if "q \<in> S" for q
    using kept_view [OF maps_okD(1) [OF ok that] k [OF that]] assms(4) by simp_all
  show "q \<in> S \<Longrightarrow> page_view mm' q = page_view mm q" by (rule v(2))
  show "maps_ok S mm'" using v ok assms(5) by (auto simp: maps_ok_def)
qed

lemma create_fault_ok:
  assumes ok: "spaces_ok k" and c: "space_create_fault p flt k = (b, k')"
  shows "spaces_ok k'" "same_space k k'" "unpublished_root k' = unpublished_root k" "fresh_space k \<Longrightarrow> fresh_space k'"
proof -
  note D = spaces_okD [OF ok]
  have k': "k' = k \<or> k' = set_space_fault no_space_fault k \<or>
      k' = (set_space_fault no_space_fault k)\<lparr>k_mm := (k_mm k)\<lparr>mm_pmm := snd (pmm_test_fail_free_range_once (mm_pmm (k_mm k)) (unpublished_root k) 1)\<rparr>\<rparr>"
    using c by (auto simp: space_create_fault_def Let_def set_space_fault_def unpublished_root_def split: if_split_asm)
  have f: "page_map_at (k_mm k') = page_map_at (k_mm k)" "pmem (k_mm k') = pmem (k_mm k)"
    "vmm_use_phys_map (k_mm k') = vmm_use_phys_map (k_mm k)" "pmm_inv (mm_pmm (k_mm k'))" "mm_free (k_mm k') = mm_free (k_mm k)"
    using k' D(4) by (auto simp: set_space_fault_def fault_free_range_frame maps_ok_def)
  show s: "same_space k k'" using k' by (auto simp: same_space_def set_space_fault_def)
  have sc: "g_unpublished_map (k_space k') = g_unpublished_map (k_space k)" using s by (simp add: same_space_def)
  show u: "unpublished_root k' = unpublished_root k" by (simp add: unpublished_root_def f(1) sc)
  have a: "all_maps k' = all_maps k" using same_space_live(2) [OF s] u sc by (simp add: all_maps_def)
  note sv = same_tables_view [OF D(4) f(2,3,1,4,5)]
  show "spaces_ok k'"
    by (rule spaces_ok_same [OF ok s]) (use sv a f(1) live_map_in in auto)
  show "fresh_space k'" if "fresh_space k"
  proof -
    have "g_unpublished_map (k_space k) \<in> all_maps k" using that by (simp add: fresh_space_def all_maps_def)
    then show ?thesis using that sv(2) u sc f(1) by (simp add: fresh_space_def)
  qed
qed

lemma create_root_ok:
  assumes ok: "spaces_ok k" and u: "unpublished_root k = FRAME_INVALID"
    and c: "on_mm (vmm_page_map_create_owned_range (g_unpublished_map (k_space k)) 1 256) k = (b, k')"
  shows "spaces_ok k'" "same_space k k'" "b \<Longrightarrow> fresh_space k'"
proof -
  let ?s = "g_unpublished_map (k_space k)"
  note D = spaces_okD [OF ok]
  from c obtain mm' where m: "vmm_page_map_create_owned_range ?s 1 256 (k_mm k) = (b, mm')" and k': "k' = k\<lparr>k_mm := mm'\<rparr>" by (rule on_mmE)
  have S: "all_maps k = live_maps k" "?s \<notin> all_maps k" using u D(3) by (simp_all add: all_maps_def)
  note cs = create_safe [OF D(4) S(2) m]
  show s: "same_space k k'" by (simp add: k' same_space_def)
  have fields: "(q \<noteq> ?s \<longrightarrow> page_map_at mm' q = page_map_at (k_mm k) q) \<and>
      (if b then owned_pml4_first (page_map_at mm' ?s) = 1 \<and> owned_pml4_end (page_map_at mm' ?s) = 256
       else root_frame (page_map_at mm' ?s) = FRAME_INVALID)" for q
    using create_fields [OF m, of q] u by (simp add: unpublished_root_def)
  have ur: "unpublished_root k' = root_frame (page_map_at mm' ?s)" by (simp add: unpublished_root_def k')
  have "?s \<in> insert ?s (all_maps k)" by simp
  then have rt: "b \<Longrightarrow> root_frame (page_map_at mm' ?s) \<noteq> FRAME_INVALID"
    using cs(1) maps_okD(2) [of "insert ?s (all_maps k)" mm' ?s] by (simp add: vm_safe_def map_ok_def)
  have a: "all_maps k' = (if b then insert ?s (all_maps k) else all_maps k)"
    using fields rt same_space_live(2) [OF s] ur S(1) by (cases b) (simp_all add: all_maps_def k')
  show "spaces_ok k'"
  proof (rule spaces_ok_same [OF ok s])
    show "maps_ok (all_maps k') (k_mm k')" using cs(1) a by (simp add: vm_safe_def k')
    fix p assume p: "space_storage_live k p"
    then have "space_page_map_addr p \<noteq> ?s" by (rule live_not_unpublished [OF ok])
    then show "page_view (k_mm k') (space_page_map_addr p) = page_view (k_mm k) (space_page_map_addr p) \<and>
        same_shape (space_page_map k p) (space_page_map k' p)"
      using cs(1) live_map_in [OF p] fields [of "space_page_map_addr p"] by (simp add: vm_safe_def k')
  qed
  show "fresh_space k'" if b using that cs(2) rt fields ur by (simp add: fresh_space_def k')
qed

lemma share_ok:
  assumes ok: "spaces_ok k" and f: "fresh_space k" and r: "g_kernel_ready (k_space k)"
    and c: "on_mm (loop_all (vmm_page_map_share_pml4_entry (g_unpublished_map (k_space k)) (space_page_map_addr (g_kernel_space (k_space k)))) is) k = (b, k')"
  shows "spaces_ok k'" "same_space k k'" "fresh_space k'"
proof -
  let ?s = "g_unpublished_map (k_space k)"
  note D = spaces_okD [OF ok]
  from c obtain mm' where m: "loop_all (vmm_page_map_share_pml4_entry ?s (space_page_map_addr (g_kernel_space (k_space k)))) is (k_mm k) = (b, mm')"
    and k': "k' = k\<lparr>k_mm := mm'\<rparr>" by (rule on_mmE)
  have s: "?s \<in> all_maps k" using f by (simp add: fresh_space_def all_maps_def)
  have sl: "maps_ok (all_maps k) mm'" "\<And>r. r \<in> all_maps k \<Longrightarrow> page_view mm' r = page_view (k_mm k) r"
    "\<And>r. same_shape (page_map_at (k_mm k) r) (page_map_at mm' r)"
    using share_loop [OF D(4) s live_map_in [OF D(6) [OF r]] m] by blast+
  show ss: "same_space k k'" by (simp add: k' same_space_def)
  have u: "unpublished_root k' = unpublished_root k" using sl(3) [of ?s] by (simp add: unpublished_root_def k' same_shape_def)
  have a: "all_maps k' = all_maps k" using same_space_live(2) [OF ss] u by (simp add: all_maps_def k')
  show "spaces_ok k'"
    by (rule spaces_ok_same [OF ok ss]) (use sl live_map_in a in \<open>simp_all add: k'\<close>)
  show "fresh_space k'" using f u sl(2) [OF s] sl(3) [of ?s] by (simp add: fresh_space_def k' same_shape_def)
qed

lemma reclaim_ok:
  assumes ok: "spaces_ok k" and c: "address_space_reclaim_unpublished k = (b, k')"
  shows "spaces_ok k'" "same_space k k'"
proof -
  let ?s = "g_unpublished_map (k_space k)"
  note D = spaces_okD [OF ok]
  have "spaces_ok k' \<and> same_space k k'"
  proof (cases "unpublished_root k = FRAME_INVALID")
    case True
    then show ?thesis using c ok by (simp add: address_space_reclaim_unpublished_def same_space_def)
  next
    case False
    then have o: "on_mm (vmm_page_map_destroy ?s) k = (b, k')" using c by (simp add: address_space_reclaim_unpublished_def)
    then obtain mm' where m: "vmm_page_map_destroy ?s (k_mm k) = (b, mm')" and k': "k' = k\<lparr>k_mm := mm'\<rparr>" by (rule on_mmE)
    have s: "?s \<in> all_maps k" using False by (simp add: all_maps_def)
    note dr = destroy_root [OF maps_okD(1) [OF D(4) s] m]
    note ds = destroy_safe(1) [OF D(4) s m]
    have ss: "same_space k k'" by (simp add: k' same_space_def)
    have u: "unpublished_root k' = (if b then FRAME_INVALID else unpublished_root k)"
      using dr(2) by (simp add: unpublished_root_def k' same_shape_def split: if_split_asm)
    have "all_maps k' = (if b then all_maps k - {?s} else all_maps k)"
      using same_space_live(2) [OF ss] u False D(3) by (simp add: all_maps_def k')
    then have mo: "maps_ok (all_maps k') (k_mm k')" using ds by (simp add: vm_safe_def k')
    have "spaces_ok k'"
    proof (rule spaces_ok_same [OF ok ss mo])
      fix p assume p: "space_storage_live k p"
      show "page_view (k_mm k') (space_page_map_addr p) = page_view (k_mm k) (space_page_map_addr p) \<and>
          same_shape (space_page_map k p) (space_page_map k' p)"
        using live_not_unpublished [OF ok p] live_map_in [OF p] ds dr(1) [of "space_page_map_addr p"] by (simp add: vm_safe_def k')
    qed
    then show ?thesis using ss by simp
  qed
  then show "spaces_ok k'" "same_space k k'" by blast+
qed

text \<open>The storage of a space that is not live may be cleared.\<close>

lemma prepare_ok:
  fixes m :: VmPageMap
  assumes ok: "spaces_ok k" and p: "\<not> space_storage_live k p" and a: "space_page_map_addr p \<noteq> g_unpublished_map (k_space k)"
  defines "k' \<equiv> space_set_page_map (space_page_map_addr p) m (upd_space p (\<lambda>_. zero_space) k)"
  shows "spaces_ok k'" "k_space k' = k_space k" "unpublished_root k' = unpublished_root k"
proof -
  note D = spaces_okD [OF ok]
  have n: "space_page_map_addr p \<notin> all_maps k" using p a by (auto simp: all_maps_def live_maps_def)
  note u = update_map_safe [OF D(4) n, where g = "\<lambda>_. m"]
  show ks: "k_space k' = k_space k" by (simp add: k'_def space_set_page_map_def upd_space_def)
  have mm: "k_mm k' = update_map (space_page_map_addr p) (\<lambda>_. m) (k_mm k)" by (simp add: k'_def space_set_page_map_def upd_space_def)
  have l: "space_storage_live k' = space_storage_live k" "live_maps k' = live_maps k" by (simp_all add: space_live_iff fun_eq_iff ks live_maps_def)
  show r: "unpublished_root k' = unpublished_root k" using a by (simp add: unpublished_root_def ks mm)
  have am: "all_maps k' = all_maps k" by (simp add: all_maps_def l r ks)
  have "space_ok k' q" if q: "space_storage_live k q" for q
  proof -
    have "q \<noteq> p" using p q by auto
    then show ?thesis using D(5) [OF q] u(2) [OF live_map_in [OF q]]
      by (simp add: space_ok_def mm) (simp add: k'_def space_set_page_map_def upd_space_def)
  qed
  then show "spaces_ok k'" using D(1-3,6) u(1) by (simp add: spaces_ok_def l ks am mm)
qed

text \<open>The finished map becomes the map of the new space, which is registered.\<close>

lemma publish_ok:
  assumes ok: "spaces_ok k" and f: "fresh_space k" and p: "p \<noteq> 0" "\<not> space_storage_live k p"
    and a: "space_page_map_addr p \<noteq> g_unpublished_map (k_space k)" "space_page_map_addr p \<noteq> 0"
    and free: "0 \<in> set (g_space_storage (k_space k))"
    and k': "h_space k' = (h_space k)(p := (h_space k p)\<lparr>sp_id := i\<rparr>)"
      "k_mm k' = update_map (g_unpublished_map (k_space k)) (\<lambda>_. zero_page_map\<lparr>root_frame := FRAME_INVALID\<rparr>)
        (update_map (space_page_map_addr p) (\<lambda>_. page_map_at (k_mm k) (g_unpublished_map (k_space k))) (k_mm k))"
      "k_space k' = (k_space k)\<lparr>g_next_space_id := n,
        g_space_storage := (g_space_storage (k_space k))[object_storage_empty (g_space_storage (k_space k)) := p]\<rparr>"
  shows "spaces_ok k'" "space_storage_live k' q \<longleftrightarrow> q = p \<or> space_storage_live k q"
    "page_view (k_mm k') (space_page_map_addr p) = Map.empty"
    "space_storage_live k q \<Longrightarrow> page_view (k_mm k') (space_page_map_addr q) = page_view (k_mm k) (space_page_map_addr q)"
proof -
  let ?s = "g_unpublished_map (k_space k)"
  note D = spaces_okD [OF ok]
  have np: "p \<notin> set (g_space_storage (k_space k))" using p by (simp add: space_live_iff)
  note rg = spaces.register [OF D(1) free np, unfolded set_spaces_def]
  show lv: "space_storage_live k' q \<longleftrightarrow> q = p \<or> space_storage_live k q" for q
    using rg(2) [of q] p(1) by (auto simp: space_live_iff k'(3))
  then have "{q. space_storage_live k' q} = insert p {q. space_storage_live k q}" by auto
  then have lm: "live_maps k' = insert (space_page_map_addr p) (live_maps k)" by (simp add: live_maps_def)
  have all: "all_maps k = insert ?s (live_maps k)" using f by (auto simp: all_maps_def fresh_space_def)
  have x: "space_page_map_addr p \<notin> insert ?s (live_maps k)" using a(1) p(2) by (auto simp: live_maps_def)
  note mv = move_map_safe [OF D(4) [unfolded all] D(3) x a(2), where g = "\<lambda>_. zero_page_map\<lparr>root_frame := FRAME_INVALID\<rparr>", folded k'(2)]
  have "unpublished_root k' = FRAME_INVALID" by (simp add: unpublished_root_def k')
  then have am: "all_maps k' = insert (space_page_map_addr p) (live_maps k)" by (simp add: all_maps_def lm)
  show vp: "page_view (k_mm k') (space_page_map_addr p) = Map.empty" using mv(3) f by (simp add: fresh_space_def)
  show vq: "page_view (k_mm k') (space_page_map_addr q) = page_view (k_mm k) (space_page_map_addr q)" if "space_storage_live k q" for q
    by (rule mv(2)) (use that in \<open>simp add: live_maps_def\<close>)
  have at: "page_map_at (k_mm k') r = (if r = ?s then zero_page_map\<lparr>root_frame := FRAME_INVALID\<rparr>
      else if r = space_page_map_addr p then page_map_at (k_mm k) ?s else page_map_at (k_mm k) r)" for r
    by (simp add: k'(2))
  have pok: "space_ok k' p" using a(1) f vp by (simp add: space_ok_def at fresh_space_def wx_view_def)
  have "space_ok k' q" if q: "space_storage_live k q" for q
    using D(5) [OF q] vq [OF q] live_not_unpublished [OF ok q] q p(2) by (cases "q = p") (simp_all add: space_ok_def at k'(1))
  then show "spaces_ok k'"
    using D(2,3,6) rg(1) mv(1) a(1) pok by (simp add: spaces_ok_def lv lm am k'(3))
qed

lemma fail_ok:
  assumes "spaces_ok k" "space_create_fail k = (b, k')"
  shows "spaces_ok k' \<and> same_space k k' \<and> \<not> b"
proof -
  obtain b1 k1 where r: "address_space_reclaim_unpublished k = (b1, k1)" by fastforce
  then have "k' = k1" "\<not> b" using assms(2) by (simp_all add: space_create_fail_def)
  then show ?thesis using reclaim_ok [OF assms(1) r] by simp
qed

text \<open>The stages between the checks and the publication, as one relation.\<close>

definition drafted :: "Kernel \<Rightarrow> Kernel \<Rightarrow> bool" where
  "drafted k1 k \<longleftrightarrow> spaces_ok k \<and> same_space k1 k \<and> fresh_space k"

definition given_up :: "Kernel \<Rightarrow> bool \<Rightarrow> Kernel \<Rightarrow> bool" where
  "given_up k1 b k \<longleftrightarrow> spaces_ok k \<and> same_space k1 k \<and> \<not> b"

lemma drafted_fail: "drafted k1 k \<Longrightarrow> space_create_fail k = (b, k') \<Longrightarrow> given_up k1 b k'"
  using fail_ok [of k b k'] same_space_trans [of k1 k k'] by (auto simp: drafted_def given_up_def)

lemma drafted_fault:
  assumes "drafted k1 k" "space_create_fault p flt k = (b, k')"
  shows "drafted k1 k'"
  using assms create_fault_ok [OF _ assms(2)] same_space_trans [of k1 k k'] by (auto simp: drafted_def)

lemma drafted_share:
  assumes "drafted k1 k" "g_kernel_ready (k_space k1)"
    and "on_mm (loop_all (vmm_page_map_share_pml4_entry (g_unpublished_map (k_space k1)) (space_page_map_addr (g_kernel_space (k_space k1)))) is) k = (b, k')"
  shows "drafted k1 k'"
proof -
  have s: "same_space k1 k" using assms(1) by (simp add: drafted_def)
  then have e: "g_unpublished_map (k_space k1) = g_unpublished_map (k_space k)" "g_kernel_space (k_space k1) = g_kernel_space (k_space k)"
    "g_kernel_ready (k_space k)" using assms(2) by (simp_all add: same_space_def)
  from share_ok [OF _ _ e(3) assms(3) [unfolded e(1,2)]] assms(1) same_space_trans [OF s]
  show ?thesis by (auto simp: drafted_def)
qed

lemma share_one: "on_mm (vmm_page_map_share_pml4_entry s q i) k = on_mm (loop_all (vmm_page_map_share_pml4_entry s q) [i]) k"
  by (simp add: on_mm_def split: prod.splits)

definition published :: "ptr \<Rightarrow> Kernel \<Rightarrow> Kernel \<Rightarrow> Kernel" where
  "published p k1 k =
     (let scratch = g_unpublished_map (k_space k1); slots = g_space_storage (k_space k1);
          k = space_set_page_map (space_page_map_addr p) (page_map_at (k_mm k) scratch) k;
          k = upd_space p (\<lambda>s. s\<lparr>sp_id := g_next_space_id (k_space k)\<rparr>) k;
          k = k\<lparr>k_space := (k_space k)\<lparr>g_next_space_id := g_next_space_id (k_space k) + 1\<rparr>\<rparr>;
          k = set_spaces (slots[object_storage_empty slots := p]) k
      in space_set_page_map scratch (zero_page_map\<lparr>root_frame := FRAME_INVALID\<rparr>) k)"

definition create_rest :: "ptr \<Rightarrow> Kernel \<Rightarrow> Kernel \<Rightarrow> bool \<times> Kernel" where
  "create_rest p k1 k =
     (let scratch = g_unpublished_map (k_space k1);
          source = space_page_map_addr (g_kernel_space (k_space k1)) in
      case space_create_fault p SPACE_CREATE_TEST_AFTER_ROOT k of (fault, k) \<Rightarrow>
      if fault then space_create_fail k
      else
        case on_mm (vmm_page_map_share_pml4_entry scratch source 0) k of (ok, k) \<Rightarrow>
        if \<not> ok then space_create_fail k
        else
          case space_create_fault p SPACE_CREATE_TEST_AFTER_SHARE k of (fault, k) \<Rightarrow>
          if fault then space_create_fail k
          else
            case share_high_entries k of (ok, k) \<Rightarrow>
            if \<not> ok then space_create_fail k
            else (True, published p k1 k))"

lemma create_rest_ok:
  assumes d: "drafted k1 k" and r: "g_kernel_ready (k_space k1)" and c: "create_rest p k1 k = (b, k')"
  shows "given_up k1 b k' \<or> b \<and> (\<exists>k5. drafted k1 k5 \<and> k' = published p k1 k5)"
proof -
  let ?s = "g_unpublished_map (k_space k1)" and ?q = "space_page_map_addr (g_kernel_space (k_space k1))"
  obtain f1 k2 where c1: "space_create_fault p SPACE_CREATE_TEST_AFTER_ROOT k = (f1, k2)" by fastforce
  obtain o1 k3 where c2: "on_mm (vmm_page_map_share_pml4_entry ?s ?q 0) k2 = (o1, k3)" by fastforce
  obtain f2 k4 where c3: "space_create_fault p SPACE_CREATE_TEST_AFTER_SHARE k3 = (f2, k4)" by fastforce
  obtain o2 k5 where c4: "share_high_entries k4 = (o2, k5)" by fastforce
  note d2 = drafted_fault [OF d c1]
  note d3 = drafted_share [OF d2 r c2 [unfolded share_one]]
  note d4 = drafted_fault [OF d3 c3]
  have "on_mm (loop_all (vmm_page_map_share_pml4_entry ?s ?q) (map of_nat [256..<512])) k4 = (o2, k5)"
    using c4 d4 by (simp add: share_high_entries_def loop_on_mm drafted_def same_space_def Let_def)
  note d5 = drafted_share [OF d4 r this]
  show ?thesis
    using c d5 drafted_fail [OF d2, of b k'] drafted_fail [OF d3, of b k'] drafted_fail [OF d4, of b k'] drafted_fail [OF d5, of b k']
    by (simp add: create_rest_def Let_def c1 c2 c3 c4 split: if_split_asm) blast
qed

lemma create_locked_eq:
  assumes p: "p \<noteq> 0" "\<not> space_storage_live k p"
  defines "k1 \<equiv> space_set_page_map (space_page_map_addr p) (zero_page_map\<lparr>root_frame := FRAME_INVALID\<rparr>) (upd_space p (\<lambda>_. zero_space) k)"
  shows "address_space_create_locked p k =
     (if \<not> g_kernel_ready (k_space k1) \<or> g_next_space_id (k_space k1) = 0 \<or> unpublished_root k1 \<noteq> FRAME_INVALID \<or>
         0 \<notin> set (g_space_storage (k_space k1)) then (False, k1)
      else
        case space_create_fault p SPACE_CREATE_TEST_ALLOCATE k1 of (fault, k2) \<Rightarrow>
        if fault then (False, k2)
        else
          case on_mm (vmm_page_map_create_owned_range (g_unpublished_map (k_space k1)) 1 256) k2 of (ok, k3) \<Rightarrow>
          if \<not> ok then space_create_fail k3 else create_rest p k1 k3)"
  using p by (simp add: address_space_create_locked_def create_rest_def published_def Let_def k1_def split: prod.splits)

lemma published_ok:
  assumes d: "drafted k1 k" and p: "p \<noteq> 0" "\<not> space_storage_live k1 p"
    and a: "space_page_map_addr p \<noteq> g_unpublished_map (k_space k1)" "space_page_map_addr p \<noteq> 0"
    and free: "0 \<in> set (g_space_storage (k_space k1))"
  shows "spaces_ok (published p k1 k)" "space_storage_live (published p k1 k) q \<longleftrightarrow> q = p \<or> space_storage_live k1 q"
    "page_view (k_mm (published p k1 k)) (space_page_map_addr p) = Map.empty"
    "sp_kernel (h_space (published p k1 k) p) = sp_kernel (h_space k1 p)"
proof -
  have s: "spaces_ok k" "same_space k1 k" "fresh_space k" using d by (simp_all add: drafted_def)
  have e: "g_unpublished_map (k_space k1) = g_unpublished_map (k_space k)" "g_space_storage (k_space k1) = g_space_storage (k_space k)"
    "h_space k = h_space k1" using s(2) by (simp_all add: same_space_def)
  have l: "space_storage_live k1 = space_storage_live k" using same_space_live(1) [OF s(2)] by simp
  let ?k = "published p k1 k"
  have k': "h_space ?k = (h_space k)(p := (h_space k p)\<lparr>sp_id := g_next_space_id (k_space k)\<rparr>)"
      "k_mm ?k = update_map (g_unpublished_map (k_space k)) (\<lambda>_. zero_page_map\<lparr>root_frame := FRAME_INVALID\<rparr>)
        (update_map (space_page_map_addr p) (\<lambda>_. page_map_at (k_mm k) (g_unpublished_map (k_space k))) (k_mm k))"
      "k_space ?k = (k_space k)\<lparr>g_next_space_id := g_next_space_id (k_space k) + 1,
        g_space_storage := (g_space_storage (k_space k))[object_storage_empty (g_space_storage (k_space k)) := p]\<rparr>"
    by (simp_all add: published_def Let_def space_set_page_map_def upd_space_def set_spaces_def e)
  note po = publish_ok [OF s(1,3) p(1) p(2) [unfolded l] a(1) [unfolded e(1)] a(2) free [unfolded e(2)] k']
  show "spaces_ok ?k" "page_view (k_mm ?k) (space_page_map_addr p) = Map.empty" by (fact po(1,3))+
  show "space_storage_live ?k q \<longleftrightarrow> q = p \<or> space_storage_live k1 q" unfolding l by (fact po(2))
  show "sp_kernel (h_space ?k p) = sp_kernel (h_space k1 p)" by (simp add: k'(1) e(3))
qed

lemma create_ok:
  assumes ok: "spaces_ok k" and a: "space_page_map_addr p \<noteq> g_unpublished_map (k_space k)" "space_page_map_addr p \<noteq> 0"
    and c: "address_space_create_locked p k = (b, k')"
  shows "spaces_ok k' \<and> (if b then \<not> space_storage_live k p \<and> (\<forall>q. space_storage_live k' q \<longleftrightarrow> q = p \<or> space_storage_live k q) \<and>
        page_view (k_mm k') (space_page_map_addr p) = Map.empty \<and> \<not> sp_kernel (h_space k' p)
      else space_storage_live k' = space_storage_live k)"
    (is "?G b k'")
proof (cases "p = 0 \<or> space_storage_live k p")
  case True
  then show ?thesis using c ok by (auto simp: address_space_create_locked_def)
next
  case False
  let ?k1 = "space_set_page_map (space_page_map_addr p) (zero_page_map\<lparr>root_frame := FRAME_INVALID\<rparr>) (upd_space p (\<lambda>_. zero_space) k)"
  have p: "p \<noteq> 0" "\<not> space_storage_live k p" using False by blast+
  note pr = prepare_ok [OF ok p(2) a(1), of "zero_page_map\<lparr>root_frame := FRAME_INVALID\<rparr>"]
  have l1: "space_storage_live ?k1 = space_storage_live k" by (simp add: space_live_iff fun_eq_iff pr(2))
  have z: "\<not> sp_kernel (h_space ?k1 p)" by (simp add: space_set_page_map_def upd_space_def zero_space_def)
  have up: "given_up ?k1 b k' \<Longrightarrow> ?G b k'" using same_space_live(1) [of ?k1 k'] l1 by (simp add: given_up_def)
  note eq = c [unfolded create_locked_eq [OF p]]
  show ?thesis
  proof (cases "\<not> g_kernel_ready (k_space ?k1) \<or> g_next_space_id (k_space ?k1) = 0 \<or> unpublished_root ?k1 \<noteq> FRAME_INVALID \<or>
         0 \<notin> set (g_space_storage (k_space ?k1))")
    case True
    then have "(b, k') = (False, ?k1)" using eq by (simp only: if_True)
    then show ?thesis using pr(1) l1 by simp
  next
    case g: False
    obtain f1 k2 where c1: "space_create_fault p SPACE_CREATE_TEST_ALLOCATE ?k1 = (f1, k2)" by fastforce
    note o1 = create_fault_ok [OF pr(1) c1]
    have u: "g_unpublished_map (k_space ?k1) = g_unpublished_map (k_space k2)" using o1(2) by (simp add: same_space_def)
    obtain o2 k3 where c2: "on_mm (vmm_page_map_create_owned_range (g_unpublished_map (k_space k2)) 1 256) k2 = (o2, k3)" by fastforce
    have "unpublished_root k2 = FRAME_INVALID" using o1(3) g by simp
    note o2 = create_root_ok [OF o1(1) this c2]
    have eq': "(if f1 then (False, k2) else if \<not> o2 then space_create_fail k3 else create_rest p ?k1 k3) = (b, k')"
      using eq unfolding if_not_P [OF g] c1 u prod.case c2 .
    consider "given_up ?k1 b k'" | "o2" "create_rest p ?k1 k3 = (b, k')"
      using eq' o1(1,2) fail_ok [OF o2(1), of b k'] same_space_trans [OF same_space_trans [OF o1(2) o2(2)], of k']
      by (auto simp: given_up_def split: if_split_asm)
    then show ?thesis
    proof cases
      case 2
      have d: "drafted ?k1 k3" using o2 2(1) same_space_trans [OF o1(2) o2(2)] by (simp add: drafted_def)
      from create_rest_ok [OF d _ 2(2)] g up consider "?G b k'" | k5 where "b" "drafted ?k1 k5" "k' = published p ?k1 k5" by blast
      then show ?thesis
      proof cases
        case (2 k5)
        note po = published_ok [OF 2(2) p(1) p(2) [folded l1] a(1) [folded pr(2)] a(2)]
        have fr: "0 \<in> set (g_space_storage (k_space ?k1))" using g by blast
        show ?thesis using po(1-4) [OF fr] 2(1,3) p(2) z by (simp add: l1)
      qed
    qed (rule up)
  qed
qed

end
