(* ===== verification/Address_Space_Properties.thy ===== *)
theory Address_Space_Properties
  imports Address_Space_Laws
begin

text \<open>
  What the address-space module (\<^verbatim>\<open>src/kernel/address_space.c\<close>) promises: after
  \<open>address_space_kernel_init\<close>, whatever sequence of its operations runs, the pages of a user
  space lie in the user range, carry the user bit and are never writable and executable at
  once; and \<open>address_space_map_page\<close> on each of its branches.
\<close>

section \<open>The user range\<close>

text \<open>The PML4 slots 1 to 255 are exactly the user range of addresses.\<close>

lemma user_range_slots:
  fixes v :: u64
  shows "user_virtual_address v \<longleftrightarrow>
    virtual_address_canonical v \<and> (1::u32) \<le> pml4_index v \<and> pml4_index v < (256::u32)"
proof -
  define q where "q = unat v div 2 ^ 39"
  have a: "unat (drop_bit 48 v) = q div 512" "unat (drop_bit 47 v) = q div 256" "unat (drop_bit 39 v) = q"
    by (simp_all add: q_def unat_drop_bit_eq drop_bit_eq_div unat_div flip: div_mult2_eq)
  have p: "unat (pml4_index v) = q mod 512"
  proof -
    have m: "(511::nat) = mask 9" by (simp add: mask_eq_exp_minus_1)
    have "unat v < 2 ^ 64" using unsigned_less [of v, where ?'a = nat] by simp
    then have "unat v < 2 ^ 32 * 2 ^ 39" by (rule less_trans) simp
    then have "q < 2 ^ 32" unfolding q_def by (rule less_mult_imp_div_less)
    then have t: "take_bit 32 q = q" by (simp add: take_bit_nat_eq_self_iff)
    have "unat (pml4_index v) = take_bit 32 q AND 511" by (simp add: pml4_index_def unsigned_ucast_eq unsigned_and_eq a(3))
    also have "\<dots> = take_bit 9 q" by (simp only: t) (simp only: m take_bit_eq_mask)
    finally show ?thesis by (simp add: take_bit_eq_mod)
  qed
  have u: "user_virtual_address v \<longleftrightarrow> 1 \<le> q \<and> q < 256"
    unfolding user_virtual_address_def by (simp add: word_nat q_def) linarith
  have o: "drop_bit 47 v AND 1 \<noteq> 0 \<longleftrightarrow> odd (q div 256)"
  proof -
    have "unat (drop_bit 47 v AND 1) = q div 256 mod 2" unfolding unsigned_and_eq a(2) by (simp add: and_one_eq)
    then show ?thesis using unsigned_eq_0_iff [of "drop_bit 47 v AND 1", where ?'a = nat] by (auto simp: odd_iff_mod_2_eq_one)
  qed
  have c: "virtual_address_canonical v \<longleftrightarrow> (if odd (q div 256) then q div 512 = 0xFFFF else q div 512 = 0)"
    unfolding virtual_address_canonical_def Let_def o by (simp add: word_eq_iff_unsigned [where ?'a = nat] a(1) del: unsigned_eq_0_iff)
  have r: "odd (q div 256) \<longleftrightarrow> \<not> q mod 512 < 256"
    using mod_mult2_eq [of q 256 2] by (cases "odd (q div 256)") (simp_all add: odd_iff_mod_2_eq_one)
  have "1 \<le> q \<and> q < 256 \<longleftrightarrow> q div 512 = 0 \<and> 1 \<le> q mod 512 \<and> q mod 512 < 256"
    by (cases "q < 512") (auto simp: div_eq_0_iff)
  then show ?thesis unfolding u c r word_le_nat_alt word_less_nat_alt p by auto
qed

lemma user_space_page:
  assumes ok: "spaces_ok k" and l: "space_storage_live k p" and u: "\<not> sp_kernel (h_space k p)"
  shows "page_view (k_mm k) (space_page_map_addr p) v =
      (if user_virtual_address v \<and> page_aligned v then address_space_query_page k p v else None)"
    and "page_view (k_mm k) (space_page_map_addr p) v = Some (f, fl) \<Longrightarrow> has fl VM_USER \<and> \<not> (has fl VM_WRITE \<and> has fl VM_EXEC)"
proof -
  have s: "wx_view (page_view (k_mm k) (space_page_map_addr p))" "owned_pml4_first (space_page_map k p) = 1"
    "owned_pml4_end (space_page_map k p) = 256"
    using spaces_okD(5) [OF ok l] u by (simp_all add: space_ok_def)
  have "map_covers (space_page_map k p) v \<longleftrightarrow> user_virtual_address v \<and> page_aligned v"
    by (auto simp: map_covers_def map_owns_pml4_index_def s user_range_slots)
  then show "page_view (k_mm k) (space_page_map_addr p) v =
      (if user_virtual_address v \<and> page_aligned v then address_space_query_page k p v else None)"
    using l by (simp add: page_view_def address_space_query_page_def)
  show "page_view (k_mm k) (space_page_map_addr p) v = Some (f, fl) \<Longrightarrow> has fl VM_USER \<and> \<not> (has fl VM_WRITE \<and> has fl VM_EXEC)"
    using s(1) by (simp add: wx_view_def)
qed

section \<open>Boot\<close>

text \<open>The state before \<open>address_space_kernel_init\<close>: the static initialisers of the module.\<close>

definition space_boot :: "Kernel \<Rightarrow> bool" where
  "space_boot k \<longleftrightarrow> pmm_inv (mm_pmm (k_mm k)) \<and>
     g_space_storage (k_space k) = replicate 256 0 \<and>
     g_kernel_space (k_space k) \<noteq> 0 \<and> g_unpublished_map (k_space k) \<noteq> 0 \<and>
     space_page_map_addr (g_kernel_space (k_space k)) \<notin> {0, g_unpublished_map (k_space k)} \<and>
     unpublished_root k = FRAME_INVALID"

lemma space_boot_ok:
  assumes b: "space_boot k" and c: "address_space_kernel_init k = (True, k')"
  shows "spaces_ok k'" and "space_storage_live k' q \<longleftrightarrow> q = g_kernel_space (k_space k)"
    and "address_space_kernel k' = g_kernel_space (k_space k)"
    and "page_view (k_mm k') (space_page_map_addr (g_kernel_space (k_space k))) = Map.empty"
proof -
  let ?p = "g_kernel_space (k_space k)" and ?s = "g_unpublished_map (k_space k)"
  note B = b [unfolded space_boot_def]
  define k1 where "k1 = upd_space ?p (\<lambda>s. s\<lparr>sp_id := 0, sp_kernel := True\<rparr>) k"
  obtain ok k2 where o: "on_mm (vmm_page_map_create (space_page_map_addr ?p)) k1 = (ok, k2)" by fastforce
  from o obtain mm' where m: "vmm_page_map_create_owned_range (space_page_map_addr ?p) 0 VM_PML4_ENTRY_COUNT (k_mm k) = (ok, mm')"
    and k2: "k2 = k1\<lparr>k_mm := mm'\<rparr>"
    by (rule on_mmE) (simp add: vmm_page_map_create_def k1_def upd_space_def)
  have ok and k': "k_mm k' = mm'" "h_space k' = h_space k1"
    "k_space k' = (k_space k)\<lparr>g_next_space_id := 1, g_space_storage := (replicate 256 0)[0 := ?p], g_kernel_ready := True\<rparr>"
    using c o k2 B by (auto simp: address_space_kernel_init_def Let_def k1_def [symmetric] set_spaces_def split: if_split_asm)
      (simp_all add: k1_def upd_space_def)
  have e: "maps_ok {} (k_mm k)" using B by (simp add: maps_ok_def)
  have mo: "maps_ok {space_page_map_addr ?p} mm'" using create_safe(1) [OF e _ m] \<open>ok\<close> by (simp add: vm_safe_def)
  have u: "unpublished_root k' = FRAME_INVALID"
    using create_fields [OF m, of ?s] B by (auto simp: unpublished_root_def k')
  have st: "(replicate 256 0)[0 := ?p] = ?p # replicate 255 0" using replicate_Suc [of 255 "0::ptr"] by simp
  then show lv: "space_storage_live k' q \<longleftrightarrow> q = ?p" for q using B by (auto simp: space_live_iff k')
  show "page_view (k_mm k') (space_page_map_addr ?p) = Map.empty" using create_safe(2) [OF e _ m] \<open>ok\<close> by (simp add: k')
  show "address_space_kernel k' = ?p" by (simp add: address_space_kernel_def k'(3))
  from lv have lm: "live_maps k' = {space_page_map_addr ?p}" by (auto simp: live_maps_def)
  have rg: "reg_ok (g_space_storage (k_space k'))" 
  proof -
    have z: "reg_ok (replicate 256 0)" by (auto simp: reg_ok_def)
    show ?thesis using reg_ok_add [OF z, of ?p 0] B by (simp add: k'(3))
  qed
  have sp: "space_ok k' ?p" by (simp add: space_ok_def k' k1_def upd_space_def)
  have us: "g_unpublished_map (k_space k') = ?s" "g_kernel_space (k_space k') = ?p" by (simp_all add: k'(3))
  have am: "all_maps k' = {space_page_map_addr ?p}" by (simp add: all_maps_def lm u)
  have ne: "?s \<noteq> 0" "?s \<noteq> space_page_map_addr ?p" using B by auto
  show "spaces_ok k'" unfolding spaces_ok_def us lm am k'(1) using rg sp mo ne by (simp add: lv)
qed

section \<open>Runs of the module\<close>

inductive space_step :: "Kernel \<Rightarrow> Kernel \<Rightarrow> bool" where
  map_page: "address_space_map_page p v f fl k = (b, k') \<Longrightarrow> space_step k k'"
| unmap_page: "address_space_unmap_page p v k = (r, k') \<Longrightarrow> space_step k k'"
| set_writable: "space_storage_live k p \<Longrightarrow> on_mm (vmm_set_writable (space_page_map_addr p) v f fl w) k = (b, k') \<Longrightarrow>
    space_step k k'"
| create: "space_page_map_addr p \<noteq> g_unpublished_map (k_space k) \<Longrightarrow> space_page_map_addr p \<noteq> 0 \<Longrightarrow>
    address_space_create p k = (b, k') \<Longrightarrow> space_step k k'"
| destroy: "address_space_destroy p k = (b, k') \<Longrightarrow> space_step k k'"
| reclaim: "address_space_reclaim_unpublished k = (b, k') \<Longrightarrow> space_step k k'"

inductive space_run :: "Kernel \<Rightarrow> Kernel \<Rightarrow> bool" where
  stay: "space_run k k"
| more: "space_run k k1 \<Longrightarrow> space_step k1 k' \<Longrightarrow> space_run k k'"

lemma space_step_ok:
  assumes "spaces_ok k" "space_step k k'"
  shows "spaces_ok k'"
  using assms(2)
proof cases
  case (map_page p v f fl b)
  then show ?thesis by (rule map_page_ok(1) [OF assms(1)])
next
  case (unmap_page p v r)
  then show ?thesis by (rule unmap_page_ok [OF assms(1)])
next
  case (set_writable p v f fl w b)
  then show ?thesis by (rule protect_page_ok [OF assms(1)])
next
  case (create p b)
  then show ?thesis using create_ok [OF assms(1) create(1,2), of b k'] by (simp add: address_space_create_def)
next
  case (destroy p b)
  then show ?thesis by (rule destroy_ok [OF assms(1)])
next
  case (reclaim b)
  then show ?thesis by (rule reclaim_ok(1) [OF assms(1)])
qed

lemma space_run_ok: "space_run k k' \<Longrightarrow> spaces_ok k \<Longrightarrow> spaces_ok k'"
  by (induction rule: space_run.induct) (auto intro: space_step_ok)

text \<open>C4. Confinement and W^X of user address spaces: after any sequence of map, unmap, protect,
  create, destroy and reclaim operations, also those that fail and roll back, a page that a user space itself maps lies in the user range, carries the
  user flag, and is not writable and executable at once.
\<close>

theorem user_space_confined:
  assumes "spaces_ok k0" and "space_run k0 k" and "space_storage_live k p" and "\<not> sp_kernel (h_space k p)"
  shows "\<forall>v f fl. page_view (k_mm k) (space_page_map_addr p) v = Some (f, fl) \<longrightarrow>
    user_virtual_address v \<and> address_space_query_page k p v = Some (f, fl) \<and>
    has fl VM_USER \<and> \<not> (has fl VM_WRITE \<and> has fl VM_EXEC)"
  using user_space_page [OF space_run_ok [OF assms(2,1)] assms(3,4)]
  by (auto split: if_split_asm)

text \<open>C30. \<open>address_space_map_page\<close> on every branch: it succeeds only on a live space, for a user
  space only inside the user range and not both writable and executable, and only on a page that
  was unmapped; the page is then mapped to the frame, with the user flag added for a user space.
  When it fails, for one of these reasons or because a table cannot be allocated, no translation
  of the space has changed. The other spaces keep theirs in both cases.
\<close>

theorem space_map_page_cases:
  assumes "spaces_ok k" and "address_space_map_page p v f fl k = (b, k')"
  shows "spaces_ok k' \<and> space_storage_live k' = space_storage_live k \<and>
    (\<forall>q. space_storage_live k q \<and> q \<noteq> p \<longrightarrow> page_view (k_mm k') (space_page_map_addr q) = page_view (k_mm k) (space_page_map_addr q)) \<and>
    (if b then space_storage_live k p \<and>
        (\<not> sp_kernel (h_space k p) \<longrightarrow> user_virtual_address v \<and> \<not> (has fl VM_WRITE \<and> has fl VM_EXEC)) \<and>
        page_view (k_mm k) (space_page_map_addr p) v = None \<and>
        page_view (k_mm k') (space_page_map_addr p) = (page_view (k_mm k) (space_page_map_addr p))
          (v \<mapsto> (f, if sp_kernel (h_space k p) then fl else fl OR VM_USER))
      else page_view (k_mm k') (space_page_map_addr p) = page_view (k_mm k) (space_page_map_addr p))"
  using map_page_ok [OF assms] by blast

section \<open>A concrete kernel\<close>

text \<open>The kernel space at \<open>0x1FF8\<close> and a user space at \<open>0xFF8\<close> over the concrete memory.\<close>

definition space_kernel :: Kernel where
  "space_kernel = small_kernel\<lparr>k_mm := demo_mm, h_space := (\<lambda>_. zero_space)(0x1FF8 := zero_space\<lparr>sp_kernel := True\<rparr>),
     k_space := (k_space small_kernel)\<lparr>g_kernel_space := 0x1FF8, g_unpublished_map := 0x3000,
       g_space_storage := [0x1FF8, 0xFF8, 0, 0]\<rparr>\<rparr>"

lemma space_kernel_ok: "spaces_ok space_kernel" "space_storage_live space_kernel p \<longleftrightarrow> p = 0x1FF8 \<or> p = 0xFF8"
proof -
  have s: "g_space_storage (k_space space_kernel) = [0x1FF8, 0xFF8, 0, 0]" "k_mm space_kernel = demo_mm"
    "g_unpublished_map (k_space space_kernel) = 0x3000" "g_kernel_space (k_space space_kernel) = 0x1FF8"
    "sp_kernel (h_space space_kernel q) \<longleftrightarrow> q = 0x1FF8" for q
    by (simp_all add: space_kernel_def zero_space_def)
  show lv: "space_storage_live space_kernel p \<longleftrightarrow> p = 0x1FF8 \<or> p = 0xFF8" for p by (auto simp: space_live_iff s)
  then have lm: "live_maps space_kernel = {0x1000, 0x2000}" by (auto simp: live_maps_def space_page_map_addr_def)
  have am: "all_maps space_kernel = {0x1000, 0x2000}" unfolding all_maps_def lm by (simp add: unpublished_root_def s) (simp add: demo_mm_def)
  have "page_view demo_mm 0x1000 v = (if v = 0x8000001000 then Some (33, VM_WRITE OR VM_USER) else None)" for v
    by (rule demo_view_all)
  then have "wx_view (page_view demo_mm 0x1000)" by (auto simp: wx_view_def has_def)
  then have "space_ok space_kernel 0xFF8" by (simp add: space_ok_def s space_page_map_addr_def)
  moreover have "space_ok space_kernel 0x1FF8" by (simp add: space_ok_def s)
  moreover have "reg_ok [0x1FF8, 0xFF8, 0, 0]" by (simp add: reg_ok_def nth_Cons' split: if_split)
  ultimately show "spaces_ok space_kernel" unfolding spaces_ok_def lm am lv s using demo_page_map_ok(2) by auto
qed

lemma space_kernel_map:
  assumes "address_space_map_page 0xFF8 0x8000003000 32 VM_EXEC space_kernel = (b, k')"
  shows "b" "page_view (k_mm k') 0x1000 0x8000003000 = Some (32, VM_EXEC OR VM_USER)"
    "page_view (k_mm k') 0x1000 0x8000001000 = Some (33, VM_WRITE OR VM_USER)"
    "space_storage_live k' 0xFF8" "\<not> sp_kernel (h_space k' 0xFF8)"
proof -
  have s: "k_mm space_kernel = demo_mm" "\<not> sp_kernel (h_space space_kernel 0xFF8)" "space_page_map_addr 0xFF8 = 0x1000"
    by (simp_all add: space_kernel_def zero_space_def space_page_map_addr_def)
  have o: "on_mm (vmm_map_page 0x1000 0x8000003000 32 (VM_EXEC OR VM_USER)) space_kernel = (b, k')"
    using assms by (simp add: address_space_map_page_def space_kernel_ok(2) s user_virtual_address_def has_def)
  then obtain mm' where m: "vmm_map_page 0x1000 0x8000003000 32 (VM_EXEC OR VM_USER) demo_mm = (b, mm')" and k': "k' = space_kernel\<lparr>k_mm := mm'\<rparr>"
    unfolding s(1) [symmetric] by (rule on_mmE)
  have a: "map_page_allowed demo_mm 0x1000 0x8000003000 32 (VM_EXEC OR VM_USER)"
    by (simp add: map_page_allowed_def has_def page_aligned_def virtual_address_canonical_def map_owns_pml4_index_def
      pml4_index_def valid_mapping_frame_def frame_to_phys_def Let_def) (simp add: demo_mm_def)
  have p: "profile_supported demo_mm" by (simp add: profile_supported_def has_def demo_mm_def)
  have w: "walk demo_mm (root_frame (page_map_at demo_mm 0x1000)) (leaf_path 0x8000003000) \<noteq> None"
    by (simp add: leaf_path_def pml4_index_def pdpt_index_def pd_index_def demo_existing)
  show b by (rule map_page_succeeds [OF demo_page_map_ok(1) m a p demo_view(2) w])
  then show "page_view (k_mm k') 0x1000 0x8000003000 = Some (32, VM_EXEC OR VM_USER)"
    "page_view (k_mm k') 0x1000 0x8000001000 = Some (33, VM_WRITE OR VM_USER)"
    using vmm.map_view [OF demo_page_map_ok(1) m] demo_view by (simp_all add: k')
  show "space_storage_live k' 0xFF8" "\<not> sp_kernel (h_space k' 0xFF8)"
    using space_kernel_ok(2) [of "0xFF8"] s(2) by (simp_all add: k' space_live_iff)
qed

text \<open>The state before the initialisation, with three free frames.\<close>

definition boot_kernel :: Kernel where
  "boot_kernel = small_kernel\<lparr>k_mm := small_mm\<lparr>page_map_at := \<lambda>_. zero_page_map\<lparr>root_frame := FRAME_INVALID\<rparr>\<rparr>,
     k_space := (k_space small_kernel)\<lparr>g_kernel_ready := False, g_next_space_id := 0, g_space_storage := replicate 256 0\<rparr>\<rparr>"

lemma boot_kernel_sel: "g_kernel_space (k_space boot_kernel) = 0x1000" "g_unpublished_map (k_space boot_kernel) = 0x2000"
  by (simp_all add: boot_kernel_def small_kernel_def)

lemma boot_kernel_boot: "space_boot boot_kernel"
  unfolding space_boot_def boot_kernel_sel unpublished_root_def
  using demo_inv by (simp add: boot_kernel_def small_mm_def space_page_map_addr_def)

lemma boot_kernel_init: "\<exists>k'. address_space_kernel_init boot_kernel = (True, k')"
proof -
  obtain s where f: "frame_alloc demo_pmm = (257, s)" using demo_alloc by (cases "frame_alloc demo_pmm") simp
  show ?thesis
    by (simp add: address_space_kernel_init_def boot_kernel_def small_kernel_def upd_space_def on_mm_def
      vmm_page_map_create_def vmm_page_map_create_owned_range_def create_owned_locked_def allocate_table_def
      profile_supported_def small_mm_def test_fault_def mm_frame_alloc_def f valid_mapping_frame_def table_pointer_def
      frame_to_phys_def has_def Let_def space_page_map_addr_def update_map_def)
qed

theorem user_space_confined_witness:
  "\<exists>k. space_run space_kernel k \<and> page_view (k_mm k) 0x1000 0x8000003000 = Some (32, VM_EXEC OR VM_USER) \<and>
    address_space_query_page k 0xFF8 0x8000003000 = Some (32, VM_EXEC OR VM_USER)"
proof -
  obtain b k where m: "address_space_map_page 0xFF8 0x8000003000 32 VM_EXEC space_kernel = (b, k)" by fastforce
  have r: "space_run space_kernel k" by (rule space_run.more [OF space_run.stay space_step.map_page [OF m]])
  note sm = space_kernel_map [OF m]
  show ?thesis using user_space_confined [OF space_kernel_ok(1) r sm(4,5)] r sm(2) by (auto simp: space_page_map_addr_def)
qed

theorem space_map_page_cases_witness:
  "\<exists>k'. address_space_map_page 0xFF8 0x8000003000 32 VM_EXEC space_kernel = (True, k') \<and> spaces_ok k' \<and>
    page_view (k_mm k') 0x1000 0x8000003000 = Some (32, VM_EXEC OR VM_USER) \<and>
    page_view (k_mm k') 0x2000 = page_view demo_mm 0x2000"
proof -
  obtain b k' where m: "address_space_map_page 0xFF8 0x8000003000 32 VM_EXEC space_kernel = (b, k')" by fastforce
  then have m: "address_space_map_page 0xFF8 0x8000003000 32 VM_EXEC space_kernel = (True, k')" using space_kernel_map(1) [OF m] by simp
  have "spaces_ok k' \<and> page_view (k_mm k') 0x2000 = page_view (k_mm space_kernel) 0x2000"
    using space_map_page_cases [OF space_kernel_ok(1) m] space_kernel_ok(2) by (auto simp: space_page_map_addr_def dest!: spec [of _ "0x1FF8"])
  then show ?thesis using m space_kernel_map(2) [OF m] by (auto simp: space_kernel_def)
qed

text \<open>C31. \<open>address_space_kernel_init\<close> establishes the invariant of the module: from the static
  initialisers and a consistent frame allocator, a successful call leaves the kernel's space as
  the only live one, with a well-formed page map of its own and no page mapped.
\<close>

theorem kernel_init_establishes:
  assumes "space_boot k" and "address_space_kernel_init k = (True, k')"
  shows "spaces_ok k' \<and> address_space_kernel k' = g_kernel_space (k_space k) \<and>
    (\<forall>p. space_storage_live k' p \<longleftrightarrow> p = g_kernel_space (k_space k)) \<and>
    page_view (k_mm k') (space_page_map_addr (g_kernel_space (k_space k))) = Map.empty"
  using space_boot_ok [OF assms] by blast

theorem kernel_init_establishes_witness:
  "\<exists>k'. address_space_kernel_init boot_kernel = (True, k') \<and> space_storage_live k' 0x1000 \<and> page_view (k_mm k') 0x1008 = Map.empty"
proof -
  obtain k' where i: "address_space_kernel_init boot_kernel = (True, k')" using boot_kernel_init by blast
  show ?thesis using kernel_init_establishes [OF boot_kernel_boot i] i by (auto simp: space_page_map_addr_def boot_kernel_sel)
qed

end
