(* ===== verification/VFS.thy ===== *)
theory VFS
  imports Prelude
begin

text \<open>
  The in-memory file system of \<^verbatim>\<open>src/kernel/vfs.c\<close>: a tree of nodes in a static array, with
  first-child and next-sibling links. A pointer into the array is the index of the node, the null
  pointer is \<open>None\<close>. A C string is the list of its bytes before the terminator. The walks along
  sibling links return \<open>None\<close> when they do not end.
\<close>

type_synonym cstr = "u8 list"

abbreviation (input) SLASH :: u8 where "SLASH \<equiv> 0x2F"
abbreviation (input) DOT :: u8 where "DOT \<equiv> 0x2E"

abbreviation (input) VFS_NAME_MAX :: nat where "VFS_NAME_MAX \<equiv> 63"
abbreviation (input) VFS_PATH_MAX :: nat where "VFS_PATH_MAX \<equiv> 256"
abbreviation (input) VFS_MAX_NODES :: nat where "VFS_MAX_NODES \<equiv> 256"

datatype VfsNodeType = VFS_FILE | VFS_DIRECTORY

record VfsNode =
  vn_name :: cstr
  vn_type :: VfsNodeType
  vn_data :: ptr
  vn_size :: u64
  vn_parent :: "nat option"
  vn_first_child :: "nat option"
  vn_next_sibling :: "nat option"

record Vfs =
  g_nodes :: "nat \<Rightarrow> VfsNode"
  g_node_count :: nat
  g_root :: "nat option"

definition upd_node :: "nat \<Rightarrow> (VfsNode \<Rightarrow> VfsNode) \<Rightarrow> Vfs \<Rightarrow> Vfs" where
  "upd_node i f v = v\<lparr>g_nodes := (g_nodes v)(i := f (g_nodes v i))\<rparr>"

section \<open>Nodes\<close>

definition zero_node :: VfsNode where
  "zero_node = \<lparr>vn_name = [], vn_type = VFS_FILE, vn_data = 0, vn_size = 0,
     vn_parent = None, vn_first_child = None, vn_next_sibling = None\<rparr>"

fun string_equal :: "cstr \<Rightarrow> cstr \<Rightarrow> bool" where
  "string_equal (a # as) (b # bs) = (if a \<noteq> b then False else string_equal as bs)"
| "string_equal as bs = (as = [] \<and> bs = [])"

definition allocate_node :: "Vfs \<Rightarrow> nat option \<times> Vfs" where
  "allocate_node v =
     (if g_node_count v \<ge> VFS_MAX_NODES then (None, v)
      else (Some (g_node_count v),
            upd_node (g_node_count v) (\<lambda>_. zero_node) (v\<lparr>g_node_count := g_node_count v + 1\<rparr>)))"

definition set_node_name :: "nat \<Rightarrow> cstr \<Rightarrow> Vfs \<Rightarrow> bool \<times> Vfs" where
  "set_node_name i name v =
     (if length name > VFS_NAME_MAX then (False, v)
      else (True, upd_node i (\<lambda>n. n\<lparr>vn_name := name\<rparr>) v))"

partial_function (option) last_sibling :: "Vfs \<Rightarrow> nat \<Rightarrow> nat option" where
  "last_sibling v current =
     (case vn_next_sibling (g_nodes v current) of
        None \<Rightarrow> Some current
      | Some n \<Rightarrow> last_sibling v n)"

definition append_child :: "nat \<Rightarrow> nat \<Rightarrow> Vfs \<Rightarrow> Vfs option" where
  "append_child parent child v =
     (let v = upd_node child (\<lambda>n. n\<lparr>vn_parent := Some parent, vn_next_sibling := None\<rparr>) v in
      case vn_first_child (g_nodes v parent) of
        None \<Rightarrow> Some (upd_node parent (\<lambda>n. n\<lparr>vn_first_child := Some child\<rparr>) v)
      | Some first \<Rightarrow>
          (case last_sibling v first of
             None \<Rightarrow> None
           | Some current \<Rightarrow> Some (upd_node current (\<lambda>n. n\<lparr>vn_next_sibling := Some child\<rparr>) v)))"

section \<open>Path components\<close>

datatype component = Component cstr cstr | Path_End | Too_Long

text \<open>The loop that copies the bytes up to the next slash; \<open>None\<close> when the buffer is full.\<close>

fun read_component :: "nat \<Rightarrow> cstr \<Rightarrow> (cstr \<times> cstr) option" where
  "read_component len [] = Some ([], [])"
| "read_component len (c # p) =
     (if c = SLASH then Some ([], c # p)
      else if len \<ge> VFS_NAME_MAX then None
      else case read_component (len + 1) p of
             None \<Rightarrow> None
           | Some (component, rest) \<Rightarrow> Some (c # component, rest))"

definition next_component :: "cstr \<Rightarrow> component" where
  "next_component cursor =
     (let p = dropWhile (\<lambda>c. c = SLASH) cursor in
      if p = [] then Path_End
      else case read_component 0 p of
             None \<Rightarrow> Too_Long
           | Some (component, rest) \<Rightarrow> Component component rest)"

lemma read_component_eq:
  "read_component len p =
     (if len + length (takeWhile (\<lambda>c. c \<noteq> SLASH) p) \<le> VFS_NAME_MAX \<or> takeWhile (\<lambda>c. c \<noteq> SLASH) p = []
      then Some (takeWhile (\<lambda>c. c \<noteq> SLASH) p, dropWhile (\<lambda>c. c \<noteq> SLASH) p) else None)"
  by (induction len p rule: read_component.induct) auto

lemma next_component_eq:
  "next_component cursor =
     (let p = dropWhile (\<lambda>c. c = SLASH) cursor; c = takeWhile (\<lambda>c. c \<noteq> SLASH) p in
      if p = [] then Path_End else if length c > VFS_NAME_MAX then Too_Long
      else Component c (dropWhile (\<lambda>c. c \<noteq> SLASH) p))"
  by (simp add: next_component_def read_component_eq Let_def)

lemma next_component_shorter: "next_component cursor = Component c rest \<Longrightarrow> length rest < length cursor"
proof -
  assume n: "next_component cursor = Component c rest"
  let ?p = "dropWhile (\<lambda>c. c = SLASH) cursor"
  have p: "?p \<noteq> []" and r: "rest = dropWhile (\<lambda>c. c \<noteq> SLASH) ?p"
    using n by (auto simp: next_component_eq Let_def split: if_split_asm)
  have "hd ?p \<noteq> SLASH" using p hd_dropWhile [of "\<lambda>c. c = SLASH" cursor] by simp
  then have "length rest < length ?p" using p r by (cases ?p) (auto simp: le_imp_less_Suc length_dropWhile_le)
  then show ?thesis using length_dropWhile_le [of "\<lambda>c. c = SLASH" cursor] by linarith
qed

section \<open>Operations\<close>

definition vfs_init :: "Vfs \<Rightarrow> Vfs" where
  "vfs_init v =
     (case allocate_node (v\<lparr>g_node_count := 0\<rparr>) of
        (None, v) \<Rightarrow> v\<lparr>g_root := None\<rparr>
      | (Some root, v) \<Rightarrow>
          upd_node root (\<lambda>n. n\<lparr>vn_name := [], vn_type := VFS_DIRECTORY, vn_parent := None,
            vn_first_child := None, vn_next_sibling := None\<rparr>) (v\<lparr>g_root := Some root\<rparr>))"

definition vfs_root :: "Vfs \<Rightarrow> nat option" where
  "vfs_root v = g_root v"

partial_function (option) find_sibling :: "Vfs \<Rightarrow> nat option \<Rightarrow> cstr \<Rightarrow> nat option option" where
  "find_sibling v node name =
     (case node of
        None \<Rightarrow> Some None
      | Some n \<Rightarrow>
          if string_equal (vn_name (g_nodes v n)) name then Some (Some n)
          else find_sibling v (vn_next_sibling (g_nodes v n)) name)"

definition vfs_find_child :: "Vfs \<Rightarrow> nat option \<Rightarrow> cstr \<Rightarrow> nat option option" where
  "vfs_find_child v directory name =
     (case directory of
        None \<Rightarrow> Some None
      | Some d \<Rightarrow>
          if vn_type (g_nodes v d) \<noteq> VFS_DIRECTORY then Some None
          else find_sibling v (vn_first_child (g_nodes v d)) name)"

definition ensure_directory :: "nat \<Rightarrow> cstr \<Rightarrow> Vfs \<Rightarrow> (nat option \<times> Vfs) option" where
  "ensure_directory parent name v =
     (case vfs_find_child v (Some parent) name of
        None \<Rightarrow> None
      | Some (Some existing) \<Rightarrow>
          if vn_type (g_nodes v existing) \<noteq> VFS_DIRECTORY then Some (None, v) else Some (Some existing, v)
      | Some None \<Rightarrow>
          (case allocate_node v of
             (None, v) \<Rightarrow> Some (None, v)
           | (Some node, v) \<Rightarrow>
               (case set_node_name node name v of
                  (False, v) \<Rightarrow> Some (None, v)
                | (True, v) \<Rightarrow>
                    (case append_child parent node (upd_node node (\<lambda>n. n\<lparr>vn_type := VFS_DIRECTORY\<rparr>) v) of
                       None \<Rightarrow> None
                     | Some v \<Rightarrow> Some (Some node, v)))))"

function resolve_loop :: "Vfs \<Rightarrow> nat \<Rightarrow> cstr \<Rightarrow> nat option option" where
  "resolve_loop v current cursor =
     (case next_component cursor of
        Path_End \<Rightarrow> Some (Some current)
      | Too_Long \<Rightarrow> Some None
      | Component c rest \<Rightarrow>
          if string_equal c [DOT] then resolve_loop v current rest
          else if string_equal c [DOT, DOT] then
            resolve_loop v (case vn_parent (g_nodes v current) of None \<Rightarrow> current | Some p \<Rightarrow> p) rest
          else
            case vfs_find_child v (Some current) c of
              None \<Rightarrow> None
            | Some None \<Rightarrow> Some None
            | Some (Some n) \<Rightarrow> resolve_loop v n rest)"
  by pat_completeness auto
termination
  by (relation "measure (\<lambda>(v, current, cursor). length cursor)") (auto dest: next_component_shorter)

definition vfs_resolve :: "Vfs \<Rightarrow> nat option \<Rightarrow> cstr \<Rightarrow> nat option option" where
  "vfs_resolve v start path =
     (case g_root v of
        None \<Rightarrow> Some None
      | Some root \<Rightarrow>
          resolve_loop v
            (if path \<noteq> [] \<and> hd path = SLASH then root else case start of Some s \<Rightarrow> s | None \<Rightarrow> root) path)"

function add_directory_loop :: "nat \<Rightarrow> cstr \<Rightarrow> Vfs \<Rightarrow> (bool \<times> Vfs) option" where
  "add_directory_loop current cursor v =
     (case next_component cursor of
        Path_End \<Rightarrow> Some (True, v)
      | Too_Long \<Rightarrow> Some (False, v)
      | Component c rest \<Rightarrow>
          if string_equal c [DOT] then add_directory_loop current rest v
          else if string_equal c [DOT, DOT] then Some (False, v)
          else
            case ensure_directory current c v of
              None \<Rightarrow> None
            | Some (None, v) \<Rightarrow> Some (False, v)
            | Some (Some n, v) \<Rightarrow> add_directory_loop n rest v)"
  by pat_completeness auto
termination
  by (relation "measure (\<lambda>(current, cursor, v). length cursor)") (auto dest: next_component_shorter)

definition vfs_add_directory :: "cstr \<Rightarrow> Vfs \<Rightarrow> (bool \<times> Vfs) option" where
  "vfs_add_directory path v =
     (case g_root v of None \<Rightarrow> Some (False, v) | Some root \<Rightarrow> add_directory_loop root path v)"

text \<open>The last component: overwrite a file of that name, or create one.\<close>

definition add_final :: "nat \<Rightarrow> cstr \<Rightarrow> ptr \<Rightarrow> u64 \<Rightarrow> Vfs \<Rightarrow> (bool \<times> Vfs) option" where
  "add_final current name data sz v =
     (case vfs_find_child v (Some current) name of
        None \<Rightarrow> None
      | Some (Some existing) \<Rightarrow>
          if vn_type (g_nodes v existing) \<noteq> VFS_FILE then Some (False, v)
          else Some (True, upd_node existing (\<lambda>n. n\<lparr>vn_data := data, vn_size := sz\<rparr>) v)
      | Some None \<Rightarrow>
          (case allocate_node v of
             (None, v) \<Rightarrow> Some (False, v)
           | (Some file, v) \<Rightarrow>
               (case set_node_name file name v of
                  (False, v) \<Rightarrow> Some (False, v)
                | (True, v) \<Rightarrow>
                    (case append_child current file
                       (upd_node file (\<lambda>n. n\<lparr>vn_type := VFS_FILE, vn_data := data, vn_size := sz\<rparr>) v) of
                       None \<Rightarrow> None
                     | Some v \<Rightarrow> Some (True, v)))))"

function add_file_loop :: "nat \<Rightarrow> cstr \<Rightarrow> ptr \<Rightarrow> u64 \<Rightarrow> Vfs \<Rightarrow> (bool \<times> Vfs) option" where
  "add_file_loop current cursor data sz v =
     (case next_component cursor of
        Path_End \<Rightarrow> Some (False, v)
      | Too_Long \<Rightarrow> Some (False, v)
      | Component c rest \<Rightarrow>
          if string_equal c [DOT] then add_file_loop current rest data sz v
          else if string_equal c [DOT, DOT] then Some (False, v)
          else if dropWhile (\<lambda>c. c = SLASH) rest \<noteq> [] then
            (case ensure_directory current c v of
               None \<Rightarrow> None
             | Some (None, v) \<Rightarrow> Some (False, v)
             | Some (Some n, v) \<Rightarrow> add_file_loop n rest data sz v)
          else add_final current c data sz v)"
  by pat_completeness auto
termination
  by (relation "measure (\<lambda>(current, cursor, data, sz, v). length cursor)") (auto dest: next_component_shorter)

definition vfs_add_file :: "cstr \<Rightarrow> ptr \<Rightarrow> u64 \<Rightarrow> Vfs \<Rightarrow> (bool \<times> Vfs) option" where
  "vfs_add_file path data sz v =
     (case g_root v of None \<Rightarrow> Some (False, v) | Some root \<Rightarrow> add_file_loop root path data sz v)"

text \<open>
  The path of a node: a first walk to the root measures it and gives up on an empty name or after
  too many steps, a second walk writes the names from the end of the buffer.
\<close>

function path_total :: "Vfs \<Rightarrow> nat option \<Rightarrow> nat \<Rightarrow> u32 \<Rightarrow> (nat option \<times> u32) option" where
  "path_total v current depth total_size =
     (case current of
        None \<Rightarrow> Some (current, total_size)
      | Some n \<Rightarrow>
          if current = g_root v then Some (current, total_size)
          else if vn_name (g_nodes v n) = [] then None
          else if depth + 1 > VFS_MAX_NODES then None
          else path_total v (vn_parent (g_nodes v n)) (depth + 1) (total_size + of_nat (length (vn_name (g_nodes v n))) + 1))"
  by pat_completeness auto
termination
  by (relation "measure (\<lambda>(v, current, depth, total_size). VFS_MAX_NODES - depth)") auto

partial_function (option) path_text :: "Vfs \<Rightarrow> nat option \<Rightarrow> cstr \<Rightarrow> cstr option" where
  "path_text v current text =
     (if current = g_root v then Some text
      else case current of
             None \<Rightarrow> None
           | Some n \<Rightarrow> path_text v (vn_parent (g_nodes v n)) (SLASH # vn_name (g_nodes v n) @ text))"

definition vfs_get_path :: "Vfs \<Rightarrow> nat option \<Rightarrow> u32 \<Rightarrow> cstr option option" where
  "vfs_get_path v node capacity =
     (case node of
        None \<Rightarrow> Some None
      | Some n \<Rightarrow>
          if capacity = 0 then Some None
          else if node = g_root v then (if capacity < 2 then Some None else Some (Some [SLASH]))
          else
            case path_total v node 0 0 of
              None \<Rightarrow> Some None
            | Some (current, total_size) \<Rightarrow>
                if current \<noteq> g_root v then Some None
                else if total_size + 1 > capacity then Some None
                else map_option Some (path_text v node []))"

end
