(* ===== verification/VFS_Laws.thy ===== *)
theory VFS_Laws
  imports VFS "HOL-Library.Sublist"
begin

text \<open>
  The file system as a map from component lists to entries: the invariant of the node array, what
  the walks along the links compute, and how creating a node changes the map.
\<close>

lemma string_equal_eq [simp]: "string_equal a b \<longleftrightarrow> a = b"
  by (induction a b rule: string_equal.induct) auto

section \<open>The tree in the array\<close>

fun is_chain :: "Vfs \<Rightarrow> nat option \<Rightarrow> nat list \<Rightarrow> bool" where
  "is_chain v start [] \<longleftrightarrow> start = None"
| "is_chain v start (x # xs) \<longleftrightarrow> start = Some x \<and> is_chain v (vn_next_sibling (g_nodes v x)) xs"

definition name_ok :: "cstr \<Rightarrow> bool" where
  "name_ok c \<longleftrightarrow> c \<noteq> [] \<and> length c \<le> VFS_NAME_MAX \<and> SLASH \<notin> set c \<and> c \<noteq> [DOT] \<and> c \<noteq> [DOT, DOT]"

text \<open>\<open>K d\<close> are the children of the node \<open>d\<close>, oldest first. A child is younger than its directory.\<close>

definition children_ok :: "Vfs \<Rightarrow> nat \<Rightarrow> nat list \<Rightarrow> bool" where
  "children_ok v d xs \<longleftrightarrow>
     is_chain v (vn_first_child (g_nodes v d)) xs \<and> distinct xs \<and>
     (\<forall>x\<in>set xs. d < x \<and> x < g_node_count v \<and> vn_parent (g_nodes v x) = Some d \<and> name_ok (vn_name (g_nodes v x))) \<and>
     distinct (map (\<lambda>x. vn_name (g_nodes v x)) xs) \<and> (vn_type (g_nodes v d) = VFS_FILE \<longrightarrow> xs = [])"

definition vfs_tree :: "Vfs \<Rightarrow> (nat \<Rightarrow> nat list) \<Rightarrow> bool" where
  "vfs_tree v K \<longleftrightarrow>
     g_root v = Some 0 \<and> 0 < g_node_count v \<and> g_node_count v \<le> VFS_MAX_NODES \<and>
     vn_type (g_nodes v 0) = VFS_DIRECTORY \<and> vn_parent (g_nodes v 0) = None \<and>
     (\<forall>d<g_node_count v. children_ok v d (K d))"

definition vfs_ok :: "Vfs \<Rightarrow> bool" where
  "vfs_ok v \<longleftrightarrow> (\<exists>K. vfs_tree v K)"

lemma vfs_treeD:
  assumes "vfs_tree v K" and "d < g_node_count v"
  shows "is_chain v (vn_first_child (g_nodes v d)) (K d)" "distinct (K d)"
    "x \<in> set (K d) \<Longrightarrow> d < x \<and> x < g_node_count v \<and> vn_parent (g_nodes v x) = Some d \<and> name_ok (vn_name (g_nodes v x))"
    "distinct (map (\<lambda>x. vn_name (g_nodes v x)) (K d))" "vn_type (g_nodes v d) = VFS_FILE \<Longrightarrow> K d = []"
proof -
  have c: "children_ok v d (K d)" using assms by (simp add: vfs_tree_def)
  show "is_chain v (vn_first_child (g_nodes v d)) (K d)" "distinct (K d)"
    "x \<in> set (K d) \<Longrightarrow> d < x \<and> x < g_node_count v \<and> vn_parent (g_nodes v x) = Some d \<and> name_ok (vn_name (g_nodes v x))"
    "distinct (map (\<lambda>x. vn_name (g_nodes v x)) (K d))" "vn_type (g_nodes v d) = VFS_FILE \<Longrightarrow> K d = []"
    using c unfolding children_ok_def by blast+
qed

lemma find_sibling_chain: "is_chain v start xs \<Longrightarrow> find_sibling v start c = Some (find (\<lambda>x. vn_name (g_nodes v x) = c) xs)"
proof (induction xs arbitrary: start)
  case Nil
  then show ?case by (simp add: find_sibling.simps [of v None])
next
  case (Cons x xs)
  then show ?case by (simp add: find_sibling.simps [of v "Some x"])
qed

lemma last_sibling_chain: "is_chain v (Some x) xs \<Longrightarrow> last_sibling v x = Some (last xs)"
proof (induction xs arbitrary: x)
  case (Cons y ys)
  then show ?case by (cases ys) (auto simp: last_sibling.simps [of v y])
qed simp

definition child_of :: "Vfs \<Rightarrow> (nat \<Rightarrow> nat list) \<Rightarrow> nat \<Rightarrow> cstr \<Rightarrow> nat option" where
  "child_of v K d c = find (\<lambda>x. vn_name (g_nodes v x) = c) (K d)"

lemma find_child_eq:
  assumes "vfs_tree v K" and "d < g_node_count v"
  shows "vfs_find_child v (Some d) c = Some (child_of v K d c)"
  using vfs_treeD [OF assms] find_sibling_chain [of v "vn_first_child (g_nodes v d)" "K d" c]
  by (cases "vn_type (g_nodes v d)") (auto simp: vfs_find_child_def child_of_def)

lemma child_of_some:
  assumes "vfs_tree v K" and "d < g_node_count v" and "child_of v K d c = Some x"
  shows "x \<in> set (K d)" "d < x" "x < g_node_count v" "vn_parent (g_nodes v x) = Some d" "vn_name (g_nodes v x) = c"
    "name_ok c"
proof -
  show x: "x \<in> set (K d)" and n: "vn_name (g_nodes v x) = c"
    using assms(3) by (auto simp: child_of_def find_Some_iff)
  show "d < x" "x < g_node_count v" "vn_parent (g_nodes v x) = Some d" "name_ok c"
    using vfs_treeD(3) [OF assms(1,2) x] n by auto
qed

section \<open>The map of a tree\<close>

datatype fs_entry = Directory | File ptr u64

definition node_entry :: "VfsNode \<Rightarrow> fs_entry" where
  "node_entry n = (case vn_type n of VFS_DIRECTORY \<Rightarrow> Directory | VFS_FILE \<Rightarrow> File (vn_data n) (vn_size n))"

fun descend_from :: "Vfs \<Rightarrow> nat \<Rightarrow> cstr list \<Rightarrow> nat option" where
  "descend_from v d [] = Some d"
| "descend_from v d (c # cs) =
     (case vfs_find_child v (Some d) c of Some (Some n) \<Rightarrow> descend_from v n cs | _ \<Rightarrow> None)"

definition vfs_view :: "Vfs \<Rightarrow> cstr list \<Rightarrow> fs_entry option" where
  "vfs_view v cs = map_option (\<lambda>n. node_entry (g_nodes v n)) (descend_from v 0 cs)"

lemma descend_append: "descend_from v d (as @ bs) = (case descend_from v d as of None \<Rightarrow> None | Some e \<Rightarrow> descend_from v e bs)"
  by (induction as arbitrary: d) (auto split: option.splits)

lemma descend_less:
  assumes t: "vfs_tree v K" and "d < g_node_count v" and "descend_from v d cs = Some e"
  shows "e < g_node_count v"
  using assms(2,3)
proof (induction cs arbitrary: d)
  case (Cons c cs)
  then show ?case using find_child_eq [OF t Cons.prems(1), of c] child_of_some(3) [OF t Cons.prems(1), of c]
    by (auto split: option.split_asm)
qed simp

lemma descend_snoc:
  assumes t: "vfs_tree v K"
  shows "descend_from v 0 (cs @ [c]) = (case descend_from v 0 cs of None \<Rightarrow> None | Some e \<Rightarrow> child_of v K e c)"
proof -
  have z: "0 < g_node_count v" using t by (simp add: vfs_tree_def)
  show ?thesis using descend_less [OF t z, of cs] find_child_eq [OF t, of _ c]
    by (auto simp: descend_append split: option.split)
qed

text \<open>A node has one path.\<close>

lemma descend_inject:
  assumes t: "vfs_tree v K" and "descend_from v 0 as = Some d" and "descend_from v 0 bs = Some d"
  shows "as = bs"
  using assms(2,3)
proof (induction d arbitrary: as bs rule: less_induct)
  case (less d)
  have z: "0 < g_node_count v" using t by (simp add: vfs_tree_def)
  have up: "if xs = [] then d = 0 else \<exists>e. descend_from v 0 (butlast xs) = Some e \<and> e < d \<and>
      vn_parent (g_nodes v d) = Some e \<and> vn_name (g_nodes v d) = last xs" if xs: "descend_from v 0 xs = Some d" for xs
  proof (cases xs rule: rev_cases)
    case (snoc ys y)
    then obtain e where e: "descend_from v 0 ys = Some e" "child_of v K e y = Some d"
      using xs descend_snoc [OF t, of ys y] by (auto split: option.split_asm)
    then show ?thesis using child_of_some [OF t descend_less [OF t z e(1)] e(2)] snoc by auto
  qed (use xs in simp)
  from up [OF less.prems(1)] up [OF less.prems(2)] show ?case
  proof (cases "as = [] \<or> bs = []")
    case False
    with up [OF less.prems(1)] up [OF less.prems(2)] obtain e where
      "descend_from v 0 (butlast as) = Some e" "descend_from v 0 (butlast bs) = Some e" "e < d" "last as = last bs"
      by auto
    with less.IH [of e "butlast as" "butlast bs"] False show ?thesis by (metis append_butlast_last_id)
  qed (auto split: if_split_asm)
qed

section \<open>A new node\<close>

lemma chain_cong:
  "(\<And>x. x \<in> set xs \<Longrightarrow> vn_next_sibling (g_nodes v' x) = vn_next_sibling (g_nodes v x)) \<Longrightarrow> is_chain v' start xs = is_chain v start xs"
  by (induction xs arbitrary: start) simp_all

lemma chain_snoc:
  assumes "is_chain v start xs" and "xs \<noteq> []" and "vn_next_sibling (g_nodes v' (last xs)) = Some n" and "vn_next_sibling (g_nodes v' n) = None"
    and "\<And>x. x \<in> set (butlast xs) \<Longrightarrow> vn_next_sibling (g_nodes v' x) = vn_next_sibling (g_nodes v x)"
  shows "is_chain v' start (xs @ [n])"
  using assms
proof (induction xs arbitrary: start)
  case (Cons x xs)
  then show ?case by (cases "xs = []") auto
qed simp

text \<open>Two arrays with the same contents up to the links between siblings.\<close>

definition same_nodes :: "nat \<Rightarrow> Vfs \<Rightarrow> Vfs \<Rightarrow> bool" where
  "same_nodes n v v' \<longleftrightarrow> (\<forall>i<n. vn_name (g_nodes v' i) = vn_name (g_nodes v i) \<and> vn_type (g_nodes v' i) = vn_type (g_nodes v i) \<and>
     vn_data (g_nodes v' i) = vn_data (g_nodes v i) \<and> vn_size (g_nodes v' i) = vn_size (g_nodes v i) \<and>
     vn_parent (g_nodes v' i) = vn_parent (g_nodes v i))"

lemma same_entry: "same_nodes n v v' \<Longrightarrow> i < n \<Longrightarrow> node_entry (g_nodes v' i) = node_entry (g_nodes v i)"
  by (simp add: same_nodes_def node_entry_def split: VfsNodeType.split)

definition added :: "Vfs \<Rightarrow> nat \<Rightarrow> VfsNode \<Rightarrow> Vfs" where
  "added v p g = (let n = g_node_count v; v = upd_node n (\<lambda>_. g\<lparr>vn_parent := Some p, vn_next_sibling := None\<rparr>) (v\<lparr>g_node_count := n + 1\<rparr>)
     in case vn_first_child (g_nodes v p) of
          None \<Rightarrow> upd_node p (\<lambda>m. m\<lparr>vn_first_child := Some n\<rparr>) v
        | Some f \<Rightarrow> upd_node (the (last_sibling v f)) (\<lambda>m. m\<lparr>vn_next_sibling := Some n\<rparr>) v)"

lemma added_eq:
  assumes t: "vfs_tree v K" and p: "p < g_node_count v"
  defines "n \<equiv> g_node_count v"
  shows "append_child p n (upd_node n (\<lambda>_. g) (v\<lparr>g_node_count := n + 1\<rparr>)) = Some (added v p g)"
    and "added v p g = (let w = upd_node n (\<lambda>_. g\<lparr>vn_parent := Some p, vn_next_sibling := None\<rparr>) (v\<lparr>g_node_count := n + 1\<rparr>) in
      if K p = [] then upd_node p (\<lambda>m. m\<lparr>vn_first_child := Some n\<rparr>) w
      else upd_node (last (K p)) (\<lambda>m. m\<lparr>vn_next_sibling := Some n\<rparr>) w)"
proof -
  define w where "w = upd_node n (\<lambda>_. g\<lparr>vn_parent := Some p, vn_next_sibling := None\<rparr>) (v\<lparr>g_node_count := n + 1\<rparr>)"
  have w': "upd_node n (\<lambda>m. m\<lparr>vn_parent := Some p, vn_next_sibling := None\<rparr>) (upd_node n (\<lambda>_. g) (v\<lparr>g_node_count := n + 1\<rparr>)) = w"
    by (simp add: w_def upd_node_def)
  have fc: "vn_first_child (g_nodes w p) = vn_first_child (g_nodes v p)" using p by (simp add: w_def upd_node_def n_def)
  have "is_chain w (vn_first_child (g_nodes v p)) (K p)"
    using vfs_treeD(1,3) [OF t p] by (subst chain_cong [where v = v]) (auto simp: w_def upd_node_def n_def)
  then have l: "last_sibling w f = Some (last (K p)) \<and> K p \<noteq> []" if "vn_first_child (g_nodes v p) = Some f" for f
    using that last_sibling_chain [of w f "K p"] by (cases "K p") auto
  have e: "K p = []" if "vn_first_child (g_nodes v p) = None"
    using that vfs_treeD(1) [OF t p] by (cases "K p") auto
  show "append_child p n (upd_node n (\<lambda>_. g) (v\<lparr>g_node_count := n + 1\<rparr>)) = Some (added v p g)"
    unfolding append_child_def Let_def w' added_def n_def [symmetric] w_def [symmetric] fc using l by (auto split: option.split)
  show "added v p g = (let w = upd_node n (\<lambda>_. g\<lparr>vn_parent := Some p, vn_next_sibling := None\<rparr>) (v\<lparr>g_node_count := n + 1\<rparr>) in
      if K p = [] then upd_node p (\<lambda>m. m\<lparr>vn_first_child := Some n\<rparr>) w
      else upd_node (last (K p)) (\<lambda>m. m\<lparr>vn_next_sibling := Some n\<rparr>) w)"
    unfolding Let_def added_def n_def [symmetric] w_def [symmetric] fc using l e by (auto split: option.split)
qed

lemma added_fields:
  fixes g :: VfsNode
  assumes t: "vfs_tree v K" and p: "p < g_node_count v"
  defines "n \<equiv> g_node_count v" and "v' \<equiv> added v p g"
  shows "g_node_count v' = n + 1" "g_root v' = g_root v" "same_nodes n v v'"
    "vn_name (g_nodes v' n) = vn_name g" "vn_first_child (g_nodes v' n) = vn_first_child g" "vn_next_sibling (g_nodes v' n) = None"
    "vn_parent (g_nodes v' n) = Some p" "node_entry (g_nodes v' n) = node_entry g" "vn_type (g_nodes v' n) = vn_type g"
    "i < n \<Longrightarrow> vn_next_sibling (g_nodes v' i) = (if K p \<noteq> [] \<and> i = last (K p) then Some n else vn_next_sibling (g_nodes v i))"
    "i < n \<Longrightarrow> vn_first_child (g_nodes v' i) = (if K p = [] \<and> i = p then Some n else vn_first_child (g_nodes v i))"
proof -
  have l: "K p \<noteq> [] \<Longrightarrow> last (K p) < n" using vfs_treeD(3) [OF t p, of "last (K p)"] by (simp add: n_def)
  have "p \<noteq> n" using p by (simp add: n_def)
  note e = added_eq(2) [OF t p, of g, folded n_def v'_def, unfolded Let_def]
  show "g_node_count v' = n + 1" "g_root v' = g_root v" "same_nodes n v v'"
    "vn_name (g_nodes v' n) = vn_name g" "vn_first_child (g_nodes v' n) = vn_first_child g" "vn_next_sibling (g_nodes v' n) = None"
    "vn_parent (g_nodes v' n) = Some p" "node_entry (g_nodes v' n) = node_entry g" "vn_type (g_nodes v' n) = vn_type g"
    "i < n \<Longrightarrow> vn_next_sibling (g_nodes v' i) = (if K p \<noteq> [] \<and> i = last (K p) then Some n else vn_next_sibling (g_nodes v i))"
    "i < n \<Longrightarrow> vn_first_child (g_nodes v' i) = (if K p = [] \<and> i = p then Some n else vn_first_child (g_nodes v i))"
    using l \<open>p \<noteq> n\<close> unfolding e by (simp_all add: upd_node_def same_nodes_def node_entry_def split: VfsNodeType.split) auto
qed

lemma added_children:
  fixes g :: VfsNode
  assumes t: "vfs_tree v K" and p: "p < g_node_count v" and d: "vn_type (g_nodes v p) = VFS_DIRECTORY"
    and g: "name_ok (vn_name g)" "child_of v K p (vn_name g) = None" "vn_first_child g = None"
  defines "n \<equiv> g_node_count v" and "v' \<equiv> added v p g"
  assumes i: "i \<le> n"
  shows "children_ok v' i ((K(p := K p @ [n], n := [])) i)"
proof (cases "i = n")
  case True
  then show ?thesis using added_fields(5) [OF t p, where g = g] g(3) by (simp add: children_ok_def n_def v'_def)
next
  case False
  then have i: "i < g_node_count v" using i by (simp add: n_def)
  note f = added_fields [OF t p, where g = g, folded n_def v'_def] and ti = vfs_treeD [OF t i] and tp = vfs_treeD [OF t p]
  have s: "vn_name (g_nodes v' x) = vn_name (g_nodes v x)" "vn_type (g_nodes v' x) = vn_type (g_nodes v x)"
    "vn_parent (g_nodes v' x) = vn_parent (g_nodes v x)" if "x < n" for x
    using f(3) that by (simp_all add: same_nodes_def)
  have less: "x < n" if "x \<in> set (K i)" for x using ti(3) [OF that] by (simp add: n_def)
  have names: "map (\<lambda>x. vn_name (g_nodes v' x)) (K i) = map (\<lambda>x. vn_name (g_nodes v x)) (K i)" using less s(1) by simp
  have nd: "distinct (map (\<lambda>x. vn_name (g_nodes v' x)) (K i))" unfolding names by (rule ti(4))
  have old: "\<forall>x\<in>set (K i). i < x \<and> x < g_node_count v' \<and> vn_parent (g_nodes v' x) = Some i \<and> name_ok (vn_name (g_nodes v' x))"
    using ti(3) less s by (simp add: f(1) n_def less_Suc_eq)
  show ?thesis
  proof (cases "i = p")
    case True
    have nn: "n \<notin> set (K p)" using less True by blast
    have "is_chain v' (vn_first_child (g_nodes v' p)) (K p @ [n])"
    proof (cases "K p = []")
      case True
      then show ?thesis using f(6) f(11) [of p] p by (simp add: n_def)
    next
      case False
      have b: "x \<noteq> last (K p)" if "x \<in> set (butlast (K p))" for x
        using that tp(2) False by (metis append_butlast_last_id distinct_append distinct.simps(2) disjoint_iff list.set_intros(1))
      have "last (K p) < n" using False tp(3) [of "last (K p)"] by (simp add: n_def)
      then show ?thesis using chain_snoc [OF tp(1) False, of v' n] f(6) f(10,11) b less True p False in_set_butlastD
        by (metis n_def)
    qed
    moreover have "vn_name g \<notin> set (map (\<lambda>x. vn_name (g_nodes v x)) (K p))"
      using g(2) by (auto simp: child_of_def find_None_iff)
    ultimately show ?thesis
      using True \<open>i \<noteq> n\<close> tp(2) nn old names nd f(1,4,7) g(1) p s(2) [of p] d by (auto simp: children_ok_def n_def)
  next
    case False
    have "is_chain v' (vn_first_child (g_nodes v' i)) (K i)"
    proof (subst chain_cong [where v = v])
      show "is_chain v (vn_first_child (g_nodes v' i)) (K i)" using ti(1) f(11) [of i] i False by (simp add: n_def)
      fix x assume x: "x \<in> set (K i)"
      have "x \<noteq> last (K p)" if "K p \<noteq> []" using ti(3) [OF x] tp(3) [OF last_in_set [OF that]] False by auto
      then show "vn_next_sibling (g_nodes v' x) = vn_next_sibling (g_nodes v x)" using f(10) [of x] less [OF x] by auto
    qed
    then show ?thesis
      using False \<open>i \<noteq> n\<close> ti(2,5) old nd s(2) [of i] i by (simp add: children_ok_def n_def)
  qed
qed

lemma added_tree:
  fixes g :: VfsNode
  assumes t: "vfs_tree v K" and p: "p < g_node_count v" and d: "vn_type (g_nodes v p) = VFS_DIRECTORY"
    and g: "name_ok (vn_name g)" "child_of v K p (vn_name g) = None" "vn_first_child g = None"
    and n: "g_node_count v < VFS_MAX_NODES"
  shows "vfs_tree (added v p g) (K(p := K p @ [g_node_count v], g_node_count v := []))"
proof -
  note f = added_fields [OF t p, where g = g] and c = added_children [OF t p d g]
  have z: "0 < g_node_count v" "g_root v = Some 0" "vn_type (g_nodes v 0) = VFS_DIRECTORY" "vn_parent (g_nodes v 0) = None"
    using t by (simp_all add: vfs_tree_def)
  then have "vn_type (g_nodes (added v p g) 0) = VFS_DIRECTORY" "vn_parent (g_nodes (added v p g) 0) = None"
    using f(3) by (simp_all add: same_nodes_def)
  then show ?thesis unfolding vfs_tree_def using z f(1,2) n c by (simp add: less_Suc_eq_le)
qed

lemma find_snoc: "find P (xs @ [x]) = (case find P xs of None \<Rightarrow> if P x then Some x else None | Some y \<Rightarrow> Some y)"
  by (induction xs) simp_all

lemma added_child_of:
  fixes g :: VfsNode
  assumes t: "vfs_tree v K" and p: "p < g_node_count v" and g: "child_of v K p (vn_name g) = None"
    and i: "i \<le> g_node_count v"
  shows "child_of (added v p g) (K(p := K p @ [g_node_count v], g_node_count v := [])) i c =
    (if i = p \<and> c = vn_name g then Some (g_node_count v) else if i = g_node_count v then None else child_of v K i c)"
proof (cases "i = g_node_count v")
  case False
  then have i: "i < g_node_count v" using i by simp
  note f = added_fields [OF t p, where g = g]
  have s: "vn_name (g_nodes (added v p g) x) = vn_name (g_nodes v x)" if "x \<in> set (K i)" for x
    using f(3) vfs_treeD(3) [OF t i that] by (simp add: same_nodes_def)
  have "find (\<lambda>x. vn_name (g_nodes (added v p g) x) = c) (K i) = child_of v K i c"
    unfolding child_of_def by (rule find_cong) (simp_all add: s)
  then show ?thesis using False g f(4) by (cases "i = p") (auto simp: child_of_def find_snoc split: option.split)
qed (use p in \<open>simp add: child_of_def\<close>)

lemma added_view:
  fixes g :: VfsNode
  assumes t: "vfs_tree v K" and p: "p < g_node_count v" and d: "vn_type (g_nodes v p) = VFS_DIRECTORY"
    and g: "name_ok (vn_name g)" "child_of v K p (vn_name g) = None" "vn_first_child g = None"
    and n: "g_node_count v < VFS_MAX_NODES" and ps: "descend_from v 0 ps = Some p"
  shows "descend_from (added v p g) 0 cs = (if cs = ps @ [vn_name g] then Some (g_node_count v) else descend_from v 0 cs)"
    and "vfs_view (added v p g) = (vfs_view v)(ps @ [vn_name g] \<mapsto> node_entry g)"
proof -
  let ?v' = "added v p g" and ?n = "g_node_count v"
  note t' = added_tree [OF t p d g n] and co = added_child_of [OF t p g(2)] and f = added_fields [OF t p, where g = g]
  have z: "0 < ?n" using t by (simp add: vfs_tree_def)
  show ds: "descend_from ?v' 0 cs = (if cs = ps @ [vn_name g] then Some ?n else descend_from v 0 cs)" for cs
  proof (induction cs rule: rev_induct)
    case (snoc c cs)
    show ?case
    proof (cases "descend_from v 0 cs")
      case None
      have ne: "cs \<noteq> ps" using None ps by auto
      have "?n \<noteq> p" using p by blast
      then have cn: "child_of ?v' (K(p := K p @ [?n], ?n := [])) ?n c = None" using co [OF order_refl, of c] by simp
      have "descend_from ?v' 0 cs = None \<or> descend_from ?v' 0 cs = Some ?n" using snoc.IH None by presburger
      then have "descend_from ?v' 0 (cs @ [c]) = None"
        using descend_snoc [OF t', of cs c] cn by (elim disjE) (simp_all only: option.case)
      moreover have "descend_from v 0 (cs @ [c]) = None" unfolding descend_snoc [OF t] None by simp
      ultimately show ?thesis using ne by simp
    next
      case (Some e)
      note e = descend_less [OF t z Some]
      have ep: "e = p \<longleftrightarrow> cs = ps" using descend_inject [OF t Some, of ps] ps Some by auto
      have "descend_from v 0 (ps @ [vn_name g]) = None" using descend_snoc [OF t, of ps "vn_name g"] ps g(2) by simp
      then have "descend_from ?v' 0 cs = Some e" using snoc.IH Some by auto
      then have "descend_from ?v' 0 (cs @ [c]) = (if e = p \<and> c = vn_name g then Some ?n else child_of v K e c)"
        using descend_snoc [OF t', of cs c] co [of e c] e by simp
      then show ?thesis using descend_snoc [OF t, of cs c] Some ep by simp
    qed
  qed simp
  show "vfs_view ?v' = (vfs_view v)(ps @ [vn_name g] \<mapsto> node_entry g)"
  proof
    fix cs
    show "vfs_view ?v' cs = ((vfs_view v)(ps @ [vn_name g] \<mapsto> node_entry g)) cs"
      using ds [of cs] f(8) descend_less [OF t z, of cs] same_entry [OF f(3)]
      by (cases "descend_from v 0 cs") (auto simp: vfs_view_def)
  qed
qed

text \<open>The tree after the initialisation.\<close>

lemma vfs_init_tree: "vfs_tree (vfs_init v) (\<lambda>_. [])" "vfs_view (vfs_init v) = [[] \<mapsto> Directory]" "g_node_count (vfs_init v) = 1"
proof -
  have e: "vfs_init v = upd_node 0 (\<lambda>_. zero_node\<lparr>vn_type := VFS_DIRECTORY\<rparr>) (v\<lparr>g_node_count := 1, g_root := Some 0\<rparr>)"
    by (simp add: vfs_init_def allocate_node_def upd_node_def zero_node_def)
  show t: "vfs_tree (vfs_init v) (\<lambda>_. [])" unfolding e by (simp add: vfs_tree_def children_ok_def upd_node_def zero_node_def)
  show "g_node_count (vfs_init v) = 1" unfolding e by (simp add: upd_node_def)
  have "descend_from (vfs_init v) 0 (cs @ [c]) = None" for cs c
    using descend_snoc [OF t, of cs c] by (simp add: child_of_def split: option.split_asm)
  then have "descend_from (vfs_init v) 0 cs = (if cs = [] then Some 0 else None)" for cs
    by (cases cs rule: rev_cases) auto
  then show "vfs_view (vfs_init v) = [[] \<mapsto> Directory]"
    by (simp add: vfs_view_def fun_eq_iff) (simp add: e upd_node_def node_entry_def)
qed

section \<open>The operations on the map\<close>

text \<open>Overwriting the contents of a file.\<close>

lemma rewritten_view:
  fixes d :: ptr and s :: u64
  assumes t: "vfs_tree v K" and x: "descend_from v 0 xs = Some i" "vn_type (g_nodes v i) = VFS_FILE"
  defines "v' \<equiv> upd_node i (\<lambda>n. n\<lparr>vn_data := d, vn_size := s\<rparr>) v"
  shows "vfs_tree v' K" "vfs_view v' = (vfs_view v)(xs \<mapsto> File d s)" "g_node_count v' = g_node_count v"
proof -
  have f: "vn_name (g_nodes v' j) = vn_name (g_nodes v j)" "vn_type (g_nodes v' j) = vn_type (g_nodes v j)"
    "vn_parent (g_nodes v' j) = vn_parent (g_nodes v j)" "vn_first_child (g_nodes v' j) = vn_first_child (g_nodes v j)"
    "vn_next_sibling (g_nodes v' j) = vn_next_sibling (g_nodes v j)" for j
    by (simp_all add: v'_def upd_node_def)
  show c: "g_node_count v' = g_node_count v" by (simp add: v'_def upd_node_def)
  have r: "g_root v' = g_root v" by (simp add: v'_def upd_node_def)
  show t': "vfs_tree v' K" using t unfolding vfs_tree_def children_ok_def f c r chain_cong [OF f(5)] .
  have z: "0 < g_node_count v" using t by (simp add: vfs_tree_def)
  have ds: "descend_from v' 0 cs = descend_from v 0 cs" for cs
  proof (induction cs rule: rev_induct)
    case (snoc c cs)
    have co: "child_of v' K = child_of v K" by (simp add: child_of_def f(1) fun_eq_iff)
    show ?case unfolding descend_snoc [OF t] descend_snoc [OF t'] snoc co ..
  qed simp
  show "vfs_view v' = (vfs_view v)(xs \<mapsto> File d s)"
  proof
    fix cs
    have "node_entry (g_nodes v' i) = File d s" using x(2) by (simp add: v'_def upd_node_def node_entry_def)
    moreover have "node_entry (g_nodes v' j) = node_entry (g_nodes v j)" if "j \<noteq> i" for j
      using that by (simp add: v'_def upd_node_def)
    moreover have "cs = xs" if "descend_from v 0 cs = Some i" by (rule descend_inject [OF t that x(1)])
    ultimately show "vfs_view v' cs = ((vfs_view v)(xs \<mapsto> File d s)) cs"
      using x(1) unfolding vfs_view_def ds by (cases "descend_from v 0 cs") auto
  qed
qed

text \<open>What the directory \<open>p\<close> at the path \<open>ps\<close> holds under a name.\<close>

lemma child_view:
  assumes t: "vfs_tree v K" and ps: "descend_from v 0 ps = Some p"
  shows "p < g_node_count v" "descend_from v 0 (ps @ [c]) = child_of v K p c" "vfs_find_child v (Some p) c = Some (child_of v K p c)"
    "vfs_view v ps = Some Directory \<longleftrightarrow> vn_type (g_nodes v p) = VFS_DIRECTORY"
    "child_of v K p c = Some x \<Longrightarrow> vfs_view v (ps @ [c]) = Some (node_entry (g_nodes v x))"
    "child_of v K p c = None \<longleftrightarrow> vfs_view v (ps @ [c]) = None"
proof -
  have z: "0 < g_node_count v" using t by (simp add: vfs_tree_def)
  show p: "p < g_node_count v" by (rule descend_less [OF t z ps])
  show d: "descend_from v 0 (ps @ [c]) = child_of v K p c" using descend_snoc [OF t, of ps c] ps by simp
  show "vfs_find_child v (Some p) c = Some (child_of v K p c)" by (rule find_child_eq [OF t p])
  show "vfs_view v ps = Some Directory \<longleftrightarrow> vn_type (g_nodes v p) = VFS_DIRECTORY"
    using ps by (simp add: vfs_view_def node_entry_def split: VfsNodeType.split)
  show "child_of v K p c = Some x \<Longrightarrow> vfs_view v (ps @ [c]) = Some (node_entry (g_nodes v x))" using d by (simp add: vfs_view_def)
  show "child_of v K p c = None \<longleftrightarrow> vfs_view v (ps @ [c]) = None" using d by (simp add: vfs_view_def)
qed

lemma node_entry_dir: "node_entry n = Directory \<longleftrightarrow> vn_type n = VFS_DIRECTORY" "(\<exists>d s. node_entry n = File d s) \<longleftrightarrow> vn_type n = VFS_FILE"
  by (simp_all add: node_entry_def split: VfsNodeType.split)

text \<open>The common part of both creations: take a node, name it, fill it, link it.\<close>

lemma create_node:
  assumes t: "vfs_tree v K" and ps: "descend_from v 0 ps = Some p" "vfs_view v ps = Some Directory"
    and c: "name_ok c" "vfs_view v (ps @ [c]) = None" and n: "g_node_count v < VFS_MAX_NODES"
    and f: "\<And>m. vn_name (f m) = vn_name m \<and> vn_first_child (f m) = vn_first_child m"
  obtains v1 v2 v' K' where "allocate_node v = (Some (g_node_count v), v1)" "set_node_name (g_node_count v) c v1 = (True, v2)"
    "append_child p (g_node_count v) (upd_node (g_node_count v) f v2) = Some v'" "vfs_tree v' K'"
    "descend_from v' 0 (ps @ [c]) = Some (g_node_count v)" "vfs_view v' = (vfs_view v)(ps @ [c] \<mapsto> node_entry (f (zero_node\<lparr>vn_name := c\<rparr>)))"
    "g_node_count v' = g_node_count v + 1"
proof -
  let ?n = "g_node_count v" and ?g = "f (zero_node\<lparr>vn_name := c\<rparr>)"
  note cv = child_view [OF t ps(1)]
  have d: "vn_type (g_nodes v p) = VFS_DIRECTORY" using cv(4) ps(2) by simp
  have g: "name_ok (vn_name ?g)" "child_of v K p (vn_name ?g) = None" "vn_first_child ?g = None" "vn_name ?g = c"
    using c cv(6) [of c] f [of "zero_node\<lparr>vn_name := c\<rparr>"] by (simp_all add: zero_node_def)
  let ?v1 = "upd_node ?n (\<lambda>_. zero_node) (v\<lparr>g_node_count := ?n + 1\<rparr>)"
  have a: "allocate_node v = (Some ?n, ?v1)" using n by (simp add: allocate_node_def)
  have s: "set_node_name ?n c ?v1 = (True, upd_node ?n (\<lambda>m. m\<lparr>vn_name := c\<rparr>) ?v1)" using c(1) by (simp add: set_node_name_def name_ok_def)
  have u: "upd_node ?n f (upd_node ?n (\<lambda>m. m\<lparr>vn_name := c\<rparr>) ?v1) = upd_node ?n (\<lambda>_. ?g) (v\<lparr>g_node_count := ?n + 1\<rparr>)"
    by (simp add: upd_node_def)
  note av = added_view [OF t cv(1) d g(1-3) n ps(1)]
  show thesis
    by (rule that [OF a s _ added_tree [OF t cv(1) d g(1-3) n] _ _ added_fields(1) [OF t cv(1)]])
      (use u added_eq(1) [OF t cv(1)] av g(4) in simp_all)
qed

lemma ensure_directory_law:
  assumes t: "vfs_tree v K" and ps: "descend_from v 0 ps = Some p" "vfs_view v ps = Some Directory" and c: "name_ok c"
  shows "\<exists>r v' K'. ensure_directory p c v = Some (r, v') \<and> vfs_tree v' K' \<and>
    (case r of
       None \<Rightarrow> v' = v \<and> (vfs_view v (ps @ [c]) \<notin> {None, Some Directory} \<or> vfs_view v (ps @ [c]) = None \<and> g_node_count v = VFS_MAX_NODES)
     | Some n \<Rightarrow> descend_from v' 0 (ps @ [c]) = Some n \<and> vfs_view v (ps @ [c]) \<in> {None, Some Directory} \<and>
         vfs_view v' = (vfs_view v)(ps @ [c] \<mapsto> Directory) \<and> g_node_count v \<le> g_node_count v' \<and> g_node_count v' \<le> g_node_count v + 1)"
proof (cases "child_of v K p c")
  case (Some x)
  note cv = child_view [OF t ps(1)]
  note x = cv(5) [OF Some] cv(2) [of c]
  have "ensure_directory p c v = (if vn_type (g_nodes v x) \<noteq> VFS_DIRECTORY then Some (None, v) else Some (Some x, v))"
    by (simp add: ensure_directory_def cv(3) Some)
  then show ?thesis using t x Some node_entry_dir(1) [of "g_nodes v x"] by (auto simp: fun_upd_idem)
next
  case None
  note cv = child_view [OF t ps(1)]
  have v: "vfs_view v (ps @ [c]) = None" using cv(6) None by simp
  show ?thesis
  proof (cases "g_node_count v < VFS_MAX_NODES")
    case True
    obtain v1 v2 v' K' where cn: "allocate_node v = (Some (g_node_count v), v1)" "set_node_name (g_node_count v) c v1 = (True, v2)"
      "append_child p (g_node_count v) (upd_node (g_node_count v) (\<lambda>n. n\<lparr>vn_type := VFS_DIRECTORY\<rparr>) v2) = Some v'" "vfs_tree v' K'"
      "descend_from v' 0 (ps @ [c]) = Some (g_node_count v)"
      "vfs_view v' = (vfs_view v)(ps @ [c] \<mapsto> node_entry (zero_node\<lparr>vn_name := c, vn_type := VFS_DIRECTORY\<rparr>))"
      "g_node_count v' = g_node_count v + 1"
      by (rule create_node [OF t ps c v True, of "\<lambda>n. n\<lparr>vn_type := VFS_DIRECTORY\<rparr>"]) simp_all
    have "ensure_directory p c v = Some (Some (g_node_count v), v')" by (simp add: ensure_directory_def cv(3) None cn(1-3))
    then show ?thesis using cn(4-7) v by (auto simp: node_entry_def)
  next
    case False
    then have "g_node_count v = VFS_MAX_NODES" using t by (simp add: vfs_tree_def)
    then show ?thesis using t v by (auto simp: ensure_directory_def cv(3) None allocate_node_def)
  qed
qed

lemma add_final_law:
  assumes t: "vfs_tree v K" and ps: "descend_from v 0 ps = Some p" "vfs_view v ps = Some Directory" and c: "name_ok c"
  shows "\<exists>b v' K'. add_final p c d s v = Some (b, v') \<and> vfs_tree v' K' \<and>
    (if b then vfs_view v' = (vfs_view v)(ps @ [c] \<mapsto> File d s)
     else v' = v \<and> (vfs_view v (ps @ [c]) = Some Directory \<or> vfs_view v (ps @ [c]) = None \<and> g_node_count v = VFS_MAX_NODES))"
proof (cases "child_of v K p c")
  case (Some x)
  note cv = child_view [OF t ps(1)]
  note x = cv(5) [OF Some] cv(2) [of c]
  have e: "add_final p c d s v = (if vn_type (g_nodes v x) \<noteq> VFS_FILE then Some (False, v)
      else Some (True, upd_node x (\<lambda>n. n\<lparr>vn_data := d, vn_size := s\<rparr>) v))"
    by (simp add: add_final_def cv(3) Some)
  have dx: "descend_from v 0 (ps @ [c]) = Some x" using x(2) Some by simp
  show ?thesis
  proof (cases "vn_type (g_nodes v x)")
    case VFS_FILE
    then show ?thesis using e rewritten_view(1,2) [OF t dx VFS_FILE] by auto
  next
    case VFS_DIRECTORY
    then show ?thesis using e t x(1) node_entry_dir(1) [of "g_nodes v x"] by auto
  qed
next
  case None
  note cv = child_view [OF t ps(1)]
  have v: "vfs_view v (ps @ [c]) = None" using cv(6) None by simp
  show ?thesis
  proof (cases "g_node_count v < VFS_MAX_NODES")
    case True
    let ?f = "\<lambda>n. n\<lparr>vn_type := VFS_FILE, vn_data := d, vn_size := s\<rparr>"
    obtain v1 v2 v' K' where cn: "allocate_node v = (Some (g_node_count v), v1)" "set_node_name (g_node_count v) c v1 = (True, v2)"
      "append_child p (g_node_count v) (upd_node (g_node_count v) ?f v2) = Some v'" "vfs_tree v' K'"
      "vfs_view v' = (vfs_view v)(ps @ [c] \<mapsto> node_entry (?f (zero_node\<lparr>vn_name := c\<rparr>)))"
      by (rule create_node [OF t ps c v True, of ?f]) simp_all
    have "add_final p c d s v = Some (True, v')" by (simp add: add_final_def cv(3) None cn(1-3))
    then show ?thesis using cn(4,5) by (auto simp: node_entry_def)
  next
    case False
    then have "g_node_count v = VFS_MAX_NODES" using t by (simp add: vfs_tree_def)
    then show ?thesis using t v by (auto simp: add_final_def cv(3) None allocate_node_def)
  qed
qed

section \<open>Paths\<close>

lemma next_component_name:
  assumes "next_component cursor = Component c rest"
  shows "c \<noteq> []" "length c \<le> VFS_NAME_MAX" "SLASH \<notin> set c"
proof -
  let ?p = "dropWhile (\<lambda>c. c = SLASH) cursor"
  have p: "?p \<noteq> []" and c: "c = takeWhile (\<lambda>c. c \<noteq> SLASH) ?p" and l: "length c \<le> VFS_NAME_MAX"
    using assms by (auto simp: next_component_eq Let_def split: if_split_asm)
  show "length c \<le> VFS_NAME_MAX" by (rule l)
  show "SLASH \<notin> set c" using c set_takeWhileD by fastforce
  have "hd ?p \<noteq> SLASH" using p hd_dropWhile [of "\<lambda>c. c = SLASH" cursor] by simp
  then show "c \<noteq> []" using p c by (cases ?p) auto
qed

text \<open>The components of a path for a file: no dot-dot, a last component that is a name.\<close>

function file_path :: "cstr \<Rightarrow> cstr list option" where
  "file_path cursor =
     (case next_component cursor of
        Path_End \<Rightarrow> None
      | Too_Long \<Rightarrow> None
      | Component c rest \<Rightarrow>
          if c = [DOT] then file_path rest
          else if c = [DOT, DOT] then None
          else if dropWhile (\<lambda>c. c = SLASH) rest = [] then Some [c]
          else map_option (\<lambda>cs. c # cs) (file_path rest))"
  by pat_completeness auto
termination
  by (relation "measure length") (auto dest: next_component_shorter)

text \<open>The components of a path for a directory, which may be the root.\<close>

function dir_path :: "cstr \<Rightarrow> cstr list option" where
  "dir_path cursor =
     (case next_component cursor of
        Path_End \<Rightarrow> Some []
      | Too_Long \<Rightarrow> None
      | Component c rest \<Rightarrow>
          if c = [DOT] then dir_path rest
          else if c = [DOT, DOT] then None
          else map_option (\<lambda>cs. c # cs) (dir_path rest))"
  by pat_completeness auto
termination
  by (relation "measure length") (auto dest: next_component_shorter)

declare file_path.simps [simp del] dir_path.simps [simp del] resolve_loop.simps [simp del] add_file_loop.simps [simp del]
  add_directory_loop.simps [simp del]

lemma file_dir_path: "file_path cursor = Some cs \<Longrightarrow> dir_path cursor = Some cs"
proof (induction cursor arbitrary: cs rule: file_path.induct)
  case (1 cursor)
  show ?case
  proof (cases "next_component cursor")
    case (Component c rest)
    have e: "dir_path rest = Some []" if "dropWhile (\<lambda>c. c = SLASH) rest = []"
      using that by (simp add: dir_path.simps [of rest] next_component_def)
    show ?thesis
      using "1.prems" "1.IH" [OF Component] Component e
      by (auto simp: file_path.simps [of cursor] dir_path.simps [of cursor] split: if_split_asm)
  qed (use "1.prems" in \<open>simp_all add: file_path.simps [of cursor]\<close>)
qed

lemma file_path_some: "file_path cursor = Some cs \<Longrightarrow> cs \<noteq> []"
proof (induction cursor arbitrary: cs rule: file_path.induct)
  case (1 cursor)
  show ?case
  proof (cases "next_component cursor")
    case (Component c rest)
    then show ?thesis using "1.prems" "1.IH"(1) [OF Component] by (auto simp: file_path.simps [of cursor] split: if_split_asm)
  qed (use "1.prems" in \<open>simp_all add: file_path.simps [of cursor]\<close>)
qed

text \<open>Resolving a path that does not go up.\<close>

lemma resolve_dir_path:
  assumes t: "vfs_tree v K"
  shows "dir_path cursor = Some cs \<Longrightarrow> d < g_node_count v \<Longrightarrow> resolve_loop v d cursor = Some (descend_from v d cs)"
proof (induction cursor arbitrary: cs d rule: dir_path.induct)
  case (1 cursor)
  show ?case
  proof (cases "next_component cursor")
    case (Component c rest)
    note IH = "1.IH" [OF Component]
    show ?thesis
    proof (cases "c = [DOT]")
      case True
      then show ?thesis using "1.prems" IH(1) [OF True, of cs d] Component
        by (simp add: resolve_loop.simps [of v d cursor] dir_path.simps [of cursor])
    next
      case False
      then obtain cs' where cs': "c \<noteq> [DOT, DOT]" "dir_path rest = Some cs'" "cs = c # cs'"
        using "1.prems"(1) Component by (auto simp: dir_path.simps [of cursor] split: if_split_asm)
      note fc = find_child_eq [OF t "1.prems"(2), of c]
      show ?thesis
        using IH(2) [OF False cs'(1,2)] child_of_some(3) [OF t "1.prems"(2), of c] False cs' Component fc
        by (auto simp: resolve_loop.simps [of v d cursor] split: option.split)
    qed
  qed (use "1.prems" in \<open>simp_all add: resolve_loop.simps [of v d cursor] dir_path.simps [of cursor]\<close>)
qed

text \<open>The directories of a path, created one below the other.\<close>

fun mkdirs :: "(cstr list \<Rightarrow> fs_entry option) \<Rightarrow> cstr list \<Rightarrow> cstr list \<Rightarrow> (cstr list \<Rightarrow> fs_entry option)" where
  "mkdirs view ps [] = view"
| "mkdirs view ps (c # cs) = mkdirs (view(ps @ [c] \<mapsto> Directory)) (ps @ [c]) cs"

lemma mkdirs_eq: "mkdirs view ps cs xs = (if strict_prefix ps xs \<and> prefix xs (ps @ cs) then Some Directory else view xs)"
proof (induction view ps cs rule: mkdirs.induct)
  case (2 view ps c cs)
  have eq: "strict_prefix ps xs \<and> prefix xs (ps @ c # cs) \<longleftrightarrow>
      xs = ps @ [c] \<or> strict_prefix (ps @ [c]) xs \<and> prefix xs ((ps @ [c]) @ cs)"
  proof (cases "prefix ps xs")
    case True
    then obtain zs where xs: "xs = ps @ zs" by (auto simp: prefix_def)
    show ?thesis unfolding xs by (cases zs) (auto simp: strict_prefix_def)
  next
    case False
    then show ?thesis by (auto simp: strict_prefix_def dest: append_prefixD)
  qed
  have "mkdirs view ps (c # cs) xs =
      (if strict_prefix (ps @ [c]) xs \<and> prefix xs ((ps @ [c]) @ cs) then Some Directory else (view(ps @ [c] \<mapsto> Directory)) xs)"
    unfolding mkdirs.simps by (rule 2)
  then show ?case using eq by auto
qed (auto simp: strict_prefix_def dest: prefix_order.antisym)

definition dirs_added :: "(cstr list \<Rightarrow> fs_entry option) \<Rightarrow> (cstr list \<Rightarrow> fs_entry option) \<Rightarrow> bool" where
  "dirs_added view view' \<longleftrightarrow> (\<forall>xs. view' xs = view xs \<or> view xs = None \<and> view' xs = Some Directory)"

lemma dirs_added_step: "dirs_added (view(xs \<mapsto> Directory)) view' \<Longrightarrow> view xs \<in> {None, Some Directory} \<Longrightarrow> dirs_added view view'"
  unfolding dirs_added_def
proof
  fix ys assume a: "\<forall>ys. view' ys = (view(xs \<mapsto> Directory)) ys \<or> (view(xs \<mapsto> Directory)) ys = None \<and> view' ys = Some Directory"
    and v: "view xs \<in> {None, Some Directory}"
  show "view' ys = view ys \<or> view ys = None \<and> view' ys = Some Directory"
    using spec [OF a, of ys] v by (cases "ys = xs") auto
qed

text \<open>The path is free for directories, and the array has room for them.\<close>

definition room_for :: "Vfs \<Rightarrow> cstr list \<Rightarrow> cstr list \<Rightarrow> bool" where
  "room_for v ps cs \<longleftrightarrow> (\<forall>xs. prefix xs cs \<longrightarrow> vfs_view v (ps @ xs) \<in> {None, Some Directory}) \<and>
     g_node_count v + length cs \<le> VFS_MAX_NODES"

lemma room_for_step:
  assumes "room_for v ps (c # cs)" and "vfs_view v' = (vfs_view v)(ps @ [c] \<mapsto> Directory)" and "g_node_count v' \<le> g_node_count v + 1"
  shows "room_for v' (ps @ [c]) cs"
  unfolding room_for_def
proof (intro conjI allI impI)
  fix xs assume "prefix xs cs"
  then have "vfs_view v (ps @ (c # xs)) \<in> {None, Some Directory}" using assms(1) by (simp add: room_for_def)
  then show "vfs_view v' ((ps @ [c]) @ xs) \<in> {None, Some Directory}" by (auto simp: assms(2))
qed (use assms(1,3) in \<open>simp add: room_for_def\<close>)

lemma room_for_first: "room_for v ps (c # cs) \<Longrightarrow> vfs_view v (ps @ [c]) \<in> {None, Some Directory} \<and> g_node_count v < VFS_MAX_NODES"
  unfolding room_for_def by (auto dest: spec [of _ "[c]"])

lemma add_directory_loop_law:
  assumes "vfs_tree v K" and "descend_from v 0 ps = Some d" and "vfs_view v ps = Some Directory"
  shows "\<exists>b v' K'. add_directory_loop d cursor v = Some (b, v') \<and> vfs_tree v' K' \<and>
    (if b then \<exists>cs. dir_path cursor = Some cs \<and> vfs_view v' = mkdirs (vfs_view v) ps cs else dirs_added (vfs_view v) (vfs_view v')) \<and>
    (\<forall>cs. dir_path cursor = Some cs \<and> room_for v ps cs \<longrightarrow> b)"
  using assms
proof (induction cursor arbitrary: v K ps d rule: dir_path.induct)
  case (1 cursor)
  note t = "1.prems"(1)
  show ?case
  proof (cases "next_component cursor")
    case (Component c rest)
    note IH = "1.IH" [OF Component] and n = next_component_name [OF Component]
    consider "c = [DOT]" | "c = [DOT, DOT]" | "c \<noteq> [DOT]" "c \<noteq> [DOT, DOT]" "name_ok c" using n by (auto simp: name_ok_def)
    then show ?thesis
    proof cases
      case 1
      then have "add_directory_loop d cursor v = add_directory_loop d rest v" "dir_path cursor = dir_path rest"
        using Component by (simp_all add: add_directory_loop.simps [of d cursor] dir_path.simps [of cursor])
      then show ?thesis using IH(1) [OF 1 "1.prems"] by (simp only:)
    next
      case 2
      then show ?thesis using Component t
        by (auto simp: add_directory_loop.simps [of d cursor] dir_path.simps [of cursor] dirs_added_def)
    next
      case 3
      obtain r v1 K1 where e: "ensure_directory d c v = Some (r, v1)" "vfs_tree v1 K1"
        "case r of None \<Rightarrow> v1 = v \<and> (vfs_view v (ps @ [c]) \<notin> {None, Some Directory} \<or> vfs_view v (ps @ [c]) = None \<and> g_node_count v = VFS_MAX_NODES)
         | Some n \<Rightarrow> descend_from v1 0 (ps @ [c]) = Some n \<and> vfs_view v (ps @ [c]) \<in> {None, Some Directory} \<and>
           vfs_view v1 = (vfs_view v)(ps @ [c] \<mapsto> Directory) \<and> g_node_count v \<le> g_node_count v1 \<and> g_node_count v1 \<le> g_node_count v + 1"
        using ensure_directory_law [OF "1.prems" 3(3)] by blast
      show ?thesis
      proof (cases r)
        case None
        have "add_directory_loop d cursor v = Some (False, v)"
          using e(1,3) None 3 Component by (simp add: add_directory_loop.simps [of d cursor])
        moreover have "\<not> room_for v ps cs" if dp: "dir_path cursor = Some cs" for cs
        proof -
          obtain cs' where "cs = c # cs'" using dp 3 Component by (auto simp: dir_path.simps [of cursor])
          then show ?thesis using e(3) None room_for_first [of v ps c cs'] by auto
        qed
        ultimately show ?thesis using t by (auto simp: dirs_added_def)
      next
        case (Some m)
        then have m: "descend_from v1 0 (ps @ [c]) = Some m" "vfs_view v (ps @ [c]) \<in> {None, Some Directory}"
          "vfs_view v1 = (vfs_view v)(ps @ [c] \<mapsto> Directory)" "g_node_count v1 \<le> g_node_count v + 1" using e(3) by auto
        have l: "add_directory_loop d cursor v = add_directory_loop m rest v1"
          using e(1) Some 3 Component by (simp add: add_directory_loop.simps [of d cursor])
        have p: "dir_path cursor = map_option (\<lambda>cs. c # cs) (dir_path rest)" using 3 Component by (simp add: dir_path.simps [of cursor])
        obtain b v' K' where r: "add_directory_loop m rest v1 = Some (b, v')" "vfs_tree v' K'"
          "if b then \<exists>cs. dir_path rest = Some cs \<and> vfs_view v' = mkdirs (vfs_view v1) (ps @ [c]) cs else dirs_added (vfs_view v1) (vfs_view v')"
          "\<forall>cs. dir_path rest = Some cs \<and> room_for v1 (ps @ [c]) cs \<longrightarrow> b"
          using IH(2) [OF 3(1,2) e(2) m(1)] m(3) by auto
        have "b" if "dir_path cursor = Some cs" "room_for v ps cs" for cs
          using that p r(4) room_for_step [OF _ m(3,4)] by auto
        then show ?thesis using l p r(1-3) m(3) dirs_added_step [of "vfs_view v" "ps @ [c]" "vfs_view v'"] m(2)
          by (auto split: if_split_asm)
      qed
    qed
  next
    case Path_End
    then show ?thesis using t by (auto simp: add_directory_loop.simps [of d cursor] dir_path.simps [of cursor])
  next
    case Too_Long
    then show ?thesis using t by (auto simp: add_directory_loop.simps [of d cursor] dir_path.simps [of cursor] dirs_added_def)
  qed
qed

lemma add_file_loop_law:
  assumes "vfs_tree v K" and "descend_from v 0 ps = Some p" and "vfs_view v ps = Some Directory"
  shows "\<exists>b v' K'. add_file_loop p cursor d s v = Some (b, v') \<and> vfs_tree v' K' \<and>
    (if b then \<exists>cs. file_path cursor = Some cs \<and> cs \<noteq> [] \<and> vfs_view v' = (mkdirs (vfs_view v) ps (butlast cs))(ps @ cs \<mapsto> File d s)
     else dirs_added (vfs_view v) (vfs_view v')) \<and>
    (\<forall>cs. file_path cursor = Some cs \<and> room_for v ps (butlast cs) \<and> vfs_view v (ps @ cs) \<noteq> Some Directory \<and>
       g_node_count v + length cs \<le> VFS_MAX_NODES \<longrightarrow> b)"
  using assms
proof (induction cursor arbitrary: v K ps p rule: file_path.induct)
  case (1 cursor)
  note t = "1.prems"(1)
  show ?case
  proof (cases "next_component cursor")
    case (Component c rest)
    note IH = "1.IH" [OF Component] and n = next_component_name [OF Component]
    consider "c = [DOT]" | "c = [DOT, DOT]" | "c \<noteq> [DOT]" "c \<noteq> [DOT, DOT]" "name_ok c" using n by (auto simp: name_ok_def)
    then show ?thesis
    proof cases
      case 1
      then have "add_file_loop p cursor d s v = add_file_loop p rest d s v" "file_path cursor = file_path rest"
        using Component by (simp_all add: add_file_loop.simps [of p cursor] file_path.simps [of cursor])
      then show ?thesis using IH(1) [OF 1 "1.prems"] by (simp only:)
    next
      case 2
      then show ?thesis using Component t
        by (auto simp: add_file_loop.simps [of p cursor] file_path.simps [of cursor] dirs_added_def)
    next
      case 3
      show ?thesis
      proof (cases "dropWhile (\<lambda>c. c = SLASH) rest = []")
        case True
        then have l: "add_file_loop p cursor d s v = add_final p c d s v" "file_path cursor = Some [c]"
          using 3 Component by (simp_all add: add_file_loop.simps [of p cursor] file_path.simps [of cursor])
        obtain b v' K' where f: "add_final p c d s v = Some (b, v')" "vfs_tree v' K'"
          "if b then vfs_view v' = (vfs_view v)(ps @ [c] \<mapsto> File d s)
           else v' = v \<and> (vfs_view v (ps @ [c]) = Some Directory \<or> vfs_view v (ps @ [c]) = None \<and> g_node_count v = VFS_MAX_NODES)"
          using add_final_law [OF "1.prems" 3(3), of d s] by blast
        have "dirs_added (vfs_view v) (vfs_view v)" by (simp add: dirs_added_def)
        then show ?thesis using f unfolding l
          by (intro exI [of _ b] exI [of _ v'] exI [of _ K']) (auto split: if_split_asm)
      next
        case False
        have p: "file_path cursor = map_option (\<lambda>cs. c # cs) (file_path rest)" 
          using 3 Component False by (auto simp: file_path.simps [of cursor])
        obtain r v1 K1 where e: "ensure_directory p c v = Some (r, v1)" "vfs_tree v1 K1"
          "case r of None \<Rightarrow> v1 = v \<and> (vfs_view v (ps @ [c]) \<notin> {None, Some Directory} \<or> vfs_view v (ps @ [c]) = None \<and> g_node_count v = VFS_MAX_NODES)
           | Some n \<Rightarrow> descend_from v1 0 (ps @ [c]) = Some n \<and> vfs_view v (ps @ [c]) \<in> {None, Some Directory} \<and>
             vfs_view v1 = (vfs_view v)(ps @ [c] \<mapsto> Directory) \<and> g_node_count v \<le> g_node_count v1 \<and> g_node_count v1 \<le> g_node_count v + 1"
          using ensure_directory_law [OF "1.prems" 3(3)] by blast
        show ?thesis
        proof (cases r)
          case None
          have "add_file_loop p cursor d s v = Some (False, v)"
            using e(1,3) None 3 Component False by (simp add: add_file_loop.simps [of p cursor])
          moreover have "\<not> room_for v ps (butlast cs)" if dp: "file_path cursor = Some cs" for cs
          proof -
            obtain cs' where "cs = c # cs'" "cs' \<noteq> []" using dp p file_path_some by (auto simp del: not_None_eq)
            then show ?thesis using e(3) None room_for_first [of v ps c "butlast cs'"] by auto
          qed
          ultimately show ?thesis using t by (auto simp: dirs_added_def)
        next
          case (Some m)
          then have m: "descend_from v1 0 (ps @ [c]) = Some m" "vfs_view v (ps @ [c]) \<in> {None, Some Directory}"
            "vfs_view v1 = (vfs_view v)(ps @ [c] \<mapsto> Directory)" "g_node_count v1 \<le> g_node_count v + 1" using e(3) by auto
          have l: "add_file_loop p cursor d s v = add_file_loop m rest d s v1"
            using e(1) Some 3 Component False by (simp add: add_file_loop.simps [of p cursor])
          obtain b v' K' where r: "add_file_loop m rest d s v1 = Some (b, v')" "vfs_tree v' K'"
            "if b then \<exists>cs. file_path rest = Some cs \<and> cs \<noteq> [] \<and> vfs_view v' = (mkdirs (vfs_view v1) (ps @ [c]) (butlast cs))((ps @ [c]) @ cs \<mapsto> File d s)
              else dirs_added (vfs_view v1) (vfs_view v')"
            "\<forall>cs. file_path rest = Some cs \<and> room_for v1 (ps @ [c]) (butlast cs) \<and> vfs_view v1 ((ps @ [c]) @ cs) \<noteq> Some Directory \<and>
               g_node_count v1 + length cs \<le> VFS_MAX_NODES \<longrightarrow> b"
            using IH(2) [OF 3(1,2) False e(2) m(1)] m(3) by auto
          have "b" if a: "file_path cursor = Some cs" "room_for v ps (butlast cs)" "vfs_view v (ps @ cs) \<noteq> Some Directory"
            "g_node_count v + length cs \<le> VFS_MAX_NODES" for cs
          proof -
            obtain cs' where cs': "cs = c # cs'" "file_path rest = Some cs'" using a(1) p by auto
            have ne: "cs' \<noteq> []" by (rule file_path_some [OF cs'(2)])
            then have "room_for v1 (ps @ [c]) (butlast cs')" using a(2) cs'(1) room_for_step [OF _ m(3,4)] by simp
            moreover have "vfs_view v1 ((ps @ [c]) @ cs') \<noteq> Some Directory" using a(3) cs'(1) ne m(3) by auto
            ultimately show ?thesis using r(4) cs' a(4) m(4) by auto
          qed
          then show ?thesis using l p r(1-3) m(3) dirs_added_step [of "vfs_view v" "ps @ [c]" "vfs_view v'"] m(2)
            by (auto split: if_split_asm)
        qed
      qed
    qed
  next
    case Path_End
    then show ?thesis using t by (auto simp: add_file_loop.simps [of p cursor] file_path.simps [of cursor] dirs_added_def)
  next
    case Too_Long
    then show ?thesis using t by (auto simp: add_file_loop.simps [of p cursor] file_path.simps [of cursor] dirs_added_def)
  qed
qed

end
