(* ===== verification/Byte_Memory.thy ===== *)
theory Byte_Memory
  imports Prelude
begin

text \<open>
  Memory that is read byte by byte through a C pointer: the fields of a packed structure at an
  address are lists of bytes or little-endian numbers.
\<close>

type_synonym memory = "ptr \<Rightarrow> u8"

definition mem_bytes :: "memory \<Rightarrow> ptr \<Rightarrow> nat \<Rightarrow> u8 list" where
  "mem_bytes mem p n = map (\<lambda>i. mem (p + of_nat i)) [0..<n]"

definition mem_word :: "memory \<Rightarrow> ptr \<Rightarrow> nat \<Rightarrow> 'a::len word" where
  "mem_word mem p n = sum_list (map (\<lambda>i. push_bit (8 * i) (ucast (mem (p + of_nat i)))) [0..<n])"

lemma mem_bytes_Suc: "mem_bytes mem p (Suc n) = mem p # mem_bytes mem (p + 1) n"
  unfolding mem_bytes_def upt_conv_Cons [OF zero_less_Suc] map_Suc_upt [symmetric] by (simp add: add.assoc)

end
