(* ===== verification/TAR.thy ===== *)
theory TAR
  imports VFS_Laws Byte_Memory
begin

text \<open>
  The reader of the boot archive, \<^verbatim>\<open>src/kernel/tar.c\<close>: the header fields of a USTAR block, octal
  numbers, the checksum, the construction of a path, and the loop that mounts every entry into
  the file system. The memory is a function from addresses to bytes; a field is the list of its
  bytes.
\<close>

abbreviation (input) TAR_BLOCK_SIZE :: u64 where "TAR_BLOCK_SIZE \<equiv> 512"
abbreviation (input) SPACE :: u8 where "SPACE \<equiv> 0x20"

record TarHeader =
  th_name :: cstr
  th_mode :: cstr
  th_uid :: cstr
  th_gid :: cstr
  th_size :: cstr
  th_mtime :: cstr
  th_checksum :: cstr
  th_typeflag :: u8
  th_linkname :: cstr
  th_magic :: cstr
  th_version :: cstr
  th_uname :: cstr
  th_gname :: cstr
  th_devmajor :: cstr
  th_devminor :: cstr
  th_prefix :: cstr
  th_padding :: cstr

text \<open>The packed structure read at an address.\<close>

definition tar_header :: "memory \<Rightarrow> ptr \<Rightarrow> TarHeader" where
  "tar_header mem p =
     \<lparr>th_name = mem_bytes mem p 100, th_mode = mem_bytes mem (p + 100) 8, th_uid = mem_bytes mem (p + 108) 8,
      th_gid = mem_bytes mem (p + 116) 8, th_size = mem_bytes mem (p + 124) 12, th_mtime = mem_bytes mem (p + 136) 12,
      th_checksum = mem_bytes mem (p + 148) 8, th_typeflag = mem (p + 156), th_linkname = mem_bytes mem (p + 157) 100,
      th_magic = mem_bytes mem (p + 257) 6, th_version = mem_bytes mem (p + 263) 2, th_uname = mem_bytes mem (p + 265) 32,
      th_gname = mem_bytes mem (p + 297) 32, th_devmajor = mem_bytes mem (p + 329) 8, th_devminor = mem_bytes mem (p + 337) 8,
      th_prefix = mem_bytes mem (p + 345) 155, th_padding = mem_bytes mem (p + 500) 12\<rparr>"

definition block_is_zero :: "memory \<Rightarrow> ptr \<Rightarrow> bool" where
  "block_is_zero mem block = list_all (\<lambda>b. b = 0) (mem_bytes mem block 512)"

section \<open>Fields\<close>

fun octal_loop :: "u64 \<Rightarrow> cstr \<Rightarrow> u64 option" where
  "octal_loop value [] = Some value"
| "octal_loop value (c # cs) =
     (if c = 0 \<or> c = SPACE then Some value
      else if c < 0x30 \<or> c > 0x37 then None
      else octal_loop (push_bit 3 value + ucast (c - 0x30)) cs)"

definition parse_octal :: "cstr \<Rightarrow> u64 option" where
  "parse_octal field = octal_loop 0 (dropWhile (\<lambda>c. c = SPACE \<or> c = 0) field)"

fun field_length :: "cstr \<Rightarrow> nat" where
  "field_length [] = 0"
| "field_length (c # cs) = (if c \<noteq> 0 then Suc (field_length cs) else 0)"

definition tar_magic_valid :: "TarHeader \<Rightarrow> bool" where
  "tar_magic_valid header \<longleftrightarrow>
     th_magic header ! 0 = 0x75 \<and> th_magic header ! 1 = 0x73 \<and> th_magic header ! 2 = 0x74 \<and>
     th_magic header ! 3 = 0x61 \<and> th_magic header ! 4 = 0x72"

definition checksum_valid :: "memory \<Rightarrow> ptr \<Rightarrow> bool" where
  "checksum_valid mem p =
     (case parse_octal (th_checksum (tar_header mem p)) of
        None \<Rightarrow> False
      | Some stored \<Rightarrow>
          stored = foldl (\<lambda>calculated i. calculated + (if i \<ge> 148 \<and> i < 156 then ucast SPACE else ucast (mem (p + of_nat i))))
                     0 [0..<512])"

definition append_field :: "cstr \<Rightarrow> nat \<Rightarrow> cstr \<Rightarrow> cstr option" where
  "append_field destination capacity field =
     (let amount = field_length field in
      if length destination + amount \<ge> capacity then None
      else Some (destination @ take amount field))"

fun strip_dot_slash :: "cstr \<Rightarrow> cstr" where
  "strip_dot_slash (a # b # source) = (if a = DOT \<and> b = SLASH then strip_dot_slash source else a # b # source)"
| "strip_dot_slash source = source"

definition build_path :: "TarHeader \<Rightarrow> cstr option" where
  "build_path header =
     (let prefix_length = field_length (th_prefix header) in
      case (if prefix_length \<noteq> 0 then
              (case append_field [] VFS_PATH_MAX (th_prefix header) of
                 None \<Rightarrow> None
               | Some temporary \<Rightarrow>
                   if length temporary + 1 \<ge> VFS_PATH_MAX then None else Some (temporary @ [SLASH]))
            else Some []) of
        None \<Rightarrow> None
      | Some temporary \<Rightarrow>
          (case append_field temporary VFS_PATH_MAX (th_name header) of
             None \<Rightarrow> None
           | Some temporary \<Rightarrow>
               let source = strip_dot_slash temporary;
                   source = dropWhile (\<lambda>c. c = SLASH) source;
                   source = rev (dropWhile (\<lambda>c. c = SLASH) (rev source))
               in
               if source = [] \<or> source = [DOT] then Some [SLASH]
               else if length source + 2 > VFS_PATH_MAX then None
               else Some (SLASH # source)))"

section \<open>Mounting\<close>

definition tar_add_entry :: "u8 \<Rightarrow> cstr \<Rightarrow> ptr \<Rightarrow> u64 \<Rightarrow> Vfs \<Rightarrow> (bool \<times> Vfs) option" where
  "tar_add_entry typeflag path data sz v =
     (if typeflag = 0 \<or> typeflag = 0x30 then vfs_add_file path data sz v
      else if typeflag = 0x35 then vfs_add_directory path v
      else Some (True, v))"

text \<open>One round of the loop: leave it with a result, or go on at the next offset.\<close>

datatype tar_step = Leave bool Vfs | Next u64 Vfs

definition tar_entry :: "memory \<Rightarrow> ptr \<Rightarrow> u64 \<Rightarrow> u64 \<Rightarrow> Vfs \<Rightarrow> tar_step option" where
  "tar_entry mem archive archive_size offset v =
     (let block = archive + offset; header = tar_header mem block in
      if block_is_zero mem block then Some (Leave True v)
      else if \<not> tar_magic_valid header then Some (Leave False v)
      else if \<not> checksum_valid mem block then Some (Leave False v)
      else
        case parse_octal (th_size header) of
          None \<Rightarrow> Some (Leave False v)
        | Some file_size \<Rightarrow>
            let data_offset = offset + TAR_BLOCK_SIZE in
            if data_offset < offset then Some (Leave False v)
            else if file_size > archive_size - data_offset then Some (Leave False v)
            else
              case build_path header of
                None \<Rightarrow> Some (Leave False v)
              | Some path \<Rightarrow>
                  case tar_add_entry (th_typeflag header) path (archive + data_offset) file_size v of
                    None \<Rightarrow> None
                  | Some (False, v) \<Rightarrow> Some (Leave False v)
                  | Some (True, v) \<Rightarrow>
                      let padded_size = (file_size + TAR_BLOCK_SIZE - 1) AND NOT (TAR_BLOCK_SIZE - 1);
                          next_offset = data_offset + padded_size
                      in
                      if padded_size < file_size then Some (Leave False v)
                      else if next_offset < data_offset \<or> next_offset > archive_size then Some (Leave False v)
                      else Some (Next next_offset v))"

text \<open>A round either stops before it touches the file system, or it adds an entry.\<close>

definition after_entry :: "u64 \<Rightarrow> u64 \<Rightarrow> u64 \<Rightarrow> bool \<times> Vfs \<Rightarrow> tar_step" where
  "after_entry archive_size data_offset file_size r =
     (let padded_size = (file_size + TAR_BLOCK_SIZE - 1) AND NOT (TAR_BLOCK_SIZE - 1);
          next_offset = data_offset + padded_size in
      if \<not> fst r \<or> padded_size < file_size \<or> next_offset < data_offset \<or> next_offset > archive_size then Leave False (snd r)
      else Next next_offset (snd r))"

lemma tar_entry_cases:
  obtains (stop) b where "tar_entry mem archive archive_size offset v = Some (Leave b v)"
  | (add) file_size path where "\<not> offset + 512 < offset" "\<not> file_size > archive_size - (offset + 512)"
      "tar_entry mem archive archive_size offset v =
         map_option (after_entry archive_size (offset + 512) file_size)
           (tar_add_entry (mem (archive + offset + 156)) path (archive + (offset + 512)) file_size v)"
proof -
  let ?h = "tar_header mem (archive + offset)"
  have flag: "th_typeflag ?h = mem (archive + offset + 156)" by (simp add: tar_header_def)
  show thesis
  proof (cases "block_is_zero mem (archive + offset) \<or> \<not> tar_magic_valid ?h \<or> \<not> checksum_valid mem (archive + offset) \<or>
      parse_octal (th_size ?h) = None \<or> offset + 512 < offset \<or> the (parse_octal (th_size ?h)) > archive_size - (offset + 512) \<or> build_path ?h = None")
    case True
    have "tar_entry mem archive archive_size offset v = Some (Leave (block_is_zero mem (archive + offset)) v)"
      using True by (cases "parse_octal (th_size ?h)"; cases "build_path ?h"; elim disjE) (simp_all add: tar_entry_def Let_def)
    then show thesis by (rule stop)
  next
    case False
    then obtain fs path where f: "parse_octal (th_size ?h) = Some fs" "build_path ?h = Some path" by auto
    then have g: "\<not> offset + 512 < offset" "\<not> fs > archive_size - (offset + 512)" using False by auto
    have "tar_entry mem archive archive_size offset v =
        (case tar_add_entry (th_typeflag ?h) path (archive + (offset + 512)) fs v of None \<Rightarrow> None
         | Some (b, v) \<Rightarrow> Some (after_entry archive_size (offset + 512) fs (b, v)))"
      using False f g unfolding tar_entry_def Let_def after_entry_def by (simp split: option.split bool.split) blast
    also have "\<dots> = map_option (after_entry archive_size (offset + 512) fs)
           (tar_add_entry (mem (archive + offset + 156)) path (archive + (offset + 512)) fs v)"
      by (simp add: flag split: option.split)
    finally show thesis by (rule add [OF g])
  qed
qed

lemma tar_entry_next:
  assumes "tar_entry mem archive archive_size offset v = Some (Next next_offset v')"
  shows "offset < next_offset \<and> next_offset \<le> archive_size"
proof (cases mem archive archive_size offset v rule: tar_entry_cases)
  case (add file_size path)
  have "\<not> next_offset < offset + 512 \<and> \<not> next_offset > archive_size"
    using assms add(3) by (auto simp: after_entry_def Let_def split: if_split_asm)
  moreover have "offset < offset + 512" using add(1) by (simp add: not_less order_less_le)
  ultimately show ?thesis by (auto simp: not_less intro: order_less_le_trans)
qed (use assms in simp)

function tar_loop :: "memory \<Rightarrow> ptr \<Rightarrow> u64 \<Rightarrow> u64 \<Rightarrow> Vfs \<Rightarrow> (bool \<times> Vfs) option" where
  "tar_loop mem archive archive_size offset v =
     (if offset + TAR_BLOCK_SIZE \<le> archive_size then
        case tar_entry mem archive archive_size offset v of
          None \<Rightarrow> None
        | Some (Leave result v) \<Rightarrow> Some (result, v)
        | Some (Next next_offset v) \<Rightarrow> tar_loop mem archive archive_size next_offset v
      else Some (True, v))"
  by pat_completeness auto
termination
proof (relation "measure (\<lambda>(mem, archive, archive_size, offset, v). unat (archive_size - offset))")
  fix mem :: memory and archive archive_size offset next_offset :: u64 and v v' :: Vfs and s t
  assume "tar_entry mem archive archive_size offset v = Some s" "s = Next next_offset v'"
  then have "offset < next_offset \<and> next_offset \<le> archive_size" using tar_entry_next by blast
  then show "((mem, archive, archive_size, next_offset, v'), mem, archive, archive_size, offset, v)
      \<in> measure (\<lambda>(mem, archive, archive_size, offset, v). unat (archive_size - offset))"
    by (simp add: word_less_nat_alt word_le_nat_alt unat_sub diff_less_mono2)
qed simp

definition tar_mount :: "memory \<Rightarrow> ptr \<Rightarrow> u64 \<Rightarrow> Vfs \<Rightarrow> (bool \<times> Vfs) option" where
  "tar_mount mem archive archive_size v =
     (if archive = 0 \<or> archive_size < TAR_BLOCK_SIZE \<or> vfs_root v = None then Some (False, v)
      else tar_loop mem archive archive_size 0 v)"

end
