(* ===== verification/VFS_Properties.thy ===== *)
theory VFS_Properties
  imports VFS_Laws
begin

text \<open>
  What the file system promises: adding a file is the update of the map from paths to entries,
  and a node is found again under the path the file system prints for it.
\<close>

lemma vfs_view_root: "vfs_tree v K \<Longrightarrow> vfs_view v [] = Some Directory"
  by (simp add: vfs_view_def node_entry_def vfs_tree_def)

lemma mkdirs_file:
  assumes "view [] = Some Directory" and "cs \<noteq> []"
  shows "((mkdirs view [] (butlast cs))([] @ cs \<mapsto> e)) xs = (if xs = cs then Some e else if prefix xs cs then Some Directory else view xs)"
proof -
  have "xs \<noteq> cs \<Longrightarrow> prefix xs cs \<longleftrightarrow> prefix xs (butlast cs)"
    using assms(2) by (cases cs rule: rev_cases) auto
  then show ?thesis using assms(1) by (auto simp: mkdirs_eq strict_prefix_def)
qed

text \<open>C33. \<open>vfs_add_file\<close> returns and implements the insertion of a file: on success the path, whose
  components it accepted, leads to a file with the given contents, every proper prefix of it to a
  directory, and every other path to what it led to before. On failure (a component that is too
  long or goes up, a file where a directory is needed, a full node array) nothing is lost: at
  most new directories appeared. It does succeed when the path is valid, no file is in the way
  and the array has room.
\<close>

theorem vfs_add_file_refines:
  assumes "vfs_ok v"
  shows "\<exists>b v'. vfs_add_file path d s v = Some (b, v') \<and> vfs_ok v' \<and>
    (if b then \<exists>cs. file_path path = Some cs \<and>
        (\<forall>xs. vfs_view v' xs = (if xs = cs then Some (File d s) else if prefix xs cs then Some Directory else vfs_view v xs))
     else \<forall>xs. vfs_view v' xs = vfs_view v xs \<or> vfs_view v xs = None \<and> vfs_view v' xs = Some Directory) \<and>
    (\<forall>cs. file_path path = Some cs \<and> (\<forall>xs. strict_prefix xs cs \<longrightarrow> vfs_view v xs \<in> {None, Some Directory}) \<and>
       vfs_view v cs \<noteq> Some Directory \<and> g_node_count v + length cs \<le> VFS_MAX_NODES \<longrightarrow> b)"
proof -
  obtain K where t: "vfs_tree v K" using assms by (auto simp: vfs_ok_def)
  have r: "g_root v = Some 0" using t by (simp add: vfs_tree_def)
  obtain b v' K' where l: "add_file_loop 0 path d s v = Some (b, v')" "vfs_tree v' K'"
    "if b then \<exists>cs. file_path path = Some cs \<and> cs \<noteq> [] \<and> vfs_view v' = (mkdirs (vfs_view v) [] (butlast cs))([] @ cs \<mapsto> File d s)
     else dirs_added (vfs_view v) (vfs_view v')"
    "\<forall>cs. file_path path = Some cs \<and> room_for v [] (butlast cs) \<and> vfs_view v ([] @ cs) \<noteq> Some Directory \<and>
       g_node_count v + length cs \<le> VFS_MAX_NODES \<longrightarrow> b"
    using add_file_loop_law [OF t, of "[]" 0 path d s] vfs_view_root [OF t] by auto
  have "b" if a: "file_path path = Some cs" "\<forall>xs. strict_prefix xs cs \<longrightarrow> vfs_view v xs \<in> {None, Some Directory}"
    "vfs_view v cs \<noteq> Some Directory" "g_node_count v + length cs \<le> VFS_MAX_NODES" for cs
  proof -
    have ne: "cs \<noteq> []" by (rule file_path_some [OF a(1)])
    then have "strict_prefix xs cs" if "prefix xs (butlast cs)" for xs
      using that by (cases cs rule: rev_cases) (auto simp: strict_prefix_def)
    then have "room_for v [] (butlast cs)" using a(2,4) ne by (auto simp: room_for_def)
    then show ?thesis using l(4) a by simp
  qed
  then show ?thesis
    using l(1,2) l(3) mkdirs_file [where view = "vfs_view v", OF vfs_view_root [OF t]] r
    by (intro exI [of _ b] exI [of _ v']) (auto simp: vfs_add_file_def vfs_ok_def dirs_added_def split: if_split_asm)
qed

section \<open>The store as its clients see it\<close>

text \<open>
  A client such as the archive reader adds files and directories by path. It relies on this: the
  calls return, and no call makes up file contents or changes those of another path.
\<close>

locale file_store =
  fixes ok :: "'s \<Rightarrow> bool"
    and view :: "'s \<Rightarrow> cstr list \<Rightarrow> fs_entry option"
    and add_file :: "cstr \<Rightarrow> ptr \<Rightarrow> u64 \<Rightarrow> 's \<Rightarrow> (bool \<times> 's) option"
    and add_directory :: "cstr \<Rightarrow> 's \<Rightarrow> (bool \<times> 's) option"
  assumes file_total: "ok s \<Longrightarrow> \<exists>b s'. add_file path d n s = Some (b, s') \<and> ok s'"
    and file_entries: "ok s \<Longrightarrow> add_file path d n s = Some (b, s') \<Longrightarrow> view s' xs = Some (File e m) \<Longrightarrow>
      view s xs = Some (File e m) \<or> e = d \<and> m = n"
    and directory_total: "ok s \<Longrightarrow> \<exists>b s'. add_directory path s = Some (b, s') \<and> ok s'"
    and directory_entries: "ok s \<Longrightarrow> add_directory path s = Some (b, s') \<Longrightarrow> view s' xs = Some (File e m) \<Longrightarrow>
      view s xs = Some (File e m)"
begin

definition files_from :: "(ptr \<Rightarrow> u64 \<Rightarrow> bool) \<Rightarrow> 's \<Rightarrow> 's \<Rightarrow> bool" where
  "files_from P s s' \<longleftrightarrow> (\<forall>xs d n. view s' xs = Some (File d n) \<longrightarrow> view s xs = Some (File d n) \<or> P d n)"

lemma files_from_refl: "files_from P s s"
  by (simp add: files_from_def)

lemma files_from_trans: "files_from P s s1 \<Longrightarrow> files_from P s1 s' \<Longrightarrow> files_from P s s'"
  unfolding files_from_def by blast

lemma file_from:
  assumes "ok s"
  obtains b s' where "add_file path d n s = Some (b, s')" "ok s'" "\<And>P. P d n \<Longrightarrow> files_from P s s'"
proof -
  obtain b s' where a: "add_file path d n s = Some (b, s')" "ok s'" using file_total [OF assms] by blast
  then show thesis using that file_entries [OF assms a(1)] unfolding files_from_def by blast
qed

lemma directory_from:
  assumes "ok s"
  obtains b s' where "add_directory path s = Some (b, s')" "ok s'" "\<And>P. files_from P s s'"
proof -
  obtain b s' where a: "add_directory path s = Some (b, s')" "ok s'" using directory_total [OF assms] by blast
  then show thesis using that directory_entries [OF assms a(1)] unfolding files_from_def by blast
qed

end

lemma mkdirs_files: "mkdirs view ps cs xs = Some (File d s) \<Longrightarrow> view xs = Some (File d s)"
  by (simp add: mkdirs_eq split: if_split_asm)

lemma dirs_added_files: "dirs_added view view' \<Longrightarrow> view' xs = Some (File d s) \<Longrightarrow> view xs = Some (File d s)"
  unfolding dirs_added_def by (metis fs_entry.distinct(1) option.inject)

lemma add_file_entries:
  assumes "vfs_ok v"
  shows "\<exists>b v'. vfs_add_file path d s v = Some (b, v') \<and> vfs_ok v' \<and>
    (\<forall>xs e m. vfs_view v' xs = Some (File e m) \<longrightarrow> vfs_view v xs = Some (File e m) \<or> e = d \<and> m = s)"
proof -
  obtain K where t: "vfs_tree v K" using assms by (auto simp: vfs_ok_def)
  have root: "g_root v = Some 0" using t by (simp add: vfs_tree_def)
  obtain b v' K' where f: "add_file_loop 0 path d s v = Some (b, v')" "vfs_tree v' K'"
    "if b then \<exists>cs. file_path path = Some cs \<and> cs \<noteq> [] \<and> vfs_view v' = (mkdirs (vfs_view v) [] (butlast cs))([] @ cs \<mapsto> File d s)
     else dirs_added (vfs_view v) (vfs_view v')"
    using add_file_loop_law [OF t, of "[]" 0 path d s] vfs_view_root [OF t] by auto
  have "vfs_view v xs = Some (File e m) \<or> e = d \<and> m = s" if "vfs_view v' xs = Some (File e m)" for xs e m
    using that f(3) mkdirs_files [of "vfs_view v" "[]"] dirs_added_files by (auto split: if_split_asm)
  then show ?thesis using f(1,2) root by (auto simp: vfs_add_file_def vfs_ok_def)
qed

lemma add_directory_entries:
  assumes "vfs_ok v"
  shows "\<exists>b v'. vfs_add_directory path v = Some (b, v') \<and> vfs_ok v' \<and>
    (\<forall>xs e m. vfs_view v' xs = Some (File e m) \<longrightarrow> vfs_view v xs = Some (File e m))"
proof -
  obtain K where t: "vfs_tree v K" using assms by (auto simp: vfs_ok_def)
  have root: "g_root v = Some 0" using t by (simp add: vfs_tree_def)
  obtain b v' K' where f: "add_directory_loop 0 path v = Some (b, v')" "vfs_tree v' K'"
    "if b then \<exists>cs. dir_path path = Some cs \<and> vfs_view v' = mkdirs (vfs_view v) [] cs else dirs_added (vfs_view v) (vfs_view v')"
    using add_directory_loop_law [OF t, of "[]" 0 path] vfs_view_root [OF t] by auto
  have "vfs_view v xs = Some (File e m)" if "vfs_view v' xs = Some (File e m)" for xs e m
    using that f(3) mkdirs_files [of "vfs_view v" "[]"] dirs_added_files by (auto split: if_split_asm)
  then show ?thesis using f(1,2) root by (auto simp: vfs_add_directory_def vfs_ok_def)
qed

interpretation vfs: file_store vfs_ok vfs_view vfs_add_file vfs_add_directory
proof
  fix v v' :: Vfs and path d n b xs e m
  show "vfs_ok v \<Longrightarrow> \<exists>b v'. vfs_add_file path d n v = Some (b, v') \<and> vfs_ok v'"
    "vfs_ok v \<Longrightarrow> \<exists>b v'. vfs_add_directory path v = Some (b, v') \<and> vfs_ok v'"
    using add_file_entries add_directory_entries by blast+
  show "vfs_ok v \<Longrightarrow> vfs_add_file path d n v = Some (b, v') \<Longrightarrow> vfs_view v' xs = Some (File e m) \<Longrightarrow>
      vfs_view v xs = Some (File e m) \<or> e = d \<and> m = n" using add_file_entries [of v path d n] by auto
  show "vfs_ok v \<Longrightarrow> vfs_add_directory path v = Some (b, v') \<Longrightarrow> vfs_view v' xs = Some (File e m) \<Longrightarrow>
      vfs_view v xs = Some (File e m)" using add_directory_entries [of v path] by auto
qed

section \<open>Printing and reading paths\<close>

definition path_string :: "cstr list \<Rightarrow> cstr" where
  "path_string cs = concat (map (\<lambda>c. SLASH # c) cs)"

lemma next_component_string:
  assumes "name_ok c" and "rest = [] \<or> hd rest = SLASH"
  shows "next_component (SLASH # c @ rest) = Component c rest"
proof -
  have c: "c \<noteq> []" "length c \<le> VFS_NAME_MAX" "SLASH \<notin> set c" using assms(1) by (auto simp: name_ok_def)
  then obtain x xs where x: "c = x # xs" "x \<noteq> SLASH" by (cases c) auto
  have "takeWhile (\<lambda>c. c \<noteq> SLASH) (c @ rest) = c" "dropWhile (\<lambda>c. c \<noteq> SLASH) (c @ rest) = rest"
    using c(3) assms(2) by (cases rest; auto simp: takeWhile_append dropWhile_append)+
  then show ?thesis using c(2) x by (simp add: next_component_eq Let_def)
qed

lemma dir_path_string: "\<forall>c\<in>set cs. name_ok c \<Longrightarrow> dir_path (path_string cs) = Some cs"
proof (induction cs)
  case Nil
  then show ?case by (simp add: path_string_def dir_path.simps next_component_def)
next
  case (Cons c cs)
  have "path_string cs = [] \<or> hd (path_string cs) = SLASH" by (cases cs) (simp_all add: path_string_def)
  then have n: "next_component (path_string (c # cs)) = Component c (path_string cs)"
    using next_component_string [of c "path_string cs"] Cons.prems by (simp add: path_string_def)
  have "c \<noteq> [DOT]" "c \<noteq> [DOT, DOT]" using Cons.prems by (auto simp: name_ok_def)
  then show ?case using Cons n by (simp add: dir_path.simps [of "path_string (c # cs)"])
qed

lemma descend_facts:
  assumes t: "vfs_tree v K" and "descend_from v 0 cs = Some n"
  shows "(\<forall>c\<in>set cs. name_ok c) \<and> length cs \<le> n"
  using assms(2)
proof (induction cs arbitrary: n rule: rev_induct)
  case (snoc c cs)
  have z: "0 < g_node_count v" using t by (simp add: vfs_tree_def)
  obtain e where e: "descend_from v 0 cs = Some e" "child_of v K e c = Some n"
    using snoc.prems descend_snoc [OF t, of cs c] by (auto split: option.split_asm)
  show ?case using snoc.IH [OF e(1)] child_of_some [OF t descend_less [OF t z e(1)] e(2)] by auto
qed simp

lemma path_walks:
  assumes t: "vfs_tree v K"
  shows "descend_from v 0 cs = Some n \<Longrightarrow> depth + length cs \<le> VFS_MAX_NODES \<Longrightarrow>
    path_total v (Some n) depth k = Some (Some 0, k + of_nat (length (path_string cs))) \<and>
    path_text v (Some n) acc = Some (path_string cs @ acc)"
proof (induction cs arbitrary: n depth k acc rule: rev_induct)
  case Nil
  then show ?case using t by (simp add: path_total.simps path_text.simps path_string_def vfs_tree_def)
next
  case (snoc c cs)
  have z: "0 < g_node_count v" "g_root v = Some 0" using t by (simp_all add: vfs_tree_def)
  obtain e where e: "descend_from v 0 cs = Some e" "child_of v K e c = Some n"
    using snoc.prems(1) descend_snoc [OF t, of cs c] by (auto split: option.split_asm)
  note ch = child_of_some [OF t descend_less [OF t z(1) e(1)] e(2)]
  have "c \<noteq> []" "n \<noteq> 0" using ch(2,6) by (auto simp: name_ok_def)
  then show ?case
    using snoc.IH [OF e(1), of "depth + 1" "k + of_nat (length c) + 1" "SLASH # c @ acc"] snoc.prems(2) ch(4,5) z(2)
    by (simp add: path_total.simps [of v "Some n"] path_text.simps [of v "Some n"] path_string_def algebra_simps)
qed

text \<open>C34. The path the file system prints for a node leads back to it: for a node of the tree and a
  buffer that can hold the string, \<open>vfs_get_path\<close> returns the names from the root, each after a
  slash, and \<open>vfs_resolve\<close> of that string from any directory returns the node. Both return.
\<close>

theorem vfs_path_roundtrip:
  assumes "vfs_ok v" and "descend_from v 0 cs = Some n" and "length (path_string cs) + 2 \<le> unat capacity"
  shows "\<exists>text. vfs_get_path v (Some n) capacity = Some (Some text) \<and> vfs_resolve v start text = Some (Some n) \<and>
    text = (if cs = [] then [SLASH] else path_string cs)"
proof -
  obtain K where t: "vfs_tree v K" using assms(1) by (auto simp: vfs_ok_def)
  have z: "0 < g_node_count v" "g_node_count v \<le> VFS_MAX_NODES" "g_root v = Some 0" using t by (simp_all add: vfs_tree_def)
  note n = descend_less [OF t z(1) assms(2)] and f = descend_facts [OF t assms(2)]
  have ne: "cs = [] \<longleftrightarrow> n = 0" using f assms(2) by auto
  have l: "length cs \<le> VFS_MAX_NODES" using f n z(2) by linarith
  note w = path_walks [OF t assms(2), of 0 0 "[]", simplified, OF l]
  let ?text = "if cs = [] then [SLASH] else path_string cs"
  have c: "\<not> capacity < 2" "capacity \<noteq> 0" using assms(3) by (auto simp: word_less_nat_alt)
  have "unat (of_nat (length (path_string cs) + 1) :: u32) \<le> length (path_string cs) + 1"
    unfolding unat_of_nat by (rule mod_less_eq_dividend)
  then have "\<not> (of_nat (length (path_string cs)) + 1 :: u32) > capacity"
    using assms(3) by (simp add: word_less_nat_alt add.commute)
  then have g: "vfs_get_path v (Some n) capacity = Some (Some ?text)"
    using w c ne z(3) by (auto simp: vfs_get_path_def)
  have h: "?text \<noteq> [] \<and> hd ?text = SLASH" by (cases cs) (simp_all add: path_string_def)
  have "dir_path [SLASH] = Some []" by (simp add: dir_path.simps next_component_def)
  then have d: "dir_path ?text = Some cs" using dir_path_string [of cs] f by auto
  have "vfs_resolve v start ?text = Some (Some n)"
    using resolve_dir_path [OF t d z(1)] assms(2) h z(3) by (simp add: vfs_resolve_def)
  then show ?thesis using g by blast
qed

section \<open>A concrete file system\<close>

text \<open>The path \<open>/b/a\<close> in a file system that has just been initialised.\<close>

abbreviation demo_path :: cstr where "demo_path \<equiv> [SLASH, 0x62, SLASH, 0x61]"

definition demo_vfs :: Vfs where
  "demo_vfs = vfs_init \<lparr>g_nodes = \<lambda>_. zero_node, g_node_count = 0, g_root = None\<rparr>"

lemma demo_file_path: "file_path demo_path = Some [[0x62], [0x61]]"
  by (simp add: file_path.simps next_component_def)

lemma demo_vfs_facts: "vfs_ok demo_vfs" "vfs_view demo_vfs = [[] \<mapsto> Directory]" "g_node_count demo_vfs = 1" "vfs_tree demo_vfs (\<lambda>_. [])"
  unfolding demo_vfs_def vfs_ok_def using vfs_init_tree by blast+

theorem vfs_add_file_refines_witness:
  "\<exists>v'. vfs_add_file demo_path 0x1000 5 demo_vfs = Some (True, v') \<and> vfs_view v' [[0x62]] = Some Directory \<and>
     vfs_view v' [[0x62], [0x61]] = Some (File 0x1000 5)"
proof -
  obtain b v' where a: "vfs_add_file demo_path 0x1000 5 demo_vfs = Some (b, v')"
    "if b then \<exists>cs. file_path demo_path = Some cs \<and>
        (\<forall>xs. vfs_view v' xs = (if xs = cs then Some (File 0x1000 5) else if prefix xs cs then Some Directory else vfs_view demo_vfs xs))
     else \<forall>xs. vfs_view v' xs = vfs_view demo_vfs xs \<or> vfs_view demo_vfs xs = None \<and> vfs_view v' xs = Some Directory"
    "\<forall>cs. file_path demo_path = Some cs \<and> (\<forall>xs. strict_prefix xs cs \<longrightarrow> vfs_view demo_vfs xs \<in> {None, Some Directory}) \<and>
       vfs_view demo_vfs cs \<noteq> Some Directory \<and> g_node_count demo_vfs + length cs \<le> VFS_MAX_NODES \<longrightarrow> b"
    using vfs_add_file_refines [OF demo_vfs_facts(1), of demo_path "0x1000" 5] by blast
  have b using spec [OF a(3), of "[[0x62], [0x61]]"] demo_file_path by (simp add: demo_vfs_facts)
  then show ?thesis using a(1,2) demo_file_path by simp
qed

theorem vfs_path_roundtrip_witness:
  "\<exists>v n. vfs_add_file demo_path 0x1000 5 demo_vfs = Some (True, v) \<and> vfs_get_path v (Some n) 256 = Some (Some demo_path) \<and>
     vfs_resolve v None demo_path = Some (Some n)"
proof -
  obtain b v K where l: "add_file_loop 0 demo_path 0x1000 5 demo_vfs = Some (b, v)" "vfs_tree v K"
    "if b then \<exists>cs. file_path demo_path = Some cs \<and> cs \<noteq> [] \<and> vfs_view v = (mkdirs (vfs_view demo_vfs) [] (butlast cs))([] @ cs \<mapsto> File 0x1000 5)
     else dirs_added (vfs_view demo_vfs) (vfs_view v)"
    "\<forall>cs. file_path demo_path = Some cs \<and> room_for demo_vfs [] (butlast cs) \<and> vfs_view demo_vfs ([] @ cs) \<noteq> Some Directory \<and>
       g_node_count demo_vfs + length cs \<le> VFS_MAX_NODES \<longrightarrow> b"
    using add_file_loop_law [OF demo_vfs_facts(4), of "[]" 0 demo_path "0x1000" 5] demo_vfs_facts(2) by auto
  have b using spec [OF l(4), of "[[0x62], [0x61]]"] demo_file_path by (simp add: demo_vfs_facts room_for_def)
  then have "vfs_view v [[0x62], [0x61]] = Some (File 0x1000 5)" using l(3) demo_file_path by simp
  then obtain n where n: "descend_from v 0 [[0x62], [0x61]] = Some n" by (auto simp: vfs_view_def)
  have ok: "vfs_ok v" using l(2) by (auto simp: vfs_ok_def)
  have "g_root demo_vfs = Some 0" using demo_vfs_facts(4) by (simp add: vfs_tree_def)
  then have "vfs_add_file demo_path 0x1000 5 demo_vfs = Some (True, v)" using l(1) \<open>b\<close> by (simp add: vfs_add_file_def)
  then show ?thesis using vfs_path_roundtrip [OF ok n, of 256 None] by (auto simp: path_string_def)
qed

end
