(* ===== verification/TAR_Properties.thy ===== *)
theory TAR_Properties
  imports TAR VFS_Properties
begin

text \<open>
  What the archive reader promises: mounting ends, keeps the file system well formed, and the
  contents of every file it adds lie inside the archive; octal fields are read back as written.
\<close>

declare tar_loop.simps [simp del]

section \<open>Mounting stays inside the archive\<close>

definition in_archive :: "ptr \<Rightarrow> u64 \<Rightarrow> ptr \<Rightarrow> u64 \<Rightarrow> bool" where
  "in_archive archive archive_size d s \<longleftrightarrow>
     (\<exists>off. d = archive + off \<and> 512 \<le> unat off \<and> unat off + unat s \<le> unat archive_size)"

lemma tar_add_entry_law:
  assumes ok: "vfs_ok v"
  shows "\<exists>b v'. tar_add_entry flag path d s v = Some (b, v') \<and> vfs_ok v' \<and> (\<forall>P. P d s \<longrightarrow> vfs.files_from P v v')"
proof -
  obtain b v' where f: "vfs_add_file path d s v = Some (b, v')" "vfs_ok v'" "\<And>P. P d s \<Longrightarrow> vfs.files_from P v v'"
    by (rule vfs.file_from [OF ok]) blast
  obtain b1 v1 where g: "vfs_add_directory path v = Some (b1, v1)" "vfs_ok v1" "\<And>P. vfs.files_from P v v1"
    by (rule vfs.directory_from [OF ok]) blast
  show ?thesis using f g ok vfs.files_from_refl [of _ v] by (simp add: tar_add_entry_def) blast
qed

lemma in_archive_entry:
  fixes offset file_size archive_size :: u64
  assumes "offset + 512 \<le> archive_size" "\<not> offset + 512 < offset" "\<not> file_size > archive_size - (offset + 512)"
  shows "in_archive archive archive_size (archive + (offset + 512)) file_size"
  unfolding in_archive_def
proof (intro exI [of _ "offset + 512"] conjI)
  have "unat offset \<le> unat (offset + 512)" using assms(2) by (simp add: word_le_nat_alt not_less)
  moreover have "unat (offset + 512) = (unat offset + 512) mod 2 ^ 64" by (simp add: unat_word_ariths)
  ultimately show "512 \<le> unat (offset + 512)"
    by (cases "unat offset + 512 < 2 ^ 64") (auto simp: mod_if)
  have "unat file_size \<le> unat archive_size - unat (offset + 512)"
    using assms(1,3) by (simp add: not_less word_le_nat_alt unat_sub)
  then show "unat (offset + 512) + unat file_size \<le> unat archive_size"
    using assms(1) by (simp add: word_le_nat_alt)
qed simp

lemma tar_loop_law:
  "vfs_ok v \<Longrightarrow> \<exists>b v'. tar_loop mem archive archive_size offset v = Some (b, v') \<and> vfs_ok v' \<and>
     vfs.files_from (in_archive archive archive_size) v v'"
proof (induction mem archive archive_size offset v rule: tar_loop.induct)
  case (1 mem archive archive_size offset v)
  show ?case
  proof (cases "offset + 512 \<le> archive_size")
    case False
    then show ?thesis using "1.prems" by (auto simp: tar_loop.simps [of mem archive archive_size offset] vfs.files_from_refl)
  next
    case True
    show ?thesis
    proof (cases mem archive archive_size offset v rule: tar_entry_cases)
      case (stop b)
      then show ?thesis using True "1.prems" by (simp add: tar_loop.simps [of mem archive archive_size offset] vfs.files_from_refl)
    next
      case (add fs path)
      obtain b v1 where a: "tar_add_entry (mem (archive + offset + 156)) path (archive + (offset + 512)) fs v = Some (b, v1)" "vfs_ok v1"
        and f: "vfs.files_from (in_archive archive archive_size) v v1"
        using tar_add_entry_law [OF "1.prems"] in_archive_entry [OF True add(1,2)] by blast
      note e = add(3) [unfolded a(1) option.map(2)]
      show ?thesis
      proof (cases "after_entry archive_size (offset + 512) fs (b, v1)")
        case (Leave b' v')
        then have "v' = v1" by (auto simp: after_entry_def Let_def split: if_split_asm)
        then show ?thesis using True e Leave a(2) f by (simp add: tar_loop.simps [of mem archive archive_size offset])
      next
        case (Next n v')
        then have v: "v' = v1" by (auto simp: after_entry_def Let_def split: if_split_asm)
        have e': "tar_entry mem archive archive_size offset v = Some (Next n v1)" using e Next v by simp
        then have l: "tar_loop mem archive archive_size offset v = tar_loop mem archive archive_size n v1"
          using True by (simp add: tar_loop.simps [of mem archive archive_size offset])
        show ?thesis unfolding l using "1.IH" [OF True e' refl a(2)] vfs.files_from_trans [OF f] by blast
      qed
    qed
  qed
qed

text \<open>C32. Mounting an archive ends, whatever the archive holds, with a well-formed file system; every
  file that was not there before has its contents inside the archive, after the first header,
  although sizes and offsets come from the archive.
\<close>

theorem tar_mount_bounds:
  assumes "vfs_ok v"
  shows "\<exists>b v'. tar_mount mem archive archive_size v = Some (b, v') \<and> vfs_ok v' \<and>
    (\<forall>xs d s. vfs_view v' xs = Some (File d s) \<and> vfs_view v xs \<noteq> Some (File d s) \<longrightarrow>
       (\<exists>off. d = archive + off \<and> 512 \<le> unat off \<and> unat off + unat s \<le> unat archive_size))"
proof (cases "archive = 0 \<or> archive_size < TAR_BLOCK_SIZE \<or> vfs_root v = None")
  case True
  then show ?thesis using assms by (auto simp: tar_mount_def)
next
  case False
  then show ?thesis
    using tar_loop_law [OF assms, of mem archive archive_size 0] unfolding tar_mount_def vfs.files_from_def in_archive_def by (simp only: if_False) blast
qed

section \<open>Octal fields\<close>

definition octal_value :: "nat \<Rightarrow> cstr \<Rightarrow> nat" where
  "octal_value a ds = foldl (\<lambda>a c. 8 * a + (unat c - 0x30)) a ds"

fun octal_string :: "nat \<Rightarrow> nat \<Rightarrow> cstr" where
  "octal_string 0 n = []"
| "octal_string (Suc k) n = octal_string k (n div 8) @ [of_nat (0x30 + n mod 8)]"

lemma octal_loop_value:
  assumes "\<forall>c\<in>set ds. 0x30 \<le> c \<and> c \<le> 0x37" and "rest = [] \<or> hd rest = 0 \<or> hd rest = SPACE"
  shows "octal_loop (of_nat a) (ds @ rest) = Some (of_nat (octal_value a ds))"
  using assms(1)
proof (induction ds arbitrary: a)
  case Nil
  then show ?case using assms(2) by (cases rest) (auto simp: octal_value_def)
next
  case (Cons c ds)
  have c: "0x30 \<le> c" "c \<le> 0x37" using Cons.prems by auto
  then have "c \<noteq> 0" "c \<noteq> SPACE" "\<not> c < 0x30" "\<not> c > 0x37" by auto
  moreover have "push_bit 3 (of_nat a) + ucast (c - 0x30) = (of_nat (8 * a + (unat c - 0x30)) :: u64)"
  proof -
    have "unat (c - 0x30) = unat c - 0x30" using c(1) by (simp add: unat_sub)
    then have "(ucast (c - 0x30) :: u64) = of_nat (unat c - 0x30)" using of_nat_unat [of "c - 0x30"] by metis
    then show ?thesis by (simp add: push_bit_eq_mult)
  qed
  ultimately have "octal_loop (of_nat a) ((c # ds) @ rest) = octal_loop (of_nat (8 * a + (unat c - 0x30))) (ds @ rest)"
    by simp
  then show ?case using Cons.IH [of "8 * a + (unat c - 0x30)"] Cons.prems by (simp add: octal_value_def)
qed

lemma octal_string_digits:
  "\<forall>c\<in>set (octal_string k n). 0x30 \<le> c \<and> c \<le> 0x37" "length (octal_string k n) = k"
  "n < 8 ^ k \<Longrightarrow> octal_value a (octal_string k n) = 8 ^ k * a + n"
proof -
  have d: "0x30 \<le> (of_nat (0x30 + m mod 8) :: u8) \<and> of_nat (0x30 + m mod 8) \<le> (0x37 :: u8)"
    "unat (of_nat (0x30 + m mod 8) :: u8) = 0x30 + m mod 8" for m
  proof -
    have m: "m mod 8 < 8" by simp
    then show u: "unat (of_nat (0x30 + m mod 8) :: u8) = 0x30 + m mod 8" unfolding unat_of_nat by simp
    then show "0x30 \<le> (of_nat (0x30 + m mod 8) :: u8) \<and> of_nat (0x30 + m mod 8) \<le> (0x37 :: u8)"
      using m unfolding word_le_nat_alt by simp
  qed
  show "\<forall>c\<in>set (octal_string k n). 0x30 \<le> c \<and> c \<le> 0x37" by (induction k arbitrary: n) (use d(1) in auto)
  show "length (octal_string k n) = k" by (induction k arbitrary: n) auto
  show "n < 8 ^ k \<Longrightarrow> octal_value a (octal_string k n) = 8 ^ k * a + n"
  proof (induction k arbitrary: n)
    case (Suc k)
    have "n div 8 < 8 ^ k" using Suc.prems by (simp add: div_less_iff_less_mult mult.commute)
    then have "octal_value a (octal_string k (n div 8)) = 8 ^ k * a + n div 8" by (rule Suc.IH)
    then have "octal_value a (octal_string (Suc k) n) = 8 * (8 ^ k * a + n div 8) + n mod 8"
      using d(2) [of n] by (simp add: octal_value_def)
    also have "\<dots> = 8 ^ Suc k * a + (8 * (n div 8) + n mod 8)" by simp
    finally show ?case by (simp only: mult_div_mod_eq)
  qed (simp add: octal_value_def)
qed

text \<open>C35. Reading an octal field gives back the number that was written: any padding of spaces and
  NUL bytes, then the digits of a number of up to 21 octal digits, then the end of the field, a
  NUL or a space; the 64-bit accumulator does not overflow.
\<close>

theorem parse_octal_roundtrip:
  assumes "n < 8 ^ k" and "0 < k" and "k \<le> 21" and "set padding \<subseteq> {0, SPACE}" and "rest = [] \<or> hd rest = 0 \<or> hd rest = SPACE"
  shows "map_option unat (parse_octal (padding @ octal_string k n @ rest)) = Some n"
proof -
  note o = octal_string_digits [where k = k and n = n]
  obtain c cs where c: "octal_string k n = c # cs" using o(2) assms(2) by (cases "octal_string k n") auto
  then have "c \<noteq> 0 \<and> c \<noteq> SPACE" using o(1) by auto
  then have "dropWhile (\<lambda>c. c = SPACE \<or> c = 0) (padding @ octal_string k n @ rest) = octal_string k n @ rest"
    using assms(4) c by (subst dropWhile_append2) auto
  then have "parse_octal (padding @ octal_string k n @ rest) = Some (of_nat n)"
    using octal_loop_value [OF o(1) assms(5), of 0] o(3) [OF assms(1), of 0] by (simp add: parse_octal_def)
  moreover have "n < 2 ^ 64"
  proof -
    have "(8::nat) ^ k \<le> 8 ^ 21" using assms(3) by (rule power_increasing) simp
    then show ?thesis using assms(1) by simp
  qed
  ultimately show ?thesis by (simp add: unat_of_nat)
qed

theorem parse_octal_roundtrip_witness:
  "map_option unat (parse_octal ([SPACE] @ octal_string 3 493 @ [0])) = Some 493 \<and> octal_string 3 493 = [0x37, 0x35, 0x35]"
proof
  show "map_option unat (parse_octal ([SPACE] @ octal_string 3 493 @ [0])) = Some 493"
    by (rule parse_octal_roundtrip) simp_all
qed (simp add: numeral_3_eq_3)

text \<open>An archive at \<open>0x100000\<close> with the file \<open>a\<close> of five bytes.\<close>

definition demo_archive :: memory where
  "demo_archive p =
     (if p = 0x100000 then 0x61 else if p = 0x10007C then 0x35
      else if p = 0x100094 then 0x31 else if p = 0x100095 then 0x37 else if p = 0x100096 then 0x36
      else if p = 0x100097 then 0x35 else if p = 0x10009C then 0x30
      else if p = 0x100101 then 0x75 else if p = 0x100102 then 0x73 else if p = 0x100103 then 0x74
      else if p = 0x100104 then 0x61 else if p = 0x100105 then 0x72 else 0)"

lemma demo_archive_zero: "p > 0x100105 \<Longrightarrow> demo_archive p = 0"
  by (auto simp: demo_archive_def)

lemma mem_bytes_some:
  "mem_bytes m p 12 = m p # m (p + 1) # mem_bytes m (p + 2) 10"
  "mem_bytes m p 100 = m p # m (p + 1) # mem_bytes m (p + 2) 98"
  "mem_bytes m p 155 = m p # mem_bytes m (p + 1) 154"
  "mem_bytes m p 8 = m p # m (p + 1) # m (p + 2) # m (p + 3) # m (p + 4) # mem_bytes m (p + 5) 3"
  using mem_bytes_Suc [of m p 11] mem_bytes_Suc [of m "p + 1" 10] mem_bytes_Suc [of m p 99] mem_bytes_Suc [of m "p + 1" 98]
    mem_bytes_Suc [of m p 154] mem_bytes_Suc [of m p 7] mem_bytes_Suc [of m "p + 1" 6] mem_bytes_Suc [of m "p + 2" 5]
    mem_bytes_Suc [of m "p + 3" 4] mem_bytes_Suc [of m "p + 4" 3] by (simp_all add: add.assoc)

lemma foldl_plus: "foldl (\<lambda>a i. a + f i) (c::u64) xs = c + sum_list (map f xs)"
  by (induction xs arbitrary: c) (simp_all add: add.assoc)

lemma demo_checksum: "checksum_valid demo_archive 0x100000"
proof -
  define f :: "nat \<Rightarrow> u64" where
    "f i = (if i \<ge> 148 \<and> i < 156 then ucast SPACE else ucast (demo_archive (0x100000 + of_nat i)))" for i
  let ?S = "{0, 124, 148, 149, 150, 151, 152, 153, 154, 155, 156, 257, 258, 259, 260, 261 :: nat}"
  have z: "f i = 0" if i: "i < 512" "i \<notin> ?S" for i
  proof -
    have u: "unat (of_nat i :: u64) = i" using i(1) by (simp add: unat_of_nat)
    have "unat (0x100000 + of_nat i :: u64) = 0x100000 + i" using i(1) by (simp add: unat_word_ariths u)
    then have "demo_archive (0x100000 + of_nat i) = 0" using i(2) by (auto simp: demo_archive_def)
    then show ?thesis using i(2) by (auto simp: f_def)
  qed
  have "sum_list (map f [0..<512]) = sum f {0..<512}" by (simp add: interv_sum_list_conv_sum_set_nat)
  also have "\<dots> = sum f ?S" using z by (intro sum.mono_neutral_right) auto
  also have "\<dots> = 1013" by (simp add: f_def demo_archive_def)
  finally have "foldl (\<lambda>a i. a + f i) 0 [0..<512] = 1013" by (simp add: foldl_plus)
  moreover have "parse_octal (th_checksum (tar_header demo_archive 0x100000)) = Some 1013"
    by (simp add: tar_header_def mem_bytes_some demo_archive_def parse_octal_def push_bit_eq_mult)
  ultimately show ?thesis by (simp add: checksum_valid_def f_def)
qed

lemma demo_build_path: "build_path (tar_header demo_archive 0x100000) = Some [SLASH, 0x61]"
  by (simp add: build_path_def tar_header_def mem_bytes_some demo_archive_def append_field_def Let_def)

lemma demo_blocks: "\<not> block_is_zero demo_archive 0x100000" "block_is_zero demo_archive 0x100400"
proof -
  show "\<not> block_is_zero demo_archive 0x100000"
    by (simp add: block_is_zero_def mem_bytes_def list_all_iff) (rule bexI [of _ 0], simp_all add: demo_archive_def)
  have "demo_archive (0x100400 + of_nat i) = 0" if "i < 512" for i
  proof (rule demo_archive_zero)
    have "unat (of_nat i :: u64) = i" using that by (simp add: unat_of_nat)
    then show "0x100400 + of_nat i > (0x100105 :: u64)" using that by (simp add: word_less_nat_alt unat_word_ariths)
  qed
  then show "block_is_zero demo_archive 0x100400" by (simp add: block_is_zero_def mem_bytes_def list_all_iff)
qed

lemma demo_entry:
  assumes "vfs_add_file [SLASH, 0x61] 0x100200 5 v = Some (True, v')"
  shows "tar_mount demo_archive 0x100000 1536 v = (if vfs_root v = None then Some (False, v) else Some (True, v'))"
proof -
  have h: "tar_magic_valid (tar_header demo_archive 0x100000)" "parse_octal (th_size (tar_header demo_archive 0x100000)) = Some 5"
    "th_typeflag (tar_header demo_archive 0x100000) = 0x30"
    by (simp_all add: tar_magic_valid_def tar_header_def mem_bytes_some demo_archive_def parse_octal_def) (simp_all add: mem_bytes_def demo_archive_def)
  have "tar_entry demo_archive 0x100000 1536 0 v = Some (Next 1024 v')"
    using assms by (simp add: tar_entry_def Let_def demo_blocks h demo_checksum demo_build_path tar_add_entry_def)
  moreover have "tar_entry demo_archive 0x100000 1536 1024 v' = Some (Leave True v')"
    by (simp add: tar_entry_def Let_def demo_blocks)
  ultimately show ?thesis
    by (simp add: tar_mount_def tar_loop.simps [of _ _ _ 0] tar_loop.simps [of _ _ _ 1024])
qed

theorem tar_mount_bounds_witness:
  "\<exists>v'. tar_mount demo_archive 0x100000 1536 demo_vfs = Some (True, v') \<and> vfs_view v' [[0x61]] = Some (File 0x100200 5) \<and>
     (\<exists>off. 0x100200 = (0x100000 :: ptr) + off \<and> unat off + 5 \<le> 1536)"
proof -
  have p: "file_path [SLASH, 0x61] = Some [[0x61]]" by (simp add: file_path.simps next_component_def)
  obtain b v' K where l: "add_file_loop 0 [SLASH, 0x61] 0x100200 5 demo_vfs = Some (b, v')"
    "if b then \<exists>cs. file_path [SLASH, 0x61] = Some cs \<and> cs \<noteq> [] \<and> vfs_view v' = (mkdirs (vfs_view demo_vfs) [] (butlast cs))([] @ cs \<mapsto> File 0x100200 5)
     else dirs_added (vfs_view demo_vfs) (vfs_view v')"
    "\<forall>cs. file_path [SLASH, 0x61] = Some cs \<and> room_for demo_vfs [] (butlast cs) \<and> vfs_view demo_vfs ([] @ cs) \<noteq> Some Directory \<and>
       g_node_count demo_vfs + length cs \<le> VFS_MAX_NODES \<longrightarrow> b"
    using add_file_loop_law [OF demo_vfs_facts(4), of "[]" 0 "[SLASH, 0x61]" "0x100200" 5] demo_vfs_facts(2) by auto
  have b using spec [OF l(3), of "[[0x61]]"] p by (simp add: demo_vfs_facts room_for_def)
  then have v: "vfs_view v' [[0x61]] = Some (File 0x100200 5)" using l(2) p by simp
  have r: "g_root demo_vfs = Some 0" using demo_vfs_facts(4) by (simp add: vfs_tree_def)
  then have "vfs_add_file [SLASH, 0x61] 0x100200 5 demo_vfs = Some (True, v')" using l(1) \<open>b\<close> by (simp add: vfs_add_file_def)
  from demo_entry [OF this] have m: "tar_mount demo_archive 0x100000 1536 demo_vfs = Some (True, v')" using r by (simp add: vfs_root_def)
  have "\<exists>off. 0x100200 = (0x100000 :: ptr) + off \<and> 512 \<le> unat off \<and> unat off + unat (5::u64) \<le> unat (1536::u64)"
    using tar_mount_bounds [OF demo_vfs_facts(1), of demo_archive "0x100000" 1536] m v by (auto simp: demo_vfs_facts)
  then show ?thesis using m v by auto
qed

end
