(* ===== verification/User_Memory.thy ===== *)
theory User_Memory
  imports Address_Space Process_Threads
begin

text \<open>
  Access to the memory of a user process through its page map: the reading of a user buffer
  (\<^verbatim>\<open>src/kernel/user_memory.c\<close>) and the page of the initial user stack with its two guard pages
  (\<^verbatim>\<open>src/kernel/user_stack.c\<close>). A byte of a frame is a part of the 64-bit word of the physical
  memory that holds it, lowest byte first. A read returns the bytes it copied; when it fails in a
  later page, the bytes of earlier pages, which the source has by then written to the caller's
  kernel buffer, are not recorded.
\<close>

definition frame_byte :: "Mm \<Rightarrow> frame_t \<Rightarrow> u64 \<Rightarrow> u8" where
  "frame_byte mm f offset = ucast (drop_bit (8 * unat (offset mod 8)) (pmem mm f (ucast (offset div 8))))"

section \<open>Reading user memory\<close>

definition page_of :: "u64 \<Rightarrow> u64" where
  "page_of address = address AND NOT (VM_PAGE_SIZE - 1)"

lemma page_of_facts:
  fixes a :: u64
  shows "unat (page_of a) = unat a - unat a mod 4096" "a - page_of a < 4096" "unat (a - page_of a) = unat a mod 4096"
proof -
  have m: "(4095::u64) = mask 12" by (simp add: mask_eq_exp_minus_1)
  have "a AND NOT (mask 12) = a AND NOT (take_bit 12 a)"
    by (rule bit_eqI) (auto simp: bit_simps)
  also have "\<dots> = a - take_bit 12 a" by (rule disjunctive_diff [symmetric]) (simp add: bit_take_bit_iff)
  finally have p: "page_of a = a - take_bit 12 a" by (simp add: page_of_def m)
  have t: "unat (take_bit 12 a) = unat a mod 4096" by (simp add: take_bit_eq_mod unat_mod)
  have le: "take_bit 12 a \<le> a" by (simp add: word_le_nat_alt t)
  show "unat (page_of a) = unat a - unat a mod 4096" unfolding p using le t by (simp add: unat_sub)
  show "unat (a - page_of a) = unat a mod 4096" by (simp add: p t)
  then show "a - page_of a < 4096" by (simp add: word_less_nat_alt)
qed

text \<open>The pages the loop may copy from: present, valid, a user page, in the direct map.\<close>

function user_read_loop :: "Kernel \<Rightarrow> ptr \<Rightarrow> u64 \<Rightarrow> u64 \<Rightarrow> u8 list option" where
  "user_read_loop k space address remaining =
     (if remaining = 0 then Some []
      else
        let page = page_of address; offset = address - page in
        case address_space_query_page k space page of
          None \<Rightarrow> None
        | Some (frame, flags) \<Rightarrow>
            if frame = FRAME_INVALID \<or> \<not> has flags VM_USER then None
            else if phys_to_virt (frame_to_phys frame) = 0 then None
            else
              let chunk = VM_PAGE_SIZE - offset;
                  chunk = (if chunk > remaining then remaining else chunk)
              in
              map_option (\<lambda>rest. map (\<lambda>i. frame_byte (k_mm k) frame (offset + of_nat i)) [0..<unat chunk] @ rest)
                (user_read_loop k space (address + chunk) (remaining - chunk)))"
  by pat_completeness auto
termination
proof (relation "measure (\<lambda>(k, space, address, remaining). unat remaining)")
  fix k space and address remaining page offset chunk c :: u64 and r frame flags
  assume nz: "remaining \<noteq> 0" and page: "page = page_of address" and off: "offset = address - page"
    and c: "c = VM_PAGE_SIZE - offset" and ch: "chunk = (if c > remaining then remaining else c)"
  have "unat c = 4096 - unat offset" "unat offset < 4096"
    using page_of_facts(2) [of address] unfolding c off page by (simp_all add: unat_sub word_le_nat_alt word_less_nat_alt)
  then have "0 < unat chunk \<and> unat chunk \<le> unat remaining"
    using nz unfolding ch by (auto simp: word_less_nat_alt unat_gt_0)
  then have "unat (remaining - chunk) < unat remaining" by (simp add: unat_sub word_le_nat_alt)
  then show "((k, space, address + chunk, remaining - chunk), k, space, address, remaining)
      \<in> measure (\<lambda>(k, space, address, remaining). unat remaining)" by simp
qed simp

definition user_memory_read :: "Kernel \<Rightarrow> ptr \<Rightarrow> u64 \<Rightarrow> ptr \<Rightarrow> u64 \<Rightarrow> u8 list option" where
  "user_memory_read k process user_address destination n =
     (if process = 0 \<or> pr_kernel (h_process k process) \<or> destination = 0 \<or> n = 0 \<or>
         user_address < ADDRESS_SPACE_USER_BASE \<or> user_address \<ge> ADDRESS_SPACE_USER_LIMIT \<or>
         n > ADDRESS_SPACE_USER_LIMIT - user_address then None
      else
        let space = pr_address_space (h_process k process) in
        if space = 0 \<or> sp_kernel (h_space k space) then None
        else user_read_loop k space user_address n)"

section \<open>The user stack page\<close>

abbreviation (input) USER_STACK_INITIAL_BASE :: u64 where
  "USER_STACK_INITIAL_BASE \<equiv> ADDRESS_SPACE_USER_BASE + 0x100000"

definition user_stack_base_valid :: "u64 \<Rightarrow> bool" where
  "user_stack_base_valid stack_base =
     (if has stack_base (VM_PAGE_SIZE - 1) then False
      else if stack_base < ADDRESS_SPACE_USER_BASE + VM_PAGE_SIZE then False
      else if stack_base > ADDRESS_SPACE_USER_LIMIT - 2 * VM_PAGE_SIZE then False
      else True)"

definition page_absent :: "Kernel \<Rightarrow> ptr \<Rightarrow> u64 \<Rightarrow> bool" where
  "page_absent k space address \<longleftrightarrow> space \<noteq> 0 \<and> address_space_query_page k space address = None"

definition user_stack_initial_reservation_conflicts :: "u64 \<Rightarrow> u64 \<Rightarrow> bool" where
  "user_stack_initial_reservation_conflicts page_first page_end =
     (if has page_first (VM_PAGE_SIZE - 1) \<or> has page_end (VM_PAGE_SIZE - 1) \<or> page_first \<ge> page_end then True
      else
        let reserved_first = USER_STACK_INITIAL_BASE - VM_PAGE_SIZE;
            reserved_end = USER_STACK_INITIAL_BASE + 2 * VM_PAGE_SIZE
        in page_first < reserved_end \<and> reserved_first < page_end)"

definition user_stack_slot_available :: "Kernel \<Rightarrow> ptr \<Rightarrow> u64 \<Rightarrow> bool" where
  "user_stack_slot_available k space stack_base =
     (if space = 0 \<or> sp_kernel (h_space k space) \<or> \<not> user_stack_base_valid stack_base then False
      else page_absent k space (stack_base - VM_PAGE_SIZE) \<and> page_absent k space stack_base \<and>
           page_absent k space (stack_base + VM_PAGE_SIZE))"

definition user_stack_mapping_valid :: "Kernel \<Rightarrow> ptr \<Rightarrow> u64 \<Rightarrow> frame_t \<Rightarrow> bool" where
  "user_stack_mapping_valid k space stack_base frame =
     (if space = 0 \<or> sp_kernel (h_space k space) \<or> frame = FRAME_INVALID \<or> \<not> user_stack_base_valid stack_base then False
      else if \<not> page_absent k space (stack_base - VM_PAGE_SIZE) \<or>
              \<not> page_absent k space (stack_base + VM_PAGE_SIZE) then False
      else
        case address_space_query_page k space stack_base of
          None \<Rightarrow> False
        | Some (mapped, flags) \<Rightarrow>
            if mapped \<noteq> frame then False
            else has flags VM_USER \<and> has flags VM_WRITE \<and> \<not> has flags VM_EXEC)"

definition user_stack_map_page :: "ptr \<Rightarrow> u64 \<Rightarrow> frame_t \<Rightarrow> Kernel \<Rightarrow> bool \<times> Kernel" where
  "user_stack_map_page space stack_base frame k =
     (if frame = FRAME_INVALID \<or> \<not> user_stack_slot_available k space stack_base then (False, k)
      else
        case address_space_map_page space stack_base frame VM_WRITE k of (mapped, k) \<Rightarrow>
        if \<not> mapped then (False, k)
        else if user_stack_mapping_valid k space stack_base frame then (True, k)
        else (False, snd (address_space_unmap_page space stack_base k)))"

declare user_read_loop.simps [simp del]

section \<open>The loop reads byte by byte\<close>

text \<open>The byte at a user address, where the kernel may read one.\<close>

definition user_byte :: "Kernel \<Rightarrow> ptr \<Rightarrow> u64 \<Rightarrow> u8 option" where
  "user_byte k space a =
     (case address_space_query_page k space (page_of a) of
        None \<Rightarrow> None
      | Some (f, fl) \<Rightarrow>
          if f = FRAME_INVALID \<or> \<not> has fl VM_USER \<or> phys_to_virt (frame_to_phys f) = 0 then None
          else Some (frame_byte (k_mm k) f (a - page_of a)))"

lemma those_append: "those (xs @ ys) = (case those xs of None \<Rightarrow> None | Some as \<Rightarrow> map_option (\<lambda>bs. as @ bs) (those ys))"
  by (induction xs) (auto simp: map_option_case split: option.split)

lemma those_map_Some: "those (map (\<lambda>i. Some (f i)) xs) = Some (map f xs)"
  by (induction xs) simp_all

lemma same_page:
  fixes a :: u64
  assumes "unat a mod 4096 + i < 4096" and "unat a + i < 2 ^ 64"
  shows "page_of (a + of_nat i) = page_of a" "(a + of_nat i) - page_of a = (a - page_of a) + of_nat i"
proof -
  have "unat (of_nat i :: u64) = i" using assms(2) by (simp add: unat_of_nat)
  then have u: "unat (a + of_nat i) = unat a + i" using assms(2) by (simp add: unat_word_ariths)
  have "unat a + i = 4096 * (unat a div 4096) + (unat a mod 4096 + i)" by simp
  then have "(unat a + i) mod 4096 = unat a mod 4096 + i" using assms(1) by (metis mod_less mod_mult_self4 mult.commute)
  then have "unat (page_of (a + of_nat i)) = unat (page_of a)" by (simp add: page_of_facts(1) u)
  then show "page_of (a + of_nat i) = page_of a" by (simp add: word_unat_eq_iff)
qed simp

end
