(* ===== verification/User_ELF.thy ===== *)
theory User_ELF
  imports User_Memory Thread_Wait VFS Byte_Memory
begin

text \<open>
  The loader of user programs, \<^verbatim>\<open>src/kernel/user_elf.c\<close>: the headers of an ELF file, the
  validation of its segments before anything is changed, the mapping of the segments into the
  address space of a process, and the release of the pages. The file is a node of the file
  system whose contents are read from the memory of the boot archive. The images are a heap of
  their own beside the kernel's objects.
\<close>

abbreviation (input) USER_ELF_MAX_LOAD_PAGES :: nat where "USER_ELF_MAX_LOAD_PAGES \<equiv> 64"
abbreviation (input) ELF64_MAX_PHDRS :: nat where "ELF64_MAX_PHDRS \<equiv> 16"
abbreviation (input) ELF64_PT_LOAD :: u32 where "ELF64_PT_LOAD \<equiv> 1"
abbreviation (input) ELF64_PT_DYNAMIC :: u32 where "ELF64_PT_DYNAMIC \<equiv> 2"
abbreviation (input) ELF64_PT_INTERP :: u32 where "ELF64_PT_INTERP \<equiv> 3"
abbreviation (input) ELF64_PT_TLS :: u32 where "ELF64_PT_TLS \<equiv> 7"
abbreviation (input) ELF64_PF_X :: u32 where "ELF64_PF_X \<equiv> 1"
abbreviation (input) ELF64_PF_W :: u32 where "ELF64_PF_W \<equiv> 2"
abbreviation (input) ELF64_PF_R :: u32 where "ELF64_PF_R \<equiv> 4"

record Elf64Header =
  eh_ident :: "u8 list"
  eh_type :: u16
  eh_machine :: u16
  eh_version :: u32
  eh_entry :: u64
  program_header_offset :: u64
  section_header_offset :: u64
  eh_flags :: u32
  header_size :: u16
  program_header_size :: u16
  program_header_count :: u16
  section_header_size :: u16
  section_header_count :: u16
  section_name_index :: u16

record Elf64ProgramHeader =
  ph_type :: u32
  ph_flags :: u32
  ph_offset :: u64
  virtual_address :: u64
  physical_address :: u64
  file_size :: u64
  memory_size :: u64
  alignment :: u64

text \<open>The packed structures read at an address.\<close>

definition elf_header_at :: "memory \<Rightarrow> ptr \<Rightarrow> Elf64Header" where
  "elf_header_at mem p =
     \<lparr>eh_ident = mem_bytes mem p 16, eh_type = mem_word mem (p + 16) 2, eh_machine = mem_word mem (p + 18) 2,
      eh_version = mem_word mem (p + 20) 4, eh_entry = mem_word mem (p + 24) 8,
      program_header_offset = mem_word mem (p + 32) 8, section_header_offset = mem_word mem (p + 40) 8,
      eh_flags = mem_word mem (p + 48) 4, header_size = mem_word mem (p + 52) 2,
      program_header_size = mem_word mem (p + 54) 2, program_header_count = mem_word mem (p + 56) 2,
      section_header_size = mem_word mem (p + 58) 2, section_header_count = mem_word mem (p + 60) 2,
      section_name_index = mem_word mem (p + 62) 2\<rparr>"

definition program_header_at :: "memory \<Rightarrow> ptr \<Rightarrow> Elf64ProgramHeader" where
  "program_header_at mem p =
     \<lparr>ph_type = mem_word mem p 4, ph_flags = mem_word mem (p + 4) 4, ph_offset = mem_word mem (p + 8) 8,
      virtual_address = mem_word mem (p + 16) 8, physical_address = mem_word mem (p + 24) 8,
      file_size = mem_word mem (p + 32) 8, memory_size = mem_word mem (p + 40) 8, alignment = mem_word mem (p + 48) 8\<rparr>"

section \<open>State\<close>

record UserElfPage =
  up_virtual_address :: u64
  up_frame :: frame_t
  up_mapped :: bool

record UserElfImage =
  im_entry :: u64
  im_pages :: "UserElfPage list"
  im_page_count :: nat
  im_loaded :: bool
  im_cleanup_pending :: bool
  im_owner :: ptr
  im_owner_process_id :: u64
  im_owner_space_id :: u64

datatype UserElfTestFault = USER_ELF_TEST_ALLOC | USER_ELF_TEST_MAP | USER_ELF_TEST_UNMAP | USER_ELF_TEST_FREE

record ElfTestFault =
  ef_image :: ptr
  ef_address :: u64
  ef_armed :: bool

record ElfState =
  es_kernel :: Kernel
  h_image :: "ptr \<Rightarrow> UserElfImage"
  g_elf_faults :: "UserElfTestFault \<Rightarrow> ElfTestFault"

definition zero_page :: UserElfPage where
  "zero_page = \<lparr>up_virtual_address = 0, up_frame = 0, up_mapped = False\<rparr>"

definition zero_image :: UserElfImage where
  "zero_image = \<lparr>im_entry = 0, im_pages = replicate USER_ELF_MAX_LOAD_PAGES zero_page, im_page_count = 0, im_loaded = False,
     im_cleanup_pending = False, im_owner = 0, im_owner_process_id = 0, im_owner_space_id = 0\<rparr>"

definition no_elf_fault :: ElfTestFault where
  "no_elf_fault = \<lparr>ef_image = 0, ef_address = 0, ef_armed = False\<rparr>"

definition upd_image :: "ptr \<Rightarrow> (UserElfImage \<Rightarrow> UserElfImage) \<Rightarrow> ElfState \<Rightarrow> ElfState" where
  "upd_image i f s = s\<lparr>h_image := (h_image s)(i := f (h_image s i))\<rparr>"

definition on_kernel :: "(Kernel \<Rightarrow> 'a \<times> Kernel) \<Rightarrow> ElfState \<Rightarrow> 'a \<times> ElfState" where
  "on_kernel f s = (case f (es_kernel s) of (a, k) \<Rightarrow> (a, s\<lparr>es_kernel := k\<rparr>))"

section \<open>Pages and headers\<close>

definition page_down :: "u64 \<Rightarrow> u64" where
  "page_down v = v AND NOT (VM_PAGE_SIZE - 1)"

definition page_up :: "u64 \<Rightarrow> u64 option" where
  "page_up v =
     (if v > U64_MAX - (VM_PAGE_SIZE - 1) then None
      else Some ((v + VM_PAGE_SIZE - 1) AND NOT (VM_PAGE_SIZE - 1)))"

definition program_header :: "memory \<Rightarrow> VfsNode \<Rightarrow> Elf64Header \<Rightarrow> u16 \<Rightarrow> Elf64ProgramHeader option" where
  "program_header mem file header index =
     (if index \<ge> program_header_count header then None
      else
        let offset = program_header_offset header + ucast index * 56 in
        if offset > vn_size file then None
        else if 56 > vn_size file - offset then None
        else Some (program_header_at mem (vn_data file + offset)))"

definition image_find_frame :: "UserElfImage \<Rightarrow> u64 \<Rightarrow> frame_t" where
  "image_find_frame img v =
     (case find (\<lambda>page. up_virtual_address page = v) (take (im_page_count img) (im_pages img)) of
        None \<Rightarrow> FRAME_INVALID
      | Some page \<Rightarrow> up_frame page)"

definition user_elf_needs_cleanup :: "ElfState \<Rightarrow> ptr \<Rightarrow> bool" where
  "user_elf_needs_cleanup s i \<longleftrightarrow>
     i \<noteq> 0 \<and> (let img = h_image s i in
       im_owner img \<noteq> 0 \<or> im_owner_process_id img \<noteq> 0 \<or> im_owner_space_id img \<noteq> 0 \<or>
       im_page_count img \<noteq> 0 \<or> im_loaded img \<or> im_cleanup_pending img \<or> im_entry img \<noteq> 0)"

definition user_elf_test_fail_once :: "ptr \<Rightarrow> UserElfTestFault \<Rightarrow> u64 \<Rightarrow> ElfState \<Rightarrow> bool \<times> ElfState" where
  "user_elf_test_fail_once img fault address s =
     (if img = 0 \<or> address < ADDRESS_SPACE_USER_BASE \<or> address \<ge> ADDRESS_SPACE_USER_LIMIT \<or>
         has address (VM_PAGE_SIZE - 1) then (False, s)
      else if ef_armed (g_elf_faults s fault) then (False, s)
      else (True, s\<lparr>g_elf_faults := (g_elf_faults s)(fault := \<lparr>ef_image = img, ef_address = address, ef_armed = True\<rparr>)\<rparr>))"

definition user_elf_test_faults_armed :: "ElfState \<Rightarrow> u32" where
  "user_elf_test_faults_armed s =
     foldl (OR) 0 (map (\<lambda>(i, fault). if ef_armed (g_elf_faults s fault) then push_bit i 1 else 0)
       (enumerate 0 [USER_ELF_TEST_ALLOC, USER_ELF_TEST_MAP, USER_ELF_TEST_UNMAP, USER_ELF_TEST_FREE]))"

definition user_elf_test_clear_faults :: "ElfState \<Rightarrow> ElfState" where
  "user_elf_test_clear_faults s = s\<lparr>g_elf_faults := (\<lambda>_. no_elf_fault)\<rparr>"

definition fail_operation :: "ptr \<Rightarrow> UserElfTestFault \<Rightarrow> u64 \<Rightarrow> ElfState \<Rightarrow> bool \<times> ElfState" where
  "fail_operation img fault address s =
     (let slot = g_elf_faults s fault in
      if \<not> ef_armed slot \<or> ef_image slot \<noteq> img \<or> ef_address slot \<noteq> address then (False, s)
      else (True, s\<lparr>g_elf_faults := (g_elf_faults s)(fault := no_elf_fault)\<rparr>))"

definition process_available :: "Kernel \<Rightarrow> ptr \<Rightarrow> ptr option" where
  "process_available k process =
     (let p = h_process k process in
      if process = 0 \<or> \<not> pr_initialized p \<or> pr_id p = 0 \<or> pr_kernel p \<or> \<not> owns_address_space p \<or>
         pr_address_space p \<noteq> process_owned_space_addr process then None
      else
        let space = process_address_space k process in
        if space = 0 \<or> sp_kernel (h_space k space) \<or> sp_id (h_space k space) = 0 \<or> address_space_cr3 k space = 0 then None
        else if cr3 (mm_cpu (k_mm k)) AND NOT (VM_PAGE_SIZE - 1) = address_space_cr3 k space then None
        else Some space)"

primrec unpublished_scan :: "nat \<Rightarrow> Kernel \<Rightarrow> ptr \<Rightarrow> ptr \<Rightarrow> ptr \<Rightarrow> bool" where
  "unpublished_scan 0 k process previous thread \<longleftrightarrow> thread = 0 \<and> previous = thread_tail (h_process k process)"
| "unpublished_scan (Suc n) k process previous thread \<longleftrightarrow>
     (let t = h_thread k thread in
      if thread = 0 \<or> th_id t = 0 \<or> th_process t \<noteq> process \<or> process_prev t \<noteq> previous \<or> th_state t \<noteq> THREAD_STATE_READY \<or>
         on_run_queue t \<or> run_next t \<noteq> 0 \<or> interrupt_context_ready t \<or> interrupt_rsp t \<noteq> 0 \<or> thread_wait_active k thread
      then False
      else unpublished_scan n k process thread (process_next t))"

definition threads_unpublished :: "Kernel \<Rightarrow> ptr \<Rightarrow> bool" where
  "threads_unpublished k process =
     unpublished_scan (unat (thread_count (h_process k process))) k process 0 (thread_head (h_process k process))"

definition image_owner_matches :: "ElfState \<Rightarrow> ptr \<Rightarrow> ptr \<Rightarrow> ptr \<Rightarrow> bool" where
  "image_owner_matches s process space i \<longleftrightarrow>
     elf_image (h_process (es_kernel s) process) = i \<and> im_owner (h_image s i) = process \<and>
     im_owner_process_id (h_image s i) = pr_id (h_process (es_kernel s) process) \<and>
     im_owner_space_id (h_image s i) = sp_id (h_space (es_kernel s) space) \<and>
     im_page_count (h_image s i) \<le> USER_ELF_MAX_LOAD_PAGES"

section \<open>Releasing pages\<close>

text \<open>Unmap one page, unless it has been unmapped before.\<close>

definition release_mapping :: "nat \<Rightarrow> ptr \<Rightarrow> ptr \<Rightarrow> ElfState \<Rightarrow> bool \<times> ElfState" where
  "release_mapping n space i s =
     (let page = im_pages (h_image s i) ! n in
      if \<not> up_mapped page then (True, s)
      else
        case address_space_query_page (es_kernel s) space (up_virtual_address page) of
          None \<Rightarrow> (False, s)
        | Some (current, _) \<Rightarrow>
            if current \<noteq> up_frame page then (False, s)
            else
              case fail_operation i USER_ELF_TEST_UNMAP (up_virtual_address page) s of (fault, s) \<Rightarrow>
              if fault then (False, s)
              else
                case on_kernel (address_space_unmap_page space (up_virtual_address page)) s of
                  (None, s) \<Rightarrow> (False, s)
                | (Some old, s) \<Rightarrow>
                    (old = up_frame page,
                     upd_image i (\<lambda>m. m\<lparr>im_pages := (im_pages m)[n := page\<lparr>up_mapped := False\<rparr>]\<rparr>) s))"

primrec release_loop :: "nat \<Rightarrow> ptr \<Rightarrow> ptr \<Rightarrow> ElfState \<Rightarrow> bool \<times> ElfState" where
  "release_loop 0 space i s = (True, s)"
| "release_loop (Suc n) space i s =
     (let page = im_pages (h_image s i) ! n in
      if up_frame page = FRAME_INVALID then (False, s)
      else
        case release_mapping n space i s of (ok, s) \<Rightarrow>
        if \<not> ok then (False, s)
        else
          case fail_operation i USER_ELF_TEST_FREE (up_virtual_address page) s of (fault, s) \<Rightarrow>
          if fault then (False, s)
          else
            case on_kernel (on_mm (mm_frame_free (up_frame page))) s of (freed, s) \<Rightarrow>
            if \<not> freed then (False, s)
            else release_loop n space i
              (upd_image i (\<lambda>m. m\<lparr>im_pages := (im_pages m)[n := zero_page], im_page_count := n\<rparr>) s))"

definition release_pages :: "ptr \<Rightarrow> ptr \<Rightarrow> ptr \<Rightarrow> ElfState \<Rightarrow> bool \<times> ElfState" where
  "release_pages process space i s =
     (if \<not> image_owner_matches s process space i then (False, s)
      else
        let s = upd_image i (\<lambda>m. m\<lparr>im_entry := 0, im_loaded := False, im_cleanup_pending := True\<rparr>) s in
        case release_loop (im_page_count (h_image s i)) space i s of (ok, s) \<Rightarrow>
        if \<not> ok then (False, s)
        else
          let s = s\<lparr>es_kernel := upd_process process (\<lambda>p. p\<lparr>elf_image := 0\<rparr>) (es_kernel s)\<rparr>
          in (True, upd_image i (\<lambda>_. zero_image) s))"

section \<open>Validation\<close>

definition elf_header_valid :: "VfsNode \<Rightarrow> Elf64Header \<Rightarrow> bool" where
  "elf_header_valid file header =
     (if eh_ident header ! 0 \<noteq> 0x7F \<or> eh_ident header ! 1 \<noteq> 0x45 \<or> eh_ident header ! 2 \<noteq> 0x4C \<or>
         eh_ident header ! 3 \<noteq> 0x46 then False
      else if eh_ident header ! 4 \<noteq> 2 then False
      else if eh_ident header ! 5 \<noteq> 1 then False
      else if eh_ident header ! 6 \<noteq> 1 then False
      else if eh_type header \<noteq> 2 then False
      else if eh_machine header \<noteq> 62 then False
      else if eh_version header \<noteq> 1 then False
      else if eh_flags header \<noteq> 0 then False
      else if header_size header \<noteq> 64 then False
      else if program_header_size header \<noteq> 56 then False
      else if program_header_count header = 0 \<or> program_header_count header > 16 then False
      else if program_header_offset header > vn_size file then False
      else if ucast (program_header_count header) * 56 > vn_size file - program_header_offset header then False
      else if eh_entry header < ADDRESS_SPACE_USER_BASE \<or> eh_entry header \<ge> ADDRESS_SPACE_USER_LIMIT then False
      else True)"

definition load_segment_page_range :: "Elf64ProgramHeader \<Rightarrow> (u64 \<times> u64) option" where
  "load_segment_page_range segment =
     (if memory_size segment = 0 then None
      else if virtual_address segment < ADDRESS_SPACE_USER_BASE \<or>
              virtual_address segment \<ge> ADDRESS_SPACE_USER_LIMIT then None
      else if memory_size segment > ADDRESS_SPACE_USER_LIMIT - virtual_address segment then None
      else
        let segment_end = virtual_address segment + memory_size segment;
            page_first = page_down (virtual_address segment)
        in
        case page_up segment_end of
          None \<Rightarrow> None
        | Some page_end \<Rightarrow>
            if page_first < ADDRESS_SPACE_USER_BASE \<or> page_end > ADDRESS_SPACE_USER_LIMIT \<or> page_end \<le> page_first then None
            else Some (page_first, page_end))"

text \<open>
  The addresses of the loop over the pages from a first page up to an end. The end is at most
  \<open>ADDRESS_SPACE_USER_LIMIT\<close> where the loops run, so that the address does not wrap.
\<close>

definition page_addresses :: "u64 \<Rightarrow> u64 \<Rightarrow> u64 list" where
  "page_addresses page_first page_end =
     map (\<lambda>i. page_first + VM_PAGE_SIZE * of_nat i) [0..<(unat page_end - unat page_first + 4095) div 4096]"

record SegmentScan =
  sc_loads :: "(u64 \<times> u64) list"
  sc_total_pages :: u32
  sc_entry_executable :: bool

text \<open>The part of the check of a loadable segment that reads the segment and the file only.\<close>

definition segment_fields_valid :: "VfsNode \<Rightarrow> Elf64ProgramHeader \<Rightarrow> bool" where
  "segment_fields_valid file segment =
     (if ph_offset segment > vn_size file then False
      else if file_size segment > vn_size file - ph_offset segment then False
      else if ph_flags segment AND NOT (ELF64_PF_R OR ELF64_PF_W OR ELF64_PF_X) \<noteq> 0 then False
      else if ph_flags segment AND ELF64_PF_W \<noteq> 0 \<and> ph_flags segment AND ELF64_PF_X \<noteq> 0 then False
      else if alignment segment > 1 then
        (if alignment segment AND (alignment segment - 1) \<noteq> 0 then False
         else if virtual_address segment mod alignment segment \<noteq> ph_offset segment mod alignment segment then False
         else True)
      else True)"

definition validate_load :: "Kernel \<Rightarrow> ptr \<Rightarrow> VfsNode \<Rightarrow> Elf64Header \<Rightarrow> Elf64ProgramHeader \<Rightarrow> SegmentScan \<Rightarrow> SegmentScan option" where
  "validate_load k space file header segment scan =
     (if \<not> segment_fields_valid file segment then None
      else
        case load_segment_page_range segment of
          None \<Rightarrow> None
        | Some (page_first, page_end) \<Rightarrow>
            if user_stack_initial_reservation_conflicts page_first page_end then None
            else if \<exists>(load_first, load_end) \<in> set (sc_loads scan). page_first < load_end \<and> load_first < page_end then None
            else if length (sc_loads scan) \<ge> ELF64_MAX_PHDRS then None
            else
              let pages = (page_end - page_first) div VM_PAGE_SIZE in
              if pages > 64 then None
              else if sc_total_pages scan > 64 - ucast pages then None
              else if \<exists>address \<in> set (page_addresses page_first page_end). address_space_query_page k space address \<noteq> None then None
              else Some
                \<lparr>sc_loads = sc_loads scan @ [(page_first, page_end)],
                 sc_total_pages = sc_total_pages scan + ucast pages,
                 sc_entry_executable = (sc_entry_executable scan \<or>
                   ph_flags segment AND ELF64_PF_X \<noteq> 0 \<and> file_size segment \<noteq> 0 \<and>
                   eh_entry header \<ge> virtual_address segment \<and>
                   eh_entry header < virtual_address segment + file_size segment)\<rparr>)"

definition validate_segment :: "Kernel \<Rightarrow> ptr \<Rightarrow> VfsNode \<Rightarrow> Elf64Header \<Rightarrow> Elf64ProgramHeader option \<Rightarrow> SegmentScan \<Rightarrow> SegmentScan option" where
  "validate_segment k space file header ph scan =
     (case ph of
        None \<Rightarrow> None
      | Some segment \<Rightarrow>
          if ph_type segment = ELF64_PT_DYNAMIC \<or> ph_type segment = ELF64_PT_INTERP \<or>
             ph_type segment = ELF64_PT_TLS then None
          else if ph_type segment \<noteq> ELF64_PT_LOAD then Some scan
          else if file_size segment > memory_size segment then None
          else if memory_size segment = 0 then Some scan
          else validate_load k space file header segment scan)"

fun validate_loop :: "Kernel \<Rightarrow> ptr \<Rightarrow> VfsNode \<Rightarrow> Elf64Header \<Rightarrow> Elf64ProgramHeader option list \<Rightarrow> SegmentScan \<Rightarrow> SegmentScan option" where
  "validate_loop k space file header [] scan = Some scan"
| "validate_loop k space file header (ph # phs) scan =
     (case validate_segment k space file header ph scan of
        None \<Rightarrow> None
      | Some scan \<Rightarrow> validate_loop k space file header phs scan)"

definition program_headers :: "memory \<Rightarrow> VfsNode \<Rightarrow> Elf64Header \<Rightarrow> Elf64ProgramHeader option list" where
  "program_headers mem file header =
     map (\<lambda>i. program_header mem file header (of_nat i)) [0..<unat (program_header_count header)]"

definition validate_segments :: "Kernel \<Rightarrow> memory \<Rightarrow> ptr \<Rightarrow> VfsNode \<Rightarrow> Elf64Header \<Rightarrow> u32 option" where
  "validate_segments k mem space file header =
     (if space = 0 then None
      else
        case validate_loop k space file header (program_headers mem file header)
               \<lparr>sc_loads = [], sc_total_pages = 0, sc_entry_executable = False\<rparr> of
          None \<Rightarrow> None
        | Some scan \<Rightarrow>
            if sc_loads scan = [] \<or> sc_total_pages scan = 0 \<or> \<not> sc_entry_executable scan then None
            else Some (sc_total_pages scan))"

section \<open>Mapping\<close>

text \<open>\<^verbatim>\<open>k_memset(direct, 0, VM_PAGE_SIZE)\<close> and \<^verbatim>\<open>k_memcpy\<close> into a frame.\<close>

definition zero_frame_memory :: "frame_t \<Rightarrow> Mm \<Rightarrow> Mm" where
  "zero_frame_memory f mm = mm\<lparr>pmem := (pmem mm)(f := (\<lambda>_. 0))\<rparr>"

definition copy_to_frame :: "frame_t \<Rightarrow> u64 \<Rightarrow> u8 list \<Rightarrow> Mm \<Rightarrow> Mm" where
  "copy_to_frame f offset bs mm =
     (let byte = (\<lambda>j. if offset \<le> j \<and> unat (j - offset) < length bs then bs ! unat (j - offset) else frame_byte mm f j) in
      mm\<lparr>pmem := (pmem mm)(f := (\<lambda>w. sum_list (map (\<lambda>b. push_bit (8 * b) (ucast (byte (8 * ucast w + of_nat b)))) [0..<8])))\<rparr>)"

fun map_pages_loop :: "ptr \<Rightarrow> vm_flags_t \<Rightarrow> ptr \<Rightarrow> u64 list \<Rightarrow> ElfState \<Rightarrow> bool \<times> ElfState" where
  "map_pages_loop space flags i [] s = (True, s)"
| "map_pages_loop space flags i (v # vs) s =
     (if address_space_query_page (es_kernel s) space v \<noteq> None then (False, s)
      else if im_page_count (h_image s i) \<ge> USER_ELF_MAX_LOAD_PAGES then (False, s)
      else
        case fail_operation i USER_ELF_TEST_ALLOC v s of (fault, s) \<Rightarrow>
        if fault then (False, s)
        else
          case on_kernel (on_mm mm_frame_alloc) s of (frame, s) \<Rightarrow>
          if frame = FRAME_INVALID then (False, s)
          else
            let n = im_page_count (h_image s i);
                s = upd_image i (\<lambda>m. m\<lparr>im_pages := (im_pages m)[n := \<lparr>up_virtual_address = v, up_frame = frame, up_mapped = False\<rparr>],
                      im_page_count := n + 1\<rparr>) s
            in
            if phys_to_virt (frame_to_phys frame) = 0 then (False, s)
            else
              let s = s\<lparr>es_kernel := (es_kernel s)\<lparr>k_mm := zero_frame_memory frame (k_mm (es_kernel s))\<rparr>\<rparr> in
              case fail_operation i USER_ELF_TEST_MAP v s of (fault, s) \<Rightarrow>
              if fault then (False, s)
              else
                case on_kernel (address_space_map_page space v frame flags) s of (mapped, s) \<Rightarrow>
                if \<not> mapped then (False, s)
                else map_pages_loop space flags i vs
                  (upd_image i (\<lambda>m. m\<lparr>im_pages := (im_pages m)[n := (im_pages m ! n)\<lparr>up_mapped := True\<rparr>]\<rparr>) s))"

function copy_loop :: "memory \<Rightarrow> VfsNode \<Rightarrow> Elf64ProgramHeader \<Rightarrow> ptr \<Rightarrow> u64 \<Rightarrow> ElfState \<Rightarrow> bool \<times> ElfState" where
  "copy_loop mem file segment i copied s =
     (if copied < file_size segment then
        let destination = virtual_address segment + copied;
            page_address = page_down destination;
            page_offset = destination - page_address;
            remaining = file_size segment - copied;
            amount = VM_PAGE_SIZE - page_offset;
            amount = (if amount > remaining then remaining else amount);
            frame = image_find_frame (h_image s i) page_address
        in
        if frame = FRAME_INVALID then (False, s)
        else if phys_to_virt (frame_to_phys frame) = 0 then (False, s)
        else
          copy_loop mem file segment i (copied + amount)
            (s\<lparr>es_kernel := (es_kernel s)\<lparr>k_mm := copy_to_frame frame page_offset
                (mem_bytes mem (vn_data file + ph_offset segment + copied) (unat amount)) (k_mm (es_kernel s))\<rparr>\<rparr>)
      else (True, s))"
  by pat_completeness auto
termination
proof (relation "measure (\<lambda>(mem, file, segment, i, copied, s). unat (file_size segment - copied))")
  fix mem and "file" :: VfsNode and segment i and copied :: u64 and s destination page_address page_offset remaining amount a frame
  assume c: "copied < file_size segment" and p: "page_address = page_down destination" "page_offset = destination - page_address"
    and r: "remaining = file_size segment - copied" and a: "a = VM_PAGE_SIZE - page_offset"
    and m: "amount = (if a > remaining then remaining else a)"
  have "page_offset < 4096" using page_of_facts(2) [of destination] p by (simp add: page_of_def page_down_def)
  then have "0 < unat a" unfolding a by (simp add: unat_sub word_le_nat_alt word_less_nat_alt)
  moreover have u: "unat remaining = unat (file_size segment) - unat copied" "0 < unat remaining"
    using c unfolding r by (simp_all add: unat_sub word_le_nat_alt word_less_nat_alt)
  ultimately have "0 < unat amount" "unat amount \<le> unat remaining" unfolding m by (auto simp: word_less_nat_alt)
  moreover have "unat (remaining - amount) = unat remaining - unat amount"
    using \<open>unat amount \<le> unat remaining\<close> by (simp add: unat_sub word_le_nat_alt)
  ultimately have "unat (file_size segment - (copied + amount)) < unat (file_size segment - copied)"
    using r by (simp add: diff_diff_eq [symmetric])
  then show "((mem, file, segment, i, copied + amount,
        s\<lparr>es_kernel := (es_kernel s)\<lparr>k_mm := copy_to_frame frame page_offset
            (mem_bytes mem (vn_data file + ph_offset segment + copied) (unat amount)) (k_mm (es_kernel s))\<rparr>\<rparr>),
      mem, file, segment, i, copied, s) \<in> measure (\<lambda>(mem, file, segment, i, copied, s). unat (file_size segment - copied))" by simp
qed simp

definition map_segment :: "memory \<Rightarrow> ptr \<Rightarrow> VfsNode \<Rightarrow> Elf64ProgramHeader \<Rightarrow> ptr \<Rightarrow> ElfState \<Rightarrow> bool \<times> ElfState" where
  "map_segment mem space file segment i s =
     (if space = 0 \<or> i = 0 then (False, s)
      else if memory_size segment = 0 then (True, s)
      else
        case load_segment_page_range segment of
          None \<Rightarrow> (False, s)
        | Some (page_first, page_end) \<Rightarrow>
            let flags = (if ph_flags segment AND ELF64_PF_W \<noteq> 0 then VM_WRITE else 0);
                flags = (if ph_flags segment AND ELF64_PF_X \<noteq> 0 then flags OR VM_EXEC else flags)
            in
            case map_pages_loop space flags i (page_addresses page_first page_end) s of (ok, s) \<Rightarrow>
            if \<not> ok then (False, s) else copy_loop mem file segment i 0 s)"

section \<open>Loading and unloading\<close>

fun load_loop :: "memory \<Rightarrow> ptr \<Rightarrow> VfsNode \<Rightarrow> ptr \<Rightarrow> Elf64ProgramHeader option list \<Rightarrow> ElfState \<Rightarrow> bool \<times> ElfState" where
  "load_loop mem space file i [] s = (True, s)"
| "load_loop mem space file i (ph # phs) s =
     (case ph of
        None \<Rightarrow> (False, s)
      | Some segment \<Rightarrow>
          if ph_type segment \<noteq> ELF64_PT_LOAD then load_loop mem space file i phs s
          else
            case map_segment mem space file segment i s of (ok, s) \<Rightarrow>
            if \<not> ok then (False, s) else load_loop mem space file i phs s)"

definition load_locked :: "memory \<Rightarrow> ptr \<Rightarrow> VfsNode \<Rightarrow> ptr \<Rightarrow> ElfState \<Rightarrow> bool \<times> ElfState" where
  "load_locked mem process file i s =
     (if i = 0 \<or> user_elf_needs_cleanup s i then (False, s)
      else
        case process_available (es_kernel s) process of
          None \<Rightarrow> (False, s)
        | Some space \<Rightarrow>
            if elf_image (h_process (es_kernel s) process) \<noteq> 0 \<or> \<not> threads_unpublished (es_kernel s) process then (False, s)
            else if vn_type file \<noteq> VFS_FILE \<or> vn_data file = 0 \<or> vn_size file < 64 then (False, s)
            else
              let header = elf_header_at mem (vn_data file) in
              if \<not> elf_header_valid file header then (False, s)
              else
                case validate_segments (es_kernel s) mem space file header of
                  None \<Rightarrow> (False, s)
                | Some expected_pages \<Rightarrow>
                    let s = upd_image i (\<lambda>_. zero_image\<lparr>im_owner := process, im_owner_process_id := pr_id (h_process (es_kernel s) process),
                              im_owner_space_id := sp_id (h_space (es_kernel s) space)\<rparr>) s;
                        s = s\<lparr>es_kernel := upd_process process (\<lambda>p. p\<lparr>elf_image := i\<rparr>) (es_kernel s)\<rparr>
                    in
                    case load_loop mem space file i (program_headers mem file header) s of (ok, s) \<Rightarrow>
                    if \<not> ok \<or> of_nat (im_page_count (h_image s i)) \<noteq> expected_pages then
                      (False, snd (release_pages process space i s))
                    else (True, upd_image i (\<lambda>m. m\<lparr>im_entry := eh_entry header, im_loaded := True\<rparr>) s))"

definition user_elf_load :: "memory \<Rightarrow> ptr \<Rightarrow> VfsNode \<Rightarrow> ptr \<Rightarrow> ElfState \<Rightarrow> bool \<times> ElfState" where
  "user_elf_load mem process file i s = load_locked mem process file i s"

definition user_elf_unload :: "ptr \<Rightarrow> ptr \<Rightarrow> ElfState \<Rightarrow> bool \<times> ElfState" where
  "user_elf_unload process i s =
     (if i = 0 then (False, s)
      else
        case process_available (es_kernel s) process of
          None \<Rightarrow> (False, s)
        | Some space \<Rightarrow>
            if thread_count (h_process (es_kernel s) process) = 0 \<and> thread_head (h_process (es_kernel s) process) = 0 \<and>
               thread_tail (h_process (es_kernel s) process) = 0 \<and> image_owner_matches s process space i
            then release_pages process space i s
            else (False, s))"

end
