(* ===== verification/User_Memory_Properties.thy ===== *)
theory User_Memory_Properties
  imports User_Memory Address_Space_Properties
begin

text \<open>
  The reading of a user buffer page by page agrees with the reading byte by byte, and it reads
  only pages that the process maps itself.
\<close>

lemma user_read_loop_bytes:
  "unat a + unat n \<le> 2 ^ 64 \<Longrightarrow> user_read_loop k space a n = those (map (\<lambda>i. user_byte k space (a + of_nat i)) [0..<unat n])"
proof (induction k space a n rule: user_read_loop.induct)
  case (1 k space a n)
  show ?case
  proof (cases "n = 0")
    case True
    then show ?thesis by (simp add: user_read_loop.simps [of k space a 0])
  next
    case False
    define c where "c = (if VM_PAGE_SIZE - (a - page_of a) > n then n else VM_PAGE_SIZE - (a - page_of a))"
    have off: "unat (a - page_of a) = unat a mod 4096" "unat (VM_PAGE_SIZE - (a - page_of a)) = 4096 - unat a mod 4096"
      using page_of_facts(2,3) [of a] by (simp_all add: unat_sub word_le_nat_alt word_less_nat_alt)
    have c: "0 < unat c" "unat c \<le> unat n" "unat a mod 4096 + unat c \<le> 4096"
      using False off(2) mod_less_divisor [of 4096 "unat a"] unfolding c_def by (auto simp: word_less_nat_alt unat_gt_0 not_less)
    have ub: "user_byte k space (a + of_nat i) =
        (case address_space_query_page k space (page_of a) of None \<Rightarrow> None | Some (f, fl) \<Rightarrow>
          if f = FRAME_INVALID \<or> \<not> has fl VM_USER \<or> phys_to_virt (frame_to_phys f) = 0 then None
          else Some (frame_byte (k_mm k) f (a - page_of a + of_nat i)))" if "i < unat c" for i
    proof -
      have "unat a mod 4096 + i < 4096" "unat a + i < 2 ^ 64" using that c "1.prems" by linarith+
      note sp = same_page [OF this]
      show ?thesis unfolding user_byte_def sp(1) sp(2) ..
    qed
    show ?thesis
    proof (cases "user_byte k space a")
      case None
      then have "those (map (\<lambda>i. user_byte k space (a + of_nat i)) [0..<unat n]) = None"
        using False by (simp add: upt_conv_Cons unat_gt_0)
      moreover have "user_read_loop k space a n = None"
        using None False by (auto simp: user_read_loop.simps [of k space a n] user_byte_def Let_def split: option.split_asm if_split_asm)
      ultimately show ?thesis by simp
    next
      case (Some b)
      then obtain f fl where q: "address_space_query_page k space (page_of a) = Some (f, fl)"
        "\<not> (f = FRAME_INVALID \<or> \<not> has fl VM_USER)" "\<not> phys_to_virt (frame_to_phys f) = 0"
        by (auto simp: user_byte_def split: option.split_asm if_split_asm)
      have un: "unat (n - c) = unat n - unat c" using c(2) by (simp add: unat_sub word_le_nat_alt)
      have ua: "unat (a + c) = unat a + unat c \<or> unat n = unat c" 
        using "1.prems" c(2) by (cases "unat n = unat c") (simp_all add: unat_word_ariths)
      have IH: "user_read_loop k space (a + c) (n - c) = those (map (\<lambda>i. user_byte k space (a + c + of_nat i)) [0..<unat n - unat c])"
      proof (cases "unat n = unat c")
        case True
        then have "n - c = 0" by (simp flip: word_unat_eq_iff)
        then show ?thesis using True by (simp add: user_read_loop.simps [of k space "a + c" 0])
      next
        case False
        then show ?thesis
          using "1.IH" [OF \<open>n \<noteq> 0\<close> refl refl q(1) refl q(2) q(3) refl c_def] ua "1.prems" c(2) un by simp
      qed
      have l: "user_read_loop k space a n = map_option (\<lambda>rest. map (\<lambda>i. frame_byte (k_mm k) f (a - page_of a + of_nat i)) [0..<unat c] @ rest)
          (user_read_loop k space (a + c) (n - c))"
        using q False by (simp add: user_read_loop.simps [of k space a n] Let_def c_def)
      have s: "[0..<unat n] = [0..<unat c] @ map (\<lambda>i. i + unat c) [0..<unat n - unat c]"
        using c(2) upt_add_eq_append [of 0 "unat c" "unat n - unat c"] by (simp add: map_add_upt)
      have first: "map (\<lambda>i. user_byte k space (a + of_nat i)) [0..<unat c] =
          map (\<lambda>i. Some (frame_byte (k_mm k) f (a - page_of a + of_nat i))) [0..<unat c]"
        using ub q by (auto simp: not_le)
      show ?thesis
        unfolding l IH s map_append first those_append those_map_Some by (simp add: o_def ac_simps)
    qed
  qed
qed

lemma those_SomeD: "those xs = Some ys \<Longrightarrow> length ys = length xs \<and> (\<forall>i<length xs. xs ! i = Some (ys ! i))"
proof (induction xs arbitrary: ys)
  case (Cons x xs)
  then obtain y zs where "x = Some y" "those xs = Some zs" "ys = y # zs" by (auto split: option.split_asm)
  then show ?case using Cons.IH [of zs] by (auto simp: nth_Cons split: nat.split)
qed simp

lemma page_of_user:
  fixes a :: u64
  assumes "ADDRESS_SPACE_USER_BASE \<le> a" "a < ADDRESS_SPACE_USER_LIMIT"
  shows "user_virtual_address (page_of a)" "page_aligned (page_of a)"
proof -
  have m: "unat (page_of a) = 4096 * (unat a div 4096)" by (simp add: page_of_facts(1) minus_mod_eq_mult_div)
  have "549755813888 div 4096 \<le> unat a div 4096" using assms(1) by (intro div_le_mono) (simp add: word_le_nat_alt)
  then show "user_virtual_address (page_of a)"
    using assms(2) by (simp add: user_virtual_address_def word_le_nat_alt word_less_nat_alt m)
  show "page_aligned (page_of a)" by (simp add: page_aligned_def page_of_def and.assoc)
qed

text \<open>C36. \<open>user_memory_read\<close>, which copies page by page, agrees with the reference that translates
  every address of the buffer for itself: it fails where a guard or the translation of one byte
  fails and otherwise returns the bytes in order. On a live user space every byte comes from a
  page that the space maps itself, with the user flag, inside the user range.
\<close>

theorem user_memory_read_bytewise:
  "user_memory_read k process a destination n =
     (let space = pr_address_space (h_process k process) in
      if process = 0 \<or> pr_kernel (h_process k process) \<or> destination = 0 \<or> n = 0 \<or> space = 0 \<or> sp_kernel (h_space k space) \<or>
         a < ADDRESS_SPACE_USER_BASE \<or> a \<ge> ADDRESS_SPACE_USER_LIMIT \<or> n > ADDRESS_SPACE_USER_LIMIT - a then None
      else those (map (\<lambda>i. user_byte k space (a + of_nat i)) [0..<unat n])) \<and>
   (\<forall>bs. spaces_ok k \<and> space_storage_live k (pr_address_space (h_process k process)) \<and>
      user_memory_read k process a destination n = Some bs \<longrightarrow>
      length bs = unat n \<and> (\<forall>i<unat n. \<exists>f fl.
        page_view (k_mm k) (space_page_map_addr (pr_address_space (h_process k process))) (page_of (a + of_nat i)) = Some (f, fl) \<and>
        has fl VM_USER \<and> bs ! i = frame_byte (k_mm k) f (a + of_nat i - page_of (a + of_nat i))))"
proof -
  let ?s = "pr_address_space (h_process k process)"
  let ?bad = "process = 0 \<or> pr_kernel (h_process k process) \<or> destination = 0 \<or> n = 0 \<or> ?s = 0 \<or> sp_kernel (h_space k ?s) \<or>
         a < ADDRESS_SPACE_USER_BASE \<or> a \<ge> ADDRESS_SPACE_USER_LIMIT \<or> n > ADDRESS_SPACE_USER_LIMIT - a"
  have nw: "unat a + unat n \<le> unat ADDRESS_SPACE_USER_LIMIT" if "\<not> ?bad"
  proof -
    have "unat (ADDRESS_SPACE_USER_LIMIT - a) = unat ADDRESS_SPACE_USER_LIMIT - unat a" using that by (subst unat_sub) auto
    moreover have "unat a < unat ADDRESS_SPACE_USER_LIMIT" "unat n \<le> unat (ADDRESS_SPACE_USER_LIMIT - a)"
      using that by (auto simp: not_less not_le word_le_nat_alt word_less_nat_alt)
    ultimately show ?thesis by linarith
  qed
  have eq: "user_memory_read k process a destination n =
      (if ?bad then None else those (map (\<lambda>i. user_byte k ?s (a + of_nat i)) [0..<unat n]))"
  proof (cases ?bad)
    case True
    then show ?thesis by (auto simp: user_memory_read_def Let_def)
  next
    case False
    then show ?thesis using user_read_loop_bytes [of a n k ?s] nw [OF False] by (simp add: user_memory_read_def)
  qed
  moreover have "length bs = unat n \<and> (\<forall>i<unat n. \<exists>f fl. page_view (k_mm k) (space_page_map_addr ?s) (page_of (a + of_nat i)) = Some (f, fl) \<and>
      has fl VM_USER \<and> bs ! i = frame_byte (k_mm k) f (a + of_nat i - page_of (a + of_nat i)))"
    if ok: "spaces_ok k" "space_storage_live k ?s" and r: "user_memory_read k process a destination n = Some bs" for bs
  proof -
    have g: "\<not> ?bad" and t: "those (map (\<lambda>i. user_byte k ?s (a + of_nat i)) [0..<unat n]) = Some bs"
      using r unfolding eq by (auto split: if_split_asm)
    have b: "length bs = unat n" "\<And>i. i < unat n \<Longrightarrow> user_byte k ?s (a + of_nat i) = Some (bs ! i)"
      using those_SomeD [OF t] by auto
    have "\<exists>f fl. page_view (k_mm k) (space_page_map_addr ?s) (page_of (a + of_nat i)) = Some (f, fl) \<and>
      has fl VM_USER \<and> bs ! i = frame_byte (k_mm k) f (a + of_nat i - page_of (a + of_nat i))" if i: "i < unat n" for i
    proof -
      have "unat (a + of_nat i) = unat a + i" using nw [OF g] i by (simp add: unat_word_ariths)
      then have "ADDRESS_SPACE_USER_BASE \<le> a + of_nat i" "a + of_nat i < ADDRESS_SPACE_USER_LIMIT"
        using g nw [OF g] i by (simp_all add: word_le_nat_alt word_less_nat_alt)
      note u = page_of_user [OF this]
      show ?thesis using b(2) [OF i] user_space_page(1) [OF ok, of "page_of (a + of_nat i)"] u g
        by (auto simp: user_byte_def split: option.split_asm if_split_asm)
    qed
    then show ?thesis using b(1) by blast
  qed
  ultimately show ?thesis by (simp add: Let_def)
qed

theorem user_memory_read_bytewise_witness:
  "\<exists>bs. user_memory_read (space_kernel\<lparr>h_process := (\<lambda>_. zero_process\<lparr>pr_address_space := 0xFF8\<rparr>)\<rparr>) 0x5000 0x8000001FF0 0x9000 16 = Some bs \<and>
     length bs = 16"
proof -
  let ?k = "space_kernel\<lparr>h_process := (\<lambda>_. zero_process\<lparr>pr_address_space := 0xFF8\<rparr>)\<rparr>" and ?a = "0x8000001FF0 :: u64"
  have l: "space_storage_live ?k 0xFF8" using space_kernel_ok(2) [of "0xFF8"] by (simp add: space_live_iff)
  have q: "address_space_query_page ?k 0xFF8 0x8000001000 = Some (33, VM_WRITE OR VM_USER)"
    using demo_view(1) l by (simp add: address_space_query_page_def space_page_map_addr_def page_view_def space_kernel_def split: if_split_asm)
  have p: "page_of ?a = 0x8000001000" by (simp add: page_of_def)
  have "user_byte ?k 0xFF8 (?a + of_nat i) = Some (frame_byte demo_mm 33 (?a - 0x8000001000 + of_nat i))" if "i < 16" for i
    using same_page [of ?a i] that p q by (simp add: user_byte_def has_def frame_to_phys_def) (simp add: space_kernel_def)
  then have m: "map (\<lambda>i. user_byte ?k 0xFF8 (?a + of_nat i)) [0..<16] = map (\<lambda>i. Some (frame_byte demo_mm 33 (?a - 0x8000001000 + of_nat i))) [0..<16]"
    by (intro map_cong) auto
  have k: "\<not> sp_kernel (h_space ?k 0xFF8)" by (simp add: space_kernel_def zero_space_def)
  have "user_memory_read ?k 0x5000 ?a 0x9000 16 = those (map (\<lambda>i. user_byte ?k 0xFF8 (?a + of_nat i)) [0..<16])"
    using user_memory_read_bytewise [of ?k "0x5000" ?a "0x9000" 16, THEN conjunct1] k by (simp add: zero_process_def Let_def)
  then show ?thesis unfolding m those_map_Some by simp
qed

end
