(* ===== verification/User_ELF_Properties.thy ===== *)
theory User_ELF_Properties
  imports User_ELF User_Memory_Properties
begin

text \<open>
  What the validation of an ELF file guarantees before the loader changes anything.
\<close>

section \<open>Pages\<close>

lemma page_down_page_of: "page_down v = page_of v"
  by (simp add: page_down_def page_of_def)

lemma page_up_facts:
  fixes v :: u64
  assumes "page_up v = Some p"
  shows "unat p mod 4096 = 0" "unat v \<le> unat p" "unat p < unat v + 4096"
proof -
  have g: "\<not> U64_MAX - 4095 < v" and p: "p = page_of (v + 4096 - 1)"
    using assms by (auto simp: page_up_def page_of_def split: if_split_asm)
  have "unat v \<le> unat (U64_MAX - 4095)" using g by (simp add: not_less word_le_nat_alt)
  then have "unat (v + 4095) = unat v + 4095" by (simp add: unat_word_ariths)
  then have u: "unat p = unat v + 4095 - (unat v + 4095) mod 4096" using page_of_facts(1) [of "v + 4095"] p by (simp add: add.commute)
  then show "unat p mod 4096 = 0" by (simp add: minus_mod_eq_mult_div)
  show "unat v \<le> unat p" "unat p < unat v + 4096" using u mod_less_divisor [of 4096 "unat v + 4095"] by linarith+
qed

lemma page_range_facts:
  assumes "load_segment_page_range segment = Some (a, b)"
  shows "unat a mod 4096 = 0" "unat b mod 4096 = 0" "unat a \<le> unat (virtual_address segment)"
    "unat (virtual_address segment) + unat (memory_size segment) \<le> unat b"
    "ADDRESS_SPACE_USER_BASE \<le> a" "b \<le> ADDRESS_SPACE_USER_LIMIT" "a < b"
proof -
  let ?v = "virtual_address segment" and ?m = "memory_size segment"
  have g: "?v < ADDRESS_SPACE_USER_LIMIT" "?m \<le> ADDRESS_SPACE_USER_LIMIT - ?v" and a: "a = page_of ?v"
    and up: "page_up (?v + ?m) = Some b"
    and r: "ADDRESS_SPACE_USER_BASE \<le> a" "b \<le> ADDRESS_SPACE_USER_LIMIT" "a < b"
    using assms by (auto simp: load_segment_page_range_def Let_def page_down_page_of not_less not_le split: if_split_asm option.split_asm)
  show "ADDRESS_SPACE_USER_BASE \<le> a" "b \<le> ADDRESS_SPACE_USER_LIMIT" "a < b" using r .
  show "unat a mod 4096 = 0" "unat a \<le> unat ?v" using page_of_facts(1) [of ?v] a by (simp_all add: minus_mod_eq_mult_div)
  have "unat (ADDRESS_SPACE_USER_LIMIT - ?v) = unat ADDRESS_SPACE_USER_LIMIT - unat ?v" using g(1) by (subst unat_sub) auto
  then have "unat ?v + unat ?m \<le> unat ADDRESS_SPACE_USER_LIMIT"
    using g by (simp add: word_le_nat_alt word_less_nat_alt)
  then have "unat (?v + ?m) = unat ?v + unat ?m" by (simp add: unat_word_ariths)
  then show "unat ?v + unat ?m \<le> unat b" "unat b mod 4096 = 0" using page_up_facts [OF up] by simp_all
qed

lemma page_step:
  fixes a v b :: nat
  assumes "a mod 4096 = 0" "a \<le> v" "v < b"
  obtains i where "v - v mod 4096 = a + 4096 * i" "i < (b - a + 4095) div 4096"
proof -
  obtain q where q: "a = 4096 * q" using assms(1) by auto
  obtain r where r: "v = 4096 * q + r" using assms(2) q le_Suc_ex by blast
  have "v - v mod 4096 = 4096 * (v div 4096)" by (rule minus_mod_eq_mult_div)
  also have "v div 4096 = q + r div 4096" unfolding r by (rule div_mult_self4) simp
  finally have p: "v - v mod 4096 = a + 4096 * (r div 4096)" by (simp only: q distrib_left)
  have "r + 4096 \<le> b - a + 4095" using assms(3) unfolding q r by linarith
  from div_le_mono [OF this, of 4096] have "r div 4096 < (b - a + 4095) div 4096" by simp
  then show ?thesis using p that by blast
qed
lemma page_addresses_cover:
  fixes a b v :: u64
  assumes "unat a mod 4096 = 0" "a \<le> v" "v < b"
  shows "page_of v \<in> set (page_addresses a b)"
proof -
  have n: "unat a \<le> unat v" "unat v < unat b" using assms(2,3) by (simp_all add: word_le_nat_alt word_less_nat_alt)
  obtain i where i: "unat v - unat v mod 4096 = unat a + 4096 * i" "i < (unat b - unat a + 4095) div 4096"
    by (rule page_step [OF assms(1) n])
  have "page_of v = of_nat (unat a + 4096 * i)" by (metis i(1) page_of_facts(1) of_nat_unat ucast_id)
  also have "\<dots> = a + VM_PAGE_SIZE * of_nat i" by (simp only: of_nat_add of_nat_mult of_nat_unat ucast_id of_nat_numeral)
  finally have "page_of v = a + VM_PAGE_SIZE * of_nat i" .
  then show ?thesis using i(2) by (simp add: page_addresses_def)
qed

section \<open>The loop over the program headers\<close>

text \<open>The segments that are loaded, and the addresses of the pages of a segment.\<close>

definition loads_of :: "Elf64ProgramHeader option list \<Rightarrow> Elf64ProgramHeader list" where
  "loads_of phs = filter (\<lambda>seg. ph_type seg = ELF64_PT_LOAD \<and> memory_size seg \<noteq> 0) (List.map_filter id phs)"

definition seg_pages :: "Elf64ProgramHeader \<Rightarrow> u64 set" where
  "seg_pages seg = (case load_segment_page_range seg of None \<Rightarrow> {} | Some (a, b) \<Rightarrow> {a..<b})"

definition seg_file_backed :: "Elf64ProgramHeader \<Rightarrow> u64 \<Rightarrow> bool" where
  "seg_file_backed seg v \<longleftrightarrow>
     unat (virtual_address seg) \<le> unat v \<and> unat v < unat (virtual_address seg) + unat (file_size seg)"

definition segment_sound :: "Kernel \<Rightarrow> ptr \<Rightarrow> VfsNode \<Rightarrow> Elf64ProgramHeader \<Rightarrow> bool" where
  "segment_sound k space file seg \<longleftrightarrow>
     file_size seg \<le> memory_size seg \<and>
     unat (ph_offset seg) + unat (file_size seg) \<le> unat (vn_size file) \<and>
     \<not> (ph_flags seg AND ELF64_PF_W \<noteq> 0 \<and> ph_flags seg AND ELF64_PF_X \<noteq> 0) \<and>
     (\<forall>i<unat (memory_size seg). virtual_address seg + of_nat i \<in> seg_pages seg) \<and>
     seg_pages seg \<subseteq> {ADDRESS_SPACE_USER_BASE..<ADDRESS_SPACE_USER_LIMIT} \<and>
     seg_pages seg \<inter> {USER_STACK_INITIAL_BASE - VM_PAGE_SIZE..<USER_STACK_INITIAL_BASE + 2 * VM_PAGE_SIZE} = {} \<and>
     (\<forall>v\<in>seg_pages seg. address_space_query_page k space (page_of v) = None)"

definition ranges_apart :: "u64 \<times> u64 \<Rightarrow> u64 \<times> u64 \<Rightarrow> bool" where
  "ranges_apart r q \<longleftrightarrow> \<not> (fst q < snd r \<and> fst r < snd q)"

lemma loads_of_simps:
  "loads_of [] = []" "loads_of (None # phs) = loads_of phs"
  "loads_of (Some seg # phs) = (if ph_type seg = ELF64_PT_LOAD \<and> memory_size seg \<noteq> 0 then [seg] else []) @ loads_of phs"
  by (simp_all add: loads_of_def List.map_filter_def)

lemma validate_load_sound:
  assumes "validate_load k space file header seg scan = Some scan'" and fm: "file_size seg \<le> memory_size seg"
  obtains a b where "load_segment_page_range seg = Some (a, b)" "segment_sound k space file seg"
    "sc_loads scan' = sc_loads scan @ [(a, b)]" "\<And>r. r \<in> set (sc_loads scan) \<Longrightarrow> ranges_apart r (a, b)"
    "unat (sc_total_pages scan') * 4096 = unat (sc_total_pages scan) * 4096 + (unat b - unat a)" "unat (sc_total_pages scan') \<le> 64"
    "sc_entry_executable scan' \<Longrightarrow> sc_entry_executable scan \<or> (ph_flags seg AND ELF64_PF_X \<noteq> 0 \<and> seg_file_backed seg (eh_entry header))"
proof -
  obtain a b where r: "load_segment_page_range seg = Some (a, b)" and f: "segment_fields_valid file seg"
    and st: "\<not> user_stack_initial_reservation_conflicts a b"
    and ap: "\<forall>x \<in> set (sc_loads scan). \<not> (case x of (c, d) \<Rightarrow> a < d \<and> c < b)"
    and pg: "(b - a) div VM_PAGE_SIZE \<le> 64" "sc_total_pages scan \<le> 64 - ucast ((b - a) div VM_PAGE_SIZE)"
    and un: "\<forall>address \<in> set (page_addresses a b). \<forall>f fl. address_space_query_page k space address \<noteq> Some (f, fl)"
    and s: "scan' = \<lparr>sc_loads = sc_loads scan @ [(a, b)], sc_total_pages = sc_total_pages scan + ucast ((b - a) div VM_PAGE_SIZE),
        sc_entry_executable = (sc_entry_executable scan \<or> ph_flags seg AND ELF64_PF_X \<noteq> 0 \<and> file_size seg \<noteq> 0 \<and>
          eh_entry header \<ge> virtual_address seg \<and> eh_entry header < virtual_address seg + file_size seg)\<rparr>"
    using assms(1) by (auto simp: validate_load_def Let_def not_less not_le split del: if_split prod.split split: if_split_asm option.split_asm)
  note p = page_range_facts [OF r]
  have ub: "unat b < 2 ^ 64" by (rule order.strict_trans2 [OF unsigned_less]) simp
  have sp: "seg_pages seg = {a..<b}" by (simp add: seg_pages_def r)
  have ba: "unat (b - a) = unat b - unat a" using p(7) by (simp add: unat_sub)
  have "4096 dvd unat b - unat a" using p(1,2) by (intro dvd_diff_nat) (simp_all add: dvd_eq_mod_eq_0)
  then obtain q where q: "unat b - unat a = 4096 * q" ..
  have n: "unat ((b - a) div VM_PAGE_SIZE) = q" by (simp add: unat_div ba q)
  have q64: "q \<le> 64" using pg(1) by (simp add: word_le_nat_alt n)
  have uc: "unat (ucast ((b - a) div VM_PAGE_SIZE) :: u32) = q" using q64 n by (simp add: unsigned_ucast_eq take_bit_eq_mod unat_mod)
  have "unat (64 - ucast ((b - a) div VM_PAGE_SIZE) :: u32) = 64 - q" using q64 uc by (simp add: unat_sub word_le_nat_alt)
  then have tl: "unat (sc_total_pages scan) + q \<le> 64" using pg(2) q64 by (simp add: word_le_nat_alt)
  then have tot: "unat (sc_total_pages scan + ucast ((b - a) div VM_PAGE_SIZE)) = unat (sc_total_pages scan) + q"
    by (simp add: unat_word_ariths uc)
  have bytes: "virtual_address seg + of_nat i \<in> seg_pages seg" if "i < unat (memory_size seg)" for i
  proof -
    have "unat (virtual_address seg) + i < 2 ^ 64" using p(4) that ub by linarith
    then have "unat (virtual_address seg + of_nat i) = unat (virtual_address seg) + i" by (simp add: unat_word_ariths unat_of_nat)
    then show ?thesis using p(3,4) that by (simp add: sp word_le_nat_alt word_less_nat_alt)
  qed
  have "segment_sound k space file seg"
    unfolding segment_sound_def
  proof (intro conjI)
    show "unat (ph_offset seg) + unat (file_size seg) \<le> unat (vn_size file)"
      "\<not> (ph_flags seg AND ELF64_PF_W \<noteq> 0 \<and> ph_flags seg AND ELF64_PF_X \<noteq> 0)"
      using f by (auto simp: segment_fields_valid_def word_le_nat_alt word_less_nat_alt unat_sub not_less split: if_split_asm)
    show "seg_pages seg \<subseteq> {ADDRESS_SPACE_USER_BASE..<ADDRESS_SPACE_USER_LIMIT}" unfolding sp using p(5,6) by auto
    show "seg_pages seg \<inter> {USER_STACK_INITIAL_BASE - VM_PAGE_SIZE..<USER_STACK_INITIAL_BASE + 2 * VM_PAGE_SIZE} = {}"
      using st unfolding sp user_stack_initial_reservation_conflicts_def by (auto simp: Let_def not_less split: if_split_asm)
    show "\<forall>v\<in>seg_pages seg. address_space_query_page k space (page_of v) = None"
    proof
      fix v assume "v \<in> seg_pages seg"
      then have "page_of v \<in> set (page_addresses a b)" using page_addresses_cover [OF p(1), of v b] by (simp add: sp)
      then have "address_space_query_page k space (page_of v) \<noteq> Some (f, fl)" for f fl using un by blast
      then show "address_space_query_page k space (page_of v) = None" by (cases "address_space_query_page k space (page_of v)") auto
    qed
  qed (use fm bytes in simp_all)
  have e: "seg_file_backed seg (eh_entry header)"
    if "virtual_address seg \<le> eh_entry header" "eh_entry header < virtual_address seg + file_size seg"
  proof -
    have "unat (virtual_address seg) + unat (file_size seg) \<le> unat b" using p(4) fm by (simp add: word_le_nat_alt)
    then have "unat (virtual_address seg) + unat (file_size seg) < 2 ^ 64" using ub by linarith
    then have "unat (virtual_address seg + file_size seg) = unat (virtual_address seg) + unat (file_size seg)"
      by (simp add: unat_word_ariths)
    then show ?thesis using that by (simp add: seg_file_backed_def word_le_nat_alt word_less_nat_alt)
  qed
  show ?thesis
  proof (rule that [OF r])
    show "ranges_apart c (a, b)" if "c \<in> set (sc_loads scan)" for c using ap that by (auto simp: ranges_apart_def)
    show "sc_entry_executable scan \<or> (ph_flags seg AND ELF64_PF_X \<noteq> 0 \<and> seg_file_backed seg (eh_entry header))"
      if "sc_entry_executable scan'" using that e by (auto simp: s)
  qed (use \<open>segment_sound k space file seg\<close> tot tl q in \<open>simp_all add: s\<close>)
qed

lemma seg_pages_card:
  assumes "load_segment_page_range seg = Some (a, b)"
  shows "card (seg_pages seg) = unat b - unat a"
proof -
  have "unat ` {a..<b} = {unat a..<unat b}"
  proof (intro equalityI subsetI)
    fix n assume n: "n \<in> {unat a..<unat b}"
    have "unat b < 2 ^ 64" by (rule order.strict_trans2 [OF unsigned_less]) simp
    then have "n < 2 ^ 64" using n less_trans [of n "unat b"] by (simp only: atLeastLessThan_iff)
    then have "unat (of_nat n :: u64) = n" by (simp add: unat_of_nat)
    then show "n \<in> unat ` {a..<b}" using n by (intro image_eqI [of _ unat "of_nat n"]) (simp_all add: word_le_nat_alt word_less_nat_alt)
  qed (auto simp: word_le_nat_alt word_less_nat_alt)
  moreover have "inj_on unat {a..<b}" by (intro inj_onI) (simp add: word_unat_eq_iff)
  ultimately show ?thesis using card_image [of unat "{a..<b}"] by (simp add: seg_pages_def assms)
qed

text \<open>The state of the loop against the segments it has seen.\<close>

definition scan_of :: "Elf64Header \<Rightarrow> Elf64ProgramHeader list \<Rightarrow> SegmentScan \<Rightarrow> bool" where
  "scan_of header segs scan \<longleftrightarrow>
     map Some (sc_loads scan) = map load_segment_page_range segs \<and>
     sorted_wrt ranges_apart (sc_loads scan) \<and>
     unat (sc_total_pages scan) * 4096 = (\<Sum>seg\<leftarrow>segs. card (seg_pages seg)) \<and>
     unat (sc_total_pages scan) \<le> 64 \<and>
     (sc_entry_executable scan \<longrightarrow> (\<exists>seg\<in>set segs. ph_flags seg AND ELF64_PF_X \<noteq> 0 \<and> seg_file_backed seg (eh_entry header)))"

lemma validate_segment_sound:
  assumes "validate_segment k space file header ph scan = Some scan'" "scan_of header segs scan"
  shows "ph \<noteq> None" "scan_of header (segs @ loads_of [ph]) scan'" "\<forall>seg\<in>set (loads_of [ph]). segment_sound k space file seg"
proof -
  from assms(1) obtain seg where ph: "ph = Some seg" by (cases ph) (auto simp: validate_segment_def)
  then show "ph \<noteq> None" by simp
  have "scan_of header (segs @ loads_of [ph]) scan' \<and> (\<forall>seg\<in>set (loads_of [ph]). segment_sound k space file seg)"
  proof (cases "ph_type seg = ELF64_PT_LOAD \<and> memory_size seg \<noteq> 0")
    case True
    then have l: "loads_of [ph] = [seg]" by (simp add: ph loads_of_simps)
    have v: "validate_load k space file header seg scan = Some scan'" "file_size seg \<le> memory_size seg"
      using assms(1) True by (auto simp: validate_segment_def ph not_less split: if_split_asm)
    obtain a b where s: "load_segment_page_range seg = Some (a, b)" "segment_sound k space file seg"
      "sc_loads scan' = sc_loads scan @ [(a, b)]" "\<And>r. r \<in> set (sc_loads scan) \<Longrightarrow> ranges_apart r (a, b)"
      "unat (sc_total_pages scan') * 4096 = unat (sc_total_pages scan) * 4096 + (unat b - unat a)" "unat (sc_total_pages scan') \<le> 64"
      "sc_entry_executable scan' \<Longrightarrow> sc_entry_executable scan \<or> (ph_flags seg AND ELF64_PF_X \<noteq> 0 \<and> seg_file_backed seg (eh_entry header))"
      using validate_load_sound [OF v] by blast
    show ?thesis
      unfolding l scan_of_def
      using assms(2) s seg_pages_card [OF s(1)] by (auto simp: scan_of_def sorted_wrt_append)
  next
    case False
    then show ?thesis using assms by (auto simp: validate_segment_def ph loads_of_simps split: if_split_asm)
  qed
  then show "scan_of header (segs @ loads_of [ph]) scan'" "\<forall>seg\<in>set (loads_of [ph]). segment_sound k space file seg" by simp_all
qed

lemma validate_loop_sound:
  assumes "validate_loop k space file header phs scan = Some scan'" "scan_of header segs scan"
  shows "None \<notin> set phs \<and> scan_of header (segs @ loads_of phs) scan' \<and> (\<forall>seg\<in>set (loads_of phs). segment_sound k space file seg)"
  using assms
proof (induction phs arbitrary: scan segs)
  case (Cons ph phs)
  then obtain s where v: "validate_segment k space file header ph scan = Some s" "validate_loop k space file header phs s = Some scan'"
    by (auto split: option.split_asm)
  have "loads_of (ph # phs) = loads_of [ph] @ loads_of phs" by (cases ph) (simp_all add: loads_of_simps)
  then show ?case
    using validate_segment_sound [OF v(1) Cons.prems(2)] Cons.IH [OF v(2), of "segs @ loads_of [ph]"] by auto
qed (simp add: loads_of_simps)

text \<open>C37. What \<open>validate_segments\<close> accepts is safe to load. Every loadable segment lies in the file,
  is not both writable and executable, and covers whole pages inside the user range that avoid the
  initial stack with its guards and are not mapped yet; the pages of different segments are
  disjoint; the number returned is the number of pages of all segments, between 1 and 64; and
  the entry point lies in bytes of the file that an executable segment loads.
\<close>

theorem validate_segments_sound:
  assumes "validate_segments k mem space file header = Some n"
  shows "None \<notin> set (program_headers mem file header) \<and>
     (\<forall>seg\<in>set (loads_of (program_headers mem file header)). segment_sound k space file seg) \<and>
     sorted_wrt (\<lambda>s t. seg_pages s \<inter> seg_pages t = {}) (loads_of (program_headers mem file header)) \<and>
     unat n * 4096 = (\<Sum>seg\<leftarrow>loads_of (program_headers mem file header). card (seg_pages seg)) \<and> 1 \<le> unat n \<and> unat n \<le> 64 \<and>
     (\<exists>seg\<in>set (loads_of (program_headers mem file header)). ph_flags seg AND ELF64_PF_X \<noteq> 0 \<and> seg_file_backed seg (eh_entry header))"
proof -
  let ?phs = "program_headers mem file header"
  obtain scan where v: "validate_loop k space file header ?phs \<lparr>sc_loads = [], sc_total_pages = 0, sc_entry_executable = False\<rparr> = Some scan"
    and s: "n = sc_total_pages scan" "sc_total_pages scan \<noteq> 0" "sc_entry_executable scan"
    using assms by (auto simp: validate_segments_def split: if_split_asm option.split_asm)
  have "scan_of header [] \<lparr>sc_loads = [], sc_total_pages = 0, sc_entry_executable = False\<rparr>" by (simp add: scan_of_def)
  from validate_loop_sound [OF v this]
  have l: "None \<notin> set ?phs" "scan_of header (loads_of ?phs) scan" "\<forall>seg\<in>set (loads_of ?phs). segment_sound k space file seg" by simp_all
  have m: "map load_segment_page_range (loads_of ?phs) = map Some (sc_loads scan)" and w: "sorted_wrt ranges_apart (sc_loads scan)"
    using l(2) by (simp_all add: scan_of_def)
  have "seg_pages (loads_of ?phs ! i) \<inter> seg_pages (loads_of ?phs ! j) = {}" if ij: "i < j" "j < length (loads_of ?phs)" for i j
  proof -
    have len: "length (sc_loads scan) = length (loads_of ?phs)" using map_eq_imp_length_eq [OF m] by simp
    have r: "load_segment_page_range (loads_of ?phs ! n) = Some (sc_loads scan ! n)" if "n < length (loads_of ?phs)" for n
      using arg_cong [OF m, of "\<lambda>xs. xs ! n"] that len by simp
    have "ranges_apart (sc_loads scan ! i) (sc_loads scan ! j)" using sorted_wrt_nth_less [OF w] ij len by simp
    then show ?thesis using r [of i] r [of j] ij
      by (cases "sc_loads scan ! i", cases "sc_loads scan ! j") (auto simp: seg_pages_def ranges_apart_def)
  qed
  moreover have "1 \<le> unat n" using s(1,2) by (metis One_nat_def Suc_leI unat_gt_0)
  ultimately show ?thesis using l s by (auto simp: scan_of_def sorted_wrt_iff_nth_less)
qed

text \<open>A file with one executable segment of 120 bytes at \<open>0x8000002000\<close>.\<close>

definition demo_elf :: memory where
  "demo_elf = (\<lambda>_. 0)(0x10040 := 1, 0x10044 := 5, 0x10051 := 0x20, 0x10054 := 0x80, 0x10060 := 120, 0x10068 := 120)"

definition demo_elf_header :: Elf64Header where
  "demo_elf_header =
     \<lparr>eh_ident = [], eh_type = 2, eh_machine = 62, eh_version = 1, eh_entry = 0x8000002004, program_header_offset = 64,
      section_header_offset = 0, eh_flags = 0, header_size = 64, program_header_size = 56, program_header_count = 1,
      section_header_size = 0, section_header_count = 0, section_name_index = 0\<rparr>"

definition demo_elf_file :: VfsNode where
  "demo_elf_file =
     \<lparr>vn_name = [], vn_type = VFS_FILE, vn_data = 0x10000, vn_size = 120, vn_parent = None, vn_first_child = None,
      vn_next_sibling = None\<rparr>"

lemma demo_elf_headers:
  "program_headers demo_elf demo_elf_file demo_elf_header =
     [Some \<lparr>ph_type = 1, ph_flags = 5, ph_offset = 0, virtual_address = 0x8000002000, physical_address = 0,
        file_size = 120, memory_size = 120, alignment = 0\<rparr>]"
  by (simp add: program_headers_def program_header_def program_header_at_def demo_elf_file_def demo_elf_header_def mem_word_def
    demo_elf_def upt_rec)

theorem validate_segments_sound_witness:
  "validate_segments space_kernel demo_elf 0xFF8 demo_elf_file demo_elf_header = Some 1 \<and>
   1 * 4096 = (\<Sum>seg\<leftarrow>loads_of (program_headers demo_elf demo_elf_file demo_elf_header). card (seg_pages seg))"
proof -
  have q: "address_space_query_page space_kernel 0xFF8 0x8000002000 = None"
    using user_space_page(1) [OF space_kernel_ok(1), of "0xFF8" "0x8000002000"] demo_view_all [of "0x8000002000"] space_kernel_ok(2) [of "0xFF8"]
    by (simp add: user_virtual_address_def page_aligned_def space_page_map_addr_def) (simp add: space_kernel_def zero_space_def)
  have r: "load_segment_page_range \<lparr>ph_type = 1, ph_flags = 5, ph_offset = 0, virtual_address = 0x8000002000, physical_address = 0,
        file_size = 120, memory_size = 120, alignment = 0\<rparr> = Some (0x8000002000, 0x8000003000)"
    by (simp add: load_segment_page_range_def page_down_def page_up_def Let_def)
  have a: "page_addresses 0x8000002000 0x8000003000 = [0x8000002000]" by (simp add: page_addresses_def)
  have v: "validate_segments space_kernel demo_elf 0xFF8 demo_elf_file demo_elf_header = Some 1"
    unfolding validate_segments_def demo_elf_headers
    by (simp add: validate_segment_def validate_load_def r a q segment_fields_valid_def
      user_stack_initial_reservation_conflicts_def has_def demo_elf_file_def demo_elf_header_def)
  show ?thesis using validate_segments_sound [OF v] v by simp
qed

end
