(* ===== verification/Spec2Isabelle.thy ===== *)
theory Spec2Isabelle
  imports PMM_Init Capability_Laws Scheduler_Properties Thread_Wait_History Address_Space_Properties TAR_Properties
    User_ELF_Properties
begin

text \<open>
  Verification of the JCOS kernel.
\<close>

end
